(* ===== verification/Prelude.thy ===== *)
theory Prelude
  imports Complex_Main "HOL-Library.Word"
begin

text \<open>
  Shared vocabulary of the development: the machine integers of the firmware, the little-endian
  packing of them into bytes, byte-addressed memories, and the generic facts on words, lists and
  ring indices that the component theories use.
\<close>

unbundle bit_operations_syntax

section \<open>Machine integers\<close>

type_synonym u8 = "8 word"
type_synonym u16 = "16 word"
type_synonym u32 = "32 word"

named_theorems le_simps \<open>packing and unpacking of little-endian integers\<close>
named_theorems frame_simps \<open>what an operation leaves unchanged\<close>

text \<open>The status of a call into the vendor's hardware layer (\<open>HAL_StatusTypeDef\<close>).\<close>

datatype hal_status = HAL_OK | HAL_ERROR | HAL_BUSY | HAL_TIMEOUT

fun hal_code :: "hal_status \<Rightarrow> u32" where
  "hal_code HAL_OK = 0"
| "hal_code HAL_ERROR = 1"
| "hal_code HAL_BUSY = 2"
| "hal_code HAL_TIMEOUT = 3"

section \<open>Little-endian packing\<close>

text \<open>The bytes of an integer as the processor stores them, least significant byte first.\<close>

definition le16 :: "u16 \<Rightarrow> u8 list" where
  "le16 v = [ucast v, ucast (drop_bit 8 v)]"

definition le32 :: "u32 \<Rightarrow> u8 list" where
  "le32 v = [ucast v, ucast (drop_bit 8 v), ucast (drop_bit 16 v), ucast (drop_bit 24 v)]"

definition un16 :: "u8 \<Rightarrow> u8 \<Rightarrow> u16" where
  "un16 a b = ucast a OR push_bit 8 (ucast b)"

definition un32 :: "u8 \<Rightarrow> u8 \<Rightarrow> u8 \<Rightarrow> u8 \<Rightarrow> u32" where
  "un32 a b c d = ucast a OR push_bit 8 (ucast b) OR push_bit 16 (ucast c) OR push_bit 24 (ucast d)"

text \<open>Reading an integer out of a byte buffer at an offset.\<close>

definition rd16 :: "u8 list \<Rightarrow> nat \<Rightarrow> u16" where
  "rd16 xs i = un16 (xs ! i) (xs ! (i + 1))"

definition rd32 :: "u8 list \<Rightarrow> nat \<Rightarrow> u32" where
  "rd32 xs i = un32 (xs ! i) (xs ! (i + 1)) (xs ! (i + 2)) (xs ! (i + 3))"

lemma length_le [simp, le_simps]: "length (le16 v) = 2" "length (le32 w) = 4"
  by (simp_all add: le16_def le32_def)

lemma un16_le16 [simp, le_simps]: "un16 (ucast v) (ucast (drop_bit 8 v)) = v"
  unfolding un16_def by (rule bit_word_eqI) (auto simp: bit_simps)

lemma un32_le32 [simp, le_simps]:
  "un32 (ucast v) (ucast (drop_bit 8 v)) (ucast (drop_bit 16 v)) (ucast (drop_bit 24 v)) = v"
proof (rule bit_word_eqI)
  fix n assume "n < LENGTH(32)"
  then consider "n < 8" | "8 \<le> n" "n < 16" | "16 \<le> n" "n < 24" | "24 \<le> n" "n < 32"
    by fastforce
  then show "bit (un32 (ucast v) (ucast (drop_bit 8 v)) (ucast (drop_bit 16 v))
      (ucast (drop_bit 24 v))) n = bit v n"
    by cases (auto simp: un32_def bit_simps)
qed

lemma bit_u8_ge [simp]: "8 \<le> n \<Longrightarrow> \<not> bit (x :: u8) n"
  using bit_imp_le_length [of x n] by auto

lemma bit_u8_lt: "bit (x :: u8) n \<Longrightarrow> n < 8"
  using bit_imp_le_length [of x n] by simp

lemma le16_un16 [simp, le_simps]: "ucast (un16 a b) = a" "ucast (drop_bit 8 (un16 a b)) = b"
  by (rule bit_word_eqI; simp add: un16_def bit_simps)+

lemma le32_un32 [simp, le_simps]:
  "ucast (un32 a b c d) = a" "ucast (drop_bit 8 (un32 a b c d)) = b"
  "ucast (drop_bit 16 (un32 a b c d)) = c" "ucast (drop_bit 24 (un32 a b c d)) = d"
  by (rule bit_word_eqI; simp add: un32_def bit_simps)+

lemma le16_inject [simp]: "le16 v = le16 w \<longleftrightarrow> v = w"
proof
  assume "le16 v = le16 w"
  then have "un16 (le16 v ! 0) (le16 v ! 1) = un16 (le16 w ! 0) (le16 w ! 1)" by simp
  then show "v = w" by (simp add: le16_def)
qed simp

lemma le32_inject [simp]: "le32 v = le32 w \<longleftrightarrow> v = w"
proof
  assume "le32 v = le32 w"
  then have "rd32 (le32 v) 0 = rd32 (le32 w) 0" by simp
  then show "v = w" by (simp add: le32_def rd32_def)
qed simp

section \<open>Byte memories\<close>

type_synonym mem = "u32 \<Rightarrow> u8"

definition rdn :: "mem \<Rightarrow> u32 \<Rightarrow> nat \<Rightarrow> u8 list" where
  "rdn m a n = map (\<lambda>i. m (a + of_nat i)) [0..<n]"

definition rdmem32 :: "mem \<Rightarrow> u32 \<Rightarrow> u32" where
  "rdmem32 m a = un32 (m a) (m (a + 1)) (m (a + 2)) (m (a + 3))"

lemma length_rdn [simp]: "length (rdn m a n) = n"
  by (simp add: rdn_def)

lemma nth_rdn [simp]: "i < n \<Longrightarrow> rdn m a n ! i = m (a + of_nat i)"
  by (simp add: rdn_def)

lemma rdn_cong: "(\<And>i. i < n \<Longrightarrow> m (a + of_nat i) = m' (a + of_nat i)) \<Longrightarrow> rdn m a n = rdn m' a n"
  by (simp add: rdn_def)

lemma rdn_eq_iff: "rdn m a n = xs \<longleftrightarrow> length xs = n \<and> (\<forall>i < n. m (a + of_nat i) = xs ! i)"
  by (auto simp: list_eq_iff_nth_eq)

lemma rdn_0 [simp]: "rdn m a 0 = []"
  by (simp add: rdn_def)

lemma rdn_Suc: "rdn m a (Suc n) = m a # rdn m (a + 1) n"
  by (rule nth_equalityI) (auto simp: nth_Cons add.assoc split: nat.splits)

lemma rdn_add: "rdn m a (n + k) = rdn m a n @ rdn m (a + of_nat n) k"
  by (rule nth_equalityI) (auto simp: nth_append add.assoc simp flip: of_nat_add)

lemma rdn_split:
  assumes "rdn m a j = take j xs" "rdn m (a + of_nat j) (length (drop j xs)) = drop j xs" "j \<le> length xs"
  shows "rdn m a (length xs) = xs"
proof -
  have "rdn m a (j + (length xs - j)) = xs" using assms(1,2) by (simp only: rdn_add) simp
  then show ?thesis using assms(3) by simp
qed

section \<open>Words\<close>

lemma unat_of_nat_lt [simp]: "n < 2 ^ LENGTH('a) \<Longrightarrow> unat (of_nat n :: 'a::len word) = n"
  by (simp add: unat_of_nat take_bit_nat_eq_self)

lemma unat_bound: "unat (x :: u8) < 256" "unat (y :: u16) < 65536" "unat (z :: u32) < 4294967296"
  using unsigned_less [where ?'a = nat, of x] unsigned_less [where ?'a = nat, of y]
    unsigned_less [where ?'a = nat, of z] by simp_all

lemma unat_ucast_up [simp]:
  "unat (ucast (b :: u8) :: u16) = unat b" "unat (ucast (b :: u8) :: u32) = unat b"
  "unat (ucast (h :: u16) :: u32) = unat h"
  using unat_bound(1) [of b] unat_bound(2) [of h] by (simp_all add: unsigned_ucast_eq take_bit_nat_eq_self)

lemma of_nat_word_inj:
  "i < 2 ^ LENGTH('a) \<Longrightarrow> j < 2 ^ LENGTH('a) \<Longrightarrow>
   (of_nat i :: 'a::len word) = of_nat j \<longleftrightarrow> i = j"
  by (metis unat_of_nat_lt)

lemma word_half_eqI:
  fixes x y :: "'a::len word"
  assumes "drop_bit 1 x = drop_bit 1 y" and "odd x = odd y"
  shows "x = y"
proof -
  have "x div 2 = y div 2" and "x mod 2 = y mod 2"
    using assms by (simp_all add: drop_bit_eq_div mod2_eq_if)
  then show ?thesis by (metis div_mult_mod_eq)
qed

lemma word_xor_cancel [simp]:
  fixes a b c :: "'a::len word"
  shows "a XOR c = b XOR c \<longleftrightarrow> a = b" and "c XOR a = c XOR b \<longleftrightarrow> a = b"
  by (metis xor.assoc xor.commute xor_self_eq xor.right_neutral)+

lemma ucast_u8_up_down [simp]: "8 \<le> LENGTH('a) \<Longrightarrow> (ucast (ucast (b :: u8) :: 'a::len word) :: u8) = b"
  by (rule bit_word_eqI) (auto simp: bit_simps)

lemma ucast_u8_inject:
  "8 \<le> LENGTH('a) \<Longrightarrow> (ucast (a :: u8) :: 'a::len word) = ucast b \<longleftrightarrow> a = b"
  by (metis ucast_u8_up_down)

text \<open>Elapsed time on a free-running unsigned counter: the difference survives the wrap-around.\<close>

lemma wrap_elapsed [simp]: "(t + d) - t = (d :: 'a::len word)"
  by simp

section \<open>Address ranges\<close>

text \<open>The addresses of a range of \<open>n\<close> bytes from \<open>a\<close>; the subtraction makes it right for a range
  that wraps around the address space too.\<close>

definition in_range :: "u32 \<Rightarrow> nat \<Rightarrow> u32 \<Rightarrow> bool" where
  "in_range a n x \<longleftrightarrow> unat (x - a) < n"

lemma in_range_0 [simp]: "\<not> in_range a 0 x"
  by (simp add: in_range_def)

lemma in_range_Suc: "n < 2 ^ 32 \<Longrightarrow> in_range a (Suc n) x \<longleftrightarrow> x = a \<or> in_range (a + 1) n x"
proof (cases "x = a")
  case False
  then have nz: "x - a \<noteq> 0" by simp
  have "unat (x - (a + 1)) = unat (x - a) - 1"
    using unat_minus_one [OF nz] by (simp only: diff_diff_eq)
  moreover have "0 < unat (x - a)" using nz by (simp add: unat_gt_0)
  ultimately show ?thesis unfolding in_range_def using False by linarith
qed (simp add: in_range_def)

lemma in_range_iff: "n \<le> 2 ^ 32 \<Longrightarrow> in_range a n x \<longleftrightarrow> (\<exists>i < n. x = a + of_nat i)"
proof
  assume "in_range a n x"
  then show "\<exists>i < n. x = a + of_nat i"
    by (intro exI [of _ "unat (x - a)"]) (simp add: in_range_def)
qed (auto simp: in_range_def)

lemma in_range_add:
  "m + n \<le> 2 ^ 32 \<Longrightarrow> in_range a (m + n) x \<longleftrightarrow> in_range a m x \<or> in_range (a + of_nat m) n x"
proof (induction m arbitrary: a)
  case (Suc m)
  then show ?case using Suc.IH [of "a + 1"] by (simp add: in_range_Suc add.assoc)
qed simp

lemma in_range_disjoint:
  assumes "in_range (a + of_nat m) n x" "m + n \<le> 2 ^ 32"
  shows "\<not> in_range a m x"
proof -
  let ?y = "x - (a + of_nat m)"
  have y: "unat ?y < n" using assms(1) by (simp add: in_range_def)
  then have m: "unat (of_nat m :: u32) = m" using assms(2) by (intro unat_of_nat_lt) simp
  have "unat ?y + unat (of_nat m :: u32) < 2 ^ LENGTH(32)" using y m assms(2) by simp
  then have "unat (?y + of_nat m) = unat ?y + m" using m by (metis unat_add_lem)
  moreover have "?y + of_nat m = x - a" by simp
  ultimately show ?thesis by (simp only: in_range_def)
qed

lemma in_range_mono: "in_range a m x \<Longrightarrow> m \<le> n \<Longrightarrow> in_range a n x"
  by (simp add: in_range_def)

lemma in_range_nth: "i < n \<Longrightarrow> n \<le> 2 ^ 32 \<Longrightarrow> in_range a n (a + of_nat i)"
  by (auto simp: in_range_iff)

lemma rdn_unchanged:
  "n \<le> 2 ^ 32 \<Longrightarrow> (\<And>x. in_range a n x \<Longrightarrow> m' x = m x) \<Longrightarrow> rdn m' a n = rdn m a n"
  by (rule rdn_cong) (simp add: in_range_iff, blast)

section \<open>Lists\<close>

lemma list_all_nth_conv: "list_all P xs \<longleftrightarrow> (\<forall>i < length xs. P (xs ! i))"
  by (simp add: list_all_length)

lemma take_Suc_nth: "i < length xs \<Longrightarrow> take (Suc i) xs = take i xs @ [xs ! i]"
  by (rule take_Suc_conv_app_nth)

lemma replicate_eq_list_all: "xs = replicate (length xs) c \<longleftrightarrow> list_all (\<lambda>x. x = c) xs"
  by (induction xs) auto

end
