(* ===== verification/Ring.thy ===== *)
theory Ring
  imports Prelude
begin

text \<open>
  The byte rings of the firmware: the receive ring of the bootloader UART (drops the oldest byte
  when full, \<open>bootloader_uart.c\<close>), the receive ring of the gateway UART (drops the newest,
  \<open>app_gateway.c\<close>) and the general ring of the drivers (refuses the byte, \<open>driver_buffer.c\<close>).
  Each is shown to be a first-in first-out queue of bytes; the locale \<open>byte_fifo\<close> is that
  contract, and its two extensions say what happens to a byte that finds the queue full.
\<close>

section \<open>Rings over an array\<close>

text \<open>The bytes between the read index \<open>t\<close> and the write index \<open>h\<close> of a ring of \<open>length buf\<close> cells.\<close>

definition ring_count :: "nat \<Rightarrow> nat \<Rightarrow> nat \<Rightarrow> nat" where
  "ring_count n h t = (h + n - t) mod n"

definition ring_items :: "'a list \<Rightarrow> nat \<Rightarrow> nat \<Rightarrow> 'a list" where
  "ring_items buf h t =
     map (\<lambda>i. buf ! ((t + i) mod length buf)) [0..<ring_count (length buf) h t]"

lemma ring_count_cases:
  "h < n \<Longrightarrow> t < n \<Longrightarrow> ring_count n h t = (if t \<le> h then h - t else h + n - t)"
  by (auto simp: ring_count_def mod_if)

lemma ring_next_cases: "i < n \<Longrightarrow> Suc i mod n = (if Suc i = n then 0 else Suc i)"
  by (auto simp: mod_if)

lemma ring_next_less [simp]: "i < n \<Longrightarrow> Suc i mod n < n"
  by (rule mod_less_divisor) auto

lemma ring_slot_cases: "t < n \<Longrightarrow> i < n \<Longrightarrow> (t + i) mod n = (if t + i < n then t + i else t + i - (n::nat))"
  by (simp add: le_mod_geq)

lemma ring_count_empty: "h < n \<Longrightarrow> t < n \<Longrightarrow> ring_count n h t = 0 \<longleftrightarrow> h = t"
  by (auto simp: ring_count_cases)

lemma ring_count_less: "h < n \<Longrightarrow> t < n \<Longrightarrow> ring_count n h t < n"
  by (auto simp: ring_count_cases)

lemma ring_count_push:
  assumes "h < n" "t < n" "Suc h mod n \<noteq> t"
  shows "ring_count n (Suc h mod n) t = Suc (ring_count n h t)"
proof -
  have "Suc h mod n < n" using assms(1) by simp
  then show ?thesis using assms
    by (auto simp: ring_count_cases ring_next_cases split: if_splits)
qed

lemma ring_count_pop:
  assumes "h < n" "t < n" "h \<noteq> t"
  shows "ring_count n h t = Suc (ring_count n h (Suc t mod n))"
proof -
  have "Suc t mod n < n" using assms(2) by simp
  then show ?thesis using assms
    by (auto simp: ring_count_cases ring_next_cases split: if_splits)
qed

lemma ring_full_iff:
  assumes "h < n" "t < n"
  shows "Suc h mod n = t \<longleftrightarrow> Suc (ring_count n h t) = n"
  using assms by (auto simp: ring_count_cases ring_next_cases split: if_splits)

lemma length_ring_items [simp]: "length (ring_items buf h t) = ring_count (length buf) h t"
  by (simp add: ring_items_def)

lemma nth_ring_items:
  "i < ring_count (length buf) h t \<Longrightarrow> ring_items buf h t ! i = buf ! ((t + i) mod length buf)"
  by (simp add: ring_items_def)

lemma ring_items_Nil: "h < length buf \<Longrightarrow> t < length buf \<Longrightarrow> ring_items buf h t = [] \<longleftrightarrow> h = t"
  by (simp add: ring_items_def ring_count_empty)

lemma ring_slot_at_count:
  assumes "h < n" "t < n"
  shows "(t + ring_count n h t) mod n = h"
  using assms by (auto simp: ring_count_cases)

lemma ring_slot_before:
  assumes "h < n" "t < n" "i < ring_count n h t"
  shows "(t + i) mod n \<noteq> h"
proof -
  have "i < n" using assms ring_count_less less_trans by blast
  then show ?thesis using assms by (auto simp: ring_count_cases ring_slot_cases split: if_splits)
qed

lemma ring_items_push:
  assumes "h < length buf" "t < length buf" "Suc h mod length buf \<noteq> t"
  shows "ring_items (buf[h := x]) (Suc h mod length buf) t = ring_items buf h t @ [x]"
proof -
  let ?n = "length buf" and ?k = "ring_count (length buf) h t"
  have "buf[h := x] ! ((t + i) mod ?n) = buf ! ((t + i) mod ?n)" if "i < ?k" for i
    using ring_slot_before [OF assms(1,2) that] by (metis nth_list_update_neq)
  moreover have "buf[h := x] ! ((t + ?k) mod ?n) = x"
    using assms by (simp add: ring_slot_at_count)
  ultimately show ?thesis
    using assms by (simp add: ring_items_def ring_count_push)
qed

lemma ring_items_pop:
  assumes "h < length buf" "t < length buf" "h \<noteq> t"
  shows "ring_items buf h t = buf ! t # ring_items buf h (Suc t mod length buf)"
proof (rule nth_equalityI)
  show "length (ring_items buf h t) = length (buf ! t # ring_items buf h (Suc t mod length buf))"
    using ring_count_pop [OF assms] by simp
  fix i assume "i < length (ring_items buf h t)"
  then show "ring_items buf h t ! i = (buf ! t # ring_items buf h (Suc t mod length buf)) ! i"
    using ring_count_pop [OF assms] assms
    by (cases i) (simp_all add: nth_ring_items mod_add_left_eq)
qed

lemma ring_items_drop_oldest:
  assumes "h < length buf" "t < length buf" "Suc h mod length buf = t" "2 < length buf"
  shows "ring_items (buf[h := x]) t (Suc t mod length buf) = tl (ring_items buf h t) @ [x]"
proof -
  let ?n = "length buf" and ?t = "Suc t mod length buf"
  have ht: "h \<noteq> t" and nt: "Suc h mod ?n \<noteq> ?t"
    using assms by (auto simp: ring_next_cases split: if_splits)
  have "ring_items (buf[h := x]) (Suc h mod ?n) ?t = ring_items buf h ?t @ [x]"
    using assms(1,2) nt by (intro ring_items_push) auto
  then show ?thesis
    using assms ring_items_pop [OF assms(1,2) ht] by simp
qed

section \<open>The queue contract\<close>

locale byte_fifo =
  fixes invar :: "'s \<Rightarrow> bool"
    and items :: "'s \<Rightarrow> u8 list"
    and cap :: "'s \<Rightarrow> nat"
    and push :: "u8 \<Rightarrow> 's \<Rightarrow> 's"
    and pop :: "'s \<Rightarrow> (u8 \<times> 's) option"
  assumes bounded: "invar s \<Longrightarrow> length (items s) \<le> cap s"
    and push_invar: "invar s \<Longrightarrow> invar (push x s)"
    and push_cap: "invar s \<Longrightarrow> cap (push x s) = cap s"
    and push_room: "invar s \<Longrightarrow> length (items s) < cap s \<Longrightarrow> items (push x s) = items s @ [x]"
    and pop_empty: "invar s \<Longrightarrow> items s = [] \<Longrightarrow> pop s = None"
    and pop_front: "invar s \<Longrightarrow> items s = x # xs \<Longrightarrow>
      \<exists>s'. pop s = Some (x, s') \<and> items s' = xs \<and> invar s' \<and> cap s' = cap s"
begin

fun pushes :: "u8 list \<Rightarrow> 's \<Rightarrow> 's" where
  "pushes [] s = s"
| "pushes (x # xs) s = pushes xs (push x s)"

fun pops :: "nat \<Rightarrow> 's \<Rightarrow> u8 list \<times> 's" where
  "pops 0 s = ([], s)"
| "pops (Suc n) s =
     (case pop s of None \<Rightarrow> ([], s) | Some (x, s') \<Rightarrow> let (xs, s'') = pops n s' in (x # xs, s''))"

lemma pushes_invar: "invar s \<Longrightarrow> invar (pushes xs s) \<and> cap (pushes xs s) = cap s"
  by (induction xs arbitrary: s) (auto simp: push_invar push_cap)

lemma pushes_room:
  "invar s \<Longrightarrow> length (items s) + length xs \<le> cap s \<Longrightarrow> items (pushes xs s) = items s @ xs"
  by (induction xs arbitrary: s) (auto simp: push_invar push_cap push_room)

lemma pops_all: "invar s \<Longrightarrow> length (items s) \<le> n \<Longrightarrow> fst (pops n s) = items s"
proof (induction n arbitrary: s)
  case (Suc n)
  show ?case
  proof (cases "items s")
    case Nil
    then show ?thesis using Suc.prems pop_empty by simp
  next
    case (Cons x xs)
    then obtain s' where "pop s = Some (x, s')" "items s' = xs" "invar s'"
      using pop_front Suc.prems by blast
    then show ?thesis using Suc.IH [of s'] Suc.prems Cons by (simp add: split_def Let_def)
  qed
qed simp

theorem fifo_delivery:
  assumes "invar s" "items s = []" "length xs \<le> cap s"
  shows "fst (pops (length xs) (pushes xs s)) = xs"
  using assms pops_all [of "pushes xs s" "length xs"] pushes_invar [of s xs] pushes_room [of s xs]
  by simp

lemma pop_Some_items: "invar s \<Longrightarrow> pop s = Some (x, s') \<Longrightarrow> items s = x # items s' \<and> invar s' \<and> cap s' = cap s"
  by (cases "items s") (auto dest: pop_empty pop_front)

end

locale fifo_drop_newest = byte_fifo +
  assumes push_full: "invar s \<Longrightarrow> length (items s) = cap s \<Longrightarrow> items (push x s) = items s"
begin

theorem pushes_keep_oldest:
  "invar s \<Longrightarrow> items (pushes xs s) = take (cap s) (items s @ xs)"
proof (induction xs arbitrary: s)
  case Nil
  then show ?case using bounded by simp
next
  case (Cons x xs)
  show ?case
  proof (cases "length (items s) < cap s")
    case True
    then show ?thesis using Cons by (simp add: push_room push_invar push_cap take_Cons')
  next
    case False
    then have "length (items s) = cap s" using bounded Cons.prems by fastforce
    then show ?thesis using Cons by (simp add: push_full push_invar push_cap)
  qed
qed

end

locale fifo_drop_oldest = byte_fifo +
  assumes push_full: "invar s \<Longrightarrow> length (items s) = cap s \<Longrightarrow> items (push x s) = tl (items s) @ [x]"
    and cap_pos: "invar s \<Longrightarrow> 0 < cap s"
begin

theorem pushes_keep_newest:
  "invar s \<Longrightarrow> items (pushes xs s) = drop (length (items s) + length xs - cap s) (items s @ xs)"
proof (induction xs arbitrary: s)
  case Nil
  then show ?case using bounded by simp
next
  case (Cons x xs)
  show ?case
  proof (cases "length (items s) < cap s")
    case True
    then show ?thesis using Cons by (simp add: push_room push_invar push_cap drop_Cons' Suc_diff_le)
  next
    case False
    then have full: "length (items s) = cap s" using bounded Cons.prems by fastforce
    then obtain y ys where ys: "items s = y # ys"
      using cap_pos [OF Cons.prems] by (cases "items s") auto
    then have c: "cap s = Suc (length ys)" using full by simp
    have "items (pushes xs (push x s)) = drop (length xs) (ys @ x # xs)"
      using Cons.IH [of "push x s"] Cons.prems full ys c
      by (simp add: push_full push_invar push_cap del: drop_append)
    then show ?thesis using c ys by (simp del: drop_append)
  qed
qed

end

end
