(* ===== verification/Boot_Uart.thy ===== *)
theory Boot_Uart
  imports Ring
begin

text \<open>
  The bootloader's UART receiver and transmitter (\<open>bootloader/bootloader_uart.c\<close>): a circular DMA
  buffer of 256 bytes that the controller fills, a ring of 512 bytes that the software fills from
  it, and a blocking read with a timeout. The DMA controller and the millisecond tick are the
  environment: bytes arrive through \<open>dma_receive\<close>, and a blocking read is given the arrivals and
  the tick value of each pass of its loop.
\<close>

section \<open>State\<close>

record bl_uart =
  bl_last_tx_hal_status :: u32
  bl_last_tx_req_len :: u32
  bl_rx_dma_buf :: "u8 list"
  bl_rx_ring :: "u8 list"
  bl_rx_head :: nat
  bl_rx_tail :: nat
  bl_rx_dma_last_pos :: nat
  bl_dma_wpos :: nat  \<comment> \<open>where the controller writes next: 256 minus its remaining-data counter\<close>

definition BL_UART_RX_DMA_BUF_SIZE :: nat where "BL_UART_RX_DMA_BUF_SIZE = 256"
definition BL_UART_RX_RING_SIZE :: nat where "BL_UART_RX_RING_SIZE = 512"
definition HAL_MAX_DELAY :: u32 where "HAL_MAX_DELAY = 0xFFFFFFFF"

lemmas bl_uart_sizes [simp] = BL_UART_RX_DMA_BUF_SIZE_def BL_UART_RX_RING_SIZE_def

section \<open>Operations\<close>

definition bl_uart_rx_ring_push :: "u8 \<Rightarrow> bl_uart \<Rightarrow> bl_uart" where
  "bl_uart_rx_ring_push byte s =
     (let nxt = (bl_rx_head s + 1) mod BL_UART_RX_RING_SIZE;
          s1 = (if nxt = bl_rx_tail s
                then s\<lparr>bl_rx_tail := (bl_rx_tail s + 1) mod BL_UART_RX_RING_SIZE\<rparr> else s)
      in s1\<lparr>bl_rx_ring := (bl_rx_ring s1)[bl_rx_head s1 := byte], bl_rx_head := nxt\<rparr>)"

definition bl_uart_rx_ring_pop :: "bl_uart \<Rightarrow> (u8 \<times> bl_uart) option" where
  "bl_uart_rx_ring_pop s =
     (if bl_rx_head s = bl_rx_tail s then None
      else Some (bl_rx_ring s ! bl_rx_tail s,
                 s\<lparr>bl_rx_tail := (bl_rx_tail s + 1) mod BL_UART_RX_RING_SIZE\<rparr>))"

text \<open>One pass of the copying loop, and the loop. A position that the running index never takes
  (256 itself) would keep it running, so the loop is a partial function.\<close>

definition bl_uart_dma_consume_step :: "bl_uart \<Rightarrow> bl_uart" where
  "bl_uart_dma_consume_step s =
     (let s1 = bl_uart_rx_ring_push (bl_rx_dma_buf s ! bl_rx_dma_last_pos s) s;
          p = bl_rx_dma_last_pos s1 + 1
      in s1\<lparr>bl_rx_dma_last_pos := (if p \<ge> BL_UART_RX_DMA_BUF_SIZE then 0 else p)\<rparr>)"

partial_function (option) bl_uart_dma_consume_loop :: "nat \<Rightarrow> bl_uart \<Rightarrow> bl_uart option" where
  "bl_uart_dma_consume_loop pos s =
     (if bl_rx_dma_last_pos s = pos then Some s
      else bl_uart_dma_consume_loop pos (bl_uart_dma_consume_step s))"

definition bl_uart_dma_consume_to :: "nat \<Rightarrow> bl_uart \<Rightarrow> bl_uart option" where
  "bl_uart_dma_consume_to pos s =
     bl_uart_dma_consume_loop (if pos > BL_UART_RX_DMA_BUF_SIZE then BL_UART_RX_DMA_BUF_SIZE else pos) s"

definition bl_uart_dma_sync :: "bl_uart \<Rightarrow> bl_uart option" where
  "bl_uart_dma_sync s =
     (let pos = bl_dma_wpos s;
          pos1 = (if pos \<ge> BL_UART_RX_DMA_BUF_SIZE then 0 else pos)
      in bl_uart_dma_consume_to pos1 s)"

definition bl_uart_dma_start :: "bl_uart \<Rightarrow> bl_uart" where
  "bl_uart_dma_start s =
     s\<lparr>bl_rx_head := 0, bl_rx_tail := 0, bl_rx_dma_last_pos := 0, bl_dma_wpos := 0\<rparr>"

text \<open>The DMA controller in circular mode: each received byte goes to the write position.\<close>

definition dma_receive1 :: "u8 \<Rightarrow> bl_uart \<Rightarrow> bl_uart" where
  "dma_receive1 b s =
     s\<lparr>bl_rx_dma_buf := (bl_rx_dma_buf s)[bl_dma_wpos s := b],
       bl_dma_wpos := (bl_dma_wpos s + 1) mod BL_UART_RX_DMA_BUF_SIZE\<rparr>"

fun dma_receive :: "u8 list \<Rightarrow> bl_uart \<Rightarrow> bl_uart" where
  "dma_receive [] s = s"
| "dma_receive (b # bs) s = dma_receive bs (dma_receive1 b s)"

text \<open>
  \<open>bl_uart_read_byte\<close>: each element of the schedule is one pass of its loop, with the bytes that
  arrived before the pass and the tick the pass reads. The result says whether a byte was read;
  \<open>None\<close> is a call that is still waiting at the end of the schedule.
\<close>

fun bl_uart_read_loop ::
  "u32 \<Rightarrow> u32 \<Rightarrow> (u8 list \<times> u32) list \<Rightarrow> bl_uart \<Rightarrow> (u8 option \<times> bl_uart) option" where
  "bl_uart_read_loop start timeout_ms [] s = None"
| "bl_uart_read_loop start timeout_ms ((arrived, now) # rest) s =
     (case bl_uart_dma_sync (dma_receive arrived s) of
        None \<Rightarrow> None
      | Some s1 \<Rightarrow>
         (case bl_uart_rx_ring_pop s1 of
            Some (b, s2) \<Rightarrow> Some (Some b, s2)
          | None \<Rightarrow>
             if timeout_ms \<noteq> HAL_MAX_DELAY \<and> now - start \<ge> timeout_ms then Some (None, s1)
             else bl_uart_read_loop start timeout_ms rest s1))"

definition bl_uart_read_byte ::
  "u32 \<Rightarrow> u32 \<Rightarrow> (u8 list \<times> u32) list \<Rightarrow> bl_uart \<Rightarrow> (u8 option \<times> bl_uart) option" where
  "bl_uart_read_byte start timeout_ms sched s = bl_uart_read_loop start timeout_ms sched s"

text \<open>
  \<open>bl_uart_write_bytes\<close>: what the HAL transmit call returns and whether the transmission-complete
  flag is seen within 500 ms come from the environment.
\<close>

definition bl_uart_write_bytes :: "u8 list \<Rightarrow> hal_status \<Rightarrow> bool \<Rightarrow> bl_uart \<Rightarrow> bool \<times> bl_uart" where
  "bl_uart_write_bytes data st tc_seen s =
     (if data = [] then (False, s\<lparr>bl_last_tx_req_len := 0, bl_last_tx_hal_status := hal_code HAL_ERROR\<rparr>)
      else
        let s1 = s\<lparr>bl_last_tx_req_len := of_nat (length data)\<rparr>;
            st1 = (if st = HAL_OK then if tc_seen then HAL_OK else HAL_TIMEOUT else st)
        in (st1 = HAL_OK, s1\<lparr>bl_last_tx_hal_status := hal_code st1\<rparr>))"

definition bl_uart_last_tx_hal_status :: "bl_uart \<Rightarrow> u32" where
  "bl_uart_last_tx_hal_status s = bl_last_tx_hal_status s"

text \<open>The three interrupt entry points.\<close>

definition bl_uart_irq_handler :: "bool \<Rightarrow> bl_uart \<Rightarrow> bl_uart option" where
  "bl_uart_irq_handler idle s = (if idle then bl_uart_dma_sync s else Some s)"

definition bl_uart_dma_irq_handler :: "bl_uart \<Rightarrow> bl_uart option" where
  "bl_uart_dma_irq_handler s = bl_uart_dma_sync s"

definition bl_uart_error_callback :: "bool \<Rightarrow> bl_uart \<Rightarrow> bl_uart" where
  "bl_uart_error_callback is_bl_uart s = (if is_bl_uart then bl_uart_dma_start s else s)"

section \<open>The receive ring is a queue that drops its oldest byte\<close>

definition bl_rx_inv :: "bl_uart \<Rightarrow> bool" where
  "bl_rx_inv s \<longleftrightarrow>
     length (bl_rx_ring s) = 512 \<and> bl_rx_head s < 512 \<and> bl_rx_tail s < 512 \<and>
     length (bl_rx_dma_buf s) = 256 \<and> bl_rx_dma_last_pos s < 256 \<and> bl_dma_wpos s < 256"

definition bl_rx_items :: "bl_uart \<Rightarrow> u8 list" where
  "bl_rx_items s = ring_items (bl_rx_ring s) (bl_rx_head s) (bl_rx_tail s)"

lemma bl_rx_full_iff:
  "bl_rx_inv s \<Longrightarrow> Suc (bl_rx_head s) mod 512 = bl_rx_tail s \<longleftrightarrow> length (bl_rx_items s) = 511"
  using ring_full_iff [of "bl_rx_head s" 512 "bl_rx_tail s"]
  by (auto simp: bl_rx_inv_def bl_rx_items_def)

lemma bl_rx_push_inv: "bl_rx_inv s \<Longrightarrow> bl_rx_inv (bl_uart_rx_ring_push b s)"
  by (auto simp: bl_rx_inv_def bl_uart_rx_ring_push_def Let_def)

lemma bl_rx_push_items:
  assumes "bl_rx_inv s"
  shows "bl_rx_items (bl_uart_rx_ring_push b s) =
    (if length (bl_rx_items s) = 511 then tl (bl_rx_items s) @ [b] else bl_rx_items s @ [b])"
proof (cases "Suc (bl_rx_head s) mod 512 = bl_rx_tail s")
  case True
  then show ?thesis
    using assms bl_rx_full_iff [OF assms]
      ring_items_drop_oldest [of "bl_rx_head s" "bl_rx_ring s" "bl_rx_tail s" b]
    by (simp add: bl_rx_inv_def bl_rx_items_def bl_uart_rx_ring_push_def Let_def)
next
  case False
  then show ?thesis
    using assms bl_rx_full_iff [OF assms]
      ring_items_push [of "bl_rx_head s" "bl_rx_ring s" "bl_rx_tail s" b]
    by (simp add: bl_rx_inv_def bl_rx_items_def bl_uart_rx_ring_push_def Let_def)
qed

lemma bl_rx_pop_spec:
  assumes "bl_rx_inv s" "bl_rx_items s = x # xs"
  shows "\<exists>s'. bl_uart_rx_ring_pop s = Some (x, s') \<and> bl_rx_items s' = xs \<and> bl_rx_inv s'"
proof -
  have ne: "bl_rx_head s \<noteq> bl_rx_tail s"
    using assms ring_items_Nil [of "bl_rx_head s" "bl_rx_ring s" "bl_rx_tail s"]
    by (auto simp: bl_rx_inv_def bl_rx_items_def)
  then show ?thesis
    using assms ring_items_pop [of "bl_rx_head s" "bl_rx_ring s" "bl_rx_tail s"]
    by (auto simp: bl_rx_inv_def bl_rx_items_def bl_uart_rx_ring_pop_def)
qed

lemma bl_rx_items_le: "bl_rx_inv s \<Longrightarrow> length (bl_rx_items s) \<le> 511"
  using ring_count_less [of "bl_rx_head s" 512 "bl_rx_tail s"]
  by (auto simp: bl_rx_inv_def bl_rx_items_def)

interpretation bl_rx: fifo_drop_oldest bl_rx_inv bl_rx_items "\<lambda>_. 511" bl_uart_rx_ring_push bl_uart_rx_ring_pop
proof unfold_locales
  fix s assume "bl_rx_inv s" "bl_rx_items s = []"
  then show "bl_uart_rx_ring_pop s = None"
    by (auto simp: bl_rx_inv_def bl_rx_items_def bl_uart_rx_ring_pop_def ring_items_Nil)
qed (auto simp: bl_rx_items_le bl_rx_push_inv bl_rx_push_items dest: bl_rx_pop_spec)

section \<open>The path of a received byte\<close>

text \<open>The DMA buffer is a ring too: its unread bytes lie between the software's running index and the
  controller's write position.\<close>

definition bl_dma_items :: "bl_uart \<Rightarrow> u8 list" where
  "bl_dma_items s = ring_items (bl_rx_dma_buf s) (bl_dma_wpos s) (bl_rx_dma_last_pos s)"

lemma dma_receive1_inv: "bl_rx_inv s \<Longrightarrow> bl_rx_inv (dma_receive1 b s)"
  by (simp add: bl_rx_inv_def dma_receive1_def)

lemma dma_receive1_items:
  assumes "bl_rx_inv s" "length (bl_dma_items s) < 255"
  shows "bl_dma_items (dma_receive1 b s) = bl_dma_items s @ [b]"
  using assms ring_full_iff [of "bl_dma_wpos s" 256 "bl_rx_dma_last_pos s"]
    ring_items_push [of "bl_dma_wpos s" "bl_rx_dma_buf s" "bl_rx_dma_last_pos s" b]
  by (simp add: bl_rx_inv_def bl_dma_items_def dma_receive1_def)

lemma dma_receive_spec:
  "bl_rx_inv s \<Longrightarrow> length (bl_dma_items s) + length xs \<le> 255 \<Longrightarrow>
   bl_rx_inv (dma_receive xs s) \<and> bl_dma_items (dma_receive xs s) = bl_dma_items s @ xs \<and>
   bl_rx_items (dma_receive xs s) = bl_rx_items s"
proof (induction xs arbitrary: s)
  case (Cons x xs)
  have "bl_rx_items (dma_receive1 x s) = bl_rx_items s"
    by (simp add: bl_rx_items_def dma_receive1_def)
  then show ?case
    using Cons.IH [of "dma_receive1 x s"] Cons.prems by (simp add: dma_receive1_inv dma_receive1_items)
qed simp

lemma consume_step_spec:
  assumes "bl_rx_inv s" "bl_dma_items s = x # xs"
  shows "bl_rx_inv (bl_uart_dma_consume_step s) \<and> bl_dma_items (bl_uart_dma_consume_step s) = xs \<and>
    bl_rx_items (bl_uart_dma_consume_step s) = bl_rx_items (bl_uart_rx_ring_push x s) \<and>
    bl_dma_wpos (bl_uart_dma_consume_step s) = bl_dma_wpos s"
proof -
  let ?b = "bl_rx_dma_buf s" and ?l = "bl_rx_dma_last_pos s" and ?w = "bl_dma_wpos s"
  have ne: "?w \<noteq> ?l"
    using assms ring_items_Nil [of ?w ?b ?l] by (auto simp: bl_rx_inv_def bl_dma_items_def)
  have pop: "?b ! ?l = x" "ring_items ?b ?w (Suc ?l mod 256) = xs"
    using assms ring_items_pop [of ?w ?b ?l] ne by (auto simp: bl_rx_inv_def bl_dma_items_def)
  have nxt: "(if ?l + 1 \<ge> 256 then 0 else ?l + 1) = Suc ?l mod 256"
    using assms(1) by (auto simp: bl_rx_inv_def mod_if)
  have "bl_rx_inv (bl_uart_rx_ring_push x s)" using assms(1) by (rule bl_rx_push_inv)
  moreover have "bl_rx_dma_last_pos (bl_uart_rx_ring_push x s) = ?l"
      "bl_rx_dma_buf (bl_uart_rx_ring_push x s) = ?b" "bl_dma_wpos (bl_uart_rx_ring_push x s) = ?w"
    by (simp_all add: bl_uart_rx_ring_push_def Let_def)
  ultimately show ?thesis
    using nxt pop
    by (auto simp: bl_uart_dma_consume_step_def Let_def bl_rx_inv_def bl_dma_items_def bl_rx_items_def)
qed

lemma consume_loop_spec:
  "bl_rx_inv s \<Longrightarrow> bl_dma_items s = xs \<Longrightarrow>
   \<exists>s'. bl_uart_dma_consume_loop (bl_dma_wpos s) s = Some s' \<and> bl_rx_inv s' \<and> bl_dma_items s' = [] \<and>
        bl_rx_items s' = bl_rx_items (bl_rx.pushes xs s)"
proof (induction xs arbitrary: s)
  case Nil
  then have "bl_dma_wpos s = bl_rx_dma_last_pos s"
    using ring_items_Nil [of "bl_dma_wpos s" "bl_rx_dma_buf s" "bl_rx_dma_last_pos s"]
    by (auto simp: bl_rx_inv_def bl_dma_items_def)
  then show ?case using Nil by (simp add: bl_uart_dma_consume_loop.simps)
next
  case (Cons x xs)
  have ne: "bl_rx_dma_last_pos s \<noteq> bl_dma_wpos s"
    using Cons.prems by (auto simp: bl_rx_inv_def bl_dma_items_def ring_items_def ring_count_def)
  let ?s = "bl_uart_dma_consume_step s"
  note st = consume_step_spec [OF Cons.prems]
  have "bl_rx_items (bl_rx.pushes xs ?s) = bl_rx_items (bl_rx.pushes xs (bl_uart_rx_ring_push x s))"
    using st Cons.prems by (simp add: bl_rx.pushes_keep_newest bl_rx_push_inv)
  moreover obtain s' where "bl_uart_dma_consume_loop (bl_dma_wpos s) ?s = Some s'" "bl_rx_inv s'"
      "bl_dma_items s' = []" "bl_rx_items s' = bl_rx_items (bl_rx.pushes xs ?s)"
    using Cons.IH [of ?s] st by auto
  ultimately show ?case
    using ne by (simp add: bl_uart_dma_consume_loop.simps [of "bl_dma_wpos s" s])
qed

lemma sync_spec:
  assumes "bl_rx_inv s"
  shows "\<exists>s'. bl_uart_dma_sync s = Some s' \<and> bl_rx_inv s' \<and> bl_dma_items s' = [] \<and>
    bl_rx_items s' = drop (length (bl_rx_items s) + length (bl_dma_items s) - 511)
                          (bl_rx_items s @ bl_dma_items s)"
  using assms consume_loop_spec [OF assms refl] bl_rx.pushes_keep_newest [OF assms]
  by (auto simp: bl_uart_dma_sync_def bl_uart_dma_consume_to_def bl_rx_inv_def Let_def)

text \<open>The receive path loses no byte and keeps the order. When fewer than 256 bytes arrive between
  two synchronisations, the next synchronisation terminates and leaves exactly the newest 511 of the
  bytes buffered before followed by the new ones.\<close>

theorem bl_uart_receive_sync:
  assumes "bl_rx_inv s" and "bl_dma_items s = []" and "length xs \<le> 255"
  shows "\<exists>s'. bl_uart_dma_sync (dma_receive xs s) = Some s' \<and> bl_rx_inv s' \<and> bl_dma_items s' = [] \<and>
    bl_rx_items s' = drop (length (bl_rx_items s) + length xs - 511) (bl_rx_items s @ xs)"
  using dma_receive_spec [of s xs] sync_spec [of "dma_receive xs s"] assms by simp

definition bl_uart_fresh :: bl_uart where
  "bl_uart_fresh = \<lparr>bl_last_tx_hal_status = 0, bl_last_tx_req_len = 0,
     bl_rx_dma_buf = replicate 256 0, bl_rx_ring = replicate 512 0,
     bl_rx_head = 0, bl_rx_tail = 0, bl_rx_dma_last_pos = 0, bl_dma_wpos = 0\<rparr>"

lemma bl_uart_fresh_inv:
  "bl_rx_inv bl_uart_fresh" "bl_dma_items bl_uart_fresh = []" "bl_rx_items bl_uart_fresh = []"
  by (simp_all add: bl_rx_inv_def bl_uart_fresh_def bl_dma_items_def bl_rx_items_def ring_items_Nil)

theorem bl_uart_receive_sync_witness:
  "\<exists>s'. bl_uart_dma_sync (dma_receive [0xAA, 0x55, 0x02] bl_uart_fresh) = Some s' \<and> bl_rx_inv s' \<and>
     bl_dma_items s' = [] \<and> bl_rx_items s' = [0xAA, 0x55, 0x02]"
  using bl_uart_receive_sync [of bl_uart_fresh "[0xAA, 0x55, 0x02]"] by (simp add: bl_uart_fresh_inv)

section \<open>The blocking read against its specification\<close>

text \<open>What a blocking read promises, over the queue of buffered bytes: the first byte there is, or a
  timeout at the first pass that finds nothing and whose tick is \<open>timeout_ms\<close> past the start.\<close>

fun read_spec :: "u32 \<Rightarrow> u32 \<Rightarrow> (u8 list \<times> u32) list \<Rightarrow> u8 list \<Rightarrow> (u8 option \<times> u8 list) option" where
  "read_spec start timeout_ms [] q = None"
| "read_spec start timeout_ms ((xs, now) # rest) q =
     (case q @ xs of
        b # q' \<Rightarrow> Some (Some b, q')
      | [] \<Rightarrow> if now - start \<ge> timeout_ms then Some (None, [])
             else read_spec start timeout_ms rest [])"

lemma read_loop_refines:
  "bl_rx_inv s \<Longrightarrow> bl_dma_items s = [] \<Longrightarrow> length (bl_rx_items s) \<le> 256 \<Longrightarrow> timeout_ms \<noteq> HAL_MAX_DELAY \<Longrightarrow>
   list_all (\<lambda>p. length (fst p) \<le> 255) sched \<Longrightarrow>
   map_option (map_prod id bl_rx_items) (bl_uart_read_loop start timeout_ms sched s) =
     read_spec start timeout_ms sched (bl_rx_items s)"
proof (induction sched arbitrary: s)
  case (Cons p rest)
  obtain xs now where p: "p = (xs, now)" by (cases p)
  obtain s1 where s1: "bl_uart_dma_sync (dma_receive xs s) = Some s1" "bl_rx_inv s1"
      "bl_dma_items s1 = []" "bl_rx_items s1 = bl_rx_items s @ xs"
    using dma_receive_spec [of s xs] sync_spec [of "dma_receive xs s"] Cons.prems p by auto
  show ?case
  proof (cases "bl_rx_items s @ xs")
    case Nil
    then show ?thesis
      using s1 Cons.IH [of s1] Cons.prems p bl_rx.pop_empty [of s1] by simp
  next
    case (Cons b q)
    then show ?thesis
      using s1 p bl_rx.pop_front [of s1 b q] by auto
  qed
qed simp

text \<open>The blocking read refines its specification, whatever the schedule of arrivals and ticks,
  including ticks that wrap around: same answer, same bytes left in the queue.\<close>

theorem bl_uart_read_byte_refines:
  assumes "bl_rx_inv s" "bl_dma_items s = []" "length (bl_rx_items s) \<le> 256"
    and "timeout_ms \<noteq> HAL_MAX_DELAY" "list_all (\<lambda>p. length (fst p) \<le> 255) sched"
  shows "map_option (map_prod id bl_rx_items) (bl_uart_read_byte start timeout_ms sched s) =
    read_spec start timeout_ms sched (bl_rx_items s)"
  using assms by (simp add: bl_uart_read_byte_def read_loop_refines)

theorem bl_uart_read_byte_refines_witness:
  "map_option (map_prod id bl_rx_items)
     (bl_uart_read_byte 0xFFFFFFF0 100 [([], 0xFFFFFFF8), ([], 0x10), ([0xAA, 0x55], 0x20)] bl_uart_fresh) =
   Some (Some 0xAA, [0x55])"
  using bl_uart_read_byte_refines [where s = bl_uart_fresh and timeout_ms = 100 and start = "0xFFFFFFF0"
      and sched = "[([], 0xFFFFFFF8), ([], 0x10), ([0xAA, 0x55], 0x20)]"]
  by (simp add: bl_uart_fresh_inv HAL_MAX_DELAY_def)

text \<open>No blocking read outlasts its timeout. Once a pass of the loop reads a tick that is
  \<open>timeout_ms\<close> past the start, the call has returned.\<close>

lemma bl_uart_read_byte_terminates:
  assumes "bl_rx_inv s" "bl_dma_items s = []" "length (bl_rx_items s) \<le> 256"
    and "timeout_ms \<noteq> HAL_MAX_DELAY" "list_all (\<lambda>p. length (fst p) \<le> 255) sched"
    and "p \<in> set sched" "snd p - start \<ge> timeout_ms"
  shows "\<exists>r s'. bl_uart_read_byte start timeout_ms sched s = Some (r, s')"
proof -
  have "\<exists>r. read_spec start timeout_ms sched q = Some r" for q
    using assms(6,7) by (induction sched arbitrary: q) (auto split: list.splits)
  then have "\<exists>r. map_option (map_prod id bl_rx_items) (bl_uart_read_byte start timeout_ms sched s) = Some r"
    using read_loop_refines [OF assms(1-5)] by (simp add: bl_uart_read_byte_def)
  then show ?thesis by auto
qed

lemma bl_uart_read_byte_terminates_witness:
  "\<exists>r s'. bl_uart_read_byte 0xFFFFFFF0 100 [([], 0xFFFFFFF8), ([], 0x54)] bl_uart_fresh = Some (r, s')"
  by (rule bl_uart_read_byte_terminates [where p = "([], 0x54)"])
     (simp_all add: bl_uart_fresh_inv HAL_MAX_DELAY_def)

end
