(* ===== verification/Driver_Buffer.thy ===== *)
theory Driver_Buffer
  imports Ring
begin

text \<open>
  The general byte ring of the drivers (\<open>6_ModuleDrives/driver_buffer.c\<close>), used by the key driver
  and by the ESP8266 driver. The functions return \<open>int\<close> codes, and the storage comes from
  \<open>malloc\<close>, whose answer is an argument. A null buffer or a null output pointer is \<open>None\<close>.
\<close>

section \<open>State and operations\<close>

record ring_buffer =
  fifo :: "u8 list option"
  pw :: nat
  pr :: nat
  buf_size :: nat

definition Driver_Buffer_Init :: "ring_buffer \<Rightarrow> nat \<Rightarrow> u8 list option \<Rightarrow> int \<times> ring_buffer" where
  "Driver_Buffer_Init buffer sz malloced =
     (if sz = 0 then (-1, buffer)
      else case fifo buffer of
        None \<Rightarrow>
          (case malloced of
             None \<Rightarrow> (-1, buffer)
           | Some cells \<Rightarrow> (0, buffer\<lparr>fifo := Some cells, pw := 0, pr := 0, buf_size := sz\<rparr>))
      | Some _ \<Rightarrow> (0, buffer\<lparr>pw := 0, pr := 0, buf_size := sz\<rparr>))"

definition Driver_Buffer_Write :: "ring_buffer \<Rightarrow> u8 \<Rightarrow> int \<times> ring_buffer" where
  "Driver_Buffer_Write buffer data =
     (case fifo buffer of
        None \<Rightarrow> (-1, buffer)
      | Some cells \<Rightarrow>
          let i = (pw buffer + 1) mod buf_size buffer
          in if i \<noteq> pr buffer
             then (0, buffer\<lparr>fifo := Some (cells[pw buffer := data]), pw := i\<rparr>)
             else (-1, buffer))"

fun Driver_Buffer_WriteLoop :: "ring_buffer \<Rightarrow> u8 list \<Rightarrow> nat \<Rightarrow> nat \<times> ring_buffer" where
  "Driver_Buffer_WriteLoop buffer [] i = (i, buffer)"
| "Driver_Buffer_WriteLoop buffer (d # ds) i =
     (let (r, b1) = Driver_Buffer_Write buffer d
      in if r \<noteq> 0 then (i, b1) else Driver_Buffer_WriteLoop b1 ds (i + 1))"

text \<open>\<open>len\<close> is a \<open>uint8_t\<close>: the caller's value is cut to eight bits before the loop sees it.\<close>

definition Driver_Buffer_WriteBytes :: "ring_buffer \<Rightarrow> u8 list option \<Rightarrow> u8 \<Rightarrow> int \<times> ring_buffer" where
  "Driver_Buffer_WriteBytes buffer data_stream len =
     (if fifo buffer = None then (-1, buffer)
      else case data_stream of
        None \<Rightarrow> (-1, buffer)
      | Some ds \<Rightarrow>
          if len = 0 then (-1, buffer)
          else let (i, b1) = Driver_Buffer_WriteLoop buffer (take (unat len) ds) 0 in (int i, b1))"

definition Driver_Buffer_Read :: "ring_buffer \<Rightarrow> int \<times> u8 option \<times> ring_buffer" where
  "Driver_Buffer_Read buffer =
     (case fifo buffer of
        None \<Rightarrow> (-1, None, buffer)
      | Some cells \<Rightarrow>
          if pr buffer = pw buffer then (-1, None, buffer)
          else (0, Some (cells ! pr buffer), buffer\<lparr>pr := (pr buffer + 1) mod buf_size buffer\<rparr>))"

fun Driver_Buffer_ReadLoop :: "nat \<Rightarrow> ring_buffer \<Rightarrow> u8 list \<times> ring_buffer" where
  "Driver_Buffer_ReadLoop 0 buffer = ([], buffer)"
| "Driver_Buffer_ReadLoop (Suc n) buffer =
     (case Driver_Buffer_Read buffer of
        (_, None, b1) \<Rightarrow> ([], b1)
      | (_, Some d, b1) \<Rightarrow> let (ds, b2) = Driver_Buffer_ReadLoop n b1 in (d # ds, b2))"

definition Driver_Buffer_ReadBytes :: "ring_buffer \<Rightarrow> u8 \<Rightarrow> int \<times> u8 list \<times> ring_buffer" where
  "Driver_Buffer_ReadBytes buffer len =
     (if fifo buffer = None then (-1, [], buffer)
      else if len = 0 then (-1, [], buffer)
      else let (ds, b1) = Driver_Buffer_ReadLoop (unat len) buffer in (int (length ds), ds, b1))"

definition Driver_Buffer_Clean :: "ring_buffer \<Rightarrow> int \<times> ring_buffer" where
  "Driver_Buffer_Clean buffer =
     (case fifo buffer of
        None \<Rightarrow> (-1, buffer)
      | Some cells \<Rightarrow>
          (0, buffer\<lparr>fifo := Some (replicate (buf_size buffer) 0 @ drop (buf_size buffer) cells),
                     pw := 0, pr := 0\<rparr>))"

section \<open>The ring is a queue that refuses bytes when full\<close>

definition db_inv :: "ring_buffer \<Rightarrow> bool" where
  "db_inv b \<longleftrightarrow> (\<exists>cells. fifo b = Some cells \<and> length cells = buf_size b \<and> 1 < buf_size b \<and>
     pw b < buf_size b \<and> pr b < buf_size b)"

definition db_items :: "ring_buffer \<Rightarrow> u8 list" where
  "db_items b = (case fifo b of None \<Rightarrow> [] | Some cells \<Rightarrow> ring_items cells (pw b) (pr b))"

definition db_cap :: "ring_buffer \<Rightarrow> nat" where
  "db_cap b = buf_size b - 1"

definition db_push :: "u8 \<Rightarrow> ring_buffer \<Rightarrow> ring_buffer" where
  "db_push x b = snd (Driver_Buffer_Write b x)"

definition db_pop :: "ring_buffer \<Rightarrow> (u8 \<times> ring_buffer) option" where
  "db_pop b = (case Driver_Buffer_Read b of (_, None, _) \<Rightarrow> None | (_, Some x, b') \<Rightarrow> Some (x, b'))"

lemma db_invE:
  assumes "db_inv b"
  obtains cells where "fifo b = Some cells" "length cells = buf_size b" "1 < buf_size b"
    "pw b < buf_size b" "pr b < buf_size b"
  using assms by (auto simp: db_inv_def)

lemma db_items_le: "db_inv b \<Longrightarrow> length (db_items b) < buf_size b"
  by (erule db_invE) (simp add: db_items_def ring_count_less)

lemma db_full_iff: "db_inv b \<Longrightarrow> Suc (pw b) mod buf_size b = pr b \<longleftrightarrow> Suc (length (db_items b)) = buf_size b"
  by (erule db_invE) (simp add: db_items_def ring_full_iff)

lemma db_write_full:
  "db_inv b \<Longrightarrow> Suc (length (db_items b)) = buf_size b \<Longrightarrow> Driver_Buffer_Write b x = (-1, b)"
  using db_full_iff [of b] by (auto simp: Driver_Buffer_Write_def split: option.splits)

lemma db_write_room:
  assumes "db_inv b" "Suc (length (db_items b)) < buf_size b"
  shows "\<exists>b'. Driver_Buffer_Write b x = (0, b') \<and> db_inv b' \<and> db_items b' = db_items b @ [x] \<and>
    buf_size b' = buf_size b"
proof -
  obtain cells where c: "fifo b = Some cells" "length cells = buf_size b" "1 < buf_size b"
      "pw b < buf_size b" "pr b < buf_size b"
    using assms(1) by (rule db_invE)
  have "Suc (pw b) mod buf_size b \<noteq> pr b" using db_full_iff [OF assms(1)] assms(2) by simp
  then show ?thesis
    using c ring_items_push [of "pw b" cells "pr b" x]
    by (simp add: Driver_Buffer_Write_def db_inv_def db_items_def)
qed

lemma db_read_empty: "db_inv b \<Longrightarrow> db_items b = [] \<Longrightarrow> Driver_Buffer_Read b = (-1, None, b)"
  by (erule db_invE) (simp add: db_items_def ring_items_Nil Driver_Buffer_Read_def)

lemma db_read_front:
  assumes "db_inv b" "db_items b = x # xs"
  shows "\<exists>b'. Driver_Buffer_Read b = (0, Some x, b') \<and> db_inv b' \<and> db_items b' = xs \<and> buf_size b' = buf_size b"
proof -
  obtain cells where c: "fifo b = Some cells" "length cells = buf_size b" "1 < buf_size b"
      "pw b < buf_size b" "pr b < buf_size b"
    using assms(1) by (rule db_invE)
  have ne: "pw b \<noteq> pr b" using c assms(2) ring_items_Nil [of "pw b" cells "pr b"]
    by (auto simp: db_items_def)
  then show ?thesis
    using c assms(2) ring_items_pop [of "pw b" cells "pr b"]
    by (simp add: Driver_Buffer_Read_def db_inv_def db_items_def)
qed

interpretation db: fifo_drop_newest db_inv db_items db_cap db_push db_pop
proof unfold_locales
  fix b x assume b: "db_inv b"
  show "length (db_items b) \<le> db_cap b" using db_items_le [OF b] by (simp add: db_cap_def)
  consider "Suc (length (db_items b)) = buf_size b" | "Suc (length (db_items b)) < buf_size b"
    using db_items_le [OF b] by linarith
  note cases = this
  show "db_inv (db_push x b)"
    using b db_write_full db_write_room cases by (metis db_push_def snd_conv)
  show "db_cap (db_push x b) = db_cap b"
    using b db_write_full db_write_room cases by (metis db_push_def db_cap_def snd_conv)
  show "db_items (db_push x b) = db_items b @ [x]" if "length (db_items b) < db_cap b"
    using db_write_room [OF b, of x] that by (fastforce simp: db_push_def db_cap_def)
  show "db_items (db_push x b) = db_items b" if "length (db_items b) = db_cap b"
    using db_write_full [OF b, of x] that db_items_le [OF b] by (auto simp: db_push_def db_cap_def)
  show "db_pop b = None" if "db_items b = []"
    using db_read_empty [OF b that] by (simp add: db_pop_def)
  show "\<exists>b'. db_pop b = Some (x, b') \<and> db_items b' = xs \<and> db_inv b' \<and> db_cap b' = db_cap b"
    if "db_items b = x # xs" for xs
    using db_read_front [OF b that] by (auto simp: db_pop_def db_cap_def)
qed

section \<open>Block transfers\<close>

lemma write_loop_spec:
  "db_inv b \<Longrightarrow>
   \<exists>b'. Driver_Buffer_WriteLoop b xs i = (i + min (length xs) (db_cap b - length (db_items b)), b') \<and>
     db_inv b' \<and> db_cap b' = db_cap b \<and>
     db_items b' = db_items b @ take (db_cap b - length (db_items b)) xs"
proof (induction xs arbitrary: b i)
  case (Cons x xs)
  consider "Suc (length (db_items b)) = buf_size b" | "Suc (length (db_items b)) < buf_size b"
    using db_items_le [OF Cons.prems] by linarith
  then show ?case
  proof cases
    case 1
    then have "db_cap b = length (db_items b)" by (simp add: db_cap_def)
    then show ?thesis using 1 Cons.prems by (simp add: db_write_full)
  next
    case 2
    then obtain b1 where b1: "Driver_Buffer_Write b x = (0, b1)" "db_inv b1"
        "db_items b1 = db_items b @ [x]" "db_cap b1 = db_cap b"
      using db_write_room [OF Cons.prems] by (metis db_cap_def)
    moreover have "db_cap b - length (db_items b) = Suc (db_cap b1 - length (db_items b1))"
      using 2 b1 by (simp add: db_cap_def)
    ultimately show ?thesis using Cons.IH [of b1 "i + 1"] by auto
  qed
qed simp

lemma read_loop_spec:
  "db_inv b \<Longrightarrow>
   \<exists>b'. Driver_Buffer_ReadLoop n b = (take n (db_items b), b') \<and> db_inv b' \<and> db_cap b' = db_cap b \<and>
     db_items b' = drop n (db_items b)"
proof (induction n arbitrary: b)
  case (Suc n)
  show ?case
  proof (cases "db_items b")
    case Nil
    then show ?thesis using Suc.prems by (simp add: db_read_empty)
  next
    case (Cons x xs)
    then obtain b1 where "Driver_Buffer_Read b = (0, Some x, b1)" "db_inv b1" "db_items b1 = xs"
        "db_cap b1 = db_cap b"
      using db_read_front [OF Suc.prems] by (metis db_cap_def)
    then show ?thesis using Suc.IH [of b1] Cons by auto
  qed
qed simp

lemma write_bytes_spec:
  assumes "db_inv b" "len \<noteq> 0" "length ds = unat len"
  shows "\<exists>b'. Driver_Buffer_WriteBytes b (Some ds) len =
      (int (min (length ds) (db_cap b - length (db_items b))), b') \<and> db_inv b' \<and> db_cap b' = db_cap b \<and>
    db_items b' = db_items b @ take (db_cap b - length (db_items b)) ds"
  using write_loop_spec [OF assms(1), of ds 0] assms
  by (auto simp: Driver_Buffer_WriteBytes_def db_inv_def)

lemma read_bytes_spec:
  assumes "db_inv b" "len \<noteq> 0"
  shows "\<exists>b'. Driver_Buffer_ReadBytes b len =
      (int (min (unat len) (length (db_items b))), take (unat len) (db_items b), b') \<and>
    db_inv b' \<and> db_cap b' = db_cap b \<and> db_items b' = drop (unat len) (db_items b)"
  using read_loop_spec [OF assms(1), of "unat len"] assms
  by (auto simp: Driver_Buffer_ReadBytes_def db_inv_def min.commute)

lemma db_clean: "db_inv b \<Longrightarrow> \<exists>b'. Driver_Buffer_Clean b = (0, b') \<and> db_inv b' \<and> db_items b' = [] \<and> db_cap b' = db_cap b"
  by (erule db_invE) (simp add: Driver_Buffer_Clean_def db_inv_def db_items_def ring_items_Nil db_cap_def)

text \<open>Writing a block into the driver ring and reading as much back returns the block. The write
  stores the longest prefix that fits and reports its length, and the reader gets back, in order, what
  was queued before followed by that prefix.\<close>

theorem Driver_Buffer_roundtrip:
  assumes "db_inv b" "len \<noteq> 0" "length ds = unat len" "n \<noteq> 0"
  shows "\<exists>k b1 b2. Driver_Buffer_WriteBytes b (Some ds) len = (int k, b1) \<and>
    k = min (length ds) (db_cap b - length (db_items b)) \<and>
    Driver_Buffer_ReadBytes b1 n =
      (int (min (unat n) (length (db_items b) + k)), take (unat n) (db_items b @ take k ds), b2) \<and>
    db_items b2 = drop (unat n) (db_items b @ take k ds) \<and> db_inv b2"
proof -
  obtain b1 where b1: "Driver_Buffer_WriteBytes b (Some ds) len =
      (int (min (length ds) (db_cap b - length (db_items b))), b1)" "db_inv b1"
      "db_items b1 = db_items b @ take (db_cap b - length (db_items b)) ds"
    using write_bytes_spec [OF assms(1-3)] by blast
  have eq: "take (db_cap b - length (db_items b)) ds =
      take (min (length ds) (db_cap b - length (db_items b))) ds"
    by (simp add: min_def)
  show ?thesis
    using b1 read_bytes_spec [OF b1(2) assms(4)] by (auto simp: eq)
qed

definition db_sample :: ring_buffer where
  "db_sample = \<lparr>fifo = Some [0, 0, 0, 0], pw = 3, pr = 3, buf_size = 4\<rparr>"

lemma db_sample_inv: "db_inv db_sample" "db_items db_sample = []" "db_cap db_sample = 3"
  by (simp_all add: db_inv_def db_sample_def db_cap_def db_items_def ring_items_Nil)

theorem Driver_Buffer_roundtrip_witness:
  "\<exists>k b1 b2. Driver_Buffer_WriteBytes db_sample (Some [10, 20, 30, 40]) 4 = (int k, b1) \<and> k = 3 \<and>
    Driver_Buffer_ReadBytes b1 8 = (3, [10, 20, 30], b2) \<and> db_items b2 = [] \<and> db_inv b2"
  using Driver_Buffer_roundtrip [of db_sample 4 "[10, 20, 30, 40]" 8]
  by (simp add: db_sample_inv)

end
