(* ===== verification/Float32.thy ===== *)
theory Float32
  imports Prelude
begin

text \<open>
  The \<open>float\<close> arithmetic of the firmware (IEEE 754 binary32, round to nearest, ties to even) on finite
  values, which are the only ones the sensors and the protocol produce: a value is the real number it
  stands for, and every operation rounds its exact result. Overflow to infinity is outside the range
  of every value that the firmware forms.
\<close>

type_synonym f32 = real

section \<open>Rounding\<close>

definition round_even :: "real \<Rightarrow> int" where
  "round_even y =
     (let f = \<lfloor>y\<rfloor>; d = y - of_int f
      in if d < 1 / 2 then f else if d > 1 / 2 then f + 1 else if even f then f else f + 1)"

text \<open>The exponent of the last place: the least one, not below that of the subnormal numbers, at which
  the value has at most 24 binary digits.\<close>

definition f32_exps :: "int list" where
  "f32_exps = [-149 .. 104]"

definition f32_exp :: "real \<Rightarrow> int" where
  "f32_exp x = (case List.find (\<lambda>e. \<bar>x\<bar> < 2 powi (e + 24)) f32_exps of Some e \<Rightarrow> e | None \<Rightarrow> 104)"

definition f32_rnd :: "real \<Rightarrow> f32" where
  "f32_rnd x = (let e = f32_exp x in of_int (round_even (x / 2 powi e)) * 2 powi e)"

definition f_add :: "f32 \<Rightarrow> f32 \<Rightarrow> f32" where "f_add x y = f32_rnd (x + y)"
definition f_sub :: "f32 \<Rightarrow> f32 \<Rightarrow> f32" where "f_sub x y = f32_rnd (x - y)"
definition f_mul :: "f32 \<Rightarrow> f32 \<Rightarrow> f32" where "f_mul x y = f32_rnd (x * y)"
definition f_div :: "f32 \<Rightarrow> f32 \<Rightarrow> f32" where "f_div x y = f32_rnd (x / y)"

text \<open>Conversion to an integer drops the fraction.\<close>

definition f_trunc :: "f32 \<Rightarrow> int" where
  "f_trunc x = (if 0 \<le> x then \<lfloor>x\<rfloor> else \<lceil>x\<rceil>)"

section \<open>The rounding error\<close>

lemma round_even_error: "\<bar>of_int (round_even y) - y\<bar> \<le> 1 / 2"
  unfolding round_even_def Let_def by (auto split: if_splits)

lemma round_even_int [simp]: "round_even (of_int k) = k"
  by (simp add: round_even_def)

lemma upto_find:
  assumes "List.find P [i .. j] = Some (e :: int)"
  shows "i \<le> e \<and> P e \<and> (\<forall>k. i \<le> k \<longrightarrow> k < e \<longrightarrow> \<not> P k)"
  using assms
proof (induction i j rule: upto.induct)
  case (1 i j)
  show ?case
  proof (cases "i \<le> j")
    case True
    then have u: "[i .. j] = i # [i + 1 .. j]" by (rule upto_rec1)
    show ?thesis
    proof (cases "P i")
      case True
      then show ?thesis using 1(2) u by simp
    next
      case False
      then have "i + 1 \<le> e \<and> P e \<and> (\<forall>k. i + 1 \<le> k \<longrightarrow> k < e \<longrightarrow> \<not> P k)"
        using 1 u \<open>i \<le> j\<close> by simp
      then show ?thesis using False by (metis add1_zle_eq le_less order_less_le_trans zle_add1_eq_le)
    qed
  next
    case False
    then show ?thesis using 1(2) by simp
  qed
qed

lemma f32_exp_cases:
  assumes "\<bar>x\<bar> < 2 powi 128"
  shows "-149 \<le> f32_exp x \<and> \<bar>x\<bar> < 2 powi (f32_exp x + 24) \<and> (f32_exp x = -149 \<or> 2 powi (f32_exp x + 23) \<le> \<bar>x\<bar>)"
proof -
  have "\<bar>x\<bar> < 2 powi (104 + 24)" using assms by simp
  moreover have "104 \<in> set f32_exps" by (simp only: f32_exps_def set_upto) simp
  ultimately have "List.find (\<lambda>e. \<bar>x\<bar> < 2 powi (e + 24)) f32_exps \<noteq> None"
    unfolding find_None_iff by blast
  then obtain e where e: "List.find (\<lambda>e. \<bar>x\<bar> < 2 powi (e + 24)) f32_exps = Some e" by blast
  note u = upto_find [OF e [unfolded f32_exps_def]]
  have "e = -149 \<or> 2 powi (e + 23) \<le> \<bar>x\<bar>"
  proof (cases "e = -149")
    case False
    then have "\<not> \<bar>x\<bar> < 2 powi (e - 1 + 24)" using u by (metis diff_ge_0_iff_ge le_less less_diff_eq zle_diff1_eq add.commute diff_add_cancel less_add_one order_le_less zless_add1_eq)
    then show ?thesis by (simp add: algebra_simps not_less)
  qed simp
  then show ?thesis using e u by (simp add: f32_exp_def)
qed

lemma f32_rnd_error:
  assumes "\<bar>x\<bar> < 2 powi 128"
  shows "\<bar>f32_rnd x - x\<bar> \<le> max (\<bar>x\<bar> / 2 ^ 24) (1 / 2 ^ 150)"
proof -
  let ?e = "f32_exp x" and ?u = "2 powi (f32_exp x) :: real"
  have u: "0 < ?u" by simp
  have "f32_rnd x - x = (of_int (round_even (x / ?u)) - x / ?u) * ?u"
    using u by (simp add: f32_rnd_def Let_def field_simps)
  then have "\<bar>f32_rnd x - x\<bar> = \<bar>of_int (round_even (x / ?u)) - x / ?u\<bar> * ?u" using u by (simp add: abs_mult)
  also have "\<dots> \<le> 1 / 2 * ?u" using round_even_error u by (intro mult_right_mono) auto
  finally have d: "\<bar>f32_rnd x - x\<bar> \<le> ?u / 2" by simp
  consider "?e = -149" | "2 powi (?e + 23) \<le> \<bar>x\<bar>" using f32_exp_cases [OF assms] by auto
  then show ?thesis
  proof cases
    case 1
    then have "?u / 2 = 1 / 2 ^ 150" by (simp add: power_int_def field_simps)
    then show ?thesis using d unfolding le_max_iff_disj by metis
  next
    case 2
    have "2 powi (?e + 23) = ?u * 2 ^ 23" by (simp add: power_int_add)
    then have "?u / 2 \<le> \<bar>x\<bar> / 2 ^ 24" using 2 by (simp add: field_simps)
    then show ?thesis using d unfolding le_max_iff_disj by linarith
  qed
qed

text \<open>The form used below, for the values of the protocol.\<close>

lemma f32_rnd_close:
  assumes "\<bar>x\<bar> \<le> 1000000"
  shows "\<bar>f32_rnd x - x\<bar> \<le> \<bar>x\<bar> / 2 ^ 24 + 1 / 2 ^ 150"
proof -
  have "(1000000 :: real) < 2 powi 128" by (simp add: power_int_def)
  then have "\<bar>x\<bar> < 2 powi 128" using assms by linarith
  note f32_rnd_error [OF this]
  moreover have "0 \<le> \<bar>x\<bar> / 2 ^ 24" "0 \<le> (1 / 2 ^ 150 :: real)" by simp_all
  ultimately show ?thesis unfolding le_max_iff_disj by linarith
qed

end
