(* ===== verification/C_Strings.thy ===== *)
theory C_Strings
  imports Float32 "HOL-Library.Sublist"
begin

text \<open>
  What the firmware uses of the string functions of the C library. A C string is the list of its bytes
  without the terminating zero; literals are given as HOL strings and turned into bytes. Positions in a
  string, which C returns as pointers, are the rest of the string from there.
\<close>

section \<open>Texts and formatting\<close>

definition text_bytes :: "string \<Rightarrow> u8 list" where
  "text_bytes s = map of_char s"

fun decimal :: "nat \<Rightarrow> string" where
  "decimal n = (if n < 10 then [char_of (48 + n)] else decimal (n div 10) @ [char_of (48 + n mod 10)])"

text \<open>The conversion \<open>%.1f\<close> of the C library: the exact value rounded to tenths, ties to even.\<close>

definition one_decimal :: "f32 \<Rightarrow> string" where
  "one_decimal x = (let n = nat (round_even (\<bar>x\<bar> * 10)) in (if x < 0 then ''-'' else []) @ decimal (n div 10) @ ''.'' @ decimal (n mod 10))"

text \<open>\<open>%d\<close>, and \<open>snprintf\<close>, which keeps room for the terminator.\<close>

definition signed_decimal :: "int \<Rightarrow> string" where
  "signed_decimal n = (if n < 0 then ''-'' @ decimal (nat (- n)) else decimal (nat n))"

definition snprintf :: "nat \<Rightarrow> 'a list \<Rightarrow> 'a list" where
  "snprintf sz s = take (sz - 1) s"

text \<open>The string that starts at the first cell of a buffer.\<close>

definition cstr :: "u8 list \<Rightarrow> u8 list" where
  "cstr cells = takeWhile (\<lambda>c. c \<noteq> 0) cells"

section \<open>Searching\<close>

fun strstr :: "'a list \<Rightarrow> 'a list \<Rightarrow> 'a list option" where
  "strstr [] pat = (if pat = [] then Some [] else None)"
| "strstr (c # cs) pat = (if take (length pat) (c # cs) = pat then Some (c # cs) else strstr cs pat)"

fun strchr :: "'a list \<Rightarrow> 'a \<Rightarrow> 'a list option" where
  "strchr [] c = None"
| "strchr (x # xs) c = (if x = c then Some (x # xs) else strchr xs c)"

lemma take_length_prefix: "take (length p) s = p \<longleftrightarrow> prefix p s"
  by (metis append_eq_conv_conj append_take_drop_id prefix_def)

lemma strstr_sublist: "strstr s p \<noteq> None \<longleftrightarrow> sublist p s"
  by (induction s) (auto simp: take_length_prefix sublist_Cons_right simp del: take_Cons')

lemma strstr_suffix: "strstr s p = Some r \<Longrightarrow> suffix r s \<and> prefix p r"
proof (induction s)
  case (Cons c s)
  show ?case
  proof (cases "take (length p) (c # s) = p")
    case True
    then have "r = c # s" using Cons.prems by (auto simp del: take_Cons')
    moreover have "prefix p (c # s)" using True by (simp only: take_length_prefix)
    ultimately show ?thesis by simp
  next
    case False
    then show ?thesis using Cons by (auto simp: suffix_Cons simp del: take_Cons')
  qed
qed (simp split: if_splits)

lemma strchr_split: "strchr s c = Some r \<Longrightarrow> \<exists>a. s = a @ r \<and> hd r = c \<and> r \<noteq> [] \<and> c \<notin> set a"
proof (induction s)
  case (Cons x s)
  show ?case
  proof (cases "x = c")
    case False
    then obtain a where "s = a @ r" "hd r = c" "r \<noteq> []" "c \<notin> set a" using Cons by auto
    then show ?thesis using False by (intro exI [of _ "x # a"]) simp
  qed (use Cons.prems in auto)
qed simp

lemma strchr_append: "c \<notin> set a \<Longrightarrow> strchr (a @ c # b) c = Some (c # b)"
  by (induction a) auto

text \<open>Rules to search through a text of which only the beginning is known.\<close>

lemma strstr_hd:
  "strstr (c # cs) (p # ps) = (if c = p \<and> take (length ps) cs = ps then Some (c # cs) else strstr cs (p # ps))"
  by simp

lemma strstr_absent: "p \<notin> set s \<Longrightarrow> strstr s (p # ps) = None"
  by (induction s) auto

section \<open>Decimal numbers\<close>

text \<open>The value of a run of digits, as the parsers of the firmware compute it.\<close>

definition is_digit :: "u8 \<Rightarrow> bool" where
  "is_digit c \<longleftrightarrow> \<not> (c < 48 \<or> c > 57)"

fun digits_value :: "u8 list \<Rightarrow> nat \<Rightarrow> nat option" where
  "digits_value [] acc = Some acc"
| "digits_value (c # cs) acc = (if \<not> is_digit c then None else digits_value cs (acc * 10 + unat c - 48))"

lemma text_bytes_append [simp]: "text_bytes (a @ b) = text_bytes a @ text_bytes b"
  by (simp add: text_bytes_def)

lemma length_text_bytes [simp]: "length (text_bytes s) = length s"
  by (simp add: text_bytes_def)

declare decimal.simps [simp del]

lemma digit_byte:
  fixes n :: nat
  assumes "n < 10"
  shows "text_bytes [char_of (48 + n)] = [of_nat (48 + n)]" "is_digit (of_nat (48 + n))" "unat (of_nat (48 + n) :: u8) = 48 + n"
proof -
  have "n = 0 \<or> n = 1 \<or> n = 2 \<or> n = 3 \<or> n = 4 \<or> n = 5 \<or> n = 6 \<or> n = 7 \<or> n = 8 \<or> n = 9" using assms by presburger
  note n = this
  show "text_bytes [char_of (48 + n)] = [of_nat (48 + n)]" using n by (elim disjE) (simp_all add: text_bytes_def char_of_def bit_0)
  show "is_digit (of_nat (48 + n))" using n by (elim disjE) (simp_all add: is_digit_def)
  show "unat (of_nat (48 + n) :: u8) = 48 + n" using n by (elim disjE) simp_all
qed

lemma digits_value_append:
  "digits_value (a @ b) acc = (case digits_value a acc of None \<Rightarrow> None | Some v \<Rightarrow> digits_value b v)"
  by (induction a arbitrary: acc) auto

lemma decimal_value: "digits_value (text_bytes (decimal n)) 0 = Some n"
proof (induction n rule: decimal.induct)
  case (1 n)
  show ?case
  proof (cases "n < 10")
    case True
    then show ?thesis using digit_byte [OF True] by (simp add: decimal.simps [of n] del: of_nat_add)
  next
    case False
    have d: "n mod 10 < 10" by simp
    show ?thesis using False 1 digit_byte [OF d]
      by (simp add: decimal.simps [of n] digits_value_append del: of_nat_add)
  qed
qed

lemma decimal_digits: "\<forall>c \<in> set (text_bytes (decimal n)). is_digit c"
proof (induction n rule: decimal.induct)
  case (1 n)
  have d: "n mod 10 < 10" by simp
  show ?case
  proof (cases "n < 10")
    case True
    then show ?thesis using digit_byte [OF True] by (simp add: decimal.simps [of n] del: of_nat_add)
  next
    case False
    then show ?thesis using 1 digit_byte [OF d] by (simp add: decimal.simps [of n] del: of_nat_add)
  qed
qed

lemma decimal_length: "n < 10 ^ Suc k \<Longrightarrow> length (decimal n) \<le> Suc k"
proof (induction k arbitrary: n)
  case (Suc k)
  then have "n div 10 < 10 ^ Suc k" by simp
  then show ?case using Suc.IH [of "n div 10"] by (simp add: decimal.simps [of n])
qed (simp add: decimal.simps)

lemma decimal_not_Nil [simp]: "decimal n \<noteq> []"
  by (simp add: decimal.simps [of n])

lemma is_digit_bounds: "is_digit c \<longleftrightarrow> 48 \<le> c \<and> c \<le> 57"
  by (auto simp: is_digit_def not_less)

lemma takeWhile_decimal: "\<not> is_digit c \<Longrightarrow> takeWhile is_digit (text_bytes (decimal n) @ c # r) = text_bytes (decimal n)"
  using decimal_digits by (simp add: takeWhile_append)

lemma signed_decimal_bytes:
  "c \<in> set (text_bytes (signed_decimal n)) \<Longrightarrow> is_digit c \<or> c = 45"
  using decimal_digits by (auto simp: signed_decimal_def text_bytes_def split: if_splits)

end
