(* ===== verification/Home_State.thy ===== *)
theory Home_State
  imports Float32
begin

text \<open>
  The shared state of the application: the measured and commanded state of the home
  (\<open>smarthome_state.c\<close>), the run-time configuration (\<open>config.c\<close>) and the log level (\<open>log.c\<close>). Every
  access takes a critical section, so each operation is one atomic step.
\<close>

section \<open>State of the home\<close>

definition SMARTHOME_MODE_MANUAL :: u8 where "SMARTHOME_MODE_MANUAL = 0"
definition SMARTHOME_MODE_AUTO :: u8 where "SMARTHOME_MODE_AUTO = 1"

lemmas home_modes = SMARTHOME_MODE_MANUAL_def SMARTHOME_MODE_AUTO_def

record home_state =
  temperature :: f32
  humidity :: f32
  light :: u16
  led_on :: u8
  buzzer_on :: u8
  manual_led_on :: u8
  manual_buzzer_on :: u8
  alarm_on :: u8
  mode :: u8
  wifi_connected :: u8
  mqtt_connected :: u8
  sensor_valid :: u8
  mqtt_reconnect_fail_count :: u8

text \<open>The conversion of a flag argument to one or zero.\<close>

definition flag01 :: "u8 \<Rightarrow> u8" where
  "flag01 on = (if on \<noteq> 0 then 1 else 0)"

definition SmartHomeState_Init :: home_state where
  "SmartHomeState_Init =
     \<lparr>temperature = 0, humidity = 0, light = 0, led_on = 0, buzzer_on = 0, manual_led_on = 0, manual_buzzer_on = 0,
      alarm_on = 0, mode = SMARTHOME_MODE_MANUAL, wifi_connected = 0, mqtt_connected = 0, sensor_valid = 0,
      mqtt_reconnect_fail_count = 0\<rparr>"

definition SmartHomeState_SetSensor :: "f32 \<Rightarrow> f32 \<Rightarrow> u16 \<Rightarrow> u8 \<Rightarrow> home_state \<Rightarrow> home_state" where
  "SmartHomeState_SetSensor t h l v s = s\<lparr>temperature := t, humidity := h, light := l, sensor_valid := v\<rparr>"

definition SmartHomeState_SetLed :: "u8 \<Rightarrow> home_state \<Rightarrow> home_state" where
  "SmartHomeState_SetLed on s = s\<lparr>led_on := flag01 on\<rparr>"

definition SmartHomeState_SetBuzzer :: "u8 \<Rightarrow> home_state \<Rightarrow> home_state" where
  "SmartHomeState_SetBuzzer on s = s\<lparr>buzzer_on := flag01 on\<rparr>"

definition SmartHomeState_SetManualLed :: "u8 \<Rightarrow> home_state \<Rightarrow> home_state" where
  "SmartHomeState_SetManualLed on s = s\<lparr>manual_led_on := flag01 on\<rparr>"

definition SmartHomeState_SetManualBuzzer :: "u8 \<Rightarrow> home_state \<Rightarrow> home_state" where
  "SmartHomeState_SetManualBuzzer on s = s\<lparr>manual_buzzer_on := flag01 on\<rparr>"

definition SmartHomeState_SetAlarm :: "u8 \<Rightarrow> home_state \<Rightarrow> home_state" where
  "SmartHomeState_SetAlarm on s = s\<lparr>alarm_on := flag01 on\<rparr>"

definition SmartHomeState_SetMode :: "u8 \<Rightarrow> home_state \<Rightarrow> home_state" where
  "SmartHomeState_SetMode md s =
     s\<lparr>mode := (if md = SMARTHOME_MODE_AUTO then SMARTHOME_MODE_AUTO else SMARTHOME_MODE_MANUAL)\<rparr>"

definition SmartHomeState_SetWiFiConnected :: "u8 \<Rightarrow> home_state \<Rightarrow> home_state" where
  "SmartHomeState_SetWiFiConnected c s = s\<lparr>wifi_connected := flag01 c\<rparr>"

definition SmartHomeState_SetMQTTConnected :: "u8 \<Rightarrow> home_state \<Rightarrow> home_state" where
  "SmartHomeState_SetMQTTConnected c s = s\<lparr>mqtt_connected := flag01 c\<rparr>"

definition SmartHomeState_SetMQTTReconnectFailCount :: "u8 \<Rightarrow> home_state \<Rightarrow> home_state" where
  "SmartHomeState_SetMQTTReconnectFailCount n s = s\<lparr>mqtt_reconnect_fail_count := n\<rparr>"

text \<open>The flags that the setters normalise are zero or one.\<close>

definition home_inv :: "home_state \<Rightarrow> bool" where
  "home_inv s \<longleftrightarrow> {led_on s, buzzer_on s, manual_led_on s, manual_buzzer_on s, alarm_on s, mode s,
     wifi_connected s, mqtt_connected s} \<subseteq> {0, 1}"

lemma flag01_range: "flag01 x \<in> {0, 1}"
  by (simp add: flag01_def)

lemma flag01_id [simp]: "x \<in> {0, 1} \<Longrightarrow> flag01 x = x"
  by (auto simp: flag01_def)

lemmas home_setters = SmartHomeState_SetSensor_def SmartHomeState_SetLed_def SmartHomeState_SetBuzzer_def
  SmartHomeState_SetManualLed_def SmartHomeState_SetManualBuzzer_def SmartHomeState_SetAlarm_def SmartHomeState_SetMode_def
  SmartHomeState_SetWiFiConnected_def SmartHomeState_SetMQTTConnected_def SmartHomeState_SetMQTTReconnectFailCount_def

lemma home_inv_setters:
  "home_inv SmartHomeState_Init"
  "home_inv s \<Longrightarrow> home_inv (SmartHomeState_SetSensor t h l v s)"
  "home_inv s \<Longrightarrow> home_inv (SmartHomeState_SetLed x s)"
  "home_inv s \<Longrightarrow> home_inv (SmartHomeState_SetBuzzer x s)"
  "home_inv s \<Longrightarrow> home_inv (SmartHomeState_SetManualLed x s)"
  "home_inv s \<Longrightarrow> home_inv (SmartHomeState_SetManualBuzzer x s)"
  "home_inv s \<Longrightarrow> home_inv (SmartHomeState_SetAlarm x s)"
  "home_inv s \<Longrightarrow> home_inv (SmartHomeState_SetMode x s)"
  "home_inv s \<Longrightarrow> home_inv (SmartHomeState_SetWiFiConnected x s)"
  "home_inv s \<Longrightarrow> home_inv (SmartHomeState_SetMQTTConnected x s)"
  "home_inv s \<Longrightarrow> home_inv (SmartHomeState_SetMQTTReconnectFailCount x s)"
  using flag01_range [of x] by (auto simp: home_inv_def home_setters home_modes SmartHomeState_Init_def)

section \<open>Run-time configuration\<close>

record runtime_cfg =
  temperature_high :: f32
  humidity_high :: f32
  sensor_period_ms :: u16
  display_period_ms :: u16
  mqtt_report_period_ms :: u16
  alarm_check_period_ms :: u16
  wifi_reconnect_period_ms :: u16
  mqtt_reconnect_period_ms :: u16

definition SmartHomeConfig_Init :: runtime_cfg where
  "SmartHomeConfig_Init =
     \<lparr>temperature_high = 35, humidity_high = 80, sensor_period_ms = 2000, display_period_ms = 1000,
      mqtt_report_period_ms = 3000, alarm_check_period_ms = 500, wifi_reconnect_period_ms = 5000,
      mqtt_reconnect_period_ms = 3000\<rparr>"

definition SmartHomeConfig_SetThreshold :: "f32 \<Rightarrow> f32 \<Rightarrow> runtime_cfg \<Rightarrow> runtime_cfg" where
  "SmartHomeConfig_SetThreshold t h c = c\<lparr>temperature_high := t, humidity_high := h\<rparr>"

section \<open>Log level\<close>

definition LOG_LEVEL_INFO :: u8 where "LOG_LEVEL_INFO = 2"

definition Log_SetLevel :: "u8 \<Rightarrow> u8" where
  "Log_SetLevel level = (if level > LOG_LEVEL_INFO then LOG_LEVEL_INFO else level)"

definition Log_ShouldPrint :: "u8 \<Rightarrow> u8 \<Rightarrow> bool" where
  "Log_ShouldPrint level g_log_level \<longleftrightarrow> level \<le> g_log_level"

lemma Log_errors_always_print: "Log_ShouldPrint 0 (Log_SetLevel l)"
  by (simp add: Log_ShouldPrint_def)

end
