(* ===== verification/Checksum.thy ===== *)
theory Checksum
  imports Prelude
begin

text \<open>
  The checksums of the firmware. CRC-16/Modbus protects the frames on the gateway UART
  (\<open>bl_crc16_modbus\<close> of the bootloader, \<open>gw_crc16_modbus\<close> of the application);
  CRC-32 protects the OTA metadata and images (\<open>bl_crc32\<close>, \<open>ota_crc32\<close>), the records of the
  SPI flash log (\<open>storage_crc32\<close>) and the fault snapshot (\<open>fault_crc32\<close>). The source has a
  copy of each routine per module; every copy is translated from its own lines.

  The locale \<open>reflected_crc\<close> states what a bitwise reflected CRC needs of its one-bit step and
  proves the error-detection facts once; both polynomials interpret it.
\<close>

section \<open>The routines\<close>

text \<open>One pass of the inner loop: the register moves right by a bit, and the polynomial is added
  when the bit that falls out is set.\<close>

definition crc16_shift :: "u16 \<Rightarrow> u16" where
  "crc16_shift crc = (if crc AND 0x0001 \<noteq> 0 then drop_bit 1 crc XOR 0xA001 else drop_bit 1 crc)"

definition crc32_shift :: "u32 \<Rightarrow> u32" where
  "crc32_shift crc = (if crc AND 1 \<noteq> 0 then drop_bit 1 crc XOR 0xEDB88320 else drop_bit 1 crc)"

fun bl_crc16_modbus_loop :: "u16 \<Rightarrow> u8 list \<Rightarrow> u16" where
  "bl_crc16_modbus_loop crc [] = crc"
| "bl_crc16_modbus_loop crc (d # ds) = bl_crc16_modbus_loop ((crc16_shift ^^ 8) (crc XOR ucast d)) ds"

definition bl_crc16_modbus :: "u8 list \<Rightarrow> u16" where
  "bl_crc16_modbus data = bl_crc16_modbus_loop 0xFFFF data"

fun gw_crc16_modbus_loop :: "u16 \<Rightarrow> u8 list \<Rightarrow> u16" where
  "gw_crc16_modbus_loop crc [] = crc"
| "gw_crc16_modbus_loop crc (d # ds) = gw_crc16_modbus_loop ((crc16_shift ^^ 8) (crc XOR ucast d)) ds"

definition gw_crc16_modbus :: "u8 list \<Rightarrow> u16" where
  "gw_crc16_modbus data = gw_crc16_modbus_loop 0xFFFF data"

fun bl_crc32_loop :: "u32 \<Rightarrow> u8 list \<Rightarrow> u32" where
  "bl_crc32_loop crc [] = crc"
| "bl_crc32_loop crc (d # ds) = bl_crc32_loop ((crc32_shift ^^ 8) (crc XOR ucast d)) ds"

definition bl_crc32 :: "u8 list \<Rightarrow> u32" where
  "bl_crc32 data = NOT (bl_crc32_loop 0xFFFFFFFF data)"

fun ota_crc32_loop :: "u32 \<Rightarrow> u8 list \<Rightarrow> u32" where
  "ota_crc32_loop crc [] = crc"
| "ota_crc32_loop crc (d # ds) = ota_crc32_loop ((crc32_shift ^^ 8) (crc XOR ucast d)) ds"

definition ota_crc32 :: "u8 list \<Rightarrow> u32" where
  "ota_crc32 data = NOT (ota_crc32_loop 0xFFFFFFFF data)"

fun storage_crc32_loop :: "u32 \<Rightarrow> u8 list \<Rightarrow> u32" where
  "storage_crc32_loop crc [] = crc"
| "storage_crc32_loop crc (d # ds) = storage_crc32_loop ((crc32_shift ^^ 8) (crc XOR ucast d)) ds"

definition storage_crc32 :: "u8 list \<Rightarrow> u32" where
  "storage_crc32 data = NOT (storage_crc32_loop 0xFFFFFFFF data)"

fun fault_crc32_loop :: "u32 \<Rightarrow> u8 list \<Rightarrow> u32" where
  "fault_crc32_loop crc [] = crc"
| "fault_crc32_loop crc (d # ds) = fault_crc32_loop ((crc32_shift ^^ 8) (crc XOR ucast d)) ds"

definition fault_crc32 :: "u8 list \<Rightarrow> u32" where
  "fault_crc32 data = NOT (fault_crc32_loop 0xFFFFFFFF data)"

section \<open>What a reflected CRC detects\<close>

text \<open>
  The step of a reflected CRC is injective, because its polynomial has the top bit set and the
  bit that falls out can be read back from the result, and it is a plain shift on words whose low
  bit is clear. From these two facts, a run over equally long data that differs in one byte, or
  in two neighbouring bytes, never ends in the same register.
\<close>

locale reflected_crc =
  fixes shift :: "'a::len word \<Rightarrow> 'a word"
  assumes wide: "16 \<le> LENGTH('a)"
    and shift_inj: "shift x = shift y \<Longrightarrow> x = y"
    and shift_low_clear: "even y \<Longrightarrow> shift (x XOR y) = shift x XOR drop_bit 1 y"
begin

definition feed :: "'a word \<Rightarrow> u8 \<Rightarrow> 'a word" where
  "feed crc d = (shift ^^ 8) (crc XOR ucast d)"

lemma shifts_inj: "(shift ^^ n) x = (shift ^^ n) y \<Longrightarrow> x = y"
  by (induction n) (auto dest: shift_inj)

lemma shifts_low_clear:
  "(\<And>i. i < n \<Longrightarrow> \<not> bit y i) \<Longrightarrow> (shift ^^ n) (x XOR y) = (shift ^^ n) x XOR drop_bit n y"
proof (induction n)
  case (Suc n)
  have "(shift ^^ n) (x XOR y) = (shift ^^ n) x XOR drop_bit n y"
    using Suc by simp
  moreover have "even (drop_bit n y)"
    using Suc.prems [of n] by (simp add: even_drop_bit_iff_not_bit)
  ultimately show ?case
    by (simp add: shift_low_clear)
qed simp

lemma byte_in: "ucast (d::u8) = (ucast e :: 'a word) \<longleftrightarrow> d = e"
  using wide by (simp add: ucast_u8_inject)

lemma feed_state_inj: "feed c d = feed c' d \<Longrightarrow> c = c'"
  by (auto simp: feed_def dest!: shifts_inj)

lemma feed_byte_inj: "feed c d = feed c e \<Longrightarrow> d = e"
  by (auto simp: feed_def byte_in dest!: shifts_inj)

lemma foldl_feed_inj: "foldl feed c xs = foldl feed c' xs \<Longrightarrow> c = c'"
  by (induction xs arbitrary: c c') (auto dest: feed_state_inj)

theorem single_byte_detected:
  assumes "d \<noteq> e"
  shows "foldl feed c (xs @ d # ys) \<noteq> foldl feed c (xs @ e # ys)"
  using assms by (auto dest!: foldl_feed_inj feed_byte_inj)

text \<open>Two bytes fed one after the other are the same as sixteen steps over their packed value.\<close>

lemma feed_two: "feed (feed c d) e = (shift ^^ 16) (c XOR (ucast d XOR push_bit 8 (ucast e)))"
proof -
  let ?y = "push_bit 8 (ucast e) :: 'a word"
  have "drop_bit 8 ?y = ucast e"
    using wide by (intro bit_word_eqI) (auto simp: bit_simps dest: bit_u8_lt)
  moreover have "(shift ^^ 8) ((c XOR ucast d) XOR ?y) = (shift ^^ 8) (c XOR ucast d) XOR drop_bit 8 ?y"
    by (rule shifts_low_clear) (simp add: bit_simps)
  ultimately have "(shift ^^ 8) (c XOR ucast d) XOR ucast e = (shift ^^ 8) (c XOR (ucast d XOR ?y))"
    by (simp add: xor.assoc)
  then have "feed (feed c d) e = (shift ^^ 8) ((shift ^^ 8) (c XOR (ucast d XOR ?y)))"
    by (simp add: feed_def)
  also have "\<dots> = (shift ^^ (8 + 8)) (c XOR (ucast d XOR ?y))"
    by (simp only: funpow_add o_apply)
  finally show ?thesis by simp
qed

lemma packed_inj:
  assumes "ucast (d::u8) XOR push_bit 8 (ucast (e::u8)) = (ucast d' XOR push_bit 8 (ucast e') :: 'a word)"
  shows "d = d' \<and> e = e'"
proof -
  let ?w = "\<lambda>d e. ucast (d::u8) XOR push_bit 8 (ucast (e::u8)) :: 'a word"
  have low: "ucast (?w d e) = d" for d e :: u8
    using wide by (intro bit_word_eqI) (auto simp: bit_simps)
  have high: "ucast (drop_bit 8 (?w d e)) = e" for d e :: u8
    using wide by (intro bit_word_eqI) (auto simp: bit_simps)
  show ?thesis
    using low [of d e] low [of d' e'] high [of d e] high [of d' e'] assms by metis
qed

theorem two_bytes_detected:
  assumes "(d, e) \<noteq> (d', e')"
  shows "foldl feed c (xs @ d # e # ys) \<noteq> foldl feed c (xs @ d' # e' # ys)"
proof
  assume "foldl feed c (xs @ d # e # ys) = foldl feed c (xs @ d' # e' # ys)"
  then have "feed (feed (foldl feed c xs) d) e = feed (feed (foldl feed c xs) d') e'"
    by (auto dest: foldl_feed_inj)
  then have "ucast d XOR push_bit 8 (ucast e) = (ucast d' XOR push_bit 8 (ucast e') :: 'a word)"
    by (auto simp: feed_two xor.assoc dest!: shifts_inj)
  then show False using assms packed_inj by blast
qed

end

text \<open>A register of 32 bits also tells any two values of four neighbouring bytes apart.\<close>

locale reflected_crc_wide = reflected_crc +
  assumes wide32: "32 \<le> LENGTH('a)"
begin

definition packed :: "u8 \<Rightarrow> u8 \<Rightarrow> 'a word" where
  "packed d e = ucast d XOR push_bit 8 (ucast e)"

lemma packed_small: "bit (packed d e) i \<Longrightarrow> i < 16"
  by (auto simp: packed_def bit_simps dest: bit_u8_lt)

lemma feed_four:
  "feed (feed (feed (feed c d) e) f) g = (shift ^^ 32) (c XOR (packed d e XOR push_bit 16 (packed f g)))"
proof -
  have "drop_bit 16 (push_bit 16 (packed f g)) = packed f g"
  proof (rule bit_word_eqI)
    fix n assume "n < LENGTH('a)"
    show "bit (drop_bit 16 (push_bit 16 (packed f g))) n = bit (packed f g) n"
      using wide32 packed_small [of f g n] by (auto simp: bit_push_bit_iff bit_drop_bit_eq)
  qed
  moreover have "(shift ^^ 16) ((c XOR packed d e) XOR push_bit 16 (packed f g)) =
      (shift ^^ 16) (c XOR packed d e) XOR drop_bit 16 (push_bit 16 (packed f g))"
    by (rule shifts_low_clear) (simp add: bit_simps)
  ultimately have "(shift ^^ 16) (c XOR packed d e) XOR packed f g = (shift ^^ 16) (c XOR (packed d e XOR push_bit 16 (packed f g)))"
    by (simp add: xor.assoc)
  then have "feed (feed (feed (feed c d) e) f) g = (shift ^^ 16) ((shift ^^ 16) (c XOR (packed d e XOR push_bit 16 (packed f g))))"
    by (simp add: feed_two packed_def)
  also have "\<dots> = (shift ^^ (16 + 16)) (c XOR (packed d e XOR push_bit 16 (packed f g)))"
    by (simp only: funpow_add o_apply)
  finally show ?thesis by simp
qed

lemma packed_four_inj:
  assumes "packed d e XOR push_bit 16 (packed f g) = packed d' e' XOR push_bit 16 (packed f' g')"
  shows "d = d' \<and> e = e' \<and> f = f' \<and> g = g'"
proof -
  have b: "bit (packed d e XOR push_bit 16 (packed f g)) i = (if i < 16 then bit (packed d e) i else bit (packed f g) (i - 16))"
    if "i < 32" for d e f g i
    using that wide32 packed_small [of d e i] by (auto simp: bit_xor_iff bit_push_bit_iff)
  have "packed d e = packed d' e'"
  proof (rule bit_word_eqI)
    fix i assume "i < LENGTH('a)"
    show "bit (packed d e) i = bit (packed d' e') i"
    proof (cases "i < 16")
      case True
      then show ?thesis using b [of i d e f g] b [of i d' e' f' g'] assms by simp
    qed (use packed_small in blast)
  qed
  moreover have "packed f g = packed f' g'"
  proof (rule bit_word_eqI)
    fix i assume "i < LENGTH('a)"
    show "bit (packed f g) i = bit (packed f' g') i"
    proof (cases "i < 16")
      case True
      then show ?thesis using b [of "i + 16" d e f g] b [of "i + 16" d' e' f' g'] assms by simp
    qed (use packed_small in blast)
  qed
  ultimately show ?thesis using packed_inj unfolding packed_def by blast
qed

theorem four_bytes_detected:
  assumes "[d, e, f, g] \<noteq> [d', e', f', g']"
  shows "foldl feed c (xs @ [d, e, f, g] @ ys) \<noteq> foldl feed c (xs @ [d', e', f', g'] @ ys)"
proof
  assume "foldl feed c (xs @ [d, e, f, g] @ ys) = foldl feed c (xs @ [d', e', f', g'] @ ys)"
  then have "feed (feed (feed (feed (foldl feed c xs) d) e) f) g = feed (feed (feed (feed (foldl feed c xs) d') e') f') g'"
    by (auto dest: foldl_feed_inj)
  then have "packed d e XOR push_bit 16 (packed f g) = packed d' e' XOR push_bit 16 (packed f' g')"
    by (auto simp: feed_four dest!: shifts_inj)
  then show False using assms packed_four_inj by blast
qed

end

section \<open>Both polynomials are reflected CRCs\<close>

lemma crc_low_bit: "(x AND 1 \<noteq> 0) = odd (x :: 'a::len word)"
  by (simp add: and_one_eq mod2_eq_if)

lemma crc16_shift_odd: "crc16_shift x = (if odd x then drop_bit 1 x XOR 0xA001 else drop_bit 1 x)"
  by (simp add: crc16_shift_def crc_low_bit)

lemma crc32_shift_odd: "crc32_shift x = (if odd x then drop_bit 1 x XOR 0xEDB88320 else drop_bit 1 x)"
  by (simp add: crc32_shift_def crc_low_bit)

lemma crc16_shift_top: "bit (crc16_shift x) 15 = odd x"
proof -
  have "\<not> bit x 16" using bit_imp_le_length [of x 16] by auto
  then show ?thesis by (simp add: crc16_shift_odd bit_xor_iff bit_drop_bit_eq)
qed

lemma crc32_shift_top: "bit (crc32_shift x) 31 = odd x"
proof -
  have "\<not> bit x 32" using bit_imp_le_length [of x 32] by auto
  then show ?thesis by (simp add: crc32_shift_odd bit_xor_iff bit_drop_bit_eq)
qed

interpretation crc16: reflected_crc crc16_shift
proof unfold_locales
  show "16 \<le> LENGTH(16)" by simp
next
  fix x y assume eq: "crc16_shift x = crc16_shift y"
  then have o: "odd x = odd y" by (metis crc16_shift_top)
  with eq have "drop_bit 1 x = drop_bit 1 y" by (auto simp: crc16_shift_odd split: if_splits)
  then show "x = y" using o by (rule word_half_eqI)
next
  fix x y :: u16 assume "even y"
  then show "crc16_shift (x XOR y) = crc16_shift x XOR drop_bit 1 y"
    by (simp add: crc16_shift_odd even_xor_iff drop_bit_xor xor.assoc xor.commute xor.left_commute)
qed

interpretation crc32: reflected_crc crc32_shift
proof unfold_locales
  show "16 \<le> LENGTH(32)" by simp
next
  fix x y assume eq: "crc32_shift x = crc32_shift y"
  then have o: "odd x = odd y" by (metis crc32_shift_top)
  with eq have "drop_bit 1 x = drop_bit 1 y" by (auto simp: crc32_shift_odd split: if_splits)
  then show "x = y" using o by (rule word_half_eqI)
next
  fix x y :: u32 assume "even y"
  then show "crc32_shift (x XOR y) = crc32_shift x XOR drop_bit 1 y"
    by (simp add: crc32_shift_odd even_xor_iff drop_bit_xor xor.assoc xor.commute xor.left_commute)
qed

interpretation crc32_wide: reflected_crc_wide crc32_shift
  by unfold_locales simp

lemma crc_loops_eq_feed:
  "bl_crc16_modbus_loop c xs = foldl crc16.feed c xs"
  "gw_crc16_modbus_loop c xs = foldl crc16.feed c xs"
  "bl_crc32_loop r xs = foldl crc32.feed r xs"
  "ota_crc32_loop r xs = foldl crc32.feed r xs"
  "storage_crc32_loop r xs = foldl crc32.feed r xs"
  "fault_crc32_loop r xs = foldl crc32.feed r xs"
  by (induction xs arbitrary: c r) (simp_all add: crc16.feed_def crc32.feed_def)

lemmas crc_defs =
  bl_crc16_modbus_def gw_crc16_modbus_def bl_crc32_def ota_crc32_def storage_crc32_def fault_crc32_def

lemma gw_crc16_eq_bl: "gw_crc16_modbus = bl_crc16_modbus"
  by (rule ext) (simp add: crc_defs crc_loops_eq_feed)

lemma ota_crc32_eq_bl: "ota_crc32 = bl_crc32"
  by (rule ext) (simp add: crc_defs crc_loops_eq_feed)

lemma storage_crc32_eq_bl: "storage_crc32 = bl_crc32"
  by (rule ext) (simp add: crc_defs crc_loops_eq_feed)

lemma fault_crc32_eq_bl: "fault_crc32 = bl_crc32"
  by (rule ext) (simp add: crc_defs crc_loops_eq_feed)

lemma bl_crc16_two_bytes:
  "(d, e) \<noteq> (d', e') \<Longrightarrow> bl_crc16_modbus (xs @ d # e # ys) \<noteq> bl_crc16_modbus (xs @ d' # e' # ys)"
  using crc16.two_bytes_detected [of d e d' e'] by (simp add: crc_defs crc_loops_eq_feed)

lemma bl_crc16_single_byte:
  "d \<noteq> e \<Longrightarrow> bl_crc16_modbus (xs @ d # ys) \<noteq> bl_crc16_modbus (xs @ e # ys)"
  using crc16.single_byte_detected [of d e] by (simp add: crc_defs crc_loops_eq_feed)

lemma bl_crc32_two_bytes:
  "(d, e) \<noteq> (d', e') \<Longrightarrow> bl_crc32 (xs @ d # e # ys) \<noteq> bl_crc32 (xs @ d' # e' # ys)"
  using crc32.two_bytes_detected [of d e d' e']
  by (simp add: crc_defs crc_loops_eq_feed)

lemma bl_crc32_single_byte:
  "d \<noteq> e \<Longrightarrow> bl_crc32 (xs @ d # ys) \<noteq> bl_crc32 (xs @ e # ys)"
  using crc32.single_byte_detected [of d e] by (simp add: crc_defs crc_loops_eq_feed)

section \<open>Evaluation\<close>

text \<open>Eight steps unrolled; with \<open>crc16_shift_odd\<close> and \<open>crc32_shift_odd\<close> the simplifier
  computes a checksum of literal bytes.\<close>

lemma eight_steps: "(f ^^ 8) x = f (f (f (f (f (f (f (f x)))))))"
  by (simp add: eval_nat_numeral)

lemmas crc_eval = crc_defs crc16_shift_odd crc32_shift_odd eight_steps

text \<open>The check values every implementation of these two codes is tested with:
  the digits \<open>123456789\<close> give \<open>0x4B37\<close> and \<open>0xCBF43926\<close>.\<close>

lemma crc16_check_value: "bl_crc16_modbus [0x31,0x32,0x33,0x34,0x35,0x36,0x37,0x38,0x39] = 0x4B37"
  by (simp add: crc_eval)

lemma crc32_check_value: "bl_crc32 [0x31,0x32,0x33,0x34,0x35,0x36,0x37,0x38,0x39] = 0xCBF43926"
  by (simp add: crc_eval)

lemma fault_crc32_word:
  assumes "v \<noteq> w"
  shows "fault_crc32 (xs @ le32 v @ ys) \<noteq> fault_crc32 (xs @ le32 w @ ys)"
proof -
  have "le32 v \<noteq> le32 w" using assms by (metis le32_inject)
  then show ?thesis using crc32_wide.four_bytes_detected unfolding le32_def by (simp add: crc_defs crc_loops_eq_feed)
qed

end
