(* ===== verification/Frame.thy ===== *)
theory Frame
  imports Checksum
begin

text \<open>
  The wire format that the bootloader, the gateway task and the ESP32 adapter share: the two sync
  bytes \<open>AA 55\<close>, a length byte counting the type and the payload, the type, the payload, and a
  CRC-16 over everything from the length byte on, low byte first. Both senders and both receivers
  are proved against this one description; the laws they need of their checksum are a locale.
\<close>

definition frame_body :: "u8 \<Rightarrow> u8 list \<Rightarrow> u8 list" where
  "frame_body t p = (of_nat (length p) + 1) # t # p"

definition frame_bytes :: "(u8 list \<Rightarrow> u16) \<Rightarrow> u8 \<Rightarrow> u8 list \<Rightarrow> u8 list" where
  "frame_bytes crc t p = 0xAA # 0x55 # frame_body t p @ le16 (crc (frame_body t p))"

lemma length_frame_bytes [simp]: "length (frame_bytes crc t p) = length p + 6"
  by (simp add: frame_bytes_def frame_body_def)

lemma unat_wire_len [simp]: "n < 255 \<Longrightarrow> unat (of_nat n + 1 :: u8) = n + 1"
  using unat_of_nat_lt [of "n + 1", where 'a = 8] by (simp add: add.commute)

lemma wire_len_eq: "n < 256 \<Longrightarrow> (of_nat n + 1 :: u8) - 1 = of_nat n"
  by simp

lemma wire_len_nonzero: "n < 255 \<Longrightarrow> (of_nat n + 1 :: u8) \<noteq> 0"
  using unat_wire_len [of n] by (metis add_is_0 unat_0 zero_neq_one)

text \<open>A checksum that no change of two neighbouring bytes leaves alone, and what it does for frames.\<close>

locale frame_crc =
  fixes crc :: "u8 list \<Rightarrow> u16"
  assumes two_bytes: "(d, e) \<noteq> (d', e') \<Longrightarrow> crc (xs @ d # e # ys) \<noteq> crc (xs @ d' # e' # ys)"
begin

lemma one_byte:
  assumes "d \<noteq> e" "xs @ ys \<noteq> []"
  shows "crc (xs @ d # ys) \<noteq> crc (xs @ e # ys)"
proof (cases ys)
  case Nil
  then obtain zs z where "xs = zs @ [z]" using assms(2) by (metis append_Nil2 rev_exhaust)
  then show ?thesis using Nil assms(1) two_bytes [of z d z e zs "[]"] by simp
next
  case (Cons y zs)
  then show ?thesis using assms(1) two_bytes [of d y e y xs zs] by simp
qed

lemma frame_bytes_inject:
  assumes "frame_bytes crc t p = frame_bytes crc t' p'"
  shows "t = t' \<and> p = p'"
proof -
  have "length p = length p'"
    using arg_cong [OF assms, of length] by simp
  then show ?thesis using assms by (simp add: frame_bytes_def frame_body_def)
qed

text \<open>The checksum field of a frame is wrong for a body in which two neighbouring bytes changed.\<close>

lemma damage_detected:
  assumes "frame_body t p = xs @ d # e # ys" "(d, e) \<noteq> (d', e')"
  shows "crc (xs @ d' # e' # ys) \<noteq> crc (frame_body t p)"
  using two_bytes [OF assms(2), of xs ys] assms(1) by metis

end

interpretation bl_wire: frame_crc bl_crc16_modbus
  by unfold_locales (rule bl_crc16_two_bytes)

interpretation gw_wire: frame_crc gw_crc16_modbus
  by unfold_locales (simp only: gw_crc16_eq_bl, rule bl_crc16_two_bytes)

end
