(* ===== verification/Gateway_Uart.thy ===== *)
theory Gateway_Uart
  imports Ring Frame
begin

text \<open>
  The gateway's side of the serial link (\<open>1_App/app_gateway.c\<close>): the receive ring that the interrupt
  fills from the circular DMA buffer, the frame parser that the task runs over it, and the frame
  sender. The parser's static buffer is the list of its valid bytes; the checksum is the gateway's own
  copy of the CRC-16.
\<close>

section \<open>The receive path\<close>

record gw_uart =
  gw_rx_ring :: "u8 list"
  gw_rx_head :: nat
  gw_rx_tail :: nat
  gw_rx_dma_buf :: "u8 list"
  gw_rx_dma_last_pos :: nat
  gw_rx_dma_event_count :: u32
  gw_rx_ring_overflow_count :: u32
  gw_rx_dma_error_count :: u32

definition GW_RX_RING_SIZE :: nat where "GW_RX_RING_SIZE = 512"
definition GW_UART_RX_DMA_BUFFER_SIZE :: nat where "GW_UART_RX_DMA_BUFFER_SIZE = 256"
definition GW_FRAME_BUF_SIZE :: nat where "GW_FRAME_BUF_SIZE = 128"
definition GW_TX_FRAME_MAX_SIZE :: nat where "GW_TX_FRAME_MAX_SIZE = 96"

lemmas gw_sizes [simp] = GW_RX_RING_SIZE_def GW_UART_RX_DMA_BUFFER_SIZE_def GW_FRAME_BUF_SIZE_def
  GW_TX_FRAME_MAX_SIZE_def

definition gw_uart_rx_ring_push_isr :: "u8 \<Rightarrow> gw_uart \<Rightarrow> gw_uart" where
  "gw_uart_rx_ring_push_isr byte s =
     (let nxt = (gw_rx_head s + 1) mod GW_RX_RING_SIZE
      in if nxt = gw_rx_tail s
         then s\<lparr>gw_rx_ring_overflow_count := gw_rx_ring_overflow_count s + 1\<rparr>
         else s\<lparr>gw_rx_ring := (gw_rx_ring s)[gw_rx_head s := byte], gw_rx_head := nxt\<rparr>)"

definition gw_uart_dma_consume_step :: "gw_uart \<Rightarrow> gw_uart" where
  "gw_uart_dma_consume_step s =
     (let s1 = gw_uart_rx_ring_push_isr (gw_rx_dma_buf s ! gw_rx_dma_last_pos s) s;
          p = gw_rx_dma_last_pos s1 + 1
      in s1\<lparr>gw_rx_dma_last_pos := (if p \<ge> GW_UART_RX_DMA_BUFFER_SIZE then 0 else p)\<rparr>)"

partial_function (option) gw_uart_dma_consume_to :: "nat \<Rightarrow> gw_uart \<Rightarrow> gw_uart option" where
  "gw_uart_dma_consume_to pos s =
     (if gw_rx_dma_last_pos s \<noteq> pos then gw_uart_dma_consume_to pos (gw_uart_dma_consume_step s) else Some s)"

text \<open>The callback of the vendor's driver, with the position it reports; the driver calls it at every
  idle line and when the buffer is half and completely full. Its result is \<open>None\<close> when the copying
  loop does not end.\<close>

definition HAL_UARTEx_RxEventCallback :: "bool \<Rightarrow> nat \<Rightarrow> gw_uart \<Rightarrow> gw_uart option" where
  "HAL_UARTEx_RxEventCallback is_gw_uart sz s =
     (let pos = sz in
      if \<not> is_gw_uart then Some s
      else
        let pos1 = (if pos > GW_UART_RX_DMA_BUFFER_SIZE then GW_UART_RX_DMA_BUFFER_SIZE else pos)
        in gw_uart_dma_consume_to pos1 (s\<lparr>gw_rx_dma_event_count := gw_rx_dma_event_count s + 1\<rparr>))"

definition gw_uart_dma_rx_start :: "hal_status \<Rightarrow> gw_uart \<Rightarrow> bool \<times> gw_uart" where
  "gw_uart_dma_rx_start st s = (st = HAL_OK, s\<lparr>gw_rx_dma_last_pos := 0\<rparr>)"

definition gw_uart_error_callback :: "bool \<Rightarrow> hal_status \<Rightarrow> gw_uart \<Rightarrow> gw_uart" where
  "gw_uart_error_callback is_gw_uart st s =
     (if \<not> is_gw_uart then s
      else snd (gw_uart_dma_rx_start st (s\<lparr>gw_rx_dma_error_count := gw_rx_dma_error_count s + 1\<rparr>)))"

definition gw_uart_read_byte :: "gw_uart \<Rightarrow> (u8 \<times> gw_uart) option" where
  "gw_uart_read_byte s =
     (if gw_rx_tail s \<noteq> gw_rx_head s
      then Some (gw_rx_ring s ! gw_rx_tail s, s\<lparr>gw_rx_tail := (gw_rx_tail s + 1) mod GW_RX_RING_SIZE\<rparr>)
      else None)"

section \<open>The parser\<close>

text \<open>The loop over the bytes received so far: the frames that it hands to the dispatcher, in order,
  and the bytes that it keeps.\<close>

function gw_parse :: "u8 list \<Rightarrow> (u8 \<times> u8 list) list \<times> u8 list" where
  "gw_parse buf =
     (if length buf \<ge> 5
      then if buf ! 0 \<noteq> 0xAA \<or> buf ! 1 \<noteq> 0x55 then gw_parse (drop 1 buf)
           else
             let wire_len = unat (buf ! 2)
             in if wire_len < 1 \<or> wire_len > GW_FRAME_BUF_SIZE - 5 then gw_parse (drop 1 buf)
                else
                  let total_len = 2 + 1 + wire_len + 2
                  in if length buf < total_len then ([], buf)
                     else
                       let wire_crc = un16 (buf ! (total_len - 2)) (buf ! (total_len - 1));
                           calc_crc = gw_crc16_modbus (take (wire_len + 1) (drop 2 buf));
                           (fs, rest) = gw_parse (drop total_len buf)
                       in ((if wire_crc = calc_crc then [(buf ! 3, take (wire_len - 1) (drop 4 buf))] else []) @ fs,
                           rest)
      else ([], buf))"
  by pat_completeness auto
termination
  by (relation "measure length") auto

declare gw_parse.simps [simp del]

definition gw_process_rx_byte :: "u8 \<Rightarrow> u8 list \<Rightarrow> (u8 \<times> u8 list) list \<times> u8 list" where
  "gw_process_rx_byte byte buf =
     (let buf1 = (if length buf \<ge> GW_FRAME_BUF_SIZE then [] else buf) in gw_parse (buf1 @ [byte]))"

text \<open>The task's loop over a sequence of received bytes.\<close>

fun gw_feed :: "u8 list \<Rightarrow> u8 list \<Rightarrow> (u8 \<times> u8 list) list \<times> u8 list" where
  "gw_feed [] buf = ([], buf)"
| "gw_feed (b # bs) buf =
     (let (fs, buf1) = gw_process_rx_byte b buf; (fs', buf2) = gw_feed bs buf1 in (fs @ fs', buf2))"

section \<open>The sender\<close>

text \<open>The bytes that \<open>gw_send_frame\<close> puts on the wire; \<open>None\<close> for a length that it refuses. The
  length of the frame body is computed in one byte, so a payload of 255 bytes passes as an empty one:
  the copy that follows would leave the buffer of 96 bytes.\<close>

datatype gw_tx = Tx_rejected | Tx_overflow | Tx_bytes "u8 list"

definition gw_send_frame :: "u8 \<Rightarrow> u8 list \<Rightarrow> gw_tx" where
  "gw_send_frame type payload =
     (let wire_len = (of_nat (length payload) :: u8) + 1
      in if wire_len > of_nat (GW_TX_FRAME_MAX_SIZE - 5) then Tx_rejected
         else
           let head = [0xAA, 0x55, wire_len, type] @ payload
           in if length head + 2 > GW_TX_FRAME_MAX_SIZE then Tx_overflow
              else Tx_bytes (head @ le16 (gw_crc16_modbus (take (unat wire_len + 1) (drop 2 head)))))"

section \<open>The receive ring is a queue that refuses bytes when full\<close>

definition gw_rx_inv :: "gw_uart \<Rightarrow> bool" where
  "gw_rx_inv s \<longleftrightarrow> length (gw_rx_ring s) = 512 \<and> gw_rx_head s < 512 \<and> gw_rx_tail s < 512 \<and>
     length (gw_rx_dma_buf s) = 256 \<and> gw_rx_dma_last_pos s < 256"

definition gw_rx_items :: "gw_uart \<Rightarrow> u8 list" where
  "gw_rx_items s = ring_items (gw_rx_ring s) (gw_rx_head s) (gw_rx_tail s)"

lemma gw_rx_push_spec:
  assumes "gw_rx_inv s"
  shows "gw_rx_inv (gw_uart_rx_ring_push_isr b s)"
    and "gw_rx_items (gw_uart_rx_ring_push_isr b s) =
      (if length (gw_rx_items s) = 511 then gw_rx_items s else gw_rx_items s @ [b])"
    and "gw_rx_ring_overflow_count (gw_uart_rx_ring_push_isr b s) =
      gw_rx_ring_overflow_count s + (if length (gw_rx_items s) = 511 then 1 else 0)"
  using assms ring_full_iff [of "gw_rx_head s" 512 "gw_rx_tail s"]
    ring_items_push [of "gw_rx_head s" "gw_rx_ring s" "gw_rx_tail s" b]
  by (auto simp: gw_rx_inv_def gw_rx_items_def gw_uart_rx_ring_push_isr_def Let_def)

lemma gw_rx_push_same [simp]:
  "gw_rx_dma_buf (gw_uart_rx_ring_push_isr b s) = gw_rx_dma_buf s"
  "gw_rx_dma_last_pos (gw_uart_rx_ring_push_isr b s) = gw_rx_dma_last_pos s"
  "gw_rx_dma_event_count (gw_uart_rx_ring_push_isr b s) = gw_rx_dma_event_count s"
  by (simp_all add: gw_uart_rx_ring_push_isr_def Let_def)

interpretation gw_rx: fifo_drop_newest gw_rx_inv gw_rx_items "\<lambda>_. 511" gw_uart_rx_ring_push_isr gw_uart_read_byte
proof unfold_locales
  fix s assume s: "gw_rx_inv s"
  show "length (gw_rx_items s) \<le> 511"
    using s ring_count_less [of "gw_rx_head s" 512 "gw_rx_tail s"] by (auto simp: gw_rx_inv_def gw_rx_items_def)
  show "gw_uart_read_byte s = None" if "gw_rx_items s = []"
    using s that by (auto simp: gw_rx_inv_def gw_rx_items_def gw_uart_read_byte_def ring_items_Nil)
  show "\<exists>s'. gw_uart_read_byte s = Some (x, s') \<and> gw_rx_items s' = xs \<and> gw_rx_inv s' \<and> (511::nat) = 511"
    if "gw_rx_items s = x # xs" for x xs
  proof -
    have "gw_rx_head s \<noteq> gw_rx_tail s"
      using s that ring_items_Nil [of "gw_rx_head s" "gw_rx_ring s" "gw_rx_tail s"] by (auto simp: gw_rx_inv_def gw_rx_items_def)
    then show ?thesis
      using s that ring_items_pop [of "gw_rx_head s" "gw_rx_ring s" "gw_rx_tail s"]
      by (auto simp: gw_rx_inv_def gw_rx_items_def gw_uart_read_byte_def)
  qed
qed (simp_all add: gw_rx_push_spec)

text \<open>The bytes of the DMA buffer between the software's index and a position, going around.\<close>

definition gw_dma_items :: "nat \<Rightarrow> gw_uart \<Rightarrow> u8 list" where
  "gw_dma_items pos s = ring_items (gw_rx_dma_buf s) pos (gw_rx_dma_last_pos s)"

lemma gw_consume_step:
  assumes "gw_rx_inv s" "pos < 256" "gw_dma_items pos s = x # xs"
  shows "gw_rx_inv (gw_uart_dma_consume_step s)" "gw_dma_items pos (gw_uart_dma_consume_step s) = xs"
    "gw_rx_items (gw_uart_dma_consume_step s) = gw_rx_items (gw_uart_rx_ring_push_isr x s)"
    "gw_rx_ring_overflow_count (gw_uart_dma_consume_step s) = gw_rx_ring_overflow_count (gw_uart_rx_ring_push_isr x s)"
    "gw_rx_dma_event_count (gw_uart_dma_consume_step s) = gw_rx_dma_event_count s"
proof -
  let ?b = "gw_rx_dma_buf s" and ?l = "gw_rx_dma_last_pos s"
  have ne: "pos \<noteq> ?l" using assms ring_items_Nil [of pos ?b ?l] by (auto simp: gw_rx_inv_def gw_dma_items_def)
  have pop: "?b ! ?l = x" "ring_items ?b pos (Suc ?l mod 256) = xs"
    using assms ring_items_pop [of pos ?b ?l] ne by (auto simp: gw_rx_inv_def gw_dma_items_def)
  have nxt: "(if ?l + 1 \<ge> 256 then 0 else ?l + 1) = Suc ?l mod 256"
    using assms(1) by (auto simp: gw_rx_inv_def mod_if)
  have st: "gw_uart_dma_consume_step s = (gw_uart_rx_ring_push_isr x s)\<lparr>gw_rx_dma_last_pos := Suc ?l mod 256\<rparr>"
    unfolding gw_uart_dma_consume_step_def Let_def gw_rx_push_same pop(1) gw_sizes nxt ..
  show "gw_rx_inv (gw_uart_dma_consume_step s)" "gw_dma_items pos (gw_uart_dma_consume_step s) = xs"
    "gw_rx_items (gw_uart_dma_consume_step s) = gw_rx_items (gw_uart_rx_ring_push_isr x s)"
    "gw_rx_ring_overflow_count (gw_uart_dma_consume_step s) = gw_rx_ring_overflow_count (gw_uart_rx_ring_push_isr x s)"
    "gw_rx_dma_event_count (gw_uart_dma_consume_step s) = gw_rx_dma_event_count s"
    using gw_rx_push_spec(1) [OF assms(1), of x] pop(2) by (simp_all add: st gw_rx_inv_def gw_dma_items_def gw_rx_items_def)
qed

lemma gw_consume_to_spec:
  "gw_rx_inv s \<Longrightarrow> pos < 256 \<Longrightarrow> gw_dma_items pos s = xs \<Longrightarrow>
   \<exists>s'. gw_uart_dma_consume_to pos s = Some s' \<and> gw_rx_inv s' \<and> gw_rx_dma_last_pos s' = pos \<and>
     gw_rx_items s' = take 511 (gw_rx_items s @ xs) \<and>
     gw_rx_ring_overflow_count s' = gw_rx_ring_overflow_count s + of_nat (length (gw_rx_items s) + length xs - 511) \<and>
     gw_rx_dma_event_count s' = gw_rx_dma_event_count s"
proof (induction xs arbitrary: s)
  case Nil
  have "gw_rx_dma_last_pos s = pos"
    using Nil ring_items_Nil [of pos "gw_rx_dma_buf s" "gw_rx_dma_last_pos s"]
    by (auto simp: gw_rx_inv_def gw_dma_items_def)
  then show ?case using Nil gw_rx.bounded [OF Nil(1)] by (simp add: gw_uart_dma_consume_to.simps)
next
  case (Cons x xs)
  note st = gw_consume_step [OF Cons.prems]
  have ne: "gw_rx_dma_last_pos s \<noteq> pos"
    using Cons.prems by (auto simp: gw_rx_inv_def gw_dma_items_def ring_items_def ring_count_def)
  note b = gw_rx.bounded [OF Cons.prems(1)]
  obtain s' where s': "gw_uart_dma_consume_to pos (gw_uart_dma_consume_step s) = Some s'" "gw_rx_inv s'"
      "gw_rx_dma_last_pos s' = pos"
      "gw_rx_items s' = take 511 (gw_rx_items (gw_uart_rx_ring_push_isr x s) @ xs)"
      "gw_rx_ring_overflow_count s' = gw_rx_ring_overflow_count (gw_uart_rx_ring_push_isr x s) +
         of_nat (length (gw_rx_items (gw_uart_rx_ring_push_isr x s)) + length xs - 511)"
      "gw_rx_dma_event_count s' = gw_rx_dma_event_count s"
    using Cons.IH [OF st(1) Cons.prems(2) st(2)] st(3-5) by auto
  then show ?case
    using ne b gw_rx_push_spec(2,3) [OF Cons.prems(1), of x]
    by (cases "length (gw_rx_items s) = 511")
       (simp_all add: gw_uart_dma_consume_to.simps [of pos s])
qed

text \<open>An interrupt that reports a position inside the DMA buffer ends, and moves exactly the bytes
  that arrived since the last one into the ring, in order, as far as they fit; the ones that do not fit
  are counted. Reading the ring afterwards gives them back.\<close>

theorem gw_rx_event_correct:
  assumes "gw_rx_inv s" "sz < 256" "xs = gw_dma_items sz s"
  shows "\<exists>s'. HAL_UARTEx_RxEventCallback True sz s = Some s' \<and> gw_rx_inv s' \<and> gw_dma_items sz s' = [] \<and>
     gw_rx_items s' = take 511 (gw_rx_items s @ xs) \<and>
     fst (gw_rx.pops 511 s') = gw_rx_items s' \<and>
     gw_rx_ring_overflow_count s' = gw_rx_ring_overflow_count s + of_nat (length (gw_rx_items s) + length xs - 511)"
proof -
  let ?s = "s\<lparr>gw_rx_dma_event_count := gw_rx_dma_event_count s + 1\<rparr>"
  have i: "gw_rx_inv ?s" "gw_dma_items sz ?s = xs" "gw_rx_items ?s = gw_rx_items s"
    using assms by (simp_all add: gw_rx_inv_def gw_dma_items_def gw_rx_items_def)
  obtain s' where s': "gw_uart_dma_consume_to sz ?s = Some s'" "gw_rx_inv s'" "gw_rx_dma_last_pos s' = sz"
     "gw_rx_items s' = take 511 (gw_rx_items s @ xs)"
     "gw_rx_ring_overflow_count s' = gw_rx_ring_overflow_count s + of_nat (length (gw_rx_items s) + length xs - 511)"
    using gw_consume_to_spec [OF i(1) assms(2) i(2)] i(3) by auto
  then show ?thesis
    using assms(2) gw_rx.pops_all [OF s'(2), of 511] gw_rx.bounded [OF s'(2)]
    by (auto simp: HAL_UARTEx_RxEventCallback_def Let_def gw_dma_items_def ring_items_def ring_count_def)
qed

definition gw_uart_fresh :: gw_uart where
  "gw_uart_fresh = \<lparr>gw_rx_ring = replicate 512 0, gw_rx_head = 0, gw_rx_tail = 0,
     gw_rx_dma_buf = [0xAA, 0x55, 0x01] @ replicate 253 0, gw_rx_dma_last_pos = 0,
     gw_rx_dma_event_count = 0, gw_rx_ring_overflow_count = 0, gw_rx_dma_error_count = 0\<rparr>"

lemma gw_uart_fresh_inv: "gw_rx_inv gw_uart_fresh" "gw_rx_items gw_uart_fresh = []"
  "gw_dma_items 3 gw_uart_fresh = [0xAA, 0x55, 0x01]"
  by (simp_all add: gw_rx_inv_def gw_uart_fresh_def gw_rx_items_def gw_dma_items_def ring_items_def ring_count_def upt_rec)

theorem gw_rx_event_correct_witness:
  "\<exists>s'. HAL_UARTEx_RxEventCallback True 3 gw_uart_fresh = Some s' \<and> gw_rx_items s' = [0xAA, 0x55, 0x01]"
  using gw_rx_event_correct [OF gw_uart_fresh_inv(1) _ refl, of 3] by (auto simp: gw_uart_fresh_inv)

text \<open>The driver also calls back when the DMA buffer has just been filled, and then reports the
  position 256. The running index wraps to 0 before it can take that value, so the copying loop, which
  runs inside the interrupt, never ends: for no state of the receiver does the callback return.\<close>

theorem gw_rx_full_buffer_hangs:
  assumes "gw_rx_inv s" "256 \<le> sz"
  shows "HAL_UARTEx_RxEventCallback True sz s = None"
proof -
  have never: "pos = 256 \<longrightarrow> \<not> gw_rx_dma_last_pos s < 256" if "gw_uart_dma_consume_to pos s = Some s'" for pos s s'
  proof (rule gw_uart_dma_consume_to.raw_induct [OF _ that, of "\<lambda>pos s s'. pos = 256 \<longrightarrow> \<not> gw_rx_dma_last_pos s < 256"])
    fix f pos s s'
    assume ih: "\<And>pos s s'. f pos s = Some s' \<Longrightarrow> pos = 256 \<longrightarrow> \<not> gw_rx_dma_last_pos s < 256"
      and f: "(if gw_rx_dma_last_pos s \<noteq> pos then f pos (gw_uart_dma_consume_step s) else Some s) = Some s'"
    have "gw_rx_dma_last_pos (gw_uart_dma_consume_step s) < 256"
      by (simp add: gw_uart_dma_consume_step_def Let_def)
    then show "pos = 256 \<longrightarrow> \<not> gw_rx_dma_last_pos s < 256"
      using f ih [of pos "gw_uart_dma_consume_step s" s'] by (auto split: if_splits)
  qed
  have "gw_rx_dma_last_pos (s\<lparr>gw_rx_dma_event_count := gw_rx_dma_event_count s + 1\<rparr>) < 256"
    using assms(1) by (simp add: gw_rx_inv_def)
  then have "gw_uart_dma_consume_to 256 (s\<lparr>gw_rx_dma_event_count := gw_rx_dma_event_count s + 1\<rparr>) = None"
    using never by (metis option.exhaust)
  then show ?thesis using assms(2) by (simp add: HAL_UARTEx_RxEventCallback_def Let_def)
qed

theorem gw_rx_full_buffer_hangs_witness: "HAL_UARTEx_RxEventCallback True 256 gw_uart_fresh = None"
  by (rule gw_rx_full_buffer_hangs [OF gw_uart_fresh_inv(1)]) simp

section \<open>The parser\<close>

text \<open>A buffer on which the parser waits for more bytes.\<close>

definition gw_waiting :: "u8 list \<Rightarrow> bool" where
  "gw_waiting buf \<longleftrightarrow> length buf < 5 \<or>
     buf ! 0 = 0xAA \<and> buf ! 1 = 0x55 \<and> 1 \<le> unat (buf ! 2) \<and> unat (buf ! 2) \<le> 123 \<and> length buf < unat (buf ! 2) + 5"

lemma gw_waiting_bound: "gw_waiting buf \<Longrightarrow> length buf \<le> 127"
  by (auto simp: gw_waiting_def)

lemma gw_parse_cases:
  obtains
    (waits) "gw_waiting buf" "gw_parse buf = ([], buf)"
  | (skips) "5 \<le> length buf" "\<not> (buf ! 0 = 0xAA \<and> buf ! 1 = 0x55 \<and> 1 \<le> unat (buf ! 2) \<and> unat (buf ! 2) \<le> 123)"
      "gw_parse buf = gw_parse (drop 1 buf)"
  | (takes) n fs where "n = 5 + unat (buf ! 2)" "n \<le> length buf" "6 \<le> n" "n \<le> 128" "buf ! 0 = 0xAA" "buf ! 1 = 0x55"
      "fs = (if un16 (buf ! (n - 2)) (buf ! (n - 1)) = gw_crc16_modbus (take (n - 4) (drop 2 buf))
             then [(buf ! 3, take (n - 6) (drop 4 buf))] else [])"
      "gw_parse buf = (fs @ fst (gw_parse (drop n buf)), snd (gw_parse (drop n buf)))"
proof -
  consider "length buf < 5"
    | "5 \<le> length buf" "\<not> (buf ! 0 = 0xAA \<and> buf ! 1 = 0x55 \<and> 1 \<le> unat (buf ! 2) \<and> unat (buf ! 2) \<le> 123)"
    | "5 \<le> length buf" "buf ! 0 = 0xAA" "buf ! 1 = 0x55" "1 \<le> unat (buf ! 2)" "unat (buf ! 2) \<le> 123"
        "length buf < unat (buf ! 2) + 5"
    | "buf ! 0 = 0xAA" "buf ! 1 = 0x55" "1 \<le> unat (buf ! 2)" "unat (buf ! 2) \<le> 123"
        "unat (buf ! 2) + 5 \<le> length buf"
    by linarith
  then show thesis
  proof cases
    case 1
    then show thesis using waits by (simp add: gw_waiting_def gw_parse.simps)
  next
    case 2
    moreover have "gw_parse buf = gw_parse (drop 1 buf)"
      using 2 by (subst gw_parse.simps) (auto simp: Let_def)
    ultimately show thesis by (rule skips)
  next
    case 3
    then show thesis using waits by (simp add: gw_waiting_def gw_parse.simps Let_def)
  next
    case 4
    have "5 + unat (buf ! 2) - 6 = unat (buf ! 2) - 1" by simp
    then show thesis
      using 4 takes [of "5 + unat (buf ! 2)"] by (simp add: gw_parse.simps [of buf] Let_def split_def)
  qed
qed

lemma gw_parse_waits: "gw_waiting buf \<Longrightarrow> gw_parse buf = ([], buf)"
  by (cases rule: gw_parse_cases [of buf]) (auto simp: gw_waiting_def)

lemma gw_parse_leaves_waiting: "gw_waiting (snd (gw_parse buf))"
proof (induction "length buf" arbitrary: buf rule: less_induct)
  case less
  show ?case
  proof (cases rule: gw_parse_cases [of buf])
    case skips
    then show ?thesis using less [of "drop 1 buf"] by (simp add: skips(3))
  next
    case (takes n fs)
    then show ?thesis using less [of "drop n buf"] by (simp add: takes(8))
  qed simp
qed

lemma gw_parse_append:
  "gw_parse (xs @ ys) = (fst (gw_parse xs) @ fst (gw_parse (snd (gw_parse xs) @ ys)), snd (gw_parse (snd (gw_parse xs) @ ys)))"
proof (induction "length xs" arbitrary: xs rule: less_induct)
  case less
  show ?case
  proof (cases rule: gw_parse_cases [of xs])
    case skips
    then have h: "(xs @ ys) ! 0 = xs ! 0" "(xs @ ys) ! 1 = xs ! 1" "(xs @ ys) ! 2 = xs ! 2" "drop 1 (xs @ ys) = drop 1 xs @ ys"
      by (auto simp: nth_append)
    have "gw_parse (xs @ ys) = gw_parse (drop 1 xs @ ys)"
      using skips(1,2) by (cases rule: gw_parse_cases [of "xs @ ys"]) (auto simp: gw_waiting_def h simp del: One_nat_def)
    then show ?thesis using less [of "drop 1 xs"] skips by simp
  next
    case (takes n fs)
    note outer = takes(3,7)
    have h: "(xs @ ys) ! i = xs ! i" if "i < n" for i using takes(2) that by (simp add: nth_append)
    have h': "take k (drop j (xs @ ys)) = take k (drop j xs)" if "k + j \<le> n" for k j
      using takes(2) that by simp
    have d: "drop n (xs @ ys) = drop n xs @ ys" using takes(2) by simp
    have n: "n = 5 + unat ((xs @ ys) ! 2)" using h [of 2] takes(1,3) by simp
    have "gw_parse (xs @ ys) = (fs @ fst (gw_parse (drop n xs @ ys)), snd (gw_parse (drop n xs @ ys)))"
    proof (cases rule: gw_parse_cases [of "xs @ ys"])
      case (takes n' fs')
      have "n' = n" using takes(1) n by simp
      then show ?thesis
        using takes(7,8) outer by (simp add: h h' d del: take_append drop_append One_nat_def)
    qed (use takes n h [of 0] h [of 1] in \<open>auto simp: gw_waiting_def\<close>)
    then show ?thesis using less [of "drop n xs"] takes by simp
  qed (simp_all add: gw_parse_waits)
qed

lemma gw_feed_parse: "gw_waiting buf \<Longrightarrow> gw_feed bs buf = gw_parse (buf @ bs)"
proof (induction bs arbitrary: buf)
  case Nil
  then show ?case by (simp add: gw_parse_waits)
next
  case (Cons b bs)
  have p: "gw_process_rx_byte b buf = gw_parse (buf @ [b])"
    using gw_waiting_bound [OF Cons.prems] by (simp add: gw_process_rx_byte_def)
  show ?case
    using Cons.IH [OF gw_parse_leaves_waiting, of "buf @ [b]"] gw_parse_append [of "buf @ [b]" bs]
    by (simp add: p split_def Let_def)
qed

text \<open>The parser does not depend on how the bytes arrive, and its buffer never overflows. Feeding a
  stream byte by byte delivers the same frames, and leaves the same rest, as parsing the whole stream
  at once, and also as parsing it in two pieces cut anywhere; between two bytes at most 127 of the 128
  cells are in use, so the guard that would empty a full buffer never acts.\<close>

theorem gw_feed_equals_parse:
  "gw_feed bs [] = gw_parse bs \<and> length (snd (gw_feed bs [])) \<le> 127 \<and>
   gw_feed (bs @ cs) [] =
     (fst (gw_feed bs []) @ fst (gw_feed cs (snd (gw_feed bs []))), snd (gw_feed cs (snd (gw_feed bs []))))"
proof -
  have e: "gw_feed xs [] = gw_parse xs" for xs by (simp add: gw_feed_parse gw_waiting_def)
  show ?thesis
    using gw_parse_append [of bs cs] gw_parse_leaves_waiting [of bs] gw_waiting_bound
    by (simp add: e gw_feed_parse)
qed

lemma frame_bytes_nth:
  "frame_bytes crc t p ! 0 = 0xAA" "frame_bytes crc t p ! 1 = 0x55" "frame_bytes crc t p ! 2 = of_nat (length p) + 1"
  "frame_bytes crc t p ! 3 = t"
  by (simp_all add: frame_bytes_def frame_body_def eval_nat_numeral)

lemma gw_parse_frame:
  assumes "length p \<le> 122"
  shows "gw_parse (frame_bytes gw_crc16_modbus t p @ ys) = ((t, p) # fst (gw_parse ys), snd (gw_parse ys))"
proof -
  let ?s = "frame_bytes gw_crc16_modbus t p @ ys" and ?c = "gw_crc16_modbus (frame_body t p)"
  have w: "unat (of_nat (length p) + 1 :: u8) = length p + 1" using assms by simp
  have s: "?s = [0xAA, 0x55, of_nat (length p) + 1, t] @ p @ le16 ?c @ ys"
    by (simp add: frame_bytes_def frame_body_def)
  have h: "?s ! 0 = 0xAA" "?s ! 1 = 0x55" "unat (?s ! 2) = length p + 1" "?s ! 3 = t"
    using w by (simp_all add: s eval_nat_numeral)
  have e: "5 + (length p + 1) = length p + 6" by simp
  have c: "un16 (?s ! (length p + 6 - 2)) (?s ! (length p + 6 - 1)) = ?c"
    by (simp add: s nth_append le16_def)
  have b: "take (length p + 6 - 4) (drop 2 ?s) = frame_body t p"
    by (simp add: s frame_body_def)
  have q: "take (length p + 6 - 6) (drop 4 ?s) = p" "drop (length p + 6) ?s = ys"
    by (simp add: s, simp)
  show ?thesis
  proof (cases rule: gw_parse_cases [of ?s])
    case waits
    then show ?thesis using h by (simp add: gw_waiting_def)
  next
    case skips
    then show ?thesis using h assms by simp
  next
    case (takes n fs)
    have "n = length p + 6" using takes(1) h(3) e by simp
    then show ?thesis using takes(7,8) c b q h(4) by simp
  qed
qed

text \<open>Bytes in which the two sync bytes never follow each other.\<close>

fun sync_free :: "u8 list \<Rightarrow> bool" where
  "sync_free (a # b # r) \<longleftrightarrow> \<not> (a = 0xAA \<and> b = 0x55) \<and> sync_free (b # r)"
| "sync_free _ \<longleftrightarrow> True"

lemma gw_parse_noise:
  "sync_free noise \<Longrightarrow> length p \<le> 122 \<Longrightarrow>
   gw_parse (noise @ frame_bytes gw_crc16_modbus t p @ ys) = gw_parse (frame_bytes gw_crc16_modbus t p @ ys)"
proof (induction noise)
  case (Cons a noise)
  let ?r = "frame_bytes gw_crc16_modbus t p @ ys"
  have "sync_free noise" using Cons.prems(1) by (cases noise) auto
  then have ih: "gw_parse (noise @ ?r) = gw_parse ?r" using Cons by simp
  have n: "\<not> (a = 0xAA \<and> (noise @ ?r) ! 0 = 0x55)"
    using Cons.prems(1) by (cases noise) (simp_all add: frame_bytes_def)
  have "gw_parse ((a # noise) @ ?r) = gw_parse (noise @ ?r)"
  proof (cases rule: gw_parse_cases [of "(a # noise) @ ?r"])
    case waits
    then show ?thesis using n by (auto simp: gw_waiting_def)
  next
    case (takes k fs)
    then show ?thesis using n by auto
  qed simp
  then show ?case using ih by simp
qed simp

text \<open>C29: every frame gets through. Frames with payloads of at most 122 bytes, each preceded by any noise
  that does not contain the sync pair (a stray first sync byte directly before a frame included), are
  delivered completely and in order, whatever follows them.\<close>

theorem gw_parser_roundtrip:
  assumes "\<forall>(n, t, p) \<in> set items. sync_free n \<and> length p \<le> 122"
  shows "gw_feed (concat (map (\<lambda>(n, t, p). n @ frame_bytes gw_crc16_modbus t p) items) @ rest) [] =
    (map snd items @ fst (gw_feed rest []), snd (gw_feed rest []))"
proof -
  have "gw_parse (concat (map (\<lambda>(n, t, p). n @ frame_bytes gw_crc16_modbus t p) items) @ rest) =
      (map snd items @ fst (gw_parse rest), snd (gw_parse rest))"
    using assms by (induction items) (auto simp: gw_parse_noise gw_parse_frame)
  then show ?thesis by (simp add: gw_feed_parse gw_waiting_def)
qed

theorem gw_parser_roundtrip_witness:
  "fst (gw_feed ([0xAA] @ frame_bytes gw_crc16_modbus 0x10 [1, 7, 0, 4] @ [0x55, 0x0D] @
     frame_bytes gw_crc16_modbus 0x06 [1, 9, 0, 0, 0]) []) = [(0x10, [1, 7, 0, 4]), (0x06, [1, 9, 0, 0, 0])]"
  using gw_parser_roundtrip [of "[([0xAA], 0x10, [1, 7, 0, 4]), ([0x55, 0x0D], 0x06, [1, 9, 0, 0, 0])]" "[]"]
  by simp

text \<open>A stream carries a sequence of frames when they can be found in it one behind the other.\<close>

fun carried :: "(u8 \<times> u8 list) list \<Rightarrow> u8 list \<Rightarrow> bool" where
  "carried [] s \<longleftrightarrow> True"
| "carried ((t, p) # fs) s \<longleftrightarrow>
     (\<exists>pre post. s = pre @ frame_bytes gw_crc16_modbus t p @ post \<and> length p \<le> 122 \<and> carried fs post)"

lemma carried_more: "carried fs s \<Longrightarrow> carried fs (xs @ s)"
  by (cases fs) (auto, metis append.assoc)

lemma carried_drop: "carried fs (drop n s) \<Longrightarrow> carried fs s"
  using carried_more [of fs "drop n s" "take n s"] by simp

lemma gw_frame_at:
  assumes "n = 5 + unat (buf ! 2)" "n \<le> length buf" "6 \<le> n" "n \<le> 128" "buf ! 0 = 0xAA" "buf ! 1 = 0x55"
    and "un16 (buf ! (n - 2)) (buf ! (n - 1)) = gw_crc16_modbus (take (n - 4) (drop 2 buf))"
  shows "take n buf = frame_bytes gw_crc16_modbus (buf ! 3) (take (n - 6) (drop 4 buf))"
proof -
  let ?p = "take (n - 6) (drop 4 buf)"
  have lp: "length ?p = n - 6" using assms(2) by simp
  have two: "take 2 (drop i buf) = [buf ! i, buf ! (i + 1)]" if "i + 1 < length buf" for i
    using that by (simp add: take_Suc_conv_app_nth eval_nat_numeral)
  have b4: "take 4 buf = [buf ! 0, buf ! 1, buf ! 2, buf ! 3]"
    using two [of 0] two [of 2] take_add [of 2 2 buf] assms(2,3) by simp
  have "Suc (n - 6) = unat (buf ! 2)" using assms(1,3) by simp
  then have "(of_nat (Suc (n - 6)) :: u8) = of_nat (unat (buf ! 2))" by (simp only:)
  then have w: "(of_nat (n - 6) :: u8) + 1 = buf ! 2" by (simp add: add.commute)
  have i: "Suc (n - 2) = n - Suc 0" using assms(3) by simp
  have e: "n - 4 = 2 + (n - 6)" "n = 4 + ((n - 6) + 2)" using assms(3) by simp_all
  have "take (n - 4) (drop 2 buf) = take 2 (drop 2 buf) @ ?p"
    unfolding e(1) take_add by simp
  then have body: "take (n - 4) (drop 2 buf) = frame_body (buf ! 3) ?p"
    using two [of 2] lp assms(2,3) w by (simp add: frame_body_def del: length_take)
  have "take n buf = take 4 buf @ ?p @ take 2 (drop (n - 2) buf)"
    using take_add [of 4 "n - 6 + 2" buf] take_add [of "n - 6" 2 "drop 4 buf"] e(2) assms(3) by simp
  also have "take 2 (drop (n - 2) buf) = le16 (gw_crc16_modbus (frame_body (buf ! 3) ?p))"
    using two [of "n - 2"] assms(2,3) i by (simp add: body [symmetric] le16_def flip: assms(7))
  finally show ?thesis
    using b4 assms(5,6) w lp by (simp add: frame_bytes_def frame_body_def del: length_take)
qed

lemma gw_parse_carried: "carried (fst (gw_parse buf)) buf"
proof (induction "length buf" arbitrary: buf rule: less_induct)
  case less
  show ?case
  proof (cases rule: gw_parse_cases [of buf])
    case skips
    then show ?thesis using less [of "drop 1 buf"] carried_drop [of _ 1 buf] by simp
  next
    case (takes n fs)
    have ih: "carried (fst (gw_parse (drop n buf))) (drop n buf)" using less [of "drop n buf"] takes by simp
    show ?thesis
    proof (cases "fs = []")
      case True
      then show ?thesis using ih takes(8) by (simp add: carried_drop)
    next
      case False
      then have c: "un16 (buf ! (n - 2)) (buf ! (n - 1)) = gw_crc16_modbus (take (n - 4) (drop 2 buf))"
        and fs: "fs = [(buf ! 3, take (n - 6) (drop 4 buf))]"
        using takes(7) by (auto split: if_splits)
      have b: "buf = [] @ frame_bytes gw_crc16_modbus (buf ! 3) (take (n - 6) (drop 4 buf)) @ drop n buf"
        using gw_frame_at [OF takes(1-6) c] by (metis append_Nil append_take_drop_id)
      have l: "length (take (n - 6) (drop 4 buf)) \<le> 122" using takes(2,4) by simp
      have h: "fst (gw_parse buf) = (buf ! 3, take (n - 6) (drop 4 buf)) # fst (gw_parse (drop n buf))"
        using takes(8) fs by simp
      show ?thesis unfolding h carried.simps using b l ih by blast
    qed
  qed simp
qed

text \<open>Nothing else gets through. Whatever bytes arrive, the frames delivered occur in the stream one
  behind the other, each as exactly its encoding with a correct checksum.\<close>

theorem gw_parser_sound:
  "carried (fst (gw_feed bs [])) bs"
  using gw_parse_carried by (simp add: gw_feed_parse gw_waiting_def)

section \<open>The sender\<close>

lemma gw_send_frame_fits:
  assumes "length p \<le> 90"
  shows "gw_send_frame t p = Tx_bytes (frame_bytes gw_crc16_modbus t p)"
proof -
  have l: "unat (of_nat (length p) + 1 :: u8) = length p + 1" using assms by simp
  then have "\<not> (of_nat (length p) + 1 :: u8) > of_nat (96 - 5)"
    using assms by (simp add: word_less_nat_alt)
  then show ?thesis using assms l by (simp add: gw_send_frame_def frame_bytes_def frame_body_def Let_def)
qed

lemma gw_send_frame_rejects:
  assumes "90 < length p" "length p < 255"
  shows "gw_send_frame t p = Tx_rejected"
proof -
  have "unat (of_nat (length p) + 1 :: u8) = length p + 1" using assms by simp
  then have "(of_nat (length p) + 1 :: u8) > of_nat (96 - 5)"
    using assms by (simp add: word_less_nat_alt)
  then show ?thesis by (simp add: gw_send_frame_def Let_def)
qed

text \<open>The length byte wraps for a payload of 255 bytes (no caller sends one).\<close>

lemma gw_send_frame_overflows: "length p = 255 \<Longrightarrow> gw_send_frame t p = Tx_overflow"
  by (simp add: gw_send_frame_def Let_def)

end
