(* ===== verification/Flash.thy ===== *)
theory Flash
  imports Prelude
begin

text \<open>
  The internal flash of the STM32F4 as the firmware sees it through the vendor's driver
  (\<open>stm32f4xx_hal_flash.c\<close>, \<open>stm32f4xx_hal_flash_ex.c\<close>), and the contract that every writer of
  the firmware relies on. The controller itself is the environment: what each wait for it reports
  (\<open>fl_wait\<close>), what a failed operation leaves behind (\<open>fl_junk\<close>), and what programming a cell does
  to its old content (\<open>fl_cell\<close>) are fields of the state that no operation changes; the only law
  about them that a theorem may assume is that an erased cell takes the value programmed.
\<close>

section \<open>The controller\<close>

record flash =
  fl_mem :: mem
  fl_locked :: bool
  fl_ops :: nat
  fl_wait :: "nat \<Rightarrow> hal_status"
  fl_junk :: "nat \<Rightarrow> u32 \<Rightarrow> u8"
  fl_cell :: "u8 \<Rightarrow> u8 \<Rightarrow> u8"

definition erased_cell_law :: "flash \<Rightarrow> bool" where
  "erased_cell_law f \<longleftrightarrow> (\<forall>v. fl_cell f 0xFF v = v)"

definition waits_ok :: "flash \<Rightarrow> bool" where
  "waits_ok f \<longleftrightarrow> (\<forall>k. fl_wait f k = HAL_OK)"

definition HAL_FLASH_Unlock :: "flash \<Rightarrow> flash" where
  "HAL_FLASH_Unlock f = f\<lparr>fl_locked := False\<rparr>"

definition HAL_FLASH_Lock :: "flash \<Rightarrow> flash" where
  "HAL_FLASH_Lock f = f\<lparr>fl_locked := True\<rparr>"

definition FLASH_WaitForLastOperation :: "flash \<Rightarrow> hal_status \<times> flash" where
  "FLASH_WaitForLastOperation f = (fl_wait f (fl_ops f), f\<lparr>fl_ops := fl_ops f + 1\<rparr>)"

fun put_cells :: "(u8 \<Rightarrow> u8 \<Rightarrow> u8) \<Rightarrow> u32 \<Rightarrow> u8 list \<Rightarrow> mem \<Rightarrow> mem" where
  "put_cells c a [] m = m"
| "put_cells c a (b # bs) m = put_cells c (a + 1) bs (m(a := c (m a) b))"

text \<open>A locked controller ignores the store.\<close>

definition fl_store :: "u32 \<Rightarrow> u8 list \<Rightarrow> flash \<Rightarrow> flash" where
  "fl_store a bs f = (if fl_locked f then f else f\<lparr>fl_mem := put_cells (fl_cell f) a bs (fl_mem f)\<rparr>)"

text \<open>After a failure the cells concerned hold anything.\<close>

definition fl_spoil :: "u32 \<Rightarrow> nat \<Rightarrow> flash \<Rightarrow> flash" where
  "fl_spoil a n f = f\<lparr>fl_mem := \<lambda>x. if in_range a n x then fl_junk f (fl_ops f) x else fl_mem f x\<rparr>"

datatype program_type = FLASH_TYPEPROGRAM_BYTE | FLASH_TYPEPROGRAM_HALFWORD | FLASH_TYPEPROGRAM_WORD

definition FLASH_Program_Byte :: "u32 \<Rightarrow> u32 \<Rightarrow> flash \<Rightarrow> flash" where
  "FLASH_Program_Byte Address Data f = fl_store Address [ucast Data] f"

definition FLASH_Program_HalfWord :: "u32 \<Rightarrow> u32 \<Rightarrow> flash \<Rightarrow> flash" where
  "FLASH_Program_HalfWord Address Data f = fl_store Address (le16 (ucast Data)) f"

definition FLASH_Program_Word :: "u32 \<Rightarrow> u32 \<Rightarrow> flash \<Rightarrow> flash" where
  "FLASH_Program_Word Address Data f = fl_store Address (le32 Data) f"

fun program_width :: "program_type \<Rightarrow> nat" where
  "program_width FLASH_TYPEPROGRAM_BYTE = 1"
| "program_width FLASH_TYPEPROGRAM_HALFWORD = 2"
| "program_width FLASH_TYPEPROGRAM_WORD = 4"

definition HAL_FLASH_Program :: "program_type \<Rightarrow> u32 \<Rightarrow> u32 \<Rightarrow> flash \<Rightarrow> hal_status \<times> flash" where
  "HAL_FLASH_Program TypeProgram Address Data f =
     (let (status, f1) = FLASH_WaitForLastOperation f
      in if status = HAL_OK
         then
           let f2 = (case TypeProgram of
                       FLASH_TYPEPROGRAM_BYTE \<Rightarrow> FLASH_Program_Byte Address Data f1
                     | FLASH_TYPEPROGRAM_HALFWORD \<Rightarrow> FLASH_Program_HalfWord Address Data f1
                     | FLASH_TYPEPROGRAM_WORD \<Rightarrow> FLASH_Program_Word Address Data f1);
               (status1, f3) = FLASH_WaitForLastOperation f2
           in (status1, if status1 = HAL_OK then f3 else fl_spoil Address (program_width TypeProgram) f3)
         else (status, f1))"

text \<open>The sectors: four of 16 KB, one of 64 KB, then 128 KB each.\<close>

definition sector_base :: "nat \<Rightarrow> u32" where
  "sector_base s =
     (if s < 4 then 0x08000000 + of_nat s * 0x4000
      else if s = 4 then 0x08010000 else 0x08020000 + of_nat (s - 5) * 0x20000)"

definition sector_size :: "nat \<Rightarrow> nat" where
  "sector_size s = (if s < 4 then 0x4000 else if s = 4 then 0x10000 else 0x20000)"

definition FLASH_Erase_Sector :: "nat \<Rightarrow> flash \<Rightarrow> flash" where
  "FLASH_Erase_Sector s f =
     (if fl_locked f then f
      else f\<lparr>fl_mem := \<lambda>x. if in_range (sector_base s) (sector_size s) x then 0xFF else fl_mem f x\<rparr>)"

fun erase_sectors :: "nat list \<Rightarrow> flash \<Rightarrow> hal_status \<times> flash" where
  "erase_sectors [] f = (HAL_OK, f)"
| "erase_sectors (s # ss) f =
     (let (status, f2) = FLASH_WaitForLastOperation (FLASH_Erase_Sector s f)
      in if status \<noteq> HAL_OK then (status, fl_spoil (sector_base s) (sector_size s) f2)
         else erase_sectors ss f2)"

definition HAL_FLASHEx_Erase :: "nat \<Rightarrow> nat \<Rightarrow> flash \<Rightarrow> hal_status \<times> flash" where
  "HAL_FLASHEx_Erase sector nb f =
     (let (status, f1) = FLASH_WaitForLastOperation f
      in if status = HAL_OK then erase_sectors [sector ..< nb + sector] f1 else (status, f1))"

section \<open>What the driver's operations change\<close>

definition fl_env :: "flash \<Rightarrow> (nat \<Rightarrow> hal_status) \<times> (nat \<Rightarrow> u32 \<Rightarrow> u8) \<times> (u8 \<Rightarrow> u8 \<Rightarrow> u8)" where
  "fl_env f = (fl_wait f, fl_junk f, fl_cell f)"

text \<open>From one state to the next nothing but the contents of a range, and the count of operations,
  may change.\<close>

definition only_in :: "u32 \<Rightarrow> nat \<Rightarrow> flash \<Rightarrow> flash \<Rightarrow> bool" where
  "only_in a n f f' \<longleftrightarrow> fl_env f' = fl_env f \<and> fl_locked f' = fl_locked f \<and>
     (\<forall>x. \<not> in_range a n x \<longrightarrow> fl_mem f' x = fl_mem f x)"

lemma only_in_refl [simp, intro]: "only_in a n f f"
  by (simp add: only_in_def)

lemma only_in_trans: "only_in a n f f1 \<Longrightarrow> only_in a n f1 f2 \<Longrightarrow> only_in a n f f2"
  by (simp add: only_in_def)

lemma only_in_mono: "only_in a m f f' \<Longrightarrow> m \<le> n \<Longrightarrow> only_in a n f f'"
  by (auto simp: only_in_def dest: in_range_mono)

lemma only_in_add:
  "only_in a m f f1 \<Longrightarrow> only_in (a + of_nat m) n f1 f2 \<Longrightarrow> m + n \<le> 2 ^ 32 \<Longrightarrow> only_in a (m + n) f f2"
  by (auto simp: only_in_def in_range_add)

lemma only_in_sub:
  "only_in (a + of_nat k) (n - k) f f' \<Longrightarrow> k \<le> n \<Longrightarrow> n \<le> 2 ^ 32 \<Longrightarrow> only_in a n f f'"
  using in_range_add [of k "n - k" a] by (auto simp: only_in_def)

lemma only_in_rdn:
  "only_in a n f f' \<Longrightarrow> k \<le> 2 ^ 32 \<Longrightarrow> (\<And>x. in_range b k x \<Longrightarrow> \<not> in_range a n x) \<Longrightarrow>
   rdn (fl_mem f') b k = rdn (fl_mem f) b k"
  by (rule rdn_unchanged) (auto simp: only_in_def)

lemma put_cells_outside:
  "\<not> in_range a (length bs) x \<Longrightarrow> length bs \<le> 2 ^ 32 \<Longrightarrow> put_cells c a bs m x = m x"
  by (induction c a bs m rule: put_cells.induct) (auto simp: in_range_Suc)

lemma put_cells_erased:
  "(\<forall>v. c 0xFF v = v) \<Longrightarrow> (\<And>x. in_range a (length bs) x \<Longrightarrow> m x = 0xFF) \<Longrightarrow> length bs \<le> 2 ^ 32 \<Longrightarrow>
   rdn (put_cells c a bs m) a (length bs) = bs"
proof (induction bs arbitrary: a m)
  case (Cons b bs)
  have out: "\<not> in_range (a + 1) (length bs) a"
    using Cons.prems(3) in_range_disjoint [of a 1 "length bs" a] by (auto simp: in_range_def)
  have "m a = 0xFF" using Cons.prems(2) [of a] by (simp add: in_range_def)
  then have "put_cells c (a + 1) bs (m(a := c (m a) b)) a = b"
    using put_cells_outside [OF out] Cons.prems by simp
  moreover have "rdn (put_cells c (a + 1) bs (m(a := c (m a) b))) (a + 1) (length bs) = bs"
  proof (rule Cons.IH)
    fix x assume "in_range (a + 1) (length bs) x"
    then show "(m(a := c (m a) b)) x = 0xFF"
      using Cons.prems(2) [of x] Cons.prems(3) out by (auto simp: in_range_Suc)
  qed (use Cons.prems in simp_all)
  ultimately show ?case by (simp add: rdn_Suc)
qed simp

fun program_bytes :: "program_type \<Rightarrow> u32 \<Rightarrow> u8 list" where
  "program_bytes FLASH_TYPEPROGRAM_BYTE d = [ucast d]"
| "program_bytes FLASH_TYPEPROGRAM_HALFWORD d = le16 (ucast d)"
| "program_bytes FLASH_TYPEPROGRAM_WORD d = le32 d"

lemma length_program_bytes [simp]: "length (program_bytes ty d) = program_width ty"
  by (cases ty) auto

lemma program_width_le: "program_width ty \<le> 4" "0 < program_width ty"
  by (cases ty; simp)+

lemma HAL_FLASH_Program_alt:
  "HAL_FLASH_Program ty a d f =
     (let f1 = f\<lparr>fl_ops := fl_ops f + 1\<rparr>; f3 = (fl_store a (program_bytes ty d) f1)\<lparr>fl_ops := fl_ops f + 2\<rparr>
      in if fl_wait f (fl_ops f) = HAL_OK
         then (fl_wait f (fl_ops f + 1),
               if fl_wait f (fl_ops f + 1) = HAL_OK then f3 else fl_spoil a (program_width ty) f3)
         else (fl_wait f (fl_ops f), f1))"
  by (cases ty)
     (simp_all add: HAL_FLASH_Program_def FLASH_WaitForLastOperation_def FLASH_Program_Byte_def
       FLASH_Program_HalfWord_def FLASH_Program_Word_def fl_store_def Let_def)

lemma program_only_in: "HAL_FLASH_Program ty a d f = (st, f') \<Longrightarrow> only_in a (program_width ty) f f'"
  using program_width_le(1) [of ty]
  by (auto simp: HAL_FLASH_Program_alt only_in_def fl_env_def fl_store_def fl_spoil_def Let_def
      put_cells_outside split: if_splits)

text \<open>A range that is ready to be programmed: erased, on an unlocked controller that answers.\<close>

definition programmable :: "u32 \<Rightarrow> nat \<Rightarrow> flash \<Rightarrow> bool" where
  "programmable a n f \<longleftrightarrow> waits_ok f \<and> erased_cell_law f \<and> \<not> fl_locked f \<and>
     (\<forall>x. in_range a n x \<longrightarrow> fl_mem f x = 0xFF)"

lemma program_ok:
  assumes "programmable a (program_width ty + n) f" "program_width ty + n \<le> 2 ^ 32"
  shows "\<exists>f'. HAL_FLASH_Program ty a d f = (HAL_OK, f') \<and> programmable (a + of_nat (program_width ty)) n f' \<and>
    rdn (fl_mem f') a (program_width ty) = program_bytes ty d"
proof -
  obtain st f' where p: "HAL_FLASH_Program ty a d f = (st, f')" by (cases "HAL_FLASH_Program ty a d f")
  have st: "st = HAL_OK" "fl_mem f' = put_cells (fl_cell f) a (program_bytes ty d) (fl_mem f)"
    using p assms(1) by (auto simp: HAL_FLASH_Program_alt programmable_def waits_ok_def fl_store_def Let_def)
  have "rdn (fl_mem f') a (length (program_bytes ty d)) = program_bytes ty d"
    unfolding st(2) using assms
    by (intro put_cells_erased) (auto simp: programmable_def erased_cell_law_def in_range_add)
  moreover have "programmable (a + of_nat (program_width ty)) n f'"
    unfolding programmable_def
  proof (intro conjI allI impI)
    fix x assume x: "in_range (a + of_nat (program_width ty)) n x"
    have "\<not> in_range a (program_width ty) x"
      using x assms(2) by (rule in_range_disjoint)
    then show "fl_mem f' x = 0xFF"
      using program_only_in [OF p] assms x by (simp add: only_in_def programmable_def in_range_add)
  qed (use assms(1) program_only_in [OF p] in
    \<open>simp_all add: programmable_def only_in_def fl_env_def waits_ok_def erased_cell_law_def\<close>)
  ultimately show ?thesis using p st by simp
qed

section \<open>Erasing\<close>

definition sectors_range :: "nat list \<Rightarrow> u32 \<Rightarrow> bool" where
  "sectors_range ss x \<longleftrightarrow> (\<exists>s \<in> set ss. in_range (sector_base s) (sector_size s) x)"

definition only_at :: "(u32 \<Rightarrow> bool) \<Rightarrow> flash \<Rightarrow> flash \<Rightarrow> bool" where
  "only_at P f f' \<longleftrightarrow> fl_env f' = fl_env f \<and> fl_locked f' = fl_locked f \<and>
     (\<forall>x. \<not> P x \<longrightarrow> fl_mem f' x = fl_mem f x)"

lemma only_in_at: "only_in a n = only_at (in_range a n)"
  by (auto simp: only_in_def only_at_def fun_eq_iff)

lemma erase_sectors_spec:
  "erase_sectors ss f = (st, f') \<Longrightarrow>
   only_at (sectors_range ss) f f' \<and>
   (st = HAL_OK \<longrightarrow> \<not> fl_locked f \<longrightarrow> (\<forall>x. sectors_range ss x \<longrightarrow> fl_mem f' x = 0xFF)) \<and>
   (waits_ok f \<longrightarrow> st = HAL_OK)"
proof (induction ss f arbitrary: st f' rule: erase_sectors.induct)
  case (1 f)
  then show ?case by (simp add: sectors_range_def only_at_def)
next
  case (2 s ss f)
  let ?f2 = "(FLASH_Erase_Sector s f)\<lparr>fl_ops := fl_ops f + 1\<rparr>"
  have w: "FLASH_WaitForLastOperation (FLASH_Erase_Sector s f) = (fl_wait f (fl_ops f), ?f2)"
    by (simp add: FLASH_WaitForLastOperation_def FLASH_Erase_Sector_def)
  show ?case
  proof (cases "fl_wait f (fl_ops f) = HAL_OK")
    case True
    then have "erase_sectors ss ?f2 = (st, f')" using 2(2) w by simp
    from 2(1) [OF w [symmetric] refl _ this] True show ?thesis
      by (auto simp: only_at_def sectors_range_def fl_env_def FLASH_Erase_Sector_def waits_ok_def
          split: if_splits)
  next
    case False
    then show ?thesis
      using 2(2) w by (auto simp: only_at_def sectors_range_def fl_env_def FLASH_Erase_Sector_def waits_ok_def
          fl_spoil_def split: if_splits)
  qed
qed

lemma HAL_FLASHEx_Erase_spec:
  assumes "HAL_FLASHEx_Erase sector nb f = (st, f')"
  shows "only_at (sectors_range [sector ..< nb + sector]) f f'"
    and "st = HAL_OK \<Longrightarrow> \<not> fl_locked f \<Longrightarrow> sectors_range [sector ..< nb + sector] x \<Longrightarrow> fl_mem f' x = 0xFF"
    and "waits_ok f \<Longrightarrow> st = HAL_OK"
proof -
  let ?f1 = "f\<lparr>fl_ops := fl_ops f + 1\<rparr>"
  have *: "only_at P ?f1 f' = only_at P f f'" for P by (simp add: only_at_def fl_env_def)
  have e: "(if fl_wait f (fl_ops f) = HAL_OK then erase_sectors [sector ..< nb + sector] ?f1
      else (fl_wait f (fl_ops f), ?f1)) = (st, f')"
    using assms by (simp add: HAL_FLASHEx_Erase_def FLASH_WaitForLastOperation_def split: if_splits)
  show "only_at (sectors_range [sector ..< nb + sector]) f f'"
    using e erase_sectors_spec [of "[sector ..< nb + sector]" ?f1 st f'] *
    by (auto simp: only_at_def fl_env_def split: if_splits)
  show "st = HAL_OK \<Longrightarrow> \<not> fl_locked f \<Longrightarrow> sectors_range [sector ..< nb + sector] x \<Longrightarrow> fl_mem f' x = 0xFF"
    using e erase_sectors_spec [of "[sector ..< nb + sector]" ?f1 st f'] by (auto split: if_splits)
  show "waits_ok f \<Longrightarrow> st = HAL_OK"
    using e erase_sectors_spec [of "[sector ..< nb + sector]" ?f1 st f']
    by (auto simp: waits_ok_def split: if_splits)
qed

section \<open>Byte loops\<close>

text \<open>The loop that programs bytes one by one and stops at the first error, and the loop that compares
  flash with a buffer; the image writer, both metadata writers and the crash recorder use them.\<close>

fun program_loop :: "u32 \<Rightarrow> u8 list \<Rightarrow> flash \<Rightarrow> bool \<times> flash" where
  "program_loop a [] f = (True, f)"
| "program_loop a (b # bs) f =
     (let (st, f1) = HAL_FLASH_Program FLASH_TYPEPROGRAM_BYTE a (ucast b) f
      in if st \<noteq> HAL_OK then (False, f1) else program_loop (a + 1) bs f1)"

fun compare_loop :: "mem \<Rightarrow> u32 \<Rightarrow> u8 list \<Rightarrow> bool" where
  "compare_loop m a [] = True"
| "compare_loop m a (b # bs) = (if m a \<noteq> b then False else compare_loop m (a + 1) bs)"

lemma compare_loop_eq: "compare_loop m a bs \<longleftrightarrow> rdn m a (length bs) = bs"
  by (induction bs arbitrary: a) (auto simp: rdn_Suc)

lemma program_byte_only_in:
  "HAL_FLASH_Program FLASH_TYPEPROGRAM_BYTE a d f = (st, f') \<Longrightarrow> only_in a (Suc n) f f'"
  using program_only_in [of FLASH_TYPEPROGRAM_BYTE a d f st f'] by (auto intro: only_in_mono)

lemma program_byte_ok:
  assumes "programmable a (Suc n) f" "Suc n \<le> 2 ^ 32"
  shows "\<exists>f'. HAL_FLASH_Program FLASH_TYPEPROGRAM_BYTE a (ucast (b :: u8)) f = (HAL_OK, f') \<and>
    programmable (a + 1) n f' \<and> fl_mem f' a = b"
  using program_ok [of a FLASH_TYPEPROGRAM_BYTE n f "ucast b"] assms by (simp add: rdn_Suc)

lemma program_loop_only_in:
  "program_loop a bs f = (ok, f') \<Longrightarrow> length bs \<le> 2 ^ 32 \<Longrightarrow> only_in a (length bs) f f'"
proof (induction a bs f rule: program_loop.induct)
  case (2 a b bs f)
  obtain st f1 where p: "HAL_FLASH_Program FLASH_TYPEPROGRAM_BYTE a (ucast b) f = (st, f1)"
    by (cases "HAL_FLASH_Program FLASH_TYPEPROGRAM_BYTE a (ucast b) f")
  note o1 = program_byte_only_in [OF p, of "length bs"]
  show ?case
  proof (cases "st = HAL_OK")
    case True
    then have "program_loop (a + 1) bs f1 = (ok, f')" using 2(2) p by simp
    then have "only_in (a + 1) (length bs) f1 f'"
      using 2(1) [OF p [symmetric] refl] True 2(3) by simp
    then have "only_in a (length (b # bs)) f1 f'"
      using only_in_sub [of a 1 "length (b # bs)" f1 f'] 2(3) by simp
    then show ?thesis using o1 by (auto intro: only_in_trans)
  next
    case False
    then show ?thesis using 2(2) p o1 by (auto split: if_splits)
  qed
qed simp

lemma program_loop_ok:
  "programmable a (length bs) f \<Longrightarrow> length bs \<le> 2 ^ 32 \<Longrightarrow>
   \<exists>f'. program_loop a bs f = (True, f') \<and> rdn (fl_mem f') a (length bs) = bs"
proof (induction a bs f rule: program_loop.induct)
  case (2 a b bs f)
  obtain f1 where p: "HAL_FLASH_Program FLASH_TYPEPROGRAM_BYTE a (ucast b) f = (HAL_OK, f1)"
      "programmable (a + 1) (length bs) f1" "fl_mem f1 a = b"
    using program_byte_ok [of a "length bs" f b] 2(2,3) by auto
  obtain f' where f': "program_loop (a + 1) bs f1 = (True, f')" "rdn (fl_mem f') (a + 1) (length bs) = bs"
    using 2(1) [OF p(1) [symmetric] refl] p(2) 2(3) by auto
  have "\<not> in_range (a + 1) (length bs) a"
    using in_range_disjoint [of a 1 "length bs" a] 2(3) by (auto simp: in_range_def)
  then have "fl_mem f' a = b"
    using program_loop_only_in [OF f'(1)] p(3) 2(3) by (simp add: only_in_def)
  then show ?case using p(1) f' by (simp add: rdn_Suc)
qed simp

definition flash_ready :: "u32 \<Rightarrow> nat \<Rightarrow> flash \<Rightarrow> bool" where
  "flash_ready a n f \<longleftrightarrow> waits_ok f \<and> erased_cell_law f \<and> (\<forall>x. in_range a n x \<longrightarrow> fl_mem f x = 0xFF)"

section \<open>The contract of a writer\<close>

text \<open>
  What the logs and image writers of the firmware promise their callers: they change nothing outside
  the range they are given, and what they report as written reads back. A NOR writer promises
  besides that a range that is ready takes any data.
\<close>

locale byte_store =
  fixes content :: "'s \<Rightarrow> mem"
    and wr :: "u32 \<Rightarrow> u8 list \<Rightarrow> 's \<Rightarrow> bool \<times> 's"
  assumes wr_frame: "wr a bs s = (ok, s') \<Longrightarrow> length bs \<le> 2 ^ 32 \<Longrightarrow> \<not> in_range a (length bs) x \<Longrightarrow>
      content s' x = content s x"
    and wr_readback: "wr a bs s = (True, s') \<Longrightarrow> length bs \<le> 2 ^ 32 \<Longrightarrow> rdn (content s') a (length bs) = bs"
begin

lemma wr_keeps:
  "wr a bs s = (ok, s') \<Longrightarrow> length bs \<le> 2 ^ 32 \<Longrightarrow> n \<le> 2 ^ 32 \<Longrightarrow>
   (\<And>x. in_range b n x \<Longrightarrow> \<not> in_range a (length bs) x) \<Longrightarrow> rdn (content s') b n = rdn (content s) b n"
  by (rule rdn_unchanged) (auto intro: wr_frame)

lemma wr_append:
  assumes "wr a xs s = (True, s1)" "wr (a + of_nat (length xs)) ys s1 = (True, s2)"
    "length xs + length ys \<le> 2 ^ 32"
  shows "rdn (content s2) a (length (xs @ ys)) = xs @ ys"
proof -
  have "rdn (content s2) a (length xs) = rdn (content s1) a (length xs)"
    using assms by (intro wr_keeps) (auto dest: in_range_disjoint)
  then show ?thesis
    using wr_readback [OF assms(1)] wr_readback [OF assms(2)] assms(3) by (simp add: rdn_add)
qed

end

locale nor_store = byte_store content wr
  for content :: "'s \<Rightarrow> mem" and wr :: "u32 \<Rightarrow> u8 list \<Rightarrow> 's \<Rightarrow> bool \<times> 's" +
  fixes ready :: "u32 \<Rightarrow> nat \<Rightarrow> 's \<Rightarrow> bool"
  assumes wr_ready: "ready a (length bs) s \<Longrightarrow> bs \<noteq> [] \<Longrightarrow> length bs \<le> 2 ^ 32 \<Longrightarrow> fst (wr a bs s)"
begin

lemma wr_ready_content:
  assumes "ready a (length bs) s" "bs \<noteq> []" "length bs \<le> 2 ^ 32"
  shows "\<exists>s'. wr a bs s = (True, s') \<and> rdn (content s') a (length bs) = bs"
  using wr_ready [OF assms] wr_readback [of a bs s "snd (wr a bs s)"] assms(3) by (metis prod.collapse)

end

text \<open>Programming byte by byte and comparing afterwards is such a writer, on an unlocked controller.\<close>

definition program_compare :: "u32 \<Rightarrow> u8 list \<Rightarrow> flash \<Rightarrow> bool \<times> flash" where
  "program_compare a bs f =
     (let (ok, f1) = program_loop a bs f in if ok then (compare_loop (fl_mem f1) a bs, f1) else (False, f1))"

lemma program_compare_only_in:
  "program_compare a bs f = (ok, f') \<Longrightarrow> length bs \<le> 2 ^ 32 \<Longrightarrow> only_in a (length bs) f f'"
  using program_loop_only_in [of a bs f] by (auto simp: program_compare_def Let_def split: prod.splits if_splits)

interpretation bytewise: nor_store fl_mem program_compare programmable
proof unfold_locales
  fix a bs f ok f' x
  assume "program_compare a bs f = (ok, f')" "length bs \<le> 2 ^ 32" "\<not> in_range a (length bs) x"
  then show "fl_mem f' x = fl_mem f x" using program_compare_only_in by (simp add: only_in_def)
next
  fix a bs f f'
  assume "program_compare a bs f = (True, f')"
  then show "rdn (fl_mem f') a (length bs) = bs"
    by (auto simp: program_compare_def compare_loop_eq split: prod.splits if_splits)
next
  fix a f and bs :: "u8 list"
  assume "programmable a (length bs) f" "length bs \<le> 2 ^ 32"
  then show "fst (program_compare a bs f)"
    using program_loop_ok [of a bs f] by (auto simp: program_compare_def compare_loop_eq)
qed

text \<open>A controller that always answers, with every cell erased.\<close>

definition sample_flash :: flash where
  "sample_flash = \<lparr>fl_mem = (\<lambda>_. 0xFF), fl_locked = True, fl_ops = 0, fl_wait = (\<lambda>_. HAL_OK),
     fl_junk = (\<lambda>_ _. 0), fl_cell = (AND)\<rparr>"

lemma sample_flash_ready: "flash_ready a n sample_flash"
proof -
  have m: "(0xFF :: u8) = mask 8" by (simp add: mask_eq_exp_minus_1)
  have "(0xFF :: u8) AND v = v" for v unfolding m by (rule bit_word_eqI) (simp add: bit_simps)
  then show ?thesis
    by (simp add: flash_ready_def sample_flash_def waits_ok_def erased_cell_law_def)
qed

end
