(* ===== verification/W25qxx.thy ===== *)
theory W25qxx
  imports Flash
begin

text \<open>
  The driver of the external SPI flash (\<open>6_ModuleDrives/driver_w25qxx.c\<close>) and the two layers of
  wrappers above it (\<open>5_Platform/platform_storage.c\<close>, \<open>2_Device/dev_storage.c\<close>). The chip and the bus
  are the environment: the status of every transfer (\<open>w_spi\<close>), what the polling of the status
  register sees (\<open>w_polls\<close>: the register and the tick at each turn of one wait; a schedule that ends
  early counts as a time-out), the identification bytes, what a failed operation leaves behind and
  what programming does to a cell. No operation changes them.
\<close>

section \<open>The chip and the bus\<close>

record w25q =
  w_mem :: mem
  w_ready :: u8
  w_size :: u32
  w_ops :: nat
  w_spi :: "nat \<Rightarrow> hal_status"
  w_start :: "nat \<Rightarrow> u32"
  w_polls :: "nat \<Rightarrow> (u8 \<times> u32) list"
  w_id :: "u8 \<times> u8 \<times> u8"
  w_junk :: "nat \<Rightarrow> u32 \<Rightarrow> u8"
  w_cell :: "u8 \<Rightarrow> u8 \<Rightarrow> u8"

definition W25QXX_PAGE_SIZE :: nat where "W25QXX_PAGE_SIZE = 256"
definition W25QXX_SECTOR_SIZE :: nat where "W25QXX_SECTOR_SIZE = 4096"

lemmas w25_sizes = W25QXX_PAGE_SIZE_def W25QXX_SECTOR_SIZE_def

text \<open>One transfer on the bus.\<close>

definition w_xfer :: "w25q \<Rightarrow> hal_status \<times> w25q" where
  "w_xfer d = (w_spi d (w_ops d), d\<lparr>w_ops := w_ops d + 1\<rparr>)"

text \<open>The address that a command carries has three bytes.\<close>

definition w_addr24 :: "u32 \<Rightarrow> u32" where
  "w_addr24 addr = addr AND 0xFFFFFF"

definition w_spoil :: "u32 \<Rightarrow> nat \<Rightarrow> w25q \<Rightarrow> w25q" where
  "w_spoil a n d = d\<lparr>w_mem := \<lambda>x. if in_range a n x then w_junk d (w_ops d) x else w_mem d x\<rparr>"

section \<open>Waiting\<close>

fun w_poll :: "(u8 \<Rightarrow> bool) \<Rightarrow> u32 \<Rightarrow> u32 \<Rightarrow> (u8 \<times> u32) list \<Rightarrow> bool" where
  "w_poll done_p start timeout_ms [] = False"
| "w_poll done_p start timeout_ms ((sr, tick) # ps) =
     (if done_p sr then True else if tick - start > timeout_ms then False else w_poll done_p start timeout_ms ps)"

definition W25QXX_WaitBusy :: "u32 \<Rightarrow> w25q \<Rightarrow> bool \<times> w25q" where
  "W25QXX_WaitBusy timeout_ms d =
     (w_poll (\<lambda>sr. sr AND 0x01 = 0) (w_start d (w_ops d)) timeout_ms (w_polls d (w_ops d)), d\<lparr>w_ops := w_ops d + 1\<rparr>)"

definition w25qxx_write_enable :: "w25q \<Rightarrow> bool \<times> w25q" where
  "w25qxx_write_enable d =
     (let (st, d1) = w_xfer d
      in if st \<noteq> HAL_OK then (False, d1)
         else (w_poll (\<lambda>sr. sr AND 0x02 \<noteq> 0) (w_start d1 (w_ops d1)) 10 (w_polls d1 (w_ops d1)), d1\<lparr>w_ops := w_ops d1 + 1\<rparr>))"

section \<open>Identification\<close>

definition W25QXX_ReadJEDECID :: "w25q \<Rightarrow> u32 \<times> w25q" where
  "W25QXX_ReadJEDECID d =
     (let (st, d1) = w_xfer d
      in if st \<noteq> HAL_OK then (0, d1)
         else (case w_id d1 of (id0, id1, id2) \<Rightarrow> (push_bit 16 (ucast id0) OR push_bit 8 (ucast id1) OR ucast id2, d1)))"

definition W25QXX_GetSizeBytes :: "w25q \<Rightarrow> u32" where
  "W25QXX_GetSizeBytes d = w_size d"

text \<open>The first transfer stands for the initialisation of the bus peripheral.\<close>

definition W25QXX_Init :: "w25q \<Rightarrow> bool \<times> w25q" where
  "W25QXX_Init d =
     (let (st, d1) = w_xfer d
      in if st \<noteq> HAL_OK then (False, d1)
         else let (jedec, d2) = W25QXX_ReadJEDECID d1;
                  cap = (ucast (jedec AND 0xFF) :: u8);
                  d3 = (if cap \<ge> 0x10 \<and> cap \<le> 0x20 then d2\<lparr>w_size := push_bit (unat cap) 1\<rparr> else d2\<lparr>w_size := 0\<rparr>);
                  d4 = d3\<lparr>w_ready := 1\<rparr>
              in (w_size d4 > 0, d4))"

section \<open>Reading, programming and erasing\<close>

definition w25qxx_addr_valid :: "u32 \<Rightarrow> nat \<Rightarrow> w25q \<Rightarrow> bool" where
  "w25qxx_addr_valid addr len d =
     (if w_size d = 0 then False
      else if len = 0 then True
      else if addr \<ge> w_size d then False
      else if len > unat (w_size d - addr) then False
      else True)"

definition W25QXX_Read :: "u32 \<Rightarrow> nat \<Rightarrow> w25q \<Rightarrow> u8 list option \<times> w25q" where
  "W25QXX_Read addr len d =
     (if w_ready d = 0 then (None, d)
      else if \<not> w25qxx_addr_valid addr len d then (None, d)
      else if len = 0 then (Some [], d)
      else let (st, d1) = w_xfer d
           in if st \<noteq> HAL_OK then (None, d1)
              else let (st1, d2) = w_xfer d1
                   in if st1 \<noteq> HAL_OK then (None, d2) else (Some (rdn (w_mem d2) (w_addr24 addr) len), d2))"

text \<open>A page program that breaks off after the command has programmed any part of its data.\<close>

definition W25QXX_PageProgram :: "u32 \<Rightarrow> u8 list \<Rightarrow> w25q \<Rightarrow> bool \<times> w25q" where
  "W25QXX_PageProgram addr buf d =
     (let len = length buf
      in if w_ready d = 0 then (False, d)
         else if len = 0 \<or> len > W25QXX_PAGE_SIZE then (False, d)
         else if unat (addr AND 0xFF) + len > W25QXX_PAGE_SIZE then (False, d)
         else if \<not> w25qxx_addr_valid addr len d then (False, d)
         else let (we, d1) = w25qxx_write_enable d
              in if \<not> we then (False, d1)
                 else let (st, d2) = w_xfer d1
                      in if st \<noteq> HAL_OK then (False, d2)
                         else let (st1, d3) = w_xfer d2
                              in if st1 \<noteq> HAL_OK then (False, w_spoil (w_addr24 addr) len d3)
                                 else let d4 = d3\<lparr>w_mem := put_cells (w_cell d3) (w_addr24 addr) buf (w_mem d3)\<rparr>;
                                          (ok, d5) = W25QXX_WaitBusy 200 d4
                                      in (ok, if ok then d5 else w_spoil (w_addr24 addr) len d5))"

definition w_sector_base :: "u32 \<Rightarrow> u32" where
  "w_sector_base addr = addr AND NOT 0xFFF"

definition W25QXX_SectorErase :: "u32 \<Rightarrow> w25q \<Rightarrow> bool \<times> w25q" where
  "W25QXX_SectorErase addr d =
     (let base = w_sector_base addr
      in if w_ready d = 0 then (False, d)
         else if \<not> w25qxx_addr_valid base 1 d then (False, d)
         else let (we, d1) = w25qxx_write_enable d
              in if \<not> we then (False, d1)
                 else let (st, d2) = w_xfer d1
                      in if st \<noteq> HAL_OK then (False, w_spoil (w_addr24 base) W25QXX_SECTOR_SIZE d2)
                         else let d3 = d2\<lparr>w_mem := \<lambda>x. if in_range (w_addr24 base) W25QXX_SECTOR_SIZE x then 0xFF
                                                         else w_mem d2 x\<rparr>;
                                  (ok, d4) = W25QXX_WaitBusy 3000 d3
                              in (ok, if ok then d4 else w_spoil (w_addr24 base) W25QXX_SECTOR_SIZE d4))"

text \<open>The wrappers.\<close>

definition DevStorage_Init :: "w25q \<Rightarrow> bool \<times> w25q" where "DevStorage_Init = W25QXX_Init"
definition DevStorage_ReadJEDECID :: "w25q \<Rightarrow> u32 \<times> w25q" where "DevStorage_ReadJEDECID = W25QXX_ReadJEDECID"
definition DevStorage_GetSizeBytes :: "w25q \<Rightarrow> u32" where "DevStorage_GetSizeBytes = W25QXX_GetSizeBytes"
definition DevStorage_Read :: "u32 \<Rightarrow> nat \<Rightarrow> w25q \<Rightarrow> u8 list option \<times> w25q" where "DevStorage_Read = W25QXX_Read"
definition DevStorage_PageProgram :: "u32 \<Rightarrow> u8 list \<Rightarrow> w25q \<Rightarrow> bool \<times> w25q" where
  "DevStorage_PageProgram = W25QXX_PageProgram"
definition DevStorage_SectorErase :: "u32 \<Rightarrow> w25q \<Rightarrow> bool \<times> w25q" where "DevStorage_SectorErase = W25QXX_SectorErase"

lemmas dev_storage = DevStorage_Init_def DevStorage_ReadJEDECID_def DevStorage_GetSizeBytes_def DevStorage_Read_def
  DevStorage_PageProgram_def DevStorage_SectorErase_def

section \<open>What the driver's operations change\<close>

definition w_env where
  "w_env d = (w_spi d, w_start d, w_polls d, w_id d, w_junk d, w_cell d)"

text \<open>Nothing but a range of the memory, and the count of operations, changes.\<close>

definition w_only :: "(u32 \<Rightarrow> bool) \<Rightarrow> w25q \<Rightarrow> w25q \<Rightarrow> bool" where
  "w_only P d d' \<longleftrightarrow> w_env d' = w_env d \<and> w_ready d' = w_ready d \<and> w_size d' = w_size d \<and>
     (\<forall>x. \<not> P x \<longrightarrow> w_mem d' x = w_mem d x)"

lemma w_only_refl [simp, intro]: "w_only P d d"
  by (simp add: w_only_def)

lemma w_only_trans: "w_only P d d1 \<Longrightarrow> w_only P d1 d2 \<Longrightarrow> w_only P d d2"
  by (simp add: w_only_def)

lemma w_only_mono: "w_only P d d' \<Longrightarrow> (\<And>x. P x \<Longrightarrow> Q x) \<Longrightarrow> w_only Q d d'"
  by (auto simp: w_only_def)

lemma w_only_rdn:
  "w_only P d d' \<Longrightarrow> n \<le> 2 ^ 32 \<Longrightarrow> (\<And>x. in_range b n x \<Longrightarrow> \<not> P x) \<Longrightarrow> rdn (w_mem d') b n = rdn (w_mem d) b n"
  by (rule rdn_unchanged) (auto simp: w_only_def)

lemma w_only_False: "w_only (\<lambda>_. False) d d' \<Longrightarrow> w_only P d d' \<and> w_mem d' = w_mem d"
  by (auto simp: w_only_def fun_eq_iff)

lemma W25QXX_Read_only:
  "W25QXX_Read addr len d = (r, d') \<Longrightarrow> w_only (\<lambda>_. False) d d'"
  by (auto simp: W25QXX_Read_def w_only_def w_env_def w_xfer_def Let_def split: if_splits)

lemma W25QXX_Read_Some:
  "W25QXX_Read addr len d = (Some xs, d') \<Longrightarrow> xs = rdn (w_mem d) (w_addr24 addr) len"
  by (auto simp: W25QXX_Read_def w_xfer_def Let_def split: if_splits)

lemma w_addr24_id [simp]: "addr < 0x1000000 \<Longrightarrow> w_addr24 addr = addr"
proof -
  assume a: "addr < 0x1000000"
  have "addr AND mask 24 = take_bit 24 addr" by (simp add: take_bit_eq_mask ac_simps)
  also have "\<dots> = addr"
  proof (rule word_unat_eq_iff [THEN iffD2])
    have "unat addr < 2 ^ 24" using a by (simp add: word_less_nat_alt)
    then show "unat (take_bit 24 addr) = unat addr" by (simp add: unsigned_take_bit_eq take_bit_nat_eq_self)
  qed
  finally show ?thesis by (simp add: w_addr24_def mask_eq_exp_minus_1)
qed

lemma W25QXX_PageProgram_only:
  assumes "W25QXX_PageProgram addr buf d = (ok, d')"
  shows "w_only (in_range (w_addr24 addr) (length buf)) d d'"
proof -
  have "length buf \<le> 2 ^ 32" if "length buf \<le> 256" using that by simp
  then show ?thesis
    using assms
    by (auto simp: W25QXX_PageProgram_def w_only_def w_env_def w_xfer_def w25qxx_write_enable_def W25QXX_WaitBusy_def
        w_spoil_def w25_sizes put_cells_outside Let_def not_less split: if_splits)
qed

lemma W25QXX_SectorErase_only:
  assumes "W25QXX_SectorErase addr d = (ok, d')"
  shows "w_only (in_range (w_addr24 (w_sector_base addr)) W25QXX_SECTOR_SIZE) d d'"
    and "ok \<Longrightarrow> in_range (w_addr24 (w_sector_base addr)) W25QXX_SECTOR_SIZE x \<Longrightarrow> w_mem d' x = 0xFF"
  using assms
  by (auto simp: W25QXX_SectorErase_def w_only_def w_env_def w_xfer_def w25qxx_write_enable_def W25QXX_WaitBusy_def
      w_spoil_def Let_def split: if_splits)

section \<open>A bus that answers\<close>

text \<open>Every transfer succeeds and every wait sees the bit it waits for in time.\<close>

definition bus_ok :: "w25q \<Rightarrow> bool" where
  "bus_ok d \<longleftrightarrow> (\<forall>k. w_spi d k = HAL_OK \<and>
     w_poll (\<lambda>sr. sr AND 0x02 \<noteq> 0) (w_start d k) 10 (w_polls d k) \<and>
     w_poll (\<lambda>sr. sr AND 0x01 = 0) (w_start d k) 200 (w_polls d k) \<and>
     w_poll (\<lambda>sr. sr AND 0x01 = 0) (w_start d k) 3000 (w_polls d k))"

definition w_erased_law :: "w25q \<Rightarrow> bool" where
  "w_erased_law d \<longleftrightarrow> (\<forall>v. w_cell d 0xFF v = v)"

definition chip_ok :: "w25q \<Rightarrow> bool" where
  "chip_ok d \<longleftrightarrow> bus_ok d \<and> w_erased_law d \<and> w_ready d \<noteq> 0 \<and> w_size d = 0x1000000"

lemma chip_ok_only: "w_only P d d' \<Longrightarrow> chip_ok d' = chip_ok d"
  by (auto simp: w_only_def w_env_def chip_ok_def bus_ok_def w_erased_law_def)

lemma addr_valid_16M:
  assumes "w_size d = 0x1000000" "unat addr + len \<le> 0x1000000" "addr < 0x1000000"
  shows "w25qxx_addr_valid addr len d"
proof -
  have "addr \<le> 0x1000000" using assms(3) by simp
  then have "unat (0x1000000 - addr) = 0x1000000 - unat addr" by (simp add: unat_sub)
  then show ?thesis using assms by (auto simp: w25qxx_addr_valid_def not_le)
qed

lemma W25QXX_Read_ok:
  assumes "chip_ok d" "unat addr + len \<le> 0x1000000" "addr < 0x1000000"
  shows "\<exists>d'. W25QXX_Read addr len d = (Some (rdn (w_mem d) addr len), d') \<and> w_only (\<lambda>_. False) d d'"
proof -
  have "fst (W25QXX_Read addr len d) = Some (rdn (w_mem d) addr len)"
    using assms addr_valid_16M [of d addr len]
    by (auto simp: W25QXX_Read_def chip_ok_def bus_ok_def w_xfer_def Let_def)
  then show ?thesis using W25QXX_Read_only by (metis prod.collapse)
qed

lemma W25QXX_PageProgram_ok:
  assumes "chip_ok d" "unat addr + length buf \<le> 0x1000000" "addr < 0x1000000" "buf \<noteq> []"
    "unat (addr AND 0xFF) + length buf \<le> 256" "\<And>x. in_range addr (length buf) x \<Longrightarrow> w_mem d x = 0xFF"
  shows "\<exists>d'. W25QXX_PageProgram addr buf d = (True, d') \<and> rdn (w_mem d') addr (length buf) = buf"
proof -
  have v: "w25qxx_addr_valid addr (length buf) d"
    using addr_valid_16M assms(1,2,3) by (simp add: chip_ok_def)
  have "length buf \<le> 256" using assms(5) by simp
  moreover have "rdn (put_cells (w_cell d) addr buf (w_mem d)) addr (length buf) = buf"
    using assms \<open>length buf \<le> 256\<close> by (intro put_cells_erased) (auto simp: chip_ok_def w_erased_law_def)
  ultimately show ?thesis
    using assms v
    by (auto simp: W25QXX_PageProgram_def chip_ok_def bus_ok_def w_xfer_def w25qxx_write_enable_def W25QXX_WaitBusy_def
        w25_sizes Let_def)
qed

lemma W25QXX_SectorErase_ok:
  assumes "chip_ok d" "w_sector_base addr < 0x1000000"
  shows "fst (W25QXX_SectorErase addr d)"
proof -
  have "unat (w_sector_base addr) < unat (0x1000000 :: u32)" using assms(2) by (simp only: word_less_nat_alt)
  then have "w25qxx_addr_valid (w_sector_base addr) 1 d"
    using addr_valid_16M [of d "w_sector_base addr" 1] assms by (simp add: chip_ok_def)
  then show ?thesis
    using assms
    by (auto simp: W25QXX_SectorErase_def chip_ok_def bus_ok_def w_xfer_def w25qxx_write_enable_def W25QXX_WaitBusy_def Let_def)
qed

text \<open>A chip of 16 MB with every cell erased.\<close>

definition sample_w25q :: w25q where
  "sample_w25q = \<lparr>w_mem = (\<lambda>_. 0xFF), w_ready = 1, w_size = 0x1000000, w_ops = 0, w_spi = (\<lambda>_. HAL_OK),
     w_start = (\<lambda>_. 0), w_polls = (\<lambda>_. [(2, 0)]), w_id = (0xEF, 0x40, 0x18), w_junk = (\<lambda>_ _. 0), w_cell = (AND)\<rparr>"

lemma sample_w25q_ok: "chip_ok sample_w25q"
  using sample_flash_ready [of 0 1]
  by (simp add: chip_ok_def sample_w25q_def bus_ok_def w_erased_law_def flash_ready_def sample_flash_def erased_cell_law_def)

lemma W25QXX_Init_size:
  "W25QXX_Init d = (True, d') \<Longrightarrow> w_ready d' = 1 \<and> (\<exists>k. 0x10 \<le> k \<and> k < 0x20 \<and> w_size d' = 2 ^ k)"
proof -
  assume i: "W25QXX_Init d = (True, d')"
  obtain cap :: u8 where c: "w_size d' = (if cap \<ge> 0x10 \<and> cap \<le> 0x20 then push_bit (unat cap) 1 else 0)"
    "w_size d' > 0" "w_ready d' = 1"
  proof -
    obtain j d2 where d2: "W25QXX_ReadJEDECID (snd (w_xfer d)) = (j, d2)" by (cases "W25QXX_ReadJEDECID (snd (w_xfer d))")
    show thesis
      by (rule that [of "ucast (j AND 0xFF)"])
         (use i d2 in \<open>auto simp: W25QXX_Init_def w_xfer_def Let_def split: prod.splits if_splits\<close>)
  qed
  then have r: "0x10 \<le> cap" "cap \<le> 0x20" "w_size d' = 2 ^ unat cap" by (auto simp: push_bit_eq_mult split: if_splits)
  have "cap \<noteq> 0x20"
  proof
    assume "cap = 0x20"
    then have "w_size d' = 0" using r(3) by simp
    then show False using c(2) by simp
  qed
  moreover have "of_nat (unat cap) = cap" by simp
  ultimately have "unat cap \<noteq> 0x20" by (metis of_nat_numeral)
  then have "unat cap < 0x20" "0x10 \<le> unat cap" using r(1,2) by (auto simp: word_le_nat_alt word_less_nat_alt dest: le_neq_implies_less)
  then show ?thesis using r(3) c(3) by blast
qed

end
