(* ===== verification/Storage_Log.thy ===== *)
theory Storage_Log
  imports Checksum W25qxx
begin

text \<open>
  The storage task (\<open>1_App/app_storage.c\<close>): the event log and the cache of unsent reports, two regions
  of the external flash that hold records with a header, a payload and padding. Both regions go
  through copies of the same loops; the copies are instances of one definition here, with the base
  and the size of the region as arguments. Addresses are natural numbers (the range checks keep them
  below 16 MB); sequence numbers and counters keep their 32 bits.
\<close>

section \<open>Records\<close>

definition STORAGE_EVENT_BASE :: nat where "STORAGE_EVENT_BASE = 0x010000"
definition STORAGE_EVENT_SIZE :: nat where "STORAGE_EVENT_SIZE = 0x7F0000"
definition STORAGE_CACHE_BASE :: nat where "STORAGE_CACHE_BASE = 0x800000"
definition STORAGE_CACHE_SIZE :: nat where "STORAGE_CACHE_SIZE = 0x800000"
definition STORAGE_MAGIC :: u32 where "STORAGE_MAGIC = 0x53484C47"
definition STORAGE_VERSION :: u16 where "STORAGE_VERSION = 1"
definition STORAGE_MAX_PAYLOAD_LEN :: nat where "STORAGE_MAX_PAYLOAD_LEN = 192"
definition STORAGE_TASK_QUEUE_LEN :: nat where "STORAGE_TASK_QUEUE_LEN = 16"
definition STORAGE_REC_EVENT :: u16 where "STORAGE_REC_EVENT = 1"
definition STORAGE_REC_CACHE :: u16 where "STORAGE_REC_CACHE = 2"
definition STORAGE_REC_FAULT :: u16 where "STORAGE_REC_FAULT = 3"

lemmas storage_consts = STORAGE_EVENT_BASE_def STORAGE_EVENT_SIZE_def STORAGE_CACHE_BASE_def STORAGE_CACHE_SIZE_def
  STORAGE_MAGIC_def STORAGE_VERSION_def STORAGE_MAX_PAYLOAD_LEN_def STORAGE_REC_EVENT_def STORAGE_REC_CACHE_def
  STORAGE_REC_FAULT_def

record rec_hdr =
  hd_magic :: u32
  hd_version :: u16
  hd_type :: u16
  hd_seq :: u32
  hd_tick :: u32
  hd_len :: u16
  hd_flags :: u16
  hd_crc :: u32

text \<open>The header as it lies in memory, 24 bytes.\<close>

definition hdr_bytes :: "rec_hdr \<Rightarrow> u8 list" where
  "hdr_bytes h = le32 (hd_magic h) @ le16 (hd_version h) @ le16 (hd_type h) @ le32 (hd_seq h) @ le32 (hd_tick h) @
     le16 (hd_len h) @ le16 (hd_flags h) @ le32 (hd_crc h)"

definition hdr_of_bytes :: "u8 list \<Rightarrow> rec_hdr" where
  "hdr_of_bytes b = \<lparr>hd_magic = rd32 b 0, hd_version = rd16 b 4, hd_type = rd16 b 6, hd_seq = rd32 b 8,
     hd_tick = rd32 b 12, hd_len = rd16 b 16, hd_flags = rd16 b 18, hd_crc = rd32 b 20\<rparr>"

definition storage_align4 :: "nat \<Rightarrow> nat" where
  "storage_align4 value = (value + 3) div 4 * 4"

text \<open>The check word of a record: the header is taken with a zero check field.\<close>

definition record_crc :: "rec_hdr \<Rightarrow> u8 list \<Rightarrow> u32" where
  "record_crc hdr payload = storage_crc32 payload XOR push_bit 1 (storage_crc32 (hdr_bytes (hdr\<lparr>hd_crc := 0\<rparr>)))"

record storage_ctx =
  st_inited :: u8
  st_flash_size :: u32
  event_write_addr :: nat
  event_valid_count :: u32
  cache_read_addr :: nat
  cache_write_addr :: nat
  cache_backlog :: u32
  last_seq :: u32

section \<open>Regions of the flash\<close>

definition region_in_range :: "nat \<Rightarrow> nat \<Rightarrow> nat \<Rightarrow> nat \<Rightarrow> bool" where
  "region_in_range base sz addr len =
     (if len = 0 then True
      else if addr < base \<or> addr \<ge> base + sz then False
      else if len > base + sz - addr then False
      else True)"

definition storage_flash_in_range :: "nat \<Rightarrow> nat \<Rightarrow> bool" where
  "storage_flash_in_range = region_in_range STORAGE_EVENT_BASE STORAGE_EVENT_SIZE"

definition storage_cache_in_range :: "nat \<Rightarrow> nat \<Rightarrow> bool" where
  "storage_cache_in_range = region_in_range STORAGE_CACHE_BASE STORAGE_CACHE_SIZE"

function erase_loop :: "nat \<Rightarrow> nat \<Rightarrow> w25q \<Rightarrow> bool \<times> w25q" where
  "erase_loop addr end_addr d =
     (if addr < end_addr
      then let (ok, d1) = DevStorage_SectorErase (of_nat addr) d
           in if \<not> ok then (False, d1) else erase_loop (addr + 4096) end_addr d1
      else (True, d))"
  by pat_completeness auto
termination by (relation "measure (\<lambda>(addr, end_addr, d). end_addr - addr)") auto

definition region_erase_range :: "(nat \<Rightarrow> nat \<Rightarrow> bool) \<Rightarrow> nat \<Rightarrow> nat \<Rightarrow> w25q \<Rightarrow> bool \<times> w25q" where
  "region_erase_range in_rng start_addr len d =
     (if \<not> in_rng start_addr len then (False, d)
      else erase_loop (start_addr - start_addr mod 4096) (storage_align4 (start_addr + len)) d)"

definition storage_flash_erase_range :: "nat \<Rightarrow> nat \<Rightarrow> w25q \<Rightarrow> bool \<times> w25q" where
  "storage_flash_erase_range = region_erase_range storage_flash_in_range"

definition storage_cache_erase_range :: "nat \<Rightarrow> nat \<Rightarrow> w25q \<Rightarrow> bool \<times> w25q" where
  "storage_cache_erase_range = region_erase_range storage_cache_in_range"

text \<open>The bytes still to be written, from the address \<open>cur\<close>, page by page.\<close>

function page_loop :: "nat \<Rightarrow> u8 list \<Rightarrow> w25q \<Rightarrow> bool \<times> w25q" where
  "page_loop cur buf d =
     (if buf \<noteq> []
      then let page_remain = 256 - cur mod 256;
               chunk = (if length buf > page_remain then page_remain else length buf);
               (ok, d1) = DevStorage_PageProgram (of_nat cur) (take chunk buf) d
           in if \<not> ok then (False, d1) else page_loop (cur + chunk) (drop chunk buf) d1
      else (True, d))"
  by pat_completeness auto
termination by (relation "measure (\<lambda>(cur, buf, d). length buf)") auto

definition region_write :: "(nat \<Rightarrow> nat \<Rightarrow> bool) \<Rightarrow> nat \<Rightarrow> u8 list \<Rightarrow> w25q \<Rightarrow> bool \<times> w25q" where
  "region_write in_rng addr buf d = (if \<not> in_rng addr (length buf) then (False, d) else page_loop addr buf d)"

definition storage_flash_write :: "nat \<Rightarrow> u8 list \<Rightarrow> w25q \<Rightarrow> bool \<times> w25q" where
  "storage_flash_write = region_write storage_flash_in_range"

definition storage_cache_write :: "nat \<Rightarrow> u8 list \<Rightarrow> w25q \<Rightarrow> bool \<times> w25q" where
  "storage_cache_write = region_write storage_cache_in_range"

function erased_chunks :: "nat \<Rightarrow> nat \<Rightarrow> nat \<Rightarrow> w25q \<Rightarrow> bool \<times> w25q" where
  "erased_chunks addr off len d =
     (if off < len
      then let chunk = (if len - off > 64 then 64 else len - off)
           in (case DevStorage_Read (of_nat (addr + off)) chunk d of
                 (None, d1) \<Rightarrow> (False, d1)
               | (Some tmp, d1) \<Rightarrow>
                   if list_ex (\<lambda>b. b \<noteq> 0xFF) tmp then (False, d1) else erased_chunks addr (off + chunk) len d1)
      else (True, d))"
  by pat_completeness auto
termination by (relation "measure (\<lambda>(addr, off, len, d). len - off)") auto

definition storage_flash_is_erased :: "nat \<Rightarrow> nat \<Rightarrow> w25q \<Rightarrow> bool \<times> w25q" where
  "storage_flash_is_erased addr len d = erased_chunks addr 0 len d"

definition storage_cache_is_erased :: "nat \<Rightarrow> nat \<Rightarrow> w25q \<Rightarrow> bool \<times> w25q" where
  "storage_cache_is_erased addr len d =
     (if \<not> storage_cache_in_range addr len then (False, d) else erased_chunks addr 0 len d)"

declare erase_loop.simps [simp del] page_loop.simps [simp del] erased_chunks.simps [simp del]

section \<open>Scanning\<close>

text \<open>The loop of both scans, from an address to the end of the region, with the records counted so
  far and the largest sequence number; the two copies differ in the headers they accept.\<close>

function scan_loop :: "(rec_hdr \<Rightarrow> bool) \<Rightarrow> nat \<Rightarrow> nat \<Rightarrow> u32 \<Rightarrow> u32 \<Rightarrow> w25q \<Rightarrow> bool \<times> nat \<times> u32 \<times> u32 \<times> w25q" where
  "scan_loop hdr_ok fin addr cnt lseq d =
     (if addr + 24 \<le> fin
      then (case DevStorage_Read (of_nat addr) 24 d of
              (None, d1) \<Rightarrow> (False, addr, cnt, lseq, d1)
            | (Some hb, d1) \<Rightarrow>
                let hdr = hdr_of_bytes hb; rec_len = storage_align4 (24 + unat (hd_len hdr))
                in if hd_magic hdr = 0xFFFFFFFF then (True, addr, cnt, lseq, d1)
                   else if \<not> hdr_ok hdr then (True, addr, cnt, lseq, d1)
                   else if addr + rec_len > fin then (True, addr, cnt, lseq, d1)
                   else (case DevStorage_Read (of_nat (addr + 24)) (rec_len - 24) d1 of
                           (None, d2) \<Rightarrow> (False, addr, cnt, lseq, d2)
                         | (Some payload, d2) \<Rightarrow>
                             if hd_crc hdr \<noteq> record_crc hdr (take (unat (hd_len hdr)) payload) then (True, addr, cnt, lseq, d2)
                             else scan_loop hdr_ok fin (addr + rec_len) (cnt + 1)
                                    (if hd_seq hdr > lseq then hd_seq hdr else lseq) d2))
      else (True, addr, cnt, lseq, d))"
  by pat_completeness auto
termination by (relation "measure (\<lambda>(_, fin, addr, _). fin - addr)") (auto simp: storage_align4_def)

declare scan_loop.simps [simp del]

definition event_hdr_ok :: "rec_hdr \<Rightarrow> bool" where
  "event_hdr_ok hdr \<longleftrightarrow> \<not> (hd_magic hdr \<noteq> STORAGE_MAGIC \<or> hd_version hdr \<noteq> STORAGE_VERSION) \<and>
     \<not> unat (hd_len hdr) > STORAGE_MAX_PAYLOAD_LEN"

definition cache_hdr_ok :: "rec_hdr \<Rightarrow> bool" where
  "cache_hdr_ok hdr \<longleftrightarrow>
     \<not> (hd_magic hdr \<noteq> STORAGE_MAGIC \<or> hd_version hdr \<noteq> STORAGE_VERSION \<or> hd_type hdr \<noteq> STORAGE_REC_CACHE) \<and>
     \<not> (hd_len hdr = 0 \<or> unat (hd_len hdr) > STORAGE_MAX_PAYLOAD_LEN)"

definition storage_scan_event_region :: "storage_ctx \<Rightarrow> w25q \<Rightarrow> bool \<times> storage_ctx \<times> w25q" where
  "storage_scan_event_region c d =
     (case scan_loop event_hdr_ok (STORAGE_EVENT_BASE + STORAGE_EVENT_SIZE) STORAGE_EVENT_BASE 0 0 d of
        (ok, addr, cnt, lseq, d1) \<Rightarrow>
          let c1 = c\<lparr>event_valid_count := cnt, last_seq := lseq\<rparr>
          in if \<not> ok then (False, c1, d1) else (True, c1\<lparr>event_write_addr := addr\<rparr>, d1))"

definition storage_scan_cache_region :: "storage_ctx \<Rightarrow> w25q \<Rightarrow> bool \<times> storage_ctx \<times> w25q" where
  "storage_scan_cache_region c d =
     (case scan_loop cache_hdr_ok (STORAGE_CACHE_BASE + STORAGE_CACHE_SIZE) STORAGE_CACHE_BASE 0 (last_seq c) d of
        (ok, addr, cnt, lseq, d1) \<Rightarrow>
          let c1 = c\<lparr>cache_backlog := cnt, cache_read_addr := STORAGE_CACHE_BASE, last_seq := lseq\<rparr>
          in if \<not> ok then (False, c1, d1) else (True, c1\<lparr>cache_write_addr := addr\<rparr>, d1))"

section \<open>Writing\<close>

text \<open>What both writers do before a write: if the range is not erased, erase its sectors.\<close>

definition make_room :: "(nat \<Rightarrow> nat \<Rightarrow> w25q \<Rightarrow> bool \<times> w25q) \<Rightarrow> (nat \<Rightarrow> nat \<Rightarrow> w25q \<Rightarrow> bool \<times> w25q) \<Rightarrow>
    nat \<Rightarrow> nat \<Rightarrow> w25q \<Rightarrow> bool \<times> w25q" where
  "make_room is_erased erase_range addr len d =
     (let (blank, d1) = is_erased addr len d in if \<not> blank then erase_range addr len d1 else (True, d1))"

text \<open>The buffer that goes to the flash: header with its check word, payload, padding.\<close>

definition record_buf :: "rec_hdr \<Rightarrow> u8 list \<Rightarrow> u8 list" where
  "record_buf hdr payload =
     hdr_bytes (hdr\<lparr>hd_crc := record_crc hdr payload\<rparr>) @ payload @
     replicate (storage_align4 (24 + length payload) - (24 + length payload)) 0xFF"

text \<open>The write with the comparison that follows it.\<close>

definition write_verified :: "(nat \<Rightarrow> u8 list \<Rightarrow> w25q \<Rightarrow> bool \<times> w25q) \<Rightarrow> nat \<Rightarrow> u8 list \<Rightarrow> w25q \<Rightarrow> bool \<times> w25q" where
  "write_verified wr addr buf d =
     (let (ok, d1) = wr addr buf d
      in if \<not> ok then (False, d1)
         else (case DevStorage_Read (of_nat addr) (length buf) d1 of
                 (None, d2) \<Rightarrow> (False, d2)
               | (Some verify, d2) \<Rightarrow> (buf = verify, d2)))"

definition new_hdr :: "u16 \<Rightarrow> u32 \<Rightarrow> u32 \<Rightarrow> nat \<Rightarrow> rec_hdr" where
  "new_hdr rec_type seq tick len = \<lparr>hd_magic = STORAGE_MAGIC, hd_version = STORAGE_VERSION, hd_type = rec_type,
     hd_seq = seq, hd_tick = tick, hd_len = of_nat len, hd_flags = 0, hd_crc = 0\<rparr>"

definition storage_write_record :: "u16 \<Rightarrow> u8 list \<Rightarrow> u32 \<Rightarrow> storage_ctx \<Rightarrow> w25q \<Rightarrow> bool \<times> storage_ctx \<times> w25q" where
  "storage_write_record rec_type payload tick c d =
     (if length payload = 0 \<or> length payload > STORAGE_MAX_PAYLOAD_LEN then (False, c, d)
      else let total_len = storage_align4 (24 + length payload);
               c1 = (if event_write_addr c + total_len > STORAGE_EVENT_BASE + STORAGE_EVENT_SIZE
                     then c\<lparr>event_write_addr := STORAGE_EVENT_BASE\<rparr> else c);
               write_addr = event_write_addr c1;
               (room, d1) = make_room storage_flash_is_erased storage_flash_erase_range write_addr total_len d
           in if \<not> room then (False, c1, d1)
              else let hdr = new_hdr rec_type (last_seq c1 + 1) tick (length payload);
                       (ok, d2) = write_verified storage_flash_write write_addr (record_buf hdr payload) d1
                   in if \<not> ok then (False, c1, d2)
                      else (True, c1\<lparr>last_seq := hd_seq hdr, event_valid_count := event_valid_count c1 + 1,
                                     event_write_addr := write_addr + total_len\<rparr>, d2))"

definition storage_write_cache_record :: "u8 list \<Rightarrow> u32 \<Rightarrow> storage_ctx \<Rightarrow> w25q \<Rightarrow> bool \<times> storage_ctx \<times> w25q" where
  "storage_write_cache_record payload tick c d =
     (if length payload = 0 \<or> length payload > STORAGE_MAX_PAYLOAD_LEN then (False, c, d)
      else let total_len = storage_align4 (24 + length payload);
               c1 = (if cache_write_addr c + total_len > STORAGE_CACHE_BASE + STORAGE_CACHE_SIZE
                     then c\<lparr>cache_write_addr := STORAGE_CACHE_BASE, cache_read_addr := STORAGE_CACHE_BASE, cache_backlog := 0\<rparr>
                     else c);
               write_addr = cache_write_addr c1;
               (room, d1) = make_room storage_cache_is_erased storage_cache_erase_range write_addr total_len d
           in if \<not> room then (False, c1, d1)
              else let hdr = new_hdr STORAGE_REC_CACHE (last_seq c1 + 1) tick (length payload);
                       (ok, d2) = write_verified storage_cache_write write_addr (record_buf hdr payload) d1
                   in if \<not> ok then (False, c1, d2)
                      else (True, c1\<lparr>last_seq := hd_seq hdr, cache_write_addr := write_addr + total_len,
                                     cache_backlog := cache_backlog c1 + 1\<rparr>, d2))"

section \<open>The cache seen by the gateway\<close>

definition Storage_PeekCache :: "storage_ctx \<Rightarrow> w25q \<Rightarrow> (u32 \<times> u8 list) option \<times> storage_ctx \<times> w25q" where
  "Storage_PeekCache c d =
     (if cache_backlog c = 0 then (None, c, d)
      else (case DevStorage_Read (of_nat (cache_read_addr c)) 24 d of
              (None, d1) \<Rightarrow> (None, c, d1)
            | (Some hb, d1) \<Rightarrow>
                let hdr = hdr_of_bytes hb
                in if hd_magic hdr \<noteq> STORAGE_MAGIC \<or> hd_type hdr \<noteq> STORAGE_REC_CACHE \<or> hd_len hdr = 0 \<or>
                      unat (hd_len hdr) > STORAGE_MAX_PAYLOAD_LEN
                   then let (_, c1, d2) = storage_scan_cache_region c d1 in (None, c1, d2)
                   else if \<not> storage_cache_in_range (cache_read_addr c) (storage_align4 (24 + unat (hd_len hdr)))
                   then (None, c, d1)
                   else (case DevStorage_Read (of_nat (cache_read_addr c + 24)) (unat (hd_len hdr)) d1 of
                           (None, d2) \<Rightarrow> (None, c, d2)
                         | (Some payload, d2) \<Rightarrow> (Some (hd_seq hdr, payload), c, d2))))"

definition Storage_MarkCacheAck :: "u32 \<Rightarrow> storage_ctx \<Rightarrow> w25q \<Rightarrow> bool \<times> storage_ctx \<times> w25q" where
  "Storage_MarkCacheAck seq c d =
     (if cache_backlog c = 0 then (False, c, d)
      else (case DevStorage_Read (of_nat (cache_read_addr c)) 24 d of
              (None, d1) \<Rightarrow> (False, c, d1)
            | (Some hb, d1) \<Rightarrow>
                let hdr = hdr_of_bytes hb
                in if hd_seq hdr \<noteq> seq then (False, c, d1)
                   else let rec_len = storage_align4 (24 + unat (hd_len hdr));
                            a = cache_read_addr c + rec_len;
                            a' = (if a \<ge> STORAGE_CACHE_BASE + STORAGE_CACHE_SIZE then STORAGE_CACHE_BASE else a)
                        in (True, c\<lparr>cache_read_addr := a', cache_backlog := cache_backlog c - 1\<rparr>, d1)))"

definition Storage_GetCacheBacklog :: "storage_ctx \<Rightarrow> u32" where
  "Storage_GetCacheBacklog c = cache_backlog c"

record storage_stats =
  ss_event_valid_count :: u32
  ss_last_seq :: u32
  ss_event_write_addr :: nat
  ss_cache_backlog :: u32
  ss_flash_size :: u32

definition Storage_GetStats :: "storage_ctx \<Rightarrow> bool \<times> storage_stats" where
  "Storage_GetStats c =
     (st_inited c \<noteq> 0, \<lparr>ss_event_valid_count = event_valid_count c, ss_last_seq = last_seq c,
        ss_event_write_addr = event_write_addr c, ss_cache_backlog = cache_backlog c, ss_flash_size = st_flash_size c\<rparr>)"

section \<open>The queue and the task\<close>

datatype storage_msg_type = STORAGE_MSG_WRITE_EVENT | STORAGE_MSG_WRITE_FAULT | STORAGE_MSG_WRITE_CACHE

type_synonym storage_msg = "storage_msg_type \<times> u8 list"

text \<open>Sending does not wait: a full queue drops the message. A text is given by its bytes without the
  closing zero.\<close>

definition storage_enqueue :: "storage_msg \<Rightarrow> storage_msg list \<Rightarrow> bool \<times> storage_msg list" where
  "storage_enqueue msg q = (if length q \<ge> STORAGE_TASK_QUEUE_LEN then (False, q) else (True, q @ [msg]))"

definition storage_queue_text :: "storage_msg_type \<Rightarrow> u8 list \<Rightarrow> storage_msg list \<Rightarrow> bool \<times> storage_msg list" where
  "storage_queue_text ty text q =
     (let len = length text
      in if len = 0 then (False, q)
         else let len' = (if len > STORAGE_MAX_PAYLOAD_LEN then STORAGE_MAX_PAYLOAD_LEN else len)
              in storage_enqueue (ty, take len' text) q)"

definition Storage_WriteEvent :: "u8 list \<Rightarrow> storage_msg list \<Rightarrow> bool \<times> storage_msg list" where
  "Storage_WriteEvent = storage_queue_text STORAGE_MSG_WRITE_EVENT"

definition Storage_WriteFault :: "u8 list \<Rightarrow> storage_msg list \<Rightarrow> bool \<times> storage_msg list" where
  "Storage_WriteFault = storage_queue_text STORAGE_MSG_WRITE_FAULT"

definition Storage_WriteCache :: "u8 list \<Rightarrow> storage_msg list \<Rightarrow> bool \<times> storage_msg list" where
  "Storage_WriteCache payload q =
     (if length payload = 0 \<or> length payload > STORAGE_MAX_PAYLOAD_LEN then (False, q)
      else storage_enqueue (STORAGE_MSG_WRITE_CACHE, payload) q)"

text \<open>The letters of \<open>event=boot\<close>.\<close>

definition boot_event :: "u8 list" where
  "boot_event = [0x65, 0x76, 0x65, 0x6E, 0x74, 0x3D, 0x62, 0x6F, 0x6F, 0x74]"

definition storage_ctx_zero :: storage_ctx where
  "storage_ctx_zero = \<lparr>st_inited = 0, st_flash_size = 0, event_write_addr = 0, event_valid_count = 0, cache_read_addr = 0,
     cache_write_addr = 0, cache_backlog = 0, last_seq = 0\<rparr>"

text \<open>The start of the task: no result means that it deletes itself.\<close>

definition StorageTask_start :: "u32 \<Rightarrow> w25q \<Rightarrow> storage_ctx option \<times> w25q" where
  "StorageTask_start tick d =
     (let (ok, d1) = DevStorage_Init d
      in if \<not> ok then (let (_, d2) = DevStorage_ReadJEDECID d1 in (None, d2))
         else let (_, d2) = DevStorage_ReadJEDECID d1;
                  c0 = storage_ctx_zero\<lparr>st_flash_size := DevStorage_GetSizeBytes d2\<rparr>;
                  (_, c1, d3) = storage_scan_event_region c0 d2;
                  (_, c2, d4) = storage_scan_cache_region c1 d3;
                  c3 = c2\<lparr>st_inited := 1\<rparr>;
                  (_, c4, d5) = storage_write_record STORAGE_REC_EVENT boot_event tick c3 d4
              in (Some c4, d5))"

text \<open>One turn of its loop.\<close>

fun StorageTask_step :: "u32 \<Rightarrow> storage_msg list \<Rightarrow> storage_ctx \<Rightarrow> w25q \<Rightarrow> storage_msg list \<times> storage_ctx \<times> w25q" where
  "StorageTask_step tick [] c d = ([], c, d)"
| "StorageTask_step tick ((STORAGE_MSG_WRITE_EVENT, payload) # q) c d =
     (q, snd (storage_write_record STORAGE_REC_EVENT payload tick c d))"
| "StorageTask_step tick ((STORAGE_MSG_WRITE_FAULT, payload) # q) c d =
     (q, snd (storage_write_record STORAGE_REC_FAULT payload tick c d))"
| "StorageTask_step tick ((STORAGE_MSG_WRITE_CACHE, payload) # q) c d =
     (q, snd (storage_write_cache_record payload tick c d))"

end
