(* ===== verification/Storage_Queue.thy ===== *)
theory Storage_Queue
  imports Storage_Log
begin

text \<open>
  What the storage task promises: its two regions as lists of records, the scan that recovers them
  after a reset, and the cache of unsent reports as a first-in first-out queue.
\<close>

section \<open>Records in memory\<close>

lemma length_hdr_bytes [simp]: "length (hdr_bytes h) = 24"
  by (simp add: hdr_bytes_def)

lemma hdr_roundtrip [simp]: "hdr_of_bytes (hdr_bytes h @ xs) = h"
  by (simp add: hdr_of_bytes_def hdr_bytes_def rd32_def rd16_def le32_def le16_def)

lemma storage_align4_bounds: "n \<le> storage_align4 n" "storage_align4 n \<le> n + 3" "n \<le> m \<Longrightarrow> storage_align4 n \<le> storage_align4 m"
  by (simp_all add: storage_align4_def div_le_mono)

lemma length_record_buf [simp]: "length (record_buf h p) = storage_align4 (24 + length p)"
  using storage_align4_bounds(1) [of "24 + length p"] by (simp add: record_buf_def)

text \<open>The record at an address, if there is one.\<close>

definition parse_rec :: "(rec_hdr \<Rightarrow> bool) \<Rightarrow> nat \<Rightarrow> mem \<Rightarrow> nat \<Rightarrow> (rec_hdr \<times> u8 list) option" where
  "parse_rec hdr_ok fin m a =
     (if a + 24 \<le> fin
      then let hdr = hdr_of_bytes (rdn m (of_nat a) 24); n = unat (hd_len hdr); payload = rdn m (of_nat (a + 24)) n
           in if hd_magic hdr = 0xFFFFFFFF \<or> \<not> hdr_ok hdr \<or> a + storage_align4 (24 + n) > fin \<or>
                 hd_crc hdr \<noteq> record_crc hdr payload
              then None else Some (hdr, payload)
      else None)"

definition rec_size :: "rec_hdr \<times> u8 list \<Rightarrow> nat" where
  "rec_size r = storage_align4 (24 + unat (hd_len (fst r)))"

text \<open>A chain of records from one address to another.\<close>

fun chain :: "(rec_hdr \<Rightarrow> bool) \<Rightarrow> nat \<Rightarrow> mem \<Rightarrow> nat \<Rightarrow> (rec_hdr \<times> u8 list) list \<Rightarrow> nat \<Rightarrow> bool" where
  "chain hdr_ok fin m a [] b = (a = b)"
| "chain hdr_ok fin m a (r # rs) b = (parse_rec hdr_ok fin m a = Some r \<and> chain hdr_ok fin m (a + rec_size r) rs b)"

lemma parse_rec_bounds:
  "parse_rec hdr_ok fin m a = Some r \<Longrightarrow> a + rec_size r \<le> fin \<and> 24 \<le> rec_size r \<and> length (snd r) = unat (hd_len (fst r))"
  using storage_align4_bounds(1) [of "24 + unat (hd_len (fst r))"]
  by (auto simp: parse_rec_def rec_size_def Let_def split: if_splits)

lemma chain_append: "chain ok fin m a (rs @ ss) b \<longleftrightarrow> (\<exists>c. chain ok fin m a rs c \<and> chain ok fin m c ss b)"
  by (induction rs arbitrary: a) auto

lemma chain_bounds: "chain ok fin m a rs b \<Longrightarrow> a \<le> b \<and> (rs \<noteq> [] \<longrightarrow> a + 24 \<le> b \<and> b \<le> fin)"
proof (induction rs arbitrary: a)
  case (Cons r rs)
  then have p: "parse_rec ok fin m a = Some r" and c: "chain ok fin m (a + rec_size r) rs b" by auto
  show ?case using parse_rec_bounds [OF p] Cons.IH [OF c] c by (cases rs) auto
qed simp

text \<open>A chain depends on nothing but the bytes of its records.\<close>

lemma parse_rec_cong:
  assumes "parse_rec ok fin m a = Some r" "fin \<le> 0x1000000"
    "\<And>x. in_range (of_nat a) (rec_size r) x \<Longrightarrow> m' x = m x"
  shows "parse_rec ok fin m' a = Some r"
proof -
  note b = parse_rec_bounds [OF assms(1)]
  have n: "rec_size r \<le> 2 ^ 32" using b assms(2) by simp
  have r24: "rdn m' (of_nat a) 24 = rdn m (of_nat a) 24"
    by (rule rdn_unchanged) (use assms(3) b in \<open>auto dest: in_range_mono\<close>)
  have "24 + unat (hd_len (fst r)) \<le> rec_size r" by (simp add: rec_size_def storage_align4_bounds)
  then have "rdn m' (of_nat a) (24 + unat (hd_len (fst r))) = rdn m (of_nat a) (24 + unat (hd_len (fst r)))"
    using n by (intro rdn_unchanged) (use assms(3) in \<open>auto dest: in_range_mono\<close>)
  then have "rdn m' (of_nat (a + 24)) (unat (hd_len (fst r))) = rdn m (of_nat (a + 24)) (unat (hd_len (fst r)))"
    by (simp add: rdn_add)
  moreover have "fst r = hdr_of_bytes (rdn m (of_nat a) 24)"
    using assms(1) by (auto simp: parse_rec_def Let_def split: if_splits)
  ultimately show ?thesis using assms(1) r24 by (simp add: parse_rec_def Let_def split: if_splits)
qed

lemma in_range_nat: "a + n \<le> 2 ^ 32 \<Longrightarrow> in_range (of_nat a) n x \<longleftrightarrow> a \<le> unat x \<and> unat x < a + n"
proof -
  assume s: "a + n \<le> 2 ^ 32"
  show ?thesis
  proof (cases "n = 0")
    case False
    then have a: "unat (of_nat a :: u32) = a" using s by (intro unat_of_nat_lt) simp
    show ?thesis
    proof (cases "a \<le> unat x")
      case True
      then have "unat (x - of_nat a) = unat x - a" using a by (simp add: unat_sub word_le_nat_alt)
      then show ?thesis using True by (auto simp: in_range_def)
    next
      case False
      have "\<not> in_range (of_nat a) n x"
      proof
        assume "in_range (of_nat a) n x"
        then obtain i where i: "i < n" "x = of_nat a + of_nat i" using s by (auto simp: in_range_iff)
        then have "x = of_nat (a + i)" by simp
        then have "unat x = a + i" using i s by (simp only:) (rule unat_of_nat_lt, simp)
        then show False using False by simp
      qed
      then show ?thesis using False by simp
    qed
  qed simp
qed

lemma chain_cong:
  assumes "chain ok fin m a rs b" "fin \<le> 0x1000000" "\<And>x. a \<le> unat x \<Longrightarrow> unat x < b \<Longrightarrow> m' x = m x"
  shows "chain ok fin m' a rs b"
  using assms(1,3)
proof (induction rs arbitrary: a)
  case (Cons r rs)
  then have p: "parse_rec ok fin m a = Some r" and c: "chain ok fin m (a + rec_size r) rs b" by auto
  note pb = parse_rec_bounds [OF p]
  have e: "a + rec_size r \<le> b" using chain_bounds [OF c] by simp
  have "parse_rec ok fin m' a = Some r"
    using p assms(2) by (rule parse_rec_cong) (use Cons.prems(2) pb e assms(2) in \<open>simp add: in_range_nat\<close>)
  moreover have "chain ok fin m' (a + rec_size r) rs b"
    using c by (rule Cons.IH) (use Cons.prems(2) in simp)
  ultimately show ?case by simp
qed simp

text \<open>A record that lies in memory is found.\<close>

lemma parse_rec_written:
  assumes "rdn m (of_nat a) (storage_align4 (24 + length p)) = record_buf h p" "unat (hd_len h) = length p"
    "a + storage_align4 (24 + length p) \<le> fin" "ok (h\<lparr>hd_crc := record_crc h p\<rparr>)" "hd_magic h \<noteq> 0xFFFFFFFF"
  shows "parse_rec ok fin m a = Some (h\<lparr>hd_crc := record_crc h p\<rparr>, p)"
proof -
  let ?h = "h\<lparr>hd_crc := record_crc h p\<rparr>" and ?n = "24 + length p"
  obtain k where k: "storage_align4 ?n = 24 + (length p + k)" using storage_align4_bounds(1) [of ?n] by (metis le_Suc_ex add.assoc)
  have s: "rdn m (of_nat a) 24 @ rdn m (of_nat (a + 24)) (length p) @ rdn m (of_nat (a + 24 + length p)) k =
      hdr_bytes ?h @ p @ replicate k 0xFF"
    using assms(1) unfolding k record_buf_def rdn_add by (simp add: add.assoc)
  then have h: "rdn m (of_nat a) 24 = hdr_bytes ?h" and p: "rdn m (of_nat (a + 24)) (length p) = p" by simp_all
  have hh: "hdr_of_bytes (rdn m (of_nat a) 24) = ?h" using h hdr_roundtrip [of ?h "[]"] by simp
  have c: "record_crc ?h p = record_crc h p" by (simp add: record_crc_def)
  have "a + 24 \<le> fin" using assms(3) storage_align4_bounds(1) [of ?n] by simp
  then show ?thesis unfolding parse_rec_def hh Let_def using assms p c by simp
qed

section \<open>The loops over the flash\<close>

lemma of_nat_16M: "n < 0x1000000 \<Longrightarrow> unat (of_nat n :: u32) = n \<and> (of_nat n :: u32) < 0x1000000"
proof -
  assume n: "n < 0x1000000"
  then have u: "unat (of_nat n :: u32) = n" by (intro unat_of_nat_lt) simp
  then show ?thesis using n by (simp add: word_less_nat_alt)
qed

lemma read_16M:
  assumes "chip_ok d" "a + n \<le> 0x1000000" "a < 0x1000000"
  shows "\<exists>d'. DevStorage_Read (of_nat a) n d = (Some (rdn (w_mem d) (of_nat a) n), d') \<and> w_only (\<lambda>_. False) d d'"
  using W25QXX_Read_ok [of d "of_nat a" n] of_nat_16M [of a] assms by (simp add: dev_storage)

lemma take_rdn: "k \<le> n \<Longrightarrow> take k (rdn m a n) = rdn m a k"
  by (rule nth_equalityI) auto

lemma read_only [simp]: "DevStorage_Read a n d = (r, d') \<Longrightarrow> w_only (\<lambda>_. False) d d'"
  by (auto simp: dev_storage dest: W25QXX_Read_only)

text \<open>The scan counts the records of the chain and ends behind the last.\<close>

definition max_seq :: "u32 \<Rightarrow> (rec_hdr \<times> u8 list) list \<Rightarrow> u32" where
  "max_seq = foldl (\<lambda>l r. if hd_seq (fst r) > l then hd_seq (fst r) else l)"

lemma max_seq_simps [simp]: "max_seq l [] = l"
  "max_seq l (rs @ [r]) = (if hd_seq (fst r) > max_seq l rs then hd_seq (fst r) else max_seq l rs)"
  by (simp_all add: max_seq_def)

lemma max_seq_Cons [simp]: "max_seq l (r # rs) = max_seq (if hd_seq (fst r) > l then hd_seq (fst r) else l) rs"
  by (simp add: max_seq_def)

lemma scan_loop_step:
  assumes "chip_ok d" "fin \<le> 0x1000000"
  shows "\<exists>d'. w_only (\<lambda>_. False) d d' \<and>
    scan_loop ok fin a cnt l d = (case parse_rec ok fin (w_mem d) a of
        None \<Rightarrow> (True, a, cnt, l, d')
      | Some r \<Rightarrow> scan_loop ok fin (a + rec_size r) (cnt + 1) (if hd_seq (fst r) > l then hd_seq (fst r) else l) d')"
proof (cases "a + 24 \<le> fin")
  case True
  obtain d1 where d1: "DevStorage_Read (of_nat a) 24 d = (Some (rdn (w_mem d) (of_nat a) 24), d1)" "w_only (\<lambda>_. False) d d1"
    using read_16M [OF assms(1), of a 24] True assms(2) by auto
  let ?h = "hdr_of_bytes (rdn (w_mem d) (of_nat a) 24)"
  let ?n = "storage_align4 (24 + unat (hd_len ?h))"
  show ?thesis
  proof (cases "hd_magic ?h = 0xFFFFFFFF \<or> \<not> ok ?h \<or> a + ?n > fin")
    case True
    then have "parse_rec ok fin (w_mem d) a = None" by (auto simp: parse_rec_def Let_def)
    then show ?thesis using True d1 \<open>a + 24 \<le> fin\<close> by (subst scan_loop.simps) (auto simp: Let_def)
  next
    case False
    have le: "24 + unat (hd_len ?h) \<le> ?n" by (rule storage_align4_bounds)
    obtain d2 where d2: "DevStorage_Read (of_nat (a + 24)) (?n - 24) d1 = (Some (rdn (w_mem d) (of_nat (a + 24)) (?n - 24)), d2)"
        "w_only (\<lambda>_. False) d1 d2"
    proof (cases "a + 24 < 0x1000000")
      case True
      then show ?thesis
        using that read_16M [of d1 "a + 24" "?n - 24"] False le assms d1(2) w_only_False [OF d1(2)] chip_ok_only [OF d1(2)] by auto
    next
      case False
      then have n24: "?n - 24 = 0" using \<open>\<not> (hd_magic ?h = 0xFFFFFFFF \<or> \<not> ok ?h \<or> a + ?n > fin)\<close> assms(2) by simp
      have "chip_ok d1" using chip_ok_only [OF d1(2)] assms(1) by simp
      then have "DevStorage_Read (of_nat (a + 24)) 0 d1 = (Some [], d1)"
        by (simp add: dev_storage W25QXX_Read_def w25qxx_addr_valid_def chip_ok_def)
      then show ?thesis using that n24 by simp
    qed
    have tk: "take (unat (hd_len ?h)) (rdn (w_mem d) (of_nat (a + 24)) (?n - 24)) = rdn (w_mem d) (of_nat (a + 24)) (unat (hd_len ?h))"
      using le by (intro take_rdn) simp
    have "w_only (\<lambda>_. False) d d2" using d1(2) d2(2) by (rule w_only_trans)
    then show ?thesis
      using False True d1(1) d2(1) tk
      by (subst scan_loop.simps) (auto simp: Let_def parse_rec_def rec_size_def)
  qed
next
  case False
  then show ?thesis by (subst scan_loop.simps) (auto simp: parse_rec_def)
qed

lemma scan_loop_chain:
  assumes "chip_ok d" "fin \<le> 0x1000000" "chain ok fin (w_mem d) a rs b" "parse_rec ok fin (w_mem d) b = None"
  shows "\<exists>d'. w_only (\<lambda>_. False) d d' \<and> scan_loop ok fin a cnt l d = (True, b, cnt + of_nat (length rs), max_seq l rs, d')"
  using assms
proof (induction rs arbitrary: a d cnt l)
  case Nil
  then show ?case using scan_loop_step [of d fin ok a cnt l] by auto
next
  case (Cons r rs)
  obtain d1 where d1: "w_only (\<lambda>_. False) d d1"
      "scan_loop ok fin a cnt l d = scan_loop ok fin (a + rec_size r) (cnt + 1) (if hd_seq (fst r) > l then hd_seq (fst r) else l) d1"
    using scan_loop_step [OF Cons.prems(1,2), of ok a cnt l] Cons.prems(3) by auto
  have m: "w_mem d1 = w_mem d" "chip_ok d1" using w_only_False [OF d1(1)] chip_ok_only [OF d1(1)] Cons.prems(1) by simp_all
  then obtain d' where "w_only (\<lambda>_. False) d1 d'"
      "scan_loop ok fin (a + rec_size r) (cnt + 1) (if hd_seq (fst r) > l then hd_seq (fst r) else l) d1 =
         (True, b, cnt + 1 + of_nat (length rs), max_seq (if hd_seq (fst r) > l then hd_seq (fst r) else l) rs, d')"
    using Cons.IH [of d1 "a + rec_size r" "cnt + 1" "if hd_seq (fst r) > l then hd_seq (fst r) else l"] Cons.prems by auto
  then show ?case using d1 by (auto intro: w_only_trans simp: add.assoc)
qed

text \<open>The page loop writes its range only, and all of it on an erased range.\<close>

lemma in_range_sub:
  "in_range (a + of_nat k) (n - k) x \<Longrightarrow> k \<le> n \<Longrightarrow> n \<le> 2 ^ 32 \<Longrightarrow> in_range a n x"
  using in_range_add [of k "n - k" a x] by simp

lemma page_loop_only:
  "page_loop cur buf d = (ok, d') \<Longrightarrow> cur + length buf \<le> 0x1000000 \<Longrightarrow> w_only (in_range (of_nat cur) (length buf)) d d'"
proof (induction cur buf d arbitrary: ok d' rule: page_loop.induct)
  case (1 cur buf d)
  let ?c = "if length buf > 256 - cur mod 256 then 256 - cur mod 256 else length buf"
  show ?case
  proof (cases "buf = []")
    case True
    then show ?thesis using "1.prems" by (simp add: page_loop.simps)
  next
    case False
    obtain st d1 where p: "DevStorage_PageProgram (of_nat cur) (take ?c buf) d = (st, d1)"
      by (cases "DevStorage_PageProgram (of_nat cur) (take ?c buf) d")
    have cl: "?c \<le> length buf" by simp
    have lt: "cur < 0x1000000" using "1.prems"(2) False by (cases buf) auto
    have "w_only (in_range (of_nat cur) (length (take ?c buf))) d d1"
      using W25QXX_PageProgram_only [of "of_nat cur" "take ?c buf" d st d1] p of_nat_16M [OF lt] by (simp add: dev_storage)
    then have o1: "w_only (in_range (of_nat cur) (length buf)) d d1"
      by (rule w_only_mono) (rule in_range_mono, assumption, simp)
    show ?thesis
    proof (cases st)
      case True
      then have "page_loop (cur + ?c) (drop ?c buf) d1 = (ok, d')"
        using "1.prems"(1) False p by (subst (asm) page_loop.simps) (simp add: Let_def)
      then have "w_only (in_range (of_nat (cur + ?c)) (length (drop ?c buf))) d1 d'"
        using "1.IH" [OF False refl refl refl p [symmetric]] True "1.prems"(2) cl by simp
      then have "w_only (in_range (of_nat cur) (length buf)) d1 d'"
        by (rule w_only_mono) (rule in_range_sub [of _ ?c], use cl "1.prems"(2) in simp_all)
      then show ?thesis using o1 by (rule w_only_trans [rotated])
    next
      case False
      then show ?thesis using "1.prems"(1) \<open>buf \<noteq> []\<close> p o1 by (subst (asm) page_loop.simps) (simp add: Let_def)
    qed
  qed
qed

lemma page_offset: "unat (of_nat cur AND 0xFF :: u32) = cur mod 256"
proof -
  have "(of_nat cur :: u32) AND 0xFF = take_bit 8 (of_nat cur)" by (simp add: take_bit_eq_mask mask_eq_exp_minus_1)
  then have "unat (of_nat cur AND 0xFF :: u32) = take_bit 8 (take_bit 32 cur)"
    by (simp add: unsigned_take_bit_eq unsigned_of_nat)
  then show ?thesis by (simp add: take_bit_eq_mod mod_mod_cancel)
qed

lemma page_loop_step:
  assumes "buf \<noteq> []"
  obtains c where "0 < c" "c \<le> length buf" "cur mod 256 + c \<le> 256"
    "page_loop cur buf d = (let (ok, d1) = DevStorage_PageProgram (of_nat cur) (take c buf) d
       in if \<not> ok then (False, d1) else page_loop (cur + c) (drop c buf) d1)"
proof -
  let ?c = "if length buf > 256 - cur mod 256 then 256 - cur mod 256 else length buf"
  have "page_loop cur buf d = (let (ok, d1) = DevStorage_PageProgram (of_nat cur) (take ?c buf) d
       in if \<not> ok then (False, d1) else page_loop (cur + ?c) (drop ?c buf) d1)"
    using assms by (subst page_loop.simps) (simp add: Let_def)
  moreover have "0 < ?c" "?c \<le> length buf" "cur mod 256 + ?c \<le> 256" using assms by auto
  ultimately show thesis by (rule that [rotated 3])
qed

lemma page_program_ok:
  assumes "chip_ok d" "cur + c \<le> 0x1000000" "0 < c" "c \<le> length buf" "cur mod 256 + c \<le> 256"
    "\<And>x. in_range (of_nat cur) c x \<Longrightarrow> w_mem d x = 0xFF"
  shows "\<exists>d1. DevStorage_PageProgram (of_nat cur) (take c buf) d = (True, d1) \<and>
    rdn (w_mem d1) (of_nat cur) c = take c buf \<and> w_only (in_range (of_nat cur) c) d d1"
proof -
  have lt: "cur < 0x1000000" using assms(2,3) by simp
  note n = of_nat_16M [OF lt]
  have "length (take c buf) = c" using assms(4) by simp
  moreover have "take c buf \<noteq> []" using assms(3,4) by auto
  ultimately show ?thesis
    using W25QXX_PageProgram_ok [OF assms(1), of "of_nat cur" "take c buf"] n assms(2,5,6) page_offset [of cur]
      W25QXX_PageProgram_only [of "of_nat cur" "take c buf" d] by (auto simp: dev_storage) 
qed

lemma page_loop_ok:
  "chip_ok d \<Longrightarrow> cur + length buf \<le> 0x1000000 \<Longrightarrow> (\<And>x. in_range (of_nat cur) (length buf) x \<Longrightarrow> w_mem d x = 0xFF) \<Longrightarrow>
   \<exists>d'. page_loop cur buf d = (True, d') \<and> rdn (w_mem d') (of_nat cur) (length buf) = buf"
proof (induction "length buf" arbitrary: cur buf d rule: less_induct)
  case (less buf cur d)
  show ?case
  proof (cases "buf = []")
    case True
    then show ?thesis by (simp add: page_loop.simps)
  next
    case False
    obtain c where c: "0 < c" "c \<le> length buf" "cur mod 256 + c \<le> 256"
      "page_loop cur buf d = (let (ok, d1) = DevStorage_PageProgram (of_nat cur) (take c buf) d
         in if \<not> ok then (False, d1) else page_loop (cur + c) (drop c buf) d1)"
      by (rule page_loop_step [OF False])
    have big: "length buf \<le> 2 ^ 32" "c \<le> 2 ^ 32" "cur + c \<le> 0x1000000" using less.prems(2) c(2) by simp_all
    have fc: "w_mem d x = 0xFF" if "in_range (of_nat cur) c x" for x
      by (rule less.prems(3)) (rule in_range_mono [OF that c(2)])
    obtain d1 where d1: "DevStorage_PageProgram (of_nat cur) (take c buf) d = (True, d1)"
        "rdn (w_mem d1) (of_nat cur) c = take c buf" "w_only (in_range (of_nat cur) c) d d1"
      using page_program_ok [OF less.prems(1) big(3) c(1,2,3) fc] by blast
    have dj: "\<not> in_range (of_nat cur) c x" if "in_range (of_nat (cur + c)) (length (drop c buf)) x" for x
      using that in_range_disjoint [of "of_nat cur" c "length (drop c buf)" x] c(2) big(1) by simp
    have ff1: "w_mem d1 x = 0xFF" if x: "in_range (of_nat (cur + c)) (length (drop c buf)) x" for x
    proof -
      have "in_range (of_nat cur) (length buf) x"
        by (rule in_range_sub [of _ c]) (use x c(2) big(1) in simp_all)
      then show ?thesis using dj [OF x] d1(3) less.prems(3) by (simp add: w_only_def)
    qed
    have "length (drop c buf) < length buf" using c(1,2) by simp
    moreover have "chip_ok d1" using chip_ok_only [OF d1(3)] less.prems(1) by simp
    moreover have "cur + c + length (drop c buf) \<le> 0x1000000" using less.prems(2) c(2) by simp
    ultimately obtain d' where d': "page_loop (cur + c) (drop c buf) d1 = (True, d')"
        "rdn (w_mem d') (of_nat (cur + c)) (length (drop c buf)) = drop c buf"
      using less.hyps [of "drop c buf" d1 "cur + c"] ff1 by blast
    have o2: "w_only (in_range (of_nat (cur + c)) (length (drop c buf))) d1 d'"
      using d'(1) by (rule page_loop_only) (use less.prems(2) c(2) in simp)
    have "rdn (w_mem d') (of_nat cur) c = rdn (w_mem d1) (of_nat cur) c"
      using o2 big(2) by (rule w_only_rdn) (use dj in blast)
    then have tk: "rdn (w_mem d') (of_nat cur) c = take c buf" using d1(2) by simp
    have "rdn (w_mem d') (of_nat cur) (length buf) = buf"
      using tk by (rule rdn_split) (use d'(2) c(2) in simp_all)
    then show ?thesis using d1(1) d'(1) c(4) by simp
  qed
qed

text \<open>The blank check changes nothing and says what it says.\<close>

lemma erased_chunks_only: "erased_chunks addr off len d = (ok, d') \<Longrightarrow> w_only (\<lambda>_. False) d d'"
proof (induction addr off len d arbitrary: ok d' rule: erased_chunks.induct)
  case (1 addr off len d)
  let ?c = "if len - off > 64 then 64 else len - off"
  obtain r d1 where r: "DevStorage_Read (of_nat (addr + off)) ?c d = (r, d1)"
    by (cases "DevStorage_Read (of_nat (addr + off)) ?c d")
  note o = read_only [OF r]
  show ?case
  proof (cases "off < len \<and> (\<exists>tmp. r = Some tmp \<and> \<not> list_ex (\<lambda>b. b \<noteq> 0xFF) tmp)")
    case True
    then obtain tmp where t: "off < len" "r = Some tmp" "\<not> list_ex (\<lambda>b. b \<noteq> 0xFF) tmp" by auto
    then have "erased_chunks addr (off + ?c) len d1 = (ok, d')"
      using "1.prems" r by (subst (asm) erased_chunks.simps) (simp add: Let_def)
    then have "w_only (\<lambda>_. False) d1 d'" by (rule "1.IH" [OF t(1) refl r [symmetric] t(2,3)])
    with o show ?thesis by (rule w_only_trans)
  next
    case False
    then show ?thesis using "1.prems" r o
      by (subst (asm) erased_chunks.simps) (auto simp: Let_def split: if_splits option.splits)
  qed
qed

definition blank :: "mem \<Rightarrow> nat \<Rightarrow> nat \<Rightarrow> bool" where
  "blank m a n \<longleftrightarrow> (\<forall>i < n. m (of_nat (a + i)) = 0xFF)"

lemma blank_rdn: "blank m a n \<longleftrightarrow> \<not> list_ex (\<lambda>b. b \<noteq> 0xFF) (rdn m (of_nat a) n)"
  by (auto simp: blank_def list_ex_iff rdn_def)

lemma blank_add: "blank m a (n + k) \<longleftrightarrow> blank m a n \<and> blank m (a + n) k"
  by (simp add: blank_rdn rdn_add)

lemma blank_in_range: "blank m a n \<Longrightarrow> n \<le> 2 ^ 32 \<Longrightarrow> in_range (of_nat a) n x \<Longrightarrow> m x = 0xFF"
  by (auto simp: blank_def in_range_iff)

lemma blank_mono: "blank m a n \<Longrightarrow> k \<le> n \<Longrightarrow> blank m a k"
  by (simp add: blank_def)

lemma erased_chunks_blank:
  assumes "chip_ok d" "addr + len \<le> 0x1000000" "off \<le> len"
  shows "fst (erased_chunks addr off len d) \<longleftrightarrow> blank (w_mem d) (addr + off) (len - off)"
  using assms
proof (induction addr off len d rule: erased_chunks.induct)
  case (1 addr off len d)
  let ?c = "if len - off > 64 then 64 else len - off"
  show ?case
  proof (cases "off < len")
    case True
    obtain d1 where d1: "DevStorage_Read (of_nat (addr + off)) ?c d = (Some (rdn (w_mem d) (of_nat (addr + off)) ?c), d1)"
        "w_only (\<lambda>_. False) d d1"
      using read_16M [OF "1.prems"(1), of "addr + off" ?c] "1.prems"(2) True by force
    have s: "len - off = ?c + (len - (off + ?c))" using True by simp
    have b: "blank (w_mem d) (addr + off) (len - off) \<longleftrightarrow>
        blank (w_mem d) (addr + off) ?c \<and> blank (w_mem d) (addr + off + ?c) (len - (off + ?c))"
      using blank_add [of "w_mem d" "addr + off" ?c "len - (off + ?c)"] s by simp
    show ?thesis
    proof (cases "blank (w_mem d) (addr + off) ?c")
      case c: True
      then have "fst (erased_chunks addr (off + ?c) len d1) \<longleftrightarrow> blank (w_mem d1) (addr + (off + ?c)) (len - (off + ?c))"
      proof -
        have "\<not> list_ex (\<lambda>b. b \<noteq> 0xFF) (rdn (w_mem d) (of_nat (addr + off)) ?c)" using c by (simp only: blank_rdn simp_thms)
        moreover have "off + ?c \<le> len" using True by (cases "64 < len - off") simp_all
        moreover have "chip_ok d1" using chip_ok_only [OF d1(2)] "1.prems"(1) by simp
        ultimately show ?thesis using "1.IH" [OF True refl d1(1) [symmetric] refl] "1.prems"(2) by blast
      qed
      then show ?thesis
        using c d1(1) True b w_only_False [OF d1(2)] by (subst erased_chunks.simps) (simp add: Let_def blank_rdn add.assoc)
    next
      case False
      then show ?thesis using d1(1) True b by (subst erased_chunks.simps) (simp add: Let_def blank_rdn)
    qed
  next
    case False
    then show ?thesis by (subst erased_chunks.simps) (simp add: blank_def)
  qed
qed

text \<open>Erasing a range goes by whole sectors, from the one its start lies in.\<close>

lemma sector_base_aligned: "a < 0x1000000 \<Longrightarrow> a mod 4096 = 0 \<Longrightarrow> w_addr24 (w_sector_base (of_nat a)) = of_nat a"
proof -
  assume a: "a < 0x1000000" "a mod 4096 = 0"
  have "take_bit 12 a = 0" using a(2) by (simp add: take_bit_eq_mod)
  then have "take_bit 12 (of_nat a :: u32) = 0" by (simp add: take_bit_of_nat)
  then have n: "\<not> bit (of_nat a :: u32) n" if "n < 12" for n
    using that by (metis bit_0_eq bit_take_bit_iff bot_apply bot_bool_def)
  have "(of_nat a :: u32) AND NOT (mask 12) = of_nat a"
    by (rule bit_word_eqI) (use n in \<open>auto simp: bit_and_iff bit_not_iff bit_mask_iff\<close>)
  then show ?thesis using of_nat_16M [OF a(1)] by (simp add: w_sector_base_def mask_eq_exp_minus_1)
qed

definition sector_top :: "nat \<Rightarrow> nat" where
  "sector_top n = (n + 4095) div 4096 * 4096"

lemma sector_top_bounds:
  shows "n \<le> sector_top n" "n \<le> 0x1000000 \<Longrightarrow> sector_top n \<le> 0x1000000"
    and "a < n \<Longrightarrow> a mod 4096 = 0 \<Longrightarrow> a + 4096 \<le> sector_top n"
proof -
  have e: "sector_top n + (n + 4095) mod 4096 = n + 4095" unfolding sector_top_def by (rule div_mult_mod_eq)
  have "(n + 4095) mod 4096 < 4096" by simp
  then show "n \<le> sector_top n" using e by linarith
  show "n \<le> 0x1000000 \<Longrightarrow> sector_top n \<le> 0x1000000"
  proof -
    assume "n \<le> 0x1000000"
    then have "(n + 4095) div 4096 \<le> (0x1000000 + 4095) div 4096" by (intro div_le_mono) simp
    then show ?thesis by (simp add: sector_top_def)
  qed
  assume a: "a < n" "a mod 4096 = 0"
  have "a = a div 4096 * 4096" using div_mult_mod_eq [of a 4096] a(2) by simp
  moreover have "(a + 4096) div 4096 \<le> (n + 4095) div 4096" using a(1) by (intro div_le_mono) simp
  ultimately show "a + 4096 \<le> sector_top n" by (simp add: sector_top_def)
qed

lemma erase_loop_spec:
  "erase_loop a e d = (ok, d') \<Longrightarrow> a mod 4096 = 0 \<Longrightarrow> e \<le> 0x1000000 \<Longrightarrow>
   w_only (\<lambda>x. a \<le> unat x \<and> unat x < sector_top e) d d' \<and>
   (ok \<longrightarrow> (\<forall>x. a \<le> unat x \<longrightarrow> unat x < e \<longrightarrow> w_mem d' x = 0xFF)) \<and> (chip_ok d \<longrightarrow> ok)"
proof (induction a e d arbitrary: ok d' rule: erase_loop.induct)
  case (1 a e d)
  show ?case
  proof (cases "a < e")
    case True
    obtain st d1 where p: "DevStorage_SectorErase (of_nat a) d = (st, d1)" by (cases "DevStorage_SectorErase (of_nat a) d")
    have a: "a < 0x1000000" using True "1.prems"(3) by simp
    note ba = sector_base_aligned [OF a "1.prems"(2)]
    have in4: "in_range (of_nat a) 4096 x \<longleftrightarrow> a \<le> unat x \<and> unat x < a + 4096" for x
      using a by (intro in_range_nat) simp
    have "w_only (in_range (of_nat a) 4096) d d1"
      using W25QXX_SectorErase_only(1) [of "of_nat a" d st d1] p ba by (simp add: dev_storage w25_sizes)
    then have o1: "w_only (\<lambda>x. a \<le> unat x \<and> unat x < a + 4096) d d1" by (rule w_only_mono) (simp add: in4)
    have ff: "w_mem d1 x = 0xFF" if "st" "a \<le> unat x" "unat x < a + 4096" for x
    proof -
      have "in_range (of_nat a) W25QXX_SECTOR_SIZE x" unfolding W25QXX_SECTOR_SIZE_def in4 using that by blast
      then show ?thesis
        using W25QXX_SectorErase_only(2) [of "of_nat a" d st d1 x] p ba that(1) unfolding dev_storage by metis
    qed
    have t: "a + 4096 \<le> sector_top e" using True "1.prems"(2) by (rule sector_top_bounds(3))
    have o1': "w_only (\<lambda>x. a \<le> unat x \<and> unat x < sector_top e) d d1"
    proof (rule w_only_mono [OF o1])
      fix x :: u32 assume "a \<le> unat x \<and> unat x < a + 4096"
      then show "a \<le> unat x \<and> unat x < sector_top e" using t by linarith
    qed
    have live: "st" if "chip_ok d"
    proof -
      have "w_sector_base (of_nat a) < 0x1000000"
      proof -
        have "w_sector_base (of_nat a) \<le> (of_nat a :: u32)" unfolding w_sector_base_def by (rule word_and_le2)
        then show ?thesis using of_nat_16M [OF a] by (meson order_le_less_trans)
      qed
      then show ?thesis using W25QXX_SectorErase_ok [OF that, of "of_nat a"] p by (simp add: dev_storage)
    qed
    show ?thesis
    proof (cases st)
      case st: True
      then have r: "erase_loop (a + 4096) e d1 = (ok, d')"
        using "1.prems"(1) True p by (subst (asm) erase_loop.simps) simp
      have ih: "w_only (\<lambda>x. a + 4096 \<le> unat x \<and> unat x < sector_top e) d1 d'"
        "ok \<longrightarrow> (\<forall>x. a + 4096 \<le> unat x \<longrightarrow> unat x < e \<longrightarrow> w_mem d' x = 0xFF)" "chip_ok d1 \<longrightarrow> ok"
        using "1.IH" [OF True refl p [symmetric] _ r] st "1.prems"(2,3) by simp_all
      have "w_only (\<lambda>x. a \<le> unat x \<and> unat x < sector_top e) d1 d'"
        using ih(1) by (rule w_only_mono) linarith
      then have "w_only (\<lambda>x. a \<le> unat x \<and> unat x < sector_top e) d d'" using o1' by (rule w_only_trans [rotated])
      moreover have "w_mem d' x = 0xFF" if "ok" "a \<le> unat x" "unat x < e" for x
        using ih(1,2) ff [OF st that(2)] that by (cases "unat x < a + 4096") (auto simp: w_only_def)
      ultimately show ?thesis using ih(3) chip_ok_only [OF o1] by blast
    next
      case False
      then show ?thesis using "1.prems"(1) True p o1' live by (subst (asm) erase_loop.simps) auto
    qed
  next
    case False
    then show ?thesis using "1.prems"(1) by (subst (asm) erase_loop.simps) auto
  qed
qed

section \<open>The verified write is a writer in the sense of the flash contract\<close>

definition region_ready :: "(nat \<Rightarrow> nat \<Rightarrow> bool) \<Rightarrow> u32 \<Rightarrow> nat \<Rightarrow> w25q \<Rightarrow> bool" where
  "region_ready in_rng a n d \<longleftrightarrow> chip_ok d \<and> in_rng (unat a) n \<and> (\<forall>x. in_range a n x \<longrightarrow> w_mem d x = 0xFF)"

definition rng_below :: "(nat \<Rightarrow> nat \<Rightarrow> bool) \<Rightarrow> bool" where
  "rng_below in_rng \<longleftrightarrow> (\<forall>a n. 0 < n \<longrightarrow> in_rng a n \<longrightarrow> a + n \<le> 0x1000000)"

lemma storage_rng_below: "rng_below storage_flash_in_range" "rng_below storage_cache_in_range"
  by (auto simp: rng_below_def storage_flash_in_range_def storage_cache_in_range_def region_in_range_def storage_consts split: if_splits)

lemma region_write_only:
  "region_write in_rng a buf d = (ok, d') \<Longrightarrow> rng_below in_rng \<Longrightarrow> w_only (in_range (of_nat a) (length buf)) d d'"
proof (cases "buf = []")
  case False
  assume "region_write in_rng a buf d = (ok, d')" "rng_below in_rng"
  then show ?thesis using False page_loop_only [of a buf d ok d'] by (auto simp: region_write_def rng_below_def split: if_splits)
qed (auto simp: region_write_def page_loop.simps split: if_splits)

lemma write_verified_only:
  assumes "write_verified (region_write in_rng) a buf d = (ok, d')" "rng_below in_rng"
  shows "w_only (in_range (of_nat a) (length buf)) d d'"
proof -
  obtain st d1 where w: "region_write in_rng a buf d = (st, d1)" by (cases "region_write in_rng a buf d")
  note o1 = region_write_only [OF w assms(2)]
  show ?thesis
  proof (cases st)
    case True
    obtain r d2 where r: "DevStorage_Read (of_nat a) (length buf) d1 = (r, d2)"
      by (cases "DevStorage_Read (of_nat a) (length buf) d1")
    have "w_only (in_range (of_nat a) (length buf)) d1 d2" using read_only [OF r] w_only_False by blast
    then have "w_only (in_range (of_nat a) (length buf)) d d2" using o1 by (rule w_only_trans [rotated])
    then show ?thesis using assms(1) w True r by (auto simp: write_verified_def split: option.splits)
  next
    case False
    then show ?thesis using assms(1) w o1 by (simp add: write_verified_def)
  qed
qed

lemma write_verified_content:
  assumes "write_verified (region_write in_rng) a buf d = (True, d')" "rng_below in_rng"
  shows "rdn (w_mem d') (of_nat a) (length buf) = buf"
proof (cases "buf = []")
  case False
  obtain d1 where w: "region_write in_rng a buf d = (True, d1)"
      "DevStorage_Read (of_nat a) (length buf) d1 = (Some buf, d')"
    using assms(1) by (auto simp: write_verified_def split: option.splits prod.splits if_splits)
  have "in_rng a (length buf)" using w(1) by (auto simp: region_write_def split: if_splits)
  then have "a + length buf \<le> 0x1000000" "0 < length buf" using assms(2) False by (auto simp: rng_below_def)
  then have "a < 0x1000000" by linarith
  then have "buf = rdn (w_mem d1) (of_nat a) (length buf)"
    using W25QXX_Read_Some [of "of_nat a" "length buf" d1 buf d'] w(2) of_nat_16M by (simp add: dev_storage)
  then show ?thesis using w_only_False [OF read_only [OF w(2)]] by simp
qed simp

lemma write_verified_ok:
  assumes "chip_ok d" "in_rng a (length buf)" "rng_below in_rng" "blank (w_mem d) a (length buf)" "buf \<noteq> []"
  shows "fst (write_verified (region_write in_rng) a buf d)"
proof -
  have "0 < length buf" using assms(5) by simp
  then have s: "a + length buf \<le> 0x1000000" using assms(2,3) by (simp add: rng_below_def)
  then have s2: "a < 0x1000000" using \<open>0 < length buf\<close> by linarith
  obtain d1 where d1: "page_loop a buf d = (True, d1)" "rdn (w_mem d1) (of_nat a) (length buf) = buf"
    using page_loop_ok [OF assms(1) s] blank_in_range [OF assms(4)] s by auto
  have "chip_ok d1" using chip_ok_only [OF page_loop_only [OF d1(1) s]] assms(1) by simp
  then obtain d2 where "DevStorage_Read (of_nat a) (length buf) d1 = (Some (rdn (w_mem d1) (of_nat a) (length buf)), d2)"
    using read_16M [OF _ s s2] by blast
  then show ?thesis using d1 assms(2) by (simp add: write_verified_def region_write_def)
qed

lemma blank_of_range: "\<forall>x. in_range a n x \<longrightarrow> m x = 0xFF \<Longrightarrow> n \<le> 2 ^ 32 \<Longrightarrow> blank m (unat a) n"
  unfolding blank_def
proof (intro allI impI)
  fix i assume a: "\<forall>x. in_range a n x \<longrightarrow> m x = 0xFF" "n \<le> 2 ^ 32" "i < n"
  then have "in_range a n (a + of_nat i)" by (intro in_range_nth)
  then show "m (of_nat (unat a + i)) = 0xFF" using a(1) by simp
qed

lemma region_writer:
  assumes "rng_below in_rng"
  shows "nor_store w_mem (\<lambda>a. write_verified (region_write in_rng) (unat a)) (region_ready in_rng)"
proof unfold_locales
  fix a bs d ok d' x
  assume "write_verified (region_write in_rng) (unat (a :: u32)) bs d = (ok, d')" "\<not> in_range a (length bs) x"
  then show "w_mem d' x = w_mem d x"
    using write_verified_only [OF _ assms] by (force simp: w_only_def)
next
  fix a bs d d'
  assume "write_verified (region_write in_rng) (unat (a :: u32)) bs d = (True, d')"
  then show "rdn (w_mem d') a (length bs) = bs" using write_verified_content [OF _ assms] by force
next
  fix a d and bs :: "u8 list"
  assume "region_ready in_rng a (length bs) d" "bs \<noteq> []" "length bs \<le> 2 ^ 32"
  then show "fst (write_verified (region_write in_rng) (unat a) bs d)"
    using write_verified_ok [OF _ _ assms] blank_of_range unfolding region_ready_def by blast
qed

interpretation flash_log: nor_store w_mem "\<lambda>a. write_verified storage_flash_write (unat a)" "region_ready storage_flash_in_range"
  unfolding storage_flash_write_def by (rule region_writer) (rule storage_rng_below)

interpretation cache_log: nor_store w_mem "\<lambda>a. write_verified storage_cache_write (unat a)" "region_ready storage_cache_in_range"
  unfolding storage_cache_write_def by (rule region_writer) (rule storage_rng_below)

section \<open>Writing a record\<close>

text \<open>A record written to an erased place is found there, and nothing else changes.\<close>

lemma write_new_record:
  assumes "chip_ok d" "in_rng a (storage_align4 (24 + length p))" "rng_below in_rng" "length p \<le> 192"
    "blank (w_mem d) a (storage_align4 (24 + length p))" "a + storage_align4 (24 + length p) \<le> fin"
    "\<And>x. hdr_ok ((new_hdr ty seq tick (length p))\<lparr>hd_crc := x\<rparr>)"
  shows "\<exists>d' r. write_verified (region_write in_rng) a (record_buf (new_hdr ty seq tick (length p)) p) d = (True, d') \<and>
    w_only (in_range (of_nat a) (storage_align4 (24 + length p))) d d' \<and>
    parse_rec hdr_ok fin (w_mem d') a = Some r \<and> hd_seq (fst r) = seq \<and> snd r = p \<and> hd_type (fst r) = ty \<and>
    rec_size r = storage_align4 (24 + length p)"
proof -
  let ?h = "new_hdr ty seq tick (length p)" and ?b = "record_buf (new_hdr ty seq tick (length p)) p"
  have "24 \<le> length ?b" using storage_align4_bounds(1) [of "24 + length p"] by simp
  then have "?b \<noteq> []" by force
  then have "fst (write_verified (region_write in_rng) a ?b d)"
    using write_verified_ok [of d in_rng a ?b] assms(1,2,3,5) by simp
  then obtain d' where w: "write_verified (region_write in_rng) a ?b d = (True, d')" by (metis prod.collapse)
  have n: "unat (hd_len ?h) = length p" using assms(4) by (simp add: new_hdr_def)
  have "parse_rec hdr_ok fin (w_mem d') a = Some (?h\<lparr>hd_crc := record_crc ?h p\<rparr>, p)"
    using write_verified_content [OF w assms(3)] n assms(6,7)
    by (intro parse_rec_written) (simp_all add: new_hdr_def storage_consts)
  moreover have "rec_size (?h\<lparr>hd_crc := record_crc ?h p\<rparr>, p) = storage_align4 (24 + length p)"
    using n by (simp add: rec_size_def)
  ultimately show ?thesis using w write_verified_only [OF w assms(3)] by (auto simp: new_hdr_def)
qed

section \<open>The event log\<close>

definition event_end :: nat where "event_end = STORAGE_EVENT_BASE + STORAGE_EVENT_SIZE"
definition cache_end :: nat where "cache_end = STORAGE_CACHE_BASE + STORAGE_CACHE_SIZE"

lemma region_ends: "event_end = 0x800000" "cache_end = 0x1000000"
  by (simp_all add: event_end_def cache_end_def storage_consts)

text \<open>The log holds the records given, and the region is blank behind them.\<close>

definition event_log :: "(rec_hdr \<times> u8 list) list \<Rightarrow> storage_ctx \<Rightarrow> w25q \<Rightarrow> bool" where
  "event_log rs c d \<longleftrightarrow> chip_ok d \<and> chain event_hdr_ok event_end (w_mem d) STORAGE_EVENT_BASE rs (event_write_addr c) \<and>
     event_write_addr c \<le> event_end \<and> blank (w_mem d) (event_write_addr c) (event_end - event_write_addr c)"

lemma blank_no_record:
  assumes "blank m a 4" shows "parse_rec ok fin m a = None"
proof -
  have "m (of_nat (a + i)) = 0xFF" if "i < 4" for i using assms that by (simp add: blank_def)
  from this [of 0] this [of 1] this [of 2] this [of 3]
  have "hd_magic (hdr_of_bytes (rdn m (of_nat a) 24)) = un32 0xFF 0xFF 0xFF 0xFF"
    by (simp add: hdr_of_bytes_def rd32_def add.commute)
  also have "\<dots> = 0xFFFFFFFF" by (simp add: un32_def)
  finally show ?thesis by (simp add: parse_rec_def Let_def)
qed

lemma blank_sub: "blank m a n \<Longrightarrow> a \<le> b \<Longrightarrow> b + k \<le> a + n \<Longrightarrow> blank m b k"
  unfolding blank_def
proof (intro allI impI)
  fix i assume "\<forall>i<n. m (of_nat (a + i)) = 0xFF" "a \<le> b" "b + k \<le> a + n" "i < k"
  then have "m (of_nat (a + (b - a + i))) = 0xFF" by (metis (no_types, lifting) add.assoc add_less_cancel_left le_add_diff_inverse less_le_trans)
  then show "m (of_nat (b + i)) = 0xFF" using \<open>a \<le> b\<close> by (simp add: add.assoc)
qed

lemma blank_keep:
  "blank m b k \<Longrightarrow> (\<And>x. b \<le> unat x \<Longrightarrow> unat x < b + k \<Longrightarrow> m' x = m x) \<Longrightarrow> b + k \<le> 2 ^ 32 \<Longrightarrow> blank m' b k"
  unfolding blank_def
proof (intro allI impI)
  fix i assume a: "\<forall>i<k. m (of_nat (b + i)) = 0xFF" "\<And>x. b \<le> unat x \<Longrightarrow> unat x < b + k \<Longrightarrow> m' x = m x" "b + k \<le> 2 ^ 32" "i < k"
  have "unat (of_nat (b + i) :: u32) = b + i" using a(3,4) by (intro unat_of_nat_lt) simp
  then show "m' (of_nat (b + i)) = 0xFF" using a(1,2) a(4) by simp
qed

text \<open>A write appends.\<close>

lemma event_log_append:
  assumes "event_log rs c d" "0 < length p" "length p \<le> 192"
    "event_write_addr c + storage_align4 (24 + length p) \<le> event_end"
  shows "\<exists>c' d' r. storage_write_record ty p tick c d = (True, c', d') \<and> event_log (rs @ [r]) c' d' \<and>
    hd_type (fst r) = ty \<and> hd_seq (fst r) = last_seq c + 1 \<and> snd r = p \<and>
    event_write_addr c' = event_write_addr c + storage_align4 (24 + length p) \<and>
    event_valid_count c' = event_valid_count c + 1 \<and> last_seq c' = last_seq c + 1"
proof -
  let ?w = "event_write_addr c" and ?n = "storage_align4 (24 + length p)"
  have l: "chip_ok d" "chain event_hdr_ok event_end (w_mem d) STORAGE_EVENT_BASE rs ?w"
    "blank (w_mem d) ?w (event_end - ?w)"
    using assms(1) by (simp_all add: event_log_def)
  have lo: "STORAGE_EVENT_BASE \<le> ?w" using chain_bounds [OF l(2)] by simp
  have "?n \<noteq> 0" using storage_align4_bounds(1) [of "24 + length p"] by simp
  have rng: "storage_flash_in_range ?w ?n"
    using lo assms(4) \<open>?n \<noteq> 0\<close> by (auto simp: storage_flash_in_range_def region_in_range_def event_end_def)
  have b: "blank (w_mem d) ?w ?n" using l(3) by (rule blank_sub) (use assms(4) in simp_all)
  obtain d1 where d1: "storage_flash_is_erased ?w ?n d = (True, d1)" "w_only (\<lambda>_. False) d d1"
  proof -
    have "fst (erased_chunks ?w 0 ?n d)"
      using erased_chunks_blank [OF l(1), of ?w ?n 0] b assms(4) region_ends by simp
    then show thesis using that erased_chunks_only by (metis prod.collapse storage_flash_is_erased_def)
  qed
  have m1: "w_mem d1 = w_mem d" "chip_ok d1" using w_only_False [OF d1(2)] chip_ok_only [OF d1(2)] l(1) by simp_all
  obtain d' r where w: "write_verified storage_flash_write ?w (record_buf (new_hdr ty (last_seq c + 1) tick (length p)) p) d1 = (True, d')"
      "w_only (in_range (of_nat ?w) ?n) d1 d'" "parse_rec event_hdr_ok event_end (w_mem d') ?w = Some r"
      "hd_seq (fst r) = last_seq c + 1" "snd r = p" "hd_type (fst r) = ty" "rec_size r = ?n"
    using write_new_record [of d1 storage_flash_in_range ?w p event_end event_hdr_ok ty "last_seq c + 1" tick]
      m1 rng storage_rng_below(1) assms(3,4) b
    by (auto simp: storage_flash_write_def event_hdr_ok_def new_hdr_def storage_consts)
  have keep: "w_mem d' x = w_mem d x" if "unat x < ?w \<or> ?w + ?n \<le> unat x" for x
  proof -
    have "\<not> in_range (of_nat ?w) ?n x" using that in_range_nat [of ?w ?n x] assms(4) region_ends by auto
    then show ?thesis using w(2) m1(1) by (simp add: w_only_def)
  qed
  have "chain event_hdr_ok event_end (w_mem d') STORAGE_EVENT_BASE rs ?w"
    using l(2) by (rule chain_cong) (use keep region_ends in auto)
  then have "chain event_hdr_ok event_end (w_mem d') STORAGE_EVENT_BASE (rs @ [r]) (?w + ?n)"
    using w(3,7) by (auto simp: chain_append)
  moreover have "blank (w_mem d) (?w + ?n) (event_end - (?w + ?n))" using l(3) by (rule blank_sub) (use assms(4) in simp_all)
  then have "blank (w_mem d') (?w + ?n) (event_end - (?w + ?n))"
    by (rule blank_keep) (use keep assms(4) region_ends in auto)
  moreover have "chip_ok d'" using chip_ok_only [OF w(2)] m1(2) by simp
  ultimately have "event_log (rs @ [r]) (c\<lparr>last_seq := last_seq c + 1, event_valid_count := event_valid_count c + 1,
      event_write_addr := ?w + ?n\<rparr>) d'"
    using assms(4) by (simp add: event_log_def)
  moreover have "storage_write_record ty p tick c d = (True, c\<lparr>last_seq := last_seq c + 1,
      event_valid_count := event_valid_count c + 1, event_write_addr := ?w + ?n\<rparr>, d')"
    using assms(2,3,4) d1(1) w(1)
    by (simp add: storage_write_record_def make_room_def Let_def new_hdr_def event_end_def storage_consts)
  ultimately show ?thesis using w(4,5,6)
    by (intro exI [of _ "c\<lparr>last_seq := last_seq c + 1, event_valid_count := event_valid_count c + 1,
      event_write_addr := ?w + ?n\<rparr>"] exI [of _ d'] exI [of _ r]) simp
qed

text \<open>The scan after a reset finds what the log holds.\<close>

lemma event_scan_recovers:
  assumes "event_log rs c d"
  shows "\<exists>d'. storage_scan_event_region c0 d = (True, c0\<lparr>event_valid_count := of_nat (length rs),
      last_seq := max_seq 0 rs, event_write_addr := event_write_addr c\<rparr>, d') \<and> w_only (\<lambda>_. False) d d'"
proof -
  have l: "chip_ok d" "chain event_hdr_ok event_end (w_mem d) STORAGE_EVENT_BASE rs (event_write_addr c)"
    "blank (w_mem d) (event_write_addr c) (event_end - event_write_addr c)" "event_write_addr c \<le> event_end"
    using assms by (simp_all add: event_log_def)
  have "parse_rec event_hdr_ok event_end (w_mem d) (event_write_addr c) = None"
  proof (cases "event_write_addr c + 24 \<le> event_end")
    case True
    then have "blank (w_mem d) (event_write_addr c) 4" using l(3) by (elim blank_mono) simp
    then show ?thesis by (rule blank_no_record)
  qed (simp add: parse_rec_def)
  moreover have "event_end \<le> 0x1000000" by (simp add: region_ends)
  ultimately obtain d' where "w_only (\<lambda>_. False) d d'"
      "scan_loop event_hdr_ok event_end STORAGE_EVENT_BASE 0 0 d = (True, event_write_addr c, 0 + of_nat (length rs), max_seq 0 rs, d')"
    using scan_loop_chain [OF l(1) _ l(2)] by blast
  then show ?thesis by (simp add: storage_scan_event_region_def event_end_def [symmetric])
qed

text \<open>A list of writes, each with its type, payload and tick.\<close>

fun write_events :: "(u16 \<times> u8 list \<times> u32) list \<Rightarrow> storage_ctx \<Rightarrow> w25q \<Rightarrow> bool \<times> storage_ctx \<times> w25q" where
  "write_events [] c d = (True, c, d)"
| "write_events ((ty, p, tick) # es) c d =
     (case storage_write_record ty p tick c d of
        (ok, c1, d1) \<Rightarrow> (case write_events es c1 d1 of (oks, c2, d2) \<Rightarrow> (ok \<and> oks, c2, d2)))"

definition events_size :: "(u16 \<times> u8 list \<times> u32) list \<Rightarrow> nat" where
  "events_size es = sum_list (map (\<lambda>(ty, p, tick). storage_align4 (24 + length p)) es)"

definition rec_data :: "rec_hdr \<times> u8 list \<Rightarrow> u16 \<times> u8 list" where
  "rec_data r = (hd_type (fst r), snd r)"

lemma write_events_log:
  "event_log rs c d \<Longrightarrow> \<forall>(ty, p, tick) \<in> set es. 0 < length p \<and> length p \<le> 192 \<Longrightarrow>
   event_write_addr c + events_size es \<le> event_end \<Longrightarrow>
   \<exists>c' d' ss. write_events es c d = (True, c', d') \<and> event_log (rs @ ss) c' d' \<and>
     map rec_data ss = map (\<lambda>(ty, p, tick). (ty, p)) es \<and> event_valid_count c' = event_valid_count c + of_nat (length es)"
proof (induction es arbitrary: rs c d)
  case Nil
  then show ?case by (auto intro!: exI [of _ "[]"])
next
  case (Cons e es)
  obtain ty p tick where e: "e = (ty, p, tick)" by (cases e)
  have sz: "event_write_addr c + storage_align4 (24 + length p) + events_size es \<le> event_end"
    using Cons.prems(3) by (simp add: events_size_def e)
  have pl: "0 < length p" "length p \<le> 192" using Cons.prems(2) e by auto
  obtain c1 d1 r where 1: "storage_write_record ty p tick c d = (True, c1, d1)" "event_log (rs @ [r]) c1 d1"
      "hd_type (fst r) = ty" "snd r = p" "event_write_addr c1 = event_write_addr c + storage_align4 (24 + length p)"
      "event_valid_count c1 = event_valid_count c + 1"
    using event_log_append [OF Cons.prems(1) pl, of ty tick] sz by fastforce
  obtain c' d' ss where 2: "write_events es c1 d1 = (True, c', d')" "event_log ((rs @ [r]) @ ss) c' d'"
      "map rec_data ss = map (\<lambda>(ty, p, tick). (ty, p)) es" "event_valid_count c' = event_valid_count c1 + of_nat (length es)"
    using Cons.IH [OF 1(2)] Cons.prems(2) sz 1(5) by auto
  have "rec_data r = (ty, p)" using 1(3,4) by (simp add: rec_data_def)
  then show ?case using 1 2 e by (intro exI [of _ c'] exI [of _ d'] exI [of _ "r # ss"]) simp
qed


lemma empty_event_log: "chip_ok d \<Longrightarrow> blank (w_mem d) STORAGE_EVENT_BASE STORAGE_EVENT_SIZE \<Longrightarrow>
    event_log [] (c\<lparr>event_write_addr := STORAGE_EVENT_BASE\<rparr>) d"
  by (simp add: event_log_def event_end_def)


end
