(* ===== verification/Storage_Cache.thy ===== *)
theory Storage_Cache
  imports Storage_Queue
begin

text \<open>
  The cache of unsent reports (\<open>Storage_PeekCache\<close>, \<open>Storage_MarkCacheAck\<close>, \<open>storage_write_cache_record\<close>)
  as a first-in first-out queue, the interface through which the gateway replays it, and what resets
  and the wrap of the regions do to both logs.
\<close>

section \<open>The interface of a queue of unsent reports\<close>

locale report_queue =
  fixes wf :: "'s \<Rightarrow> bool"
    and items :: "'s \<Rightarrow> (u32 \<times> u8 list) list"
    and peek :: "'s \<Rightarrow> (u32 \<times> u8 list) option \<times> 's"
    and ack :: "u32 \<Rightarrow> 's \<Rightarrow> bool \<times> 's"
    and put :: "u8 list \<Rightarrow> 's \<Rightarrow> bool \<times> 's"
    and room :: "u8 list \<Rightarrow> 's \<Rightarrow> bool"
    and next_seq :: "'s \<Rightarrow> u32"
  assumes peek: "wf s \<Longrightarrow> peek s = (r, s') \<Longrightarrow>
      r = (case items s of [] \<Rightarrow> None | x # xs \<Rightarrow> Some x) \<and> items s' = items s \<and> wf s'"
    and ack: "wf s \<Longrightarrow> ack q s = (b, s') \<Longrightarrow>
      b = (case items s of [] \<Rightarrow> False | x # xs \<Rightarrow> fst x = q) \<and> items s' = (if b then tl (items s) else items s) \<and> wf s'"
    and put: "wf s \<Longrightarrow> room p s \<Longrightarrow> put p s = (b, s') \<Longrightarrow>
      b \<and> items s' = items s @ [(next_seq s, p)] \<and> wf s'"
begin

text \<open>Take the oldest report and acknowledge it, again and again.\<close>

fun drain :: "nat \<Rightarrow> 's \<Rightarrow> (u32 \<times> u8 list) list \<times> 's" where
  "drain 0 s = ([], s)"
| "drain (Suc n) s =
     (case peek s of
        (None, s1) \<Rightarrow> ([], s1)
      | (Some x, s1) \<Rightarrow> (case ack (fst x) s1 of (b, s2) \<Rightarrow> (case drain n s2 of (xs, s3) \<Rightarrow> (x # xs, s3))))"

lemma drain_items:
  "wf s \<Longrightarrow> drain n s = (xs, s') \<Longrightarrow> xs = take n (items s) \<and> items s' = drop n (items s) \<and> wf s'"
proof (induction n arbitrary: s xs s')
  case (Suc n)
  obtain r s1 where p: "peek s = (r, s1)" by (cases "peek s")
  note P = peek [OF Suc.prems(1) p]
  show ?case
  proof (cases "items s")
    case Nil
    then show ?thesis using Suc.prems(2) p P by auto
  next
    case (Cons x ys)
    obtain b s2 where a: "ack (fst x) s1 = (b, s2)" by (cases "ack (fst x) s1")
    have A: "items s2 = ys" "wf s2" using ack [OF _ a] P Cons by auto
    obtain zs s3 where d: "drain n s2 = (zs, s3)" by (cases "drain n s2")
    show ?thesis using Suc.IH [OF A(2) d] A(1) Suc.prems(2) p P Cons a d by auto
  qed
qed simp

lemma put_then_drain:
  assumes "wf s" "room p s" "put p s = (b, s1)" "drain (length (items s) + 1) s1 = (xs, s2)"
  shows "xs = items s @ [(next_seq s, p)] \<and> items s2 = []"
  using put [OF assms(1,2,3)] drain_items [OF _ assms(4)] by simp

lemma ack_only_head:
  assumes "wf s" "ack q s = (b, s')" "items s = x # xs" "fst x \<noteq> q"
  shows "\<not> b \<and> items s' = items s"
  using ack [OF assms(1,2)] assms(3,4) by simp

end

section \<open>The cache\<close>

type_synonym store = "storage_ctx \<times> w25q"

fun recs :: "mem \<Rightarrow> nat \<Rightarrow> nat \<Rightarrow> (rec_hdr \<times> u8 list) list" where
  "recs m 0 a = []"
| "recs m (Suc n) a =
     (case parse_rec cache_hdr_ok cache_end m a of None \<Rightarrow> [] | Some r \<Rightarrow> r # recs m n (a + rec_size r))"

lemma recs_chain: "chain cache_hdr_ok cache_end m a rs b \<Longrightarrow> recs m (length rs) a = rs"
  by (induction rs arbitrary: a) auto

definition seq_payload :: "rec_hdr \<times> u8 list \<Rightarrow> u32 \<times> u8 list" where
  "seq_payload r = (hd_seq (fst r), snd r)"

definition cache_recs :: "store \<Rightarrow> (rec_hdr \<times> u8 list) list" where
  "cache_recs s = recs (w_mem (snd s)) (unat (cache_backlog (fst s))) (cache_read_addr (fst s))"

definition cache_items :: "store \<Rightarrow> (u32 \<times> u8 list) list" where
  "cache_items s = map seq_payload (cache_recs s)"

text \<open>The records from the read address to the write address; after the acknowledgement of a record that
  ends with the region, the read address has gone back to its start.\<close>

definition cache_wf :: "store \<Rightarrow> bool" where
  "cache_wf s \<longleftrightarrow> chip_ok (snd s) \<and> STORAGE_CACHE_BASE \<le> cache_read_addr (fst s) \<and>
     length (cache_recs s) = unat (cache_backlog (fst s)) \<and>
     (chain cache_hdr_ok cache_end (w_mem (snd s)) (cache_read_addr (fst s)) (cache_recs s) (cache_write_addr (fst s)) \<or>
      cache_backlog (fst s) = 0 \<and> cache_read_addr (fst s) = STORAGE_CACHE_BASE \<and> cache_write_addr (fst s) = cache_end)"

definition cache_peek :: "store \<Rightarrow> (u32 \<times> u8 list) option \<times> store" where
  "cache_peek s = (case Storage_PeekCache (fst s) (snd s) of (r, c, d) \<Rightarrow> (r, c, d))"

definition cache_ack :: "u32 \<Rightarrow> store \<Rightarrow> bool \<times> store" where
  "cache_ack q s = (case Storage_MarkCacheAck q (fst s) (snd s) of (b, c, d) \<Rightarrow> (b, c, d))"

definition cache_put :: "u32 \<Rightarrow> u8 list \<Rightarrow> store \<Rightarrow> bool \<times> store" where
  "cache_put tick p s = (case storage_write_cache_record p tick (fst s) (snd s) of (b, c, d) \<Rightarrow> (b, c, d))"

definition cache_room :: "u8 list \<Rightarrow> store \<Rightarrow> bool" where
  "cache_room p s \<longleftrightarrow> 0 < length p \<and> length p \<le> 192 \<and>
     cache_write_addr (fst s) + storage_align4 (24 + length p) \<le> cache_end \<and>
     blank (w_mem (snd s)) (cache_write_addr (fst s)) (storage_align4 (24 + length p))"

definition cache_next_seq :: "store \<Rightarrow> u32" where
  "cache_next_seq s = last_seq (fst s) + 1"

lemma parse_cache_hdr:
  assumes "parse_rec cache_hdr_ok cache_end m a = Some r"
  shows "fst r = hdr_of_bytes (rdn m (of_nat a) 24)" "snd r = rdn m (of_nat (a + 24)) (unat (hd_len (fst r)))"
    "cache_hdr_ok (fst r)" "hd_len (fst r) \<noteq> 0" "unat (hd_len (fst r)) \<le> 192"
    "a + rec_size r \<le> cache_end" "24 + unat (hd_len (fst r)) \<le> rec_size r"
proof -
  show *: "fst r = hdr_of_bytes (rdn m (of_nat a) 24)" "snd r = rdn m (of_nat (a + 24)) (unat (hd_len (fst r)))"
    "cache_hdr_ok (fst r)"
    using assms by (auto simp: parse_rec_def Let_def split: if_splits)
  then show "hd_len (fst r) \<noteq> 0" "unat (hd_len (fst r)) \<le> 192" by (auto simp: cache_hdr_ok_def storage_consts)
  show "a + rec_size r \<le> cache_end" "24 + unat (hd_len (fst r)) \<le> rec_size r"
    using parse_rec_bounds [OF assms] by (simp_all add: rec_size_def storage_align4_bounds)
qed

lemma cache_head:
  assumes "cache_wf s" "cache_backlog (fst s) \<noteq> 0"
  obtains r rs where "cache_recs s = r # rs" "parse_rec cache_hdr_ok cache_end (w_mem (snd s)) (cache_read_addr (fst s)) = Some r"
    "chain cache_hdr_ok cache_end (w_mem (snd s)) (cache_read_addr (fst s) + rec_size r) rs (cache_write_addr (fst s))"
proof -
  have c: "chain cache_hdr_ok cache_end (w_mem (snd s)) (cache_read_addr (fst s)) (cache_recs s) (cache_write_addr (fst s))"
    using assms by (auto simp: cache_wf_def)
  have "unat (cache_backlog (fst s)) \<noteq> 0" using assms(2) by (simp add: unat_eq_0)
  then have "cache_recs s \<noteq> []" using assms(1) by (auto simp: cache_wf_def)
  then obtain r rs where "cache_recs s = r # rs" by (cases "cache_recs s") auto
  then show thesis using that c by auto
qed

lemma cache_empty: "cache_wf s \<Longrightarrow> cache_backlog (fst s) = 0 \<Longrightarrow> cache_items s = []"
  by (simp add: cache_items_def cache_recs_def)

lemma cache_wf_dev:
  "cache_wf (c, d) \<Longrightarrow> w_only (\<lambda>_. False) d d' \<Longrightarrow> cache_wf (c, d') \<and> cache_recs (c, d') = cache_recs (c, d)"
  using w_only_False [of d d'] chip_ok_only [of "\<lambda>_. False" d d'] by (auto simp: cache_wf_def cache_recs_def)

lemma cache_peek_spec:
  assumes "cache_wf s" "cache_peek s = (r, s')"
  shows "r = (case cache_items s of [] \<Rightarrow> None | x # xs \<Rightarrow> Some x) \<and> cache_items s' = cache_items s \<and> cache_wf s'"
proof (cases "cache_backlog (fst s) = 0")
  case True
  then show ?thesis using assms cache_empty [OF assms(1) True] by (auto simp: cache_peek_def Storage_PeekCache_def)
next
  case False
  obtain c d where s: "s = (c, d)" by (cases s)
  obtain x rs where x: "cache_recs s = x # rs" "parse_rec cache_hdr_ok cache_end (w_mem d) (cache_read_addr c) = Some x"
    by (rule cache_head [OF assms(1) False]) (use s that in simp)
  note h = parse_cache_hdr [OF x(2)]
  have k: "chip_ok d" "STORAGE_CACHE_BASE \<le> cache_read_addr c" using assms(1) s by (auto simp: cache_wf_def)
  obtain d1 where d1: "DevStorage_Read (of_nat (cache_read_addr c)) 24 d = (Some (rdn (w_mem d) (of_nat (cache_read_addr c)) 24), d1)"
      "w_only (\<lambda>_. False) d d1"
    using read_16M [OF k(1), of "cache_read_addr c" 24] h(6,7) region_ends by auto
  have k1: "chip_ok d1" "w_mem d1 = w_mem d" using chip_ok_only [OF d1(2)] k(1) w_only_False [OF d1(2)] by auto
  have n0: "0 < unat (hd_len (fst x))" using h(4) by (simp add: unat_gt_0)
  have "cache_read_addr c + 24 + unat (hd_len (fst x)) \<le> 0x1000000" "cache_read_addr c + 24 < 0x1000000"
    using h(6,7) region_ends n0 by simp_all
  then obtain d2 where d2: "DevStorage_Read (of_nat (cache_read_addr c + 24)) (unat (hd_len (fst x))) d1 = (Some (snd x), d2)"
      "w_only (\<lambda>_. False) d1 d2"
    using read_16M [OF k1(1), of "cache_read_addr c + 24" "unat (hd_len (fst x))"] k1(2) h(2) by auto
  have rng: "storage_cache_in_range (cache_read_addr c) (storage_align4 (24 + unat (hd_len (fst x))))"
    using k(2) h(6,7) by (auto simp: storage_cache_in_range_def region_in_range_def rec_size_def cache_end_def)
  have "Storage_PeekCache c d = (Some (seq_payload x), c, d2)"
    using False s d1(1) d2(1) rng h
    by (simp add: Storage_PeekCache_def Let_def cache_hdr_ok_def seq_payload_def not_less del: of_nat_add)
  moreover have "w_only (\<lambda>_. False) d d2" using d1(2) d2(2) by (rule w_only_trans)
  ultimately show ?thesis
    using assms s x(1) cache_wf_dev [of c d d2] by (auto simp: cache_peek_def cache_items_def)
qed

lemma cache_ack_spec:
  assumes "cache_wf s" "cache_ack q s = (b, s')"
  shows "b = (case cache_items s of [] \<Rightarrow> False | x # xs \<Rightarrow> fst x = q) \<and>
    cache_items s' = (if b then tl (cache_items s) else cache_items s) \<and> cache_wf s'"
proof (cases "cache_backlog (fst s) = 0")
  case True
  then show ?thesis using assms cache_empty [OF assms(1) True] by (auto simp: cache_ack_def Storage_MarkCacheAck_def)
next
  case False
  obtain c d where s: "s = (c, d)" by (cases s)
  obtain x rs where x: "cache_recs s = x # rs" "parse_rec cache_hdr_ok cache_end (w_mem d) (cache_read_addr c) = Some x"
      "chain cache_hdr_ok cache_end (w_mem d) (cache_read_addr c + rec_size x) rs (cache_write_addr c)"
    by (rule cache_head [OF assms(1) False]) (use s that in simp)
  note h = parse_cache_hdr [OF x(2)]
  have k: "chip_ok d" "STORAGE_CACHE_BASE \<le> cache_read_addr c" "length (cache_recs s) = unat (cache_backlog c)"
    using assms(1) s by (auto simp: cache_wf_def)
  obtain d1 where d1: "DevStorage_Read (of_nat (cache_read_addr c)) 24 d = (Some (rdn (w_mem d) (of_nat (cache_read_addr c)) 24), d1)"
      "w_only (\<lambda>_. False) d d1"
    using read_16M [OF k(1), of "cache_read_addr c" 24] h(6,7) region_ends by auto
  have k1: "chip_ok d1" "w_mem d1 = w_mem d" using chip_ok_only [OF d1(2)] k(1) w_only_False [OF d1(2)] by auto
  let ?a = "cache_read_addr c + rec_size x"
  let ?c = "c\<lparr>cache_read_addr := if ?a \<ge> cache_end then STORAGE_CACHE_BASE else ?a, cache_backlog := cache_backlog c - 1\<rparr>"
  have r: "Storage_MarkCacheAck q c d = (if hd_seq (fst x) = q then (True, ?c, d1) else (False, c, d1))"
    using False s d1(1) h(1) by (simp add: Storage_MarkCacheAck_def Let_def rec_size_def cache_end_def)
  show ?thesis
  proof (cases "hd_seq (fst x) = q")
    case True
    have "cache_backlog c \<noteq> 0" using False s by simp
    then have n: "unat (cache_backlog c - 1) = length rs"
      using k(3) x(1) unat_minus_one [of "cache_backlog c"] by simp
    have full: "rs = [] \<and> cache_write_addr c = cache_end" if "?a \<ge> cache_end"
      using chain_bounds [OF x(3)] that x(3) h(6) by (cases rs) auto
    have rc: "cache_recs (?c, d1) = rs"
    proof (cases "?a \<ge> cache_end")
      case True
      then show ?thesis using full n by (simp add: cache_recs_def k1(2))
    next
      case False
      then show ?thesis using recs_chain [OF x(3)] n k1(2) by (simp add: cache_recs_def)
    qed
    have "cache_wf (?c, d1)"
    proof (cases "?a \<ge> cache_end")
      case True
      then have "cache_backlog c - 1 = 0" using full n by (simp add: unat_eq_0)
      then show ?thesis using True full rc k1 n by (simp add: cache_wf_def)
    next
      case False
      then show ?thesis using rc n k1 k(2) x(3) by (simp add: cache_wf_def)
    qed
    then show ?thesis
      using assms(2) s r True x(1) rc by (auto simp: cache_ack_def cache_items_def seq_payload_def)
  next
    case False
    then show ?thesis
      using assms s r x(1) cache_wf_dev [of c d d1] d1(2) by (auto simp: cache_ack_def cache_items_def seq_payload_def)
  qed
qed

lemma chain_length: "chain ok fin m a rs b \<Longrightarrow> a + 24 * length rs \<le> b"
proof (induction rs arbitrary: a)
  case (Cons r rs)
  then have p: "parse_rec ok fin m a = Some r" and c: "chain ok fin m (a + rec_size r) rs b" by auto
  show ?case using Cons.IH [OF c] parse_rec_bounds [OF p] by simp
qed simp

lemma cache_put_effect:
  assumes "cache_wf s" "cache_room p s" "cache_put tick p s = (b, s')"
  shows "b \<and> cache_items s' = cache_items s @ [(cache_next_seq s, p)] \<and> cache_wf s' \<and>
    cache_write_addr (fst s') = cache_write_addr (fst s) + storage_align4 (24 + length p) \<and>
    last_seq (fst s') = last_seq (fst s) + 1 \<and> cache_read_addr (fst s') = cache_read_addr (fst s) \<and>
    (\<forall>x. cache_write_addr (fst s') \<le> unat x \<longrightarrow> w_mem (snd s') x = w_mem (snd s) x)"
proof -
  obtain c d where s: "s = (c, d)" by (cases s)
  let ?w = "cache_write_addr c" and ?n = "storage_align4 (24 + length p)"
  have n0: "24 \<le> ?n" using storage_align4_bounds(1) [of "24 + length p"] by simp
  have rm: "0 < length p" "length p \<le> 192" "?w + ?n \<le> cache_end" "blank (w_mem d) ?w ?n"
    using assms(2) s by (simp_all add: cache_room_def)
  have k: "chip_ok d" "STORAGE_CACHE_BASE \<le> cache_read_addr c" "length (cache_recs s) = unat (cache_backlog c)"
    "chain cache_hdr_ok cache_end (w_mem d) (cache_read_addr c) (cache_recs s) ?w"
    using assms(1) s rm(3) n0 by (auto simp: cache_wf_def)
  have lo: "STORAGE_CACHE_BASE \<le> ?w" using chain_bounds [OF k(4)] k(2) by simp
  have rng: "storage_cache_in_range ?w ?n"
    using lo rm(3) n0 by (auto simp: storage_cache_in_range_def region_in_range_def cache_end_def)
  obtain d1 where d1: "storage_cache_is_erased ?w ?n d = (True, d1)" "w_only (\<lambda>_. False) d d1"
  proof -
    have "fst (erased_chunks ?w 0 ?n d)"
      using erased_chunks_blank [OF k(1), of ?w ?n 0] rm(3,4) region_ends by simp
    then show thesis using that erased_chunks_only rng by (metis prod.collapse storage_cache_is_erased_def)
  qed
  have m1: "w_mem d1 = w_mem d" "chip_ok d1" using w_only_False [OF d1(2)] chip_ok_only [OF d1(2)] k(1) by simp_all
  obtain d' r where w: "write_verified storage_cache_write ?w (record_buf (new_hdr STORAGE_REC_CACHE (last_seq c + 1) tick (length p)) p) d1 = (True, d')"
      "w_only (in_range (of_nat ?w) ?n) d1 d'" "parse_rec cache_hdr_ok cache_end (w_mem d') ?w = Some r"
      "hd_seq (fst r) = last_seq c + 1" "snd r = p" "rec_size r = ?n"
  proof -
    have u: "unat (of_nat (length p) :: u16) = length p" using rm(2) by (intro unat_of_nat_lt) simp
    then have "of_nat (length p) \<noteq> (0 :: u16)" using rm(1) by (metis less_numeral_extra(3) unat_0)
    with u show thesis
      using that write_new_record [of d1 storage_cache_in_range ?w p cache_end cache_hdr_ok STORAGE_REC_CACHE "last_seq c + 1" tick]
        m1 rng storage_rng_below(2) rm
      by (auto simp: storage_cache_write_def cache_hdr_ok_def new_hdr_def storage_consts)
  qed
  have keep: "w_mem d' x = w_mem d x" if "unat x < ?w \<or> ?w + ?n \<le> unat x" for x
  proof -
    have "\<not> in_range (of_nat ?w) ?n x" using that in_range_nat [of ?w ?n x] rm(3) region_ends by auto
    then show ?thesis using w(2) m1(1) by (simp add: w_only_def)
  qed
  let ?c = "c\<lparr>last_seq := last_seq c + 1, cache_write_addr := ?w + ?n, cache_backlog := cache_backlog c + 1\<rparr>"
  have "chain cache_hdr_ok cache_end (w_mem d') (cache_read_addr c) (cache_recs s) ?w"
    using k(4) by (rule chain_cong) (use keep region_ends in auto)
  then have ch: "chain cache_hdr_ok cache_end (w_mem d') (cache_read_addr c) (cache_recs s @ [r]) (?w + ?n)"
    using w(3,6) by (auto simp: chain_append)
  have "24 * length (cache_recs s) \<le> 0x1000000" using chain_length [OF k(4)] rm(3) region_ends by simp
  then have "unat (cache_backlog c) < 2 ^ 32 - 1" using k(3) by simp
  then have nb: "unat (cache_backlog c + 1) = length (cache_recs s @ [r])"
    using k(3) by (simp add: unat_word_ariths)
  then have rc: "cache_recs (?c, d') = cache_recs s @ [r]"
    using recs_chain [OF ch] by (simp add: cache_recs_def)
  have "chip_ok d'" using chip_ok_only [OF w(2)] m1(2) by simp
  then have "cache_wf (?c, d')" using rc nb ch k(2) by (simp add: cache_wf_def)
  moreover have "storage_write_cache_record p tick c d = (True, ?c, d')"
    using rm d1(1) w(1)
    by (simp add: storage_write_cache_record_def make_room_def Let_def new_hdr_def cache_end_def storage_consts)
  ultimately show ?thesis
    using assms(3) s rc w(4,5) keep by (auto simp: cache_put_def cache_items_def cache_next_seq_def seq_payload_def)
qed

lemma cache_put_spec:
  "cache_wf s \<Longrightarrow> cache_room p s \<Longrightarrow> cache_put tick p s = (b, s') \<Longrightarrow>
   b \<and> cache_items s' = cache_items s @ [(cache_next_seq s, p)] \<and> cache_wf s'"
  using cache_put_effect by blast

interpretation unsent: report_queue cache_wf cache_items cache_peek cache_ack "cache_put tick" cache_room cache_next_seq
  for tick
  by unfold_locales (fact cache_peek_spec cache_ack_spec cache_put_spec)+

section \<open>Storing and replaying\<close>

text \<open>Store a list of reports, each with the tick of its record.\<close>

fun cache_put_all :: "(u8 list \<times> u32) list \<Rightarrow> store \<Rightarrow> bool \<times> store" where
  "cache_put_all [] s = (True, s)"
| "cache_put_all ((p, tick) # ps) s =
     (case cache_put tick p s of (b, s1) \<Rightarrow> (case cache_put_all ps s1 of (bs, s2) \<Rightarrow> (b \<and> bs, s2)))"

text \<open>Take the oldest report and acknowledge it, \<open>n\<close> times.\<close>

fun cache_drain :: "nat \<Rightarrow> store \<Rightarrow> (u32 \<times> u8 list) list \<times> store" where
  "cache_drain 0 s = ([], s)"
| "cache_drain (Suc n) s =
     (case cache_peek s of
        (None, s1) \<Rightarrow> ([], s1)
      | (Some x, s1) \<Rightarrow> (case cache_ack (fst x) s1 of (b, s2) \<Rightarrow> (case cache_drain n s2 of (xs, s3) \<Rightarrow> (x # xs, s3))))"

lemma cache_drain_eq: "cache_drain n s = unsent.drain n s"
  by (induction n arbitrary: s) (auto split: prod.splits option.splits)

fun numbered :: "u32 \<Rightarrow> (u8 list \<times> u32) list \<Rightarrow> (u32 \<times> u8 list) list" where
  "numbered k [] = []"
| "numbered k ((p, tick) # ps) = (k + 1, p) # numbered (k + 1) ps"

definition reports_size :: "(u8 list \<times> u32) list \<Rightarrow> nat" where
  "reports_size ps = sum_list (map (\<lambda>(p, tick). storage_align4 (24 + length p)) ps)"

lemma cache_put_all_items:
  "cache_wf s \<Longrightarrow> \<forall>(p, tick) \<in> set ps. 0 < length p \<and> length p \<le> 192 \<Longrightarrow>
   cache_write_addr (fst s) + reports_size ps \<le> cache_end \<Longrightarrow>
   blank (w_mem (snd s)) (cache_write_addr (fst s)) (reports_size ps) \<Longrightarrow>
   \<exists>s'. cache_put_all ps s = (True, s') \<and> cache_items s' = cache_items s @ numbered (last_seq (fst s)) ps \<and> cache_wf s'"
proof (induction ps arbitrary: s)
  case (Cons e ps)
  obtain p tick where e: "e = (p, tick)" by (cases e)
  let ?w = "cache_write_addr (fst s)" and ?n = "storage_align4 (24 + length p)"
  have sz: "reports_size (e # ps) = ?n + reports_size ps" by (simp add: reports_size_def e)
  have "blank (w_mem (snd s)) ?w ?n" using Cons.prems(4) by (rule blank_mono) (simp add: sz)
  then have rm: "cache_room p s" using Cons.prems(2,3) sz e by (auto simp: cache_room_def)
  obtain b s1 where p: "cache_put tick p s = (b, s1)" by (cases "cache_put tick p s")
  note E = cache_put_effect [OF Cons.prems(1) rm p]
  have "blank (w_mem (snd s)) (?w + ?n) (reports_size ps)"
    using Cons.prems(4) by (rule blank_sub) (simp_all add: sz)
  then have "blank (w_mem (snd s1)) (?w + ?n) (reports_size ps)"
    by (rule blank_keep) (use E Cons.prems(3) sz region_ends in auto)
  then obtain s' where "cache_put_all ps s1 = (True, s')" "cache_items s' = cache_items s1 @ numbered (last_seq (fst s1)) ps"
      "cache_wf s'"
    using Cons.IH [of s1] E Cons.prems(2,3) sz by auto
  then show ?case using p E e by (simp add: cache_next_seq_def)
qed simp

text \<open>C14: the cache of unsent reports is a first-in first-out queue. On a device that works, storing
  any reports that fit behind the stored ones succeeds, and taking and acknowledging then delivers
  the old reports and after them exactly the new ones, in order and numbered consecutively, and
  leaves the cache empty.\<close>

theorem cache_delivers_in_order:
  assumes "cache_wf s" "\<forall>(p, tick) \<in> set ps. 0 < length p \<and> length p \<le> 192"
    "cache_write_addr (fst s) + reports_size ps \<le> cache_end"
    "blank (w_mem (snd s)) (cache_write_addr (fst s)) (reports_size ps)"
  shows "\<exists>s1 s2. cache_put_all ps s = (True, s1) \<and>
    cache_drain (length (cache_items s) + length ps) s1 = (cache_items s @ numbered (last_seq (fst s)) ps, s2) \<and>
    Storage_GetCacheBacklog (fst s2) = 0 \<and> fst (cache_peek s2) = None"
proof -
  obtain s1 where s1: "cache_put_all ps s = (True, s1)" "cache_items s1 = cache_items s @ numbered (last_seq (fst s)) ps"
      "cache_wf s1"
    using cache_put_all_items [OF assms] by blast
  obtain xs s2 where d: "cache_drain (length (cache_items s) + length ps) s1 = (xs, s2)"
    by (cases "cache_drain (length (cache_items s) + length ps) s1")
  have "length (numbered k ps) = length ps" for k by (induction k ps rule: numbered.induct) auto
  then have D: "xs = cache_items s1" "cache_items s2 = []" "cache_wf s2"
    using unsent.drain_items [OF s1(3) d [unfolded cache_drain_eq]] s1(2) by simp_all
  then have b: "Storage_GetCacheBacklog (fst s2) = 0"
    by (auto simp: cache_wf_def cache_items_def Storage_GetCacheBacklog_def unat_eq_0)
  then have "fst (cache_peek s2) = None"
    by (simp add: cache_peek_def Storage_PeekCache_def Storage_GetCacheBacklog_def)
  then show ?thesis using s1 d D b by (intro exI [of _ s1] exI [of _ s2]) simp
qed

definition sample_store :: store where
  "sample_store = (storage_ctx_zero\<lparr>cache_read_addr := STORAGE_CACHE_BASE, cache_write_addr := STORAGE_CACHE_BASE\<rparr>, sample_w25q)"

lemma sample_store_wf: "cache_wf sample_store"
  by (simp add: cache_wf_def sample_store_def storage_ctx_zero_def sample_w25q_ok cache_recs_def)

theorem cache_delivers_in_order_witness:
  "\<exists>s1 s2. cache_put_all [([1, 2], 5), ([3], 6)] sample_store = (True, s1) \<and>
    cache_drain 2 s1 = ([(1, [1, 2]), (2, [3])], s2)"
proof -
  have e: "cache_items sample_store = []" by (simp add: cache_items_def cache_recs_def sample_store_def storage_ctx_zero_def)
  have "\<forall>(p, tick) \<in> set [([1, 2], 5), ([3], 6)]. 0 < length (p :: u8 list) \<and> length p \<le> 192" by simp
  moreover have "cache_write_addr (fst sample_store) + reports_size [([1, 2], 5), ([3], 6)] \<le> cache_end"
    by (simp add: sample_store_def reports_size_def storage_align4_def storage_consts region_ends)
  moreover have "blank (w_mem (snd sample_store)) (cache_write_addr (fst sample_store)) n" for n
    by (simp add: sample_store_def sample_w25q_def blank_def)
  ultimately obtain s1 s2 where s: "cache_put_all [([1, 2], 5), ([3], 6)] sample_store = (True, s1)"
      "cache_drain (length (cache_items sample_store) + length [([1, 2 :: u8], 5 :: u32), ([3], 6)]) s1 =
         (cache_items sample_store @ numbered (last_seq (fst sample_store)) [([1, 2], 5), ([3], 6)], s2)"
    using cache_delivers_in_order [OF sample_store_wf, of "[([1, 2], 5), ([3], 6)]"] by blast
  have "last_seq (fst sample_store) = 0" by (simp add: sample_store_def storage_ctx_zero_def)
  then have "cache_drain 2 s1 = ([(1, [1, 2]), (2, [3])], s2)"
    using s(2) e by (simp add: numeral_2_eq_2 del: cache_drain.simps)
  then show ?thesis using s(1) by blast
qed

section \<open>What a reset forgets\<close>

lemma cache_ack_device: "cache_ack q s = (b, s') \<Longrightarrow> w_only (\<lambda>_. False) (snd s) (snd s')"
  using read_only by (auto simp: cache_ack_def Storage_MarkCacheAck_def Let_def split: prod.splits option.splits if_splits)

lemma cache_scan_all:
  assumes "chip_ok d" "chain cache_hdr_ok cache_end (w_mem d) STORAGE_CACHE_BASE rs b" "blank (w_mem d) b 4" "b \<le> cache_end"
  shows "\<exists>c' d'. storage_scan_cache_region c0 d = (True, c', d') \<and> cache_wf (c', d') \<and> cache_recs (c', d') = rs"
proof -
  have "cache_end \<le> 0x1000000" by (simp add: region_ends)
  then obtain d' where d': "w_only (\<lambda>_. False) d d'" "scan_loop cache_hdr_ok cache_end STORAGE_CACHE_BASE 0 (last_seq c0) d =
      (True, b, 0 + of_nat (length rs), max_seq (last_seq c0) rs, d')"
    using scan_loop_chain [OF assms(1) _ assms(2) blank_no_record [OF assms(3)]] by blast
  let ?c = "c0\<lparr>cache_backlog := of_nat (length rs), cache_read_addr := STORAGE_CACHE_BASE,
      last_seq := max_seq (last_seq c0) rs, cache_write_addr := b\<rparr>"
  have "24 * length rs \<le> 0x1000000" using chain_length [OF assms(2)] assms(4) region_ends by simp
  then have n: "unat (of_nat (length rs) :: u32) = length rs" by (intro unat_of_nat_lt) simp
  have m: "w_mem d' = w_mem d" "chip_ok d'" using w_only_False [OF d'(1)] chip_ok_only [OF d'(1)] assms(1) by simp_all
  have "cache_recs (?c, d') = rs" using recs_chain [OF assms(2)] n m by (simp add: cache_recs_def)
  moreover have "cache_wf (?c, d')" using calculation n m assms(2) by (simp add: cache_wf_def)
  moreover have "storage_scan_cache_region c0 d = (True, ?c, d')"
    using d'(2) by (simp add: storage_scan_cache_region_def cache_end_def [symmetric])
  ultimately show ?thesis by blast
qed

text \<open>Acknowledgements are not recorded in the flash. When the oldest stored report lies at the start
  of the region and is acknowledged, the cache no longer holds it; after a reset the scan finds it
  again, and it is the next report to be replayed.\<close>

theorem acknowledged_report_returns:
  assumes "cache_wf s" "cache_items s = x # xs" "cache_read_addr (fst s) = STORAGE_CACHE_BASE"
    "cache_write_addr (fst s) + 4 \<le> cache_end" "blank (w_mem (snd s)) (cache_write_addr (fst s)) 4"
    "cache_ack (fst x) s = (b, s1)"
  shows "cache_items s1 = xs \<and>
    (\<exists>c' d'. storage_scan_cache_region c0 (snd s1) = (True, c', d') \<and> cache_items (c', d') = x # xs \<and>
       fst (cache_peek (c', d')) = Some x)"
proof -
  have a: "cache_items s1 = xs" using cache_ack_spec [OF assms(1,6)] assms(2) by auto
  note dev = cache_ack_device [OF assms(6)]
  have ch: "chain cache_hdr_ok cache_end (w_mem (snd s)) STORAGE_CACHE_BASE (cache_recs s) (cache_write_addr (fst s))"
    using assms(1,3,4) by (auto simp: cache_wf_def)
  have m: "w_mem (snd s1) = w_mem (snd s)" "chip_ok (snd s1)"
    using w_only_False [OF dev] chip_ok_only [OF dev] assms(1) by (simp_all add: cache_wf_def)
  have "cache_write_addr (fst s) \<le> cache_end" using assms(4) by simp
  then obtain c' d' where r: "storage_scan_cache_region c0 (snd s1) = (True, c', d')" "cache_wf (c', d')"
      "cache_recs (c', d') = cache_recs s"
    using cache_scan_all [of "snd s1" "cache_recs s" "cache_write_addr (fst s)" c0] ch m assms(5) by auto
  have i: "cache_items (c', d') = x # xs" using r(3) assms(2) by (simp add: cache_items_def)
  have "fst (cache_peek (c', d')) = Some x"
    using unsent.peek [OF r(2)] i by (metis list.simps(5) prod.collapse)
  then show ?thesis using a r(1) i by blast
qed

theorem acknowledged_report_returns_witness:
  "\<exists>s s1. fst (cache_put 5 [1, 2] sample_store) \<and> s = snd (cache_put 5 [1, 2] sample_store) \<and>
     s1 = snd (cache_ack 1 s) \<and> cache_items s1 = [] \<and>
     fst (cache_peek (snd (storage_scan_cache_region storage_ctx_zero (snd s1)))) = Some (1, [1, 2])"
proof -
  have bl: "blank (w_mem (snd sample_store)) a n" for a n by (simp add: sample_store_def sample_w25q_def blank_def)
  have w0: "cache_write_addr (fst sample_store) = STORAGE_CACHE_BASE" "last_seq (fst sample_store) = 0"
    "cache_read_addr (fst sample_store) = STORAGE_CACHE_BASE" "cache_items sample_store = []"
    by (simp_all add: sample_store_def storage_ctx_zero_def cache_items_def cache_recs_def)
  have rm: "cache_room [1, 2] sample_store"
    using bl w0 by (simp add: cache_room_def storage_align4_def region_ends storage_consts)
  obtain b s where p: "cache_put 5 [1, 2] sample_store = (b, s)" by (cases "cache_put 5 [1, 2] sample_store")
  note E = cache_put_effect [OF sample_store_wf rm p]
  have i: "cache_items s = [(1, [1, 2])]" using E w0 by (simp add: cache_next_seq_def)
  have ws: "cache_write_addr (fst s) + 4 \<le> cache_end"
    using E w0 by (simp add: storage_align4_def region_ends storage_consts)
  have "blank (w_mem (snd s)) (cache_write_addr (fst s)) 4"
    using bl by (rule blank_keep) (use E ws region_ends in auto)
  moreover obtain b1 s1 where a: "cache_ack 1 s = (b1, s1)" by (cases "cache_ack 1 s")
  ultimately have "cache_items s1 = [] \<and> fst (cache_peek (snd (storage_scan_cache_region storage_ctx_zero (snd s1)))) = Some (1, [1, 2])"
    using acknowledged_report_returns [of s "(1, [1, 2])" "[]" b1 s1 storage_ctx_zero] i ws E w0 by force
  then show ?thesis using p E a by (intro exI [of _ s] exI [of _ s1]) simp
qed

section \<open>The wrap of the event log\<close>

text \<open>Once the event log has wrapped, a record that does not find erased flash erases the start of
  its own sector, and with it the newer records before it. In the first sector this makes the log
  empty: after the write, the scan of the next start finds no record at all and the sequence
  numbers begin again.\<close>

theorem event_wrap_erases_log:
  assumes "chip_ok d" "0 < length p" "length p \<le> 192"
    "STORAGE_EVENT_BASE + 4 \<le> event_write_addr c" "event_write_addr c < STORAGE_EVENT_BASE + 4096"
    "\<not> blank (w_mem d) (event_write_addr c) (storage_align4 (24 + length p))"
    "storage_write_record ty p tick c d = (ok, c', d')"
  shows "\<exists>d''. storage_scan_event_region c0 d' =
    (True, c0\<lparr>event_valid_count := 0, last_seq := 0, event_write_addr := STORAGE_EVENT_BASE\<rparr>, d'')"
proof -
  let ?w = "event_write_addr c" and ?n = "storage_align4 (24 + length p)"
  have n: "?n \<le> 219" "?n \<noteq> 0" using storage_align4_bounds [of "24 + length p"] assms(3) by simp_all
  have w: "?w + ?n \<le> event_end" "?w - ?w mod 4096 = STORAGE_EVENT_BASE" "?w < 0x1000000"
  proof -
    show "?w + ?n \<le> event_end" "?w < 0x1000000" using assms(5) n by (simp_all add: region_ends storage_consts)
    obtain k where k: "?w = k + 16 * 4096" "k < 4096"
      using that [of "?w - 0x10000"] assms(4,5) by (simp add: storage_consts)
    have "?w mod 4096 = k" unfolding k(1) using k(2) by (simp only: mod_mult_self1 mod_less)
    then show "?w - ?w mod 4096 = STORAGE_EVENT_BASE" using k(1) by (simp add: storage_consts)
  qed
  obtain d1 where d1: "storage_flash_is_erased ?w ?n d = (False, d1)" "w_only (\<lambda>_. False) d d1"
  proof -
    have "\<not> fst (erased_chunks ?w 0 ?n d)"
      using erased_chunks_blank [OF assms(1), of ?w ?n 0] w(1) assms(6) region_ends by simp
    then show thesis using that erased_chunks_only by (metis prod.collapse storage_flash_is_erased_def)
  qed
  have c1: "chip_ok d1" using chip_ok_only [OF d1(2)] assms(1) by simp
  have rng: "storage_flash_in_range ?w ?n"
    using assms(4) w(1) by (auto simp: storage_flash_in_range_def region_in_range_def event_end_def)
  let ?e = "storage_align4 (?w + ?n)"
  have e: "?w + ?n \<le> ?e" "?e \<le> 0x1000000"
    using storage_align4_bounds(1,2) [of "?w + ?n"] w(1) region_ends by simp_all
  obtain room d2 where d2: "erase_loop STORAGE_EVENT_BASE ?e d1 = (room, d2)" by (cases "erase_loop STORAGE_EVENT_BASE ?e d1")
  have E: "w_only (\<lambda>x. STORAGE_EVENT_BASE \<le> unat x \<and> unat x < sector_top ?e) d1 d2" "room"
    "\<And>x. STORAGE_EVENT_BASE \<le> unat x \<Longrightarrow> unat x < ?e \<Longrightarrow> w_mem d2 x = 0xFF"
    using erase_loop_spec [OF d2 _ e(2)] c1 by (simp_all add: storage_consts)
  have mk: "make_room storage_flash_is_erased storage_flash_erase_range ?w ?n d = (True, d2)"
    using d1(1) rng w(2) d2 E(2) by (simp add: make_room_def storage_flash_erase_range_def region_erase_range_def)
  let ?b = "record_buf (new_hdr ty (last_seq c + 1) tick (length p)) p"
  obtain st d3 where d3: "write_verified storage_flash_write ?w ?b d2 = (st, d3)"
    by (cases "write_verified storage_flash_write ?w ?b d2")
  have o3: "w_only (in_range (of_nat ?w) ?n) d2 d3"
    using write_verified_only [OF d3 [unfolded storage_flash_write_def] storage_rng_below(1)] by simp
  have "d' = d3"
    using assms(2,3,7) w(1) mk d3 by (simp add: storage_write_record_def Let_def new_hdr_def event_end_def storage_consts split: if_splits)
  have b4: "blank (w_mem d') STORAGE_EVENT_BASE 4"
    unfolding blank_def
  proof (intro allI impI)
    fix i :: nat assume i: "i < 4"
    have u: "unat (of_nat (STORAGE_EVENT_BASE + i) :: u32) = STORAGE_EVENT_BASE + i"
      using i by (intro unat_of_nat_lt) (simp add: storage_consts)
    have "\<not> in_range (of_nat ?w) ?n (of_nat (STORAGE_EVENT_BASE + i))"
      using in_range_nat [of ?w ?n "of_nat (STORAGE_EVENT_BASE + i)"] u i assms(4) w(1) region_ends by simp
    then show "w_mem d' (of_nat (STORAGE_EVENT_BASE + i)) = 0xFF"
      using o3 E(3) u i assms(4) e(1) \<open>d' = d3\<close> by (simp add: w_only_def)
  qed
  have "chip_ok d'" using chip_ok_only [OF o3] chip_ok_only [OF E(1)] c1 \<open>d' = d3\<close> by simp
  moreover have "event_end \<le> 0x1000000" by (simp add: region_ends)
  moreover have "chain event_hdr_ok event_end (w_mem d') STORAGE_EVENT_BASE [] STORAGE_EVENT_BASE" by simp
  ultimately obtain d'' where "scan_loop event_hdr_ok event_end STORAGE_EVENT_BASE 0 0 d' =
      (True, STORAGE_EVENT_BASE, 0 + of_nat (length ([] :: (rec_hdr \<times> u8 list) list)), max_seq 0 [], d'')"
    using scan_loop_chain [OF _ _ _ blank_no_record [OF b4]] by blast
  then show ?thesis by (simp add: storage_scan_event_region_def event_end_def [symmetric])
qed

theorem event_wrap_erases_log_witness:
  "\<exists>ok c' d' d''. storage_write_record STORAGE_REC_EVENT boot_event 7 (storage_ctx_zero\<lparr>event_write_addr := 0x10028, last_seq := 1\<rparr>)
      (sample_w25q\<lparr>w_mem := \<lambda>_. 0\<rparr>) = (ok, c', d') \<and>
    storage_scan_event_region storage_ctx_zero d' =
      (True, storage_ctx_zero\<lparr>event_valid_count := 0, last_seq := 0, event_write_addr := STORAGE_EVENT_BASE\<rparr>, d'')"
proof -
  let ?d = "sample_w25q\<lparr>w_mem := \<lambda>_. 0\<rparr>" and ?c = "storage_ctx_zero\<lparr>event_write_addr := 0x10028, last_seq := 1\<rparr>"
  have c: "chip_ok ?d" using sample_w25q_ok by (simp add: chip_ok_def bus_ok_def w_erased_law_def)
  have b: "\<not> blank (w_mem ?d) (event_write_addr ?c) (storage_align4 (24 + length boot_event))"
    by (auto simp: blank_def storage_align4_def boot_event_def intro: exI [of _ 0])
  obtain ok c' d' where w: "storage_write_record STORAGE_REC_EVENT boot_event 7 ?c ?d = (ok, c', d')"
    by (cases "storage_write_record STORAGE_REC_EVENT boot_event 7 ?c ?d")
  have "0 < length boot_event" "length boot_event \<le> 192" "STORAGE_EVENT_BASE + 4 \<le> event_write_addr ?c"
    "event_write_addr ?c < STORAGE_EVENT_BASE + 4096"
    by (simp_all add: boot_event_def storage_consts)
  from event_wrap_erases_log [OF c this b w] w show ?thesis by blast
qed

end
