(* ===== verification/Gateway_Report.thy ===== *)
theory Gateway_Report
  imports Home_State Gateway_Uart Storage_Cache
begin

text \<open>
  Reports of the gateway task (\<open>1_App/app_gateway.c\<close>): the transmitter, the conversion of the measured
  values, the frames that carry them, the table of reports that wait for their acknowledgement, the
  snapshot of abnormal reports into the flash cache, and the replay of that cache. The kernel's tick
  in milliseconds is an argument of the operations that read it.
\<close>

section \<open>The transmitter\<close>

text \<open>The bytes on the wire, the environment of the busy waits (the status register and the tick at each
  turn of one wait; a schedule that ends early counts as a time-out), and the counter of frames dumped
  to the log.\<close>

record gw_line =
  tx_wire :: "u8 list"
  tx_ops :: nat
  tx_start :: "nat \<Rightarrow> u32"
  tx_polls :: "nat \<Rightarrow> (u32 \<times> u32) list"
  tx_hex_dump_count :: u32

fun tx_poll :: "u32 \<Rightarrow> u32 \<Rightarrow> (u32 \<times> u32) list \<Rightarrow> bool" where
  "tx_poll flag start_tick [] = False"
| "tx_poll flag start_tick ((sr, tick) # ps) =
     (if sr AND flag = 0 then (if tick - start_tick > 1000 then False else tx_poll flag start_tick ps) else True)"

definition USART_SR_TXE :: u32 where "USART_SR_TXE = 0x80"
definition USART_SR_TC :: u32 where "USART_SR_TC = 0x40"

definition tx_wait :: "u32 \<Rightarrow> gw_line \<Rightarrow> bool \<times> gw_line" where
  "tx_wait flag l = (tx_poll flag (tx_start l (tx_ops l)) (tx_polls l (tx_ops l)), l\<lparr>tx_ops := tx_ops l + 1\<rparr>)"

fun tx_bytes :: "u8 list \<Rightarrow> gw_line \<Rightarrow> bool \<times> gw_line" where
  "tx_bytes [] l = (True, l)"
| "tx_bytes (b # bs) l =
     (let (ok, l1) = tx_wait USART_SR_TXE l
      in if \<not> ok then (False, l1) else tx_bytes bs (l1\<lparr>tx_wire := tx_wire l1 @ [b]\<rparr>))"

definition GW_TX_HEX_DUMP_MAX_FRAMES :: u32 where "GW_TX_HEX_DUMP_MAX_FRAMES = 8"

definition gw_uart_send_bytes :: "u8 list \<Rightarrow> gw_line \<Rightarrow> bool \<times> gw_line" where
  "gw_uart_send_bytes data l =
     (if length data = 0 then (False, l)
      else let l1 = (if tx_hex_dump_count l < GW_TX_HEX_DUMP_MAX_FRAMES
                     then l\<lparr>tx_hex_dump_count := tx_hex_dump_count l + 1\<rparr> else l);
               (ok, l2) = tx_bytes data l1
           in if \<not> ok then (False, l2) else tx_wait USART_SR_TC l2)"

text \<open>\<open>gw_send_frame\<close> with the transmission; no caller sends the length that overflows.\<close>

definition gw_transmit_frame :: "u8 \<Rightarrow> u8 list \<Rightarrow> gw_line \<Rightarrow> bool \<times> gw_line" where
  "gw_transmit_frame type payload l =
     (case gw_send_frame type payload of Tx_bytes bs \<Rightarrow> gw_uart_send_bytes bs l | _ \<Rightarrow> (False, l))"

section \<open>Conversion of the measured values\<close>

text \<open>Tenths, saturated to 16 bits; a cast of a value in range drops the fraction.\<close>

definition gw_float_to_x10 :: "f32 \<Rightarrow> 16 word" where
  "gw_float_to_x10 v =
     (if v > f32_rnd (32767 / 10) then 32767
      else if v < f32_rnd (- 32768 / 10) then - 32768
      else if v \<ge> 0 then word_of_int (f_trunc (f_add (f_mul v 10) (1 / 2)))
      else word_of_int (f_trunc (f_sub (f_mul v 10) (1 / 2))))"

definition gw_float_to_u16_x10 :: "f32 \<Rightarrow> u16" where
  "gw_float_to_u16_x10 v =
     (if v \<le> 0 then 0
      else let scaled = f_trunc (f_add (f_mul v 10) (1 / 2))
           in word_of_int (if scaled > 65535 then 65535 else scaled))"

section \<open>Reports that wait for an acknowledgement\<close>

definition GW_PENDING_QUEUE_SIZE :: nat where "GW_PENDING_QUEUE_SIZE = 8"
definition GW_REPORT_ACK_TIMEOUT_MS :: u32 where "GW_REPORT_ACK_TIMEOUT_MS = 1200"

record pending_report =
  pr_active :: u8
  pr_from_replay :: u8
  pr_report_seq :: u32
  pr_cache_seq :: u32
  pr_sent_ms :: u32
  pr_frame :: "u8 list"

definition pending_zero :: pending_report where
  "pending_zero = \<lparr>pr_active = 0, pr_from_replay = 0, pr_report_seq = 0, pr_cache_seq = 0, pr_sent_ms = 0, pr_frame = []\<rparr>"

definition gw_pending_count :: "pending_report list \<Rightarrow> nat" where
  "gw_pending_count ps = length (filter (\<lambda>p. pr_active p \<noteq> 0) ps)"

text \<open>The loops that look for the first slot of a kind.\<close>

fun first_slot :: "(pending_report \<Rightarrow> bool) \<Rightarrow> nat \<Rightarrow> pending_report list \<Rightarrow> nat option" where
  "first_slot P i [] = None"
| "first_slot P i (p # ps) = (if P p then Some i else first_slot P (i + 1) ps)"

definition gw_pending_find_by_seq :: "u32 \<Rightarrow> pending_report list \<Rightarrow> nat option" where
  "gw_pending_find_by_seq seq ps = first_slot (\<lambda>p. pr_active p \<noteq> 0 \<and> pr_report_seq p = seq) 0 ps"

definition gw_pending_find_replay_cache_seq :: "u32 \<Rightarrow> pending_report list \<Rightarrow> nat option" where
  "gw_pending_find_replay_cache_seq seq ps =
     first_slot (\<lambda>p. pr_active p \<noteq> 0 \<and> pr_from_replay p \<noteq> 0 \<and> pr_cache_seq p = seq) 0 ps"

definition gw_pending_alloc_slot :: "pending_report list \<Rightarrow> nat option" where
  "gw_pending_alloc_slot ps = first_slot (\<lambda>p. pr_active p = 0) 0 ps"

definition gw_pending_clear :: "nat \<Rightarrow> pending_report list \<Rightarrow> pending_report list" where
  "gw_pending_clear i ps = ps[i := pending_zero]"

definition gw_pending_enqueue :: "u8 \<Rightarrow> u32 \<Rightarrow> u32 \<Rightarrow> u8 list \<Rightarrow> u32 \<Rightarrow> pending_report list \<Rightarrow> bool \<times> pending_report list" where
  "gw_pending_enqueue from_replay cache_seq report_seq frame sent_ms ps =
     (case gw_pending_alloc_slot ps of
        None \<Rightarrow> (False, ps)
      | Some i \<Rightarrow>
          if length frame = 0 \<or> length frame > GW_TX_FRAME_MAX_SIZE then (False, ps)
          else (True, ps[i := \<lparr>pr_active = 1, pr_from_replay = from_replay, pr_report_seq = report_seq,
                               pr_cache_seq = cache_seq, pr_sent_ms = sent_ms, pr_frame = frame\<rparr>]))"

section \<open>What a frame says\<close>

definition GW_TYPE_SENSOR_DATA :: u8 where "GW_TYPE_SENSOR_DATA = 0x01"

definition gw_frame_extract_report_seq :: "u8 list \<Rightarrow> u32 option" where
  "gw_frame_extract_report_seq frame =
     (if length frame < 20 then None
      else if frame ! 0 \<noteq> 0xAA \<or> frame ! 1 \<noteq> 0x55 \<or> frame ! 3 \<noteq> GW_TYPE_SENSOR_DATA then None
      else if frame ! 2 < 15 then None
      else Some (un32 (frame ! 14) (frame ! 15) (frame ! 16) (frame ! 17)))"

definition gw_sensor_payload_is_abnormal :: "u8 list \<Rightarrow> u8 \<Rightarrow> bool" where
  "gw_sensor_payload_is_abnormal payload payload_len =
     (if payload_len < 10 then False
      else let status_bits = payload ! 9
           in if status_bits AND 0x02 \<noteq> 0 then True else if status_bits AND 0x04 = 0 then True else False)"

definition gw_sensor_frame_is_abnormal :: "u8 list \<Rightarrow> bool" where
  "gw_sensor_frame_is_abnormal frame =
     (if length frame < 20 then False
      else if frame ! 0 \<noteq> 0xAA \<or> frame ! 1 \<noteq> 0x55 \<or> frame ! 3 \<noteq> GW_TYPE_SENSOR_DATA then False
      else gw_sensor_payload_is_abnormal (drop 4 frame) (frame ! 2 - 1))"

section \<open>Snapshots and time-outs\<close>

text \<open>An abnormal report that could not be delivered goes to the storage task, unless its cache holds
  something already.\<close>

definition gw_try_cache_abnormal_snapshot :: "u8 list \<Rightarrow> u32 \<Rightarrow> storage_msg list \<Rightarrow> storage_msg list" where
  "gw_try_cache_abnormal_snapshot frame backlog q =
     (if \<not> gw_sensor_frame_is_abnormal frame then q
      else if backlog \<noteq> 0 then q
      else snd (Storage_WriteCache frame q))"

definition gw_pending_handle_timeout :: "u32 \<Rightarrow> nat \<Rightarrow> pending_report list \<Rightarrow> storage_msg list \<Rightarrow> pending_report list \<times> storage_msg list" where
  "gw_pending_handle_timeout backlog i ps q =
     (if pr_active (ps ! i) = 0 then (ps, q)
      else (gw_pending_clear i ps,
            if pr_from_replay (ps ! i) = 0 then gw_try_cache_abnormal_snapshot (pr_frame (ps ! i)) backlog q else q))"

text \<open>The loop over the slots, \<open>n\<close> of them still to come.\<close>

fun gw_pending_scan_from :: "u32 \<Rightarrow> u32 \<Rightarrow> nat \<Rightarrow> nat \<Rightarrow> pending_report list \<Rightarrow> storage_msg list \<Rightarrow> pending_report list \<times> storage_msg list" where
  "gw_pending_scan_from now_ms backlog i 0 ps q = (ps, q)"
| "gw_pending_scan_from now_ms backlog i (Suc n) ps q =
     (if pr_active (ps ! i) = 0 then gw_pending_scan_from now_ms backlog (i + 1) n ps q
      else if now_ms - pr_sent_ms (ps ! i) > GW_REPORT_ACK_TIMEOUT_MS
      then (case gw_pending_handle_timeout backlog i ps q of (ps1, q1) \<Rightarrow> gw_pending_scan_from now_ms backlog (i + 1) n ps1 q1)
      else gw_pending_scan_from now_ms backlog (i + 1) n ps q)"

definition gw_pending_scan_timeout :: "u32 \<Rightarrow> u32 \<Rightarrow> pending_report list \<Rightarrow> storage_msg list \<Rightarrow> pending_report list \<times> storage_msg list" where
  "gw_pending_scan_timeout now_ms backlog ps q = gw_pending_scan_from now_ms backlog 0 GW_PENDING_QUEUE_SIZE ps q"

section \<open>Replaying the cache\<close>

definition GW_REPLAY_BATCH_MAX :: nat where "GW_REPLAY_BATCH_MAX = 5"
definition GW_REPLAY_RETRY_INTERVAL_MS :: u32 where "GW_REPLAY_RETRY_INTERVAL_MS = 1000"

text \<open>The loop of one replay, over any store with the two operations of the cache that it uses.\<close>

fun replay_loop :: "('s \<Rightarrow> (u32 \<times> u8 list) option \<times> 's) \<Rightarrow> (u32 \<Rightarrow> 's \<Rightarrow> bool \<times> 's) \<Rightarrow> u32 \<Rightarrow> nat \<Rightarrow>
    's \<Rightarrow> pending_report list \<Rightarrow> gw_line \<Rightarrow> 's \<times> pending_report list \<times> gw_line" where
  "replay_loop peek ack now_ms 0 s ps l = (s, ps, l)"
| "replay_loop peek ack now_ms (Suc n) s ps l =
     (if gw_pending_count ps \<ge> GW_PENDING_QUEUE_SIZE then (s, ps, l)
      else (case peek s of
              (None, s1) \<Rightarrow> (s1, ps, l)
            | (Some (seq, payload), s1) \<Rightarrow>
                if gw_pending_find_replay_cache_seq seq ps \<noteq> None then (s1, ps, l)
                else (case gw_frame_extract_report_seq payload of
                        None \<Rightarrow> (case ack seq s1 of (b, s2) \<Rightarrow> replay_loop peek ack now_ms n s2 ps l)
                      | Some report_seq \<Rightarrow>
                          (case gw_uart_send_bytes payload l of
                             (sent, l1) \<Rightarrow>
                               if \<not> sent then (s1, ps, l1)
                               else (case gw_pending_enqueue 1 seq report_seq payload now_ms ps of
                                       (queued, ps1) \<Rightarrow>
                                         if \<not> queued then (s1, ps1, l1) else replay_loop peek ack now_ms n s1 ps1 l1)))))"

text \<open>The state of the task's reporting, with the store and the queue of the storage task.\<close>

record gw_reports =
  g_report_seq :: u32
  g_pending_reports :: "pending_report list"
  g_replay_active :: u8
  g_replay_last_try_ms :: u32
  g_replay_last_backlog :: u32
  g_line :: gw_line
  g_store :: store
  g_storage_queue :: "storage_msg list"

definition gw_backlog :: "gw_reports \<Rightarrow> u32" where
  "gw_backlog g = Storage_GetCacheBacklog (fst (g_store g))"

definition gw_try_replay_cache :: "u32 \<Rightarrow> gw_reports \<Rightarrow> gw_reports" where
  "gw_try_replay_cache now_ms g =
     (let backlog = gw_backlog g
      in if backlog = 0 then g\<lparr>g_replay_active := 0, g_replay_last_backlog := 0\<rparr>
         else if now_ms - g_replay_last_try_ms g < GW_REPLAY_RETRY_INTERVAL_MS then g
         else let g1 = g\<lparr>g_replay_last_try_ms := now_ms\<rparr>;
                  g2 = (if g_replay_active g1 = 0 \<or> g_replay_last_backlog g1 \<noteq> backlog
                        then g1\<lparr>g_replay_active := 1, g_replay_last_backlog := backlog\<rparr> else g1)
              in (case replay_loop cache_peek cache_ack now_ms GW_REPLAY_BATCH_MAX (g_store g2) (g_pending_reports g2) (g_line g2) of
                    (s, ps, l) \<Rightarrow> g2\<lparr>g_store := s, g_pending_reports := ps, g_line := l\<rparr>))"

section \<open>Acknowledgements\<close>

definition gw_process_report_ack :: "u8 list \<Rightarrow> gw_reports \<Rightarrow> gw_reports" where
  "gw_process_report_ack payload g =
     (if length payload < 5 then g
      else let ack_seq = un32 (payload ! 1) (payload ! 2) (payload ! 3) (payload ! 4)
           in (case gw_pending_find_by_seq ack_seq (g_pending_reports g) of
                 None \<Rightarrow> g
               | Some i \<Rightarrow>
                   let slot = g_pending_reports g ! i;
                       g1 = (if pr_from_replay slot \<noteq> 0
                             then let g' = g\<lparr>g_store := snd (cache_ack (pr_cache_seq slot) (g_store g))\<rparr>
                                  in if gw_backlog g' = 0 then g'\<lparr>g_replay_active := 0, g_replay_last_backlog := 0\<rparr> else g'
                             else g)
                   in g1\<lparr>g_pending_reports := gw_pending_clear i (g_pending_reports g1)\<rparr>))"

section \<open>Sending a report\<close>

definition GW_DEVICE_ID :: u8 where "GW_DEVICE_ID = 1"
definition GW_VOLTAGE_MV_DEFAULT :: u16 where "GW_VOLTAGE_MV_DEFAULT = 3300"

definition report_status_bits :: "home_state \<Rightarrow> u8" where
  "report_status_bits state =
     (if led_on state \<noteq> 0 then 0x01 else 0) OR (if alarm_on state \<noteq> 0 then 0x02 else 0) OR
     (if sensor_valid state \<noteq> 0 then 0x04 else 0) OR (if mode state = SMARTHOME_MODE_AUTO then 0x08 else 0)"

definition report_payload :: "home_state \<Rightarrow> u32 \<Rightarrow> u8 list" where
  "report_payload state report_seq =
     [GW_DEVICE_ID] @ le16 (gw_float_to_x10 (temperature state)) @ le16 (gw_float_to_u16_x10 (humidity state)) @
     le16 GW_VOLTAGE_MV_DEFAULT @ le16 (light state) @ [report_status_bits state] @ le32 report_seq"

definition report_frame :: "u8 list \<Rightarrow> u8 list" where
  "report_frame payload =
     (let body = [of_nat (length payload) + 1, GW_TYPE_SENSOR_DATA] @ payload in [0xAA, 0x55] @ body @ le16 (gw_crc16_modbus body))"

definition gw_send_sensor_data :: "home_state \<Rightarrow> u32 \<Rightarrow> gw_reports \<Rightarrow> gw_reports" where
  "gw_send_sensor_data state now_ms g =
     (let g1 = g\<lparr>g_report_seq := g_report_seq g + 1\<rparr>;
          (ps, q) = gw_pending_scan_timeout now_ms (gw_backlog g1) (g_pending_reports g1) (g_storage_queue g1);
          g2 = g1\<lparr>g_pending_reports := ps, g_storage_queue := q\<rparr>;
          frame = report_frame (report_payload state (g_report_seq g2));
          (sent, l) = gw_uart_send_bytes frame (g_line g2);
          g3 = g2\<lparr>g_line := l\<rparr>;
          snapshot = g3\<lparr>g_storage_queue := gw_try_cache_abnormal_snapshot frame (gw_backlog g3) (g_storage_queue g3)\<rparr>
      in if \<not> sent then snapshot
         else (case gw_pending_enqueue 0 0 (g_report_seq g3) frame now_ms (g_pending_reports g3) of
                 (queued, ps1) \<Rightarrow> if \<not> queued then snapshot else g3\<lparr>g_pending_reports := ps1\<rparr>))"

section \<open>The other frames\<close>

definition on_line :: "(gw_line \<Rightarrow> bool \<times> gw_line) \<Rightarrow> gw_reports \<Rightarrow> gw_reports" where
  "on_line f g = g\<lparr>g_line := snd (f (g_line g))\<rparr>"

definition gw_send_heartbeat :: "gw_reports \<Rightarrow> gw_reports" where
  "gw_send_heartbeat = on_line (gw_transmit_frame 0x03 [GW_DEVICE_ID])"

definition gw_send_alarm_event :: "u8 \<Rightarrow> gw_reports \<Rightarrow> gw_reports" where
  "gw_send_alarm_event event_code = on_line (gw_transmit_frame 0x02 [GW_DEVICE_ID, event_code])"

definition gw_send_device_status :: "gw_reports \<Rightarrow> gw_reports" where
  "gw_send_device_status = on_line (gw_transmit_frame 0x05 [GW_DEVICE_ID, 1, 1, 0, 0])"

definition gw_send_app_confirm :: "gw_reports \<Rightarrow> gw_reports" where
  "gw_send_app_confirm = on_line (gw_transmit_frame 0x26 [GW_DEVICE_ID, 1, 0, 0, 1])"

definition gw_send_command_ack :: "u16 \<Rightarrow> u8 \<Rightarrow> gw_reports \<Rightarrow> gw_reports" where
  "gw_send_command_ack command_id r = on_line (gw_transmit_frame 0x04 ([GW_DEVICE_ID] @ le16 command_id @ [r]))"

end
