(* ===== verification/Gateway_Replay.thy ===== *)
theory Gateway_Replay
  imports Gateway_Report
begin

text \<open>
  What the reporting of the gateway promises: the precision of the values it sends, the invariant of
  the table of pending reports, where a report can end, and the replay of the cache: at most one
  record is in flight, it is the oldest one, and its acknowledgement removes it. The replay lemmas are
  proved once, over the interface of a queue of unsent reports.
\<close>

section \<open>Precision of the values\<close>

lemma f_add_close: "\<bar>x + y\<bar> \<le> 1000000 \<Longrightarrow> \<bar>f_add x y - (x + y)\<bar> \<le> \<bar>x + y\<bar> / 2 ^ 24 + 1 / 2 ^ 150"
  unfolding f_add_def by (rule f32_rnd_close)

lemma f_sub_close: "\<bar>x - y\<bar> \<le> 1000000 \<Longrightarrow> \<bar>f_sub x y - (x - y)\<bar> \<le> \<bar>x - y\<bar> / 2 ^ 24 + 1 / 2 ^ 150"
  unfolding f_sub_def by (rule f32_rnd_close)

lemma f_mul_close: "\<bar>x * y\<bar> \<le> 1000000 \<Longrightarrow> \<bar>f_mul x y - x * y\<bar> \<le> \<bar>x * y\<bar> / 2 ^ 24 + 1 / 2 ^ 150"
  unfolding f_mul_def by (rule f32_rnd_close)

lemma f_div_close: "\<bar>x / y\<bar> \<le> 1000000 \<Longrightarrow> \<bar>f_div x y - x / y\<bar> \<le> \<bar>x / y\<bar> / 2 ^ 24 + 1 / 2 ^ 150"
  unfolding f_div_def by (rule f32_rnd_close)

text \<open>The scaled value, before the cast, for a magnitude up to 100000.\<close>

lemma tiny: "(1 / 2 ^ 150 :: real) \<le> 1 / 1000000"
proof -
  have "(1000000 :: real) \<le> 2 ^ 150" by simp
  then show ?thesis by (intro divide_left_mono) simp_all
qed

lemma scaled_near:
  assumes "\<bar>v\<bar> \<le> 10000" "\<bar>s\<bar> \<le> 1 / 2"
  shows "\<bar>f32_rnd (f_mul v 10 + s) - (10 * v + s)\<bar> \<le> 10 * \<bar>v\<bar> / 4194304 + 1 / 100000"
proof -
  have v: "\<bar>v * 10\<bar> = \<bar>v\<bar> * 10" by (simp add: abs_mult)
  have m: "\<bar>f_mul v 10 - v * 10\<bar> \<le> \<bar>v\<bar> * 10 / 16777216 + 1 / 1000000"
    using f_mul_close [of v 10] tiny assms(1) unfolding v by simp
  have "\<bar>f_mul v 10 + s\<bar> \<le> \<bar>v * 10\<bar> + \<bar>f_mul v 10 - v * 10\<bar> + \<bar>s\<bar>" by linarith
  then have a: "\<bar>f_mul v 10 + s\<bar> \<le> \<bar>v\<bar> * 20 + 1" using m v assms by linarith
  have "\<bar>f32_rnd (f_mul v 10 + s) - (f_mul v 10 + s)\<bar> \<le> \<bar>f_mul v 10 + s\<bar> / 16777216 + 1 / 1000000"
    using f32_rnd_close [of "f_mul v 10 + s"] tiny a assms(1) by simp
  moreover have "\<bar>f_mul v 10 + s\<bar> / 16777216 \<le> \<bar>v\<bar> * 20 / 16777216 + 1 / 16777216"
    using a by (simp flip: add_divide_distrib add: divide_right_mono)
  ultimately have "\<bar>f32_rnd (f_mul v 10 + s) - (f_mul v 10 + s)\<bar> \<le> \<bar>v\<bar> * 20 / 16777216 + 1 / 16777216 + 1 / 1000000" by linarith
  moreover have "\<bar>f32_rnd (f_mul v 10 + s) - (10 * v + s)\<bar> \<le>
      \<bar>f32_rnd (f_mul v 10 + s) - (f_mul v 10 + s)\<bar> + \<bar>f_mul v 10 - v * 10\<bar>" by linarith
  ultimately show ?thesis using m by linarith
qed

lemma scaled_up:
  "0 \<le> v \<Longrightarrow> v \<le> 10000 \<Longrightarrow> \<bar>f_add (f_mul v 10) (1 / 2) - (10 * v + 1 / 2)\<bar> \<le> 10 * v / 4194304 + 1 / 100000"
  using scaled_near [of v "1 / 2"] by (simp add: f_add_def)

lemma scaled_down:
  "0 \<le> v \<Longrightarrow> v \<le> 10000 \<Longrightarrow> \<bar>f_sub (f_mul (- v) 10) (1 / 2) - (- 10 * v - 1 / 2)\<bar> \<le> 10 * v / 4194304 + 1 / 100000"
  using scaled_near [of "- v" "- 1 / 2"] by (simp add: f_sub_def)

text \<open>A humidity or a threshold survives the trip through the protocol. A value that the protocol
  gives in tenths is turned into a float by the command handler and back into tenths by the report,
  and the number is the same, for all 65536 of them.\<close>

theorem tenths_roundtrip:
  "gw_float_to_u16_x10 (f_div (of_nat (unat k)) 10) = k"
proof (cases "k = 0")
  case True
  have "f32_rnd 0 = 0" by (simp add: f32_rnd_def Let_def round_even_def)
  then show ?thesis using True by (simp add: gw_float_to_u16_x10_def f_div_def)
next
  case False
  let ?n = "real (unat k)" and ?v = "f_div (real (unat k)) 10"
  have n: "1 \<le> ?n" "?n \<le> 65535"
  proof -
    have "0 < unat k" "unat k < 65536" using False unat_bound(2) [of k] by (simp_all add: unat_gt_0)
    then show "1 \<le> ?n" "?n \<le> 65535" by linarith+
  qed
  have v: "\<bar>?v - ?n / 10\<bar> \<le> ?n / 10 / 16777216 + 1 / 1000000" using f_div_close [of ?n 10] tiny n by simp
  then have vb: "0 < ?v" "?v \<le> 10000" using n unfolding abs_le_iff by linarith+
  then have s: "\<bar>f_add (f_mul ?v 10) (1 / 2) - (10 * ?v + 1 / 2)\<bar> \<le> 10 * ?v / 4194304 + 1 / 100000"
    by (intro scaled_up) simp_all
  have x: "?n < f_add (f_mul ?v 10) (1 / 2)" "f_add (f_mul ?v 10) (1 / 2) < ?n + 1"
    using s v n unfolding abs_le_iff by linarith+
  have "\<lfloor>f_add (f_mul ?v 10) (1 / 2)\<rfloor> = int (unat k)"
    by (rule floor_unique) (use x in \<open>simp_all only: of_int_of_nat_eq less_imp_le\<close>)
  moreover have "0 \<le> f_add (f_mul ?v 10) (1 / 2)" using x n by linarith
  ultimately have f: "f_trunc (f_add (f_mul ?v 10) (1 / 2)) = int (unat k)" by (simp only: f_trunc_def if_True)
  have "int (unat k) \<le> 65535" using n by linarith
  then show ?thesis using vb(1) unfolding gw_float_to_u16_x10_def Let_def f by simp
qed

section \<open>The frame of a report\<close>

lemma length_report_payload [simp]: "length (report_payload st q) = 14"
  by (simp add: report_payload_def)

lemma length_report_frame [simp]: "length (report_frame p) = length p + 6"
  by (simp add: report_frame_def Let_def)

lemma status_bits_abnormal:
  "report_status_bits st AND 0x02 \<noteq> 0 \<longleftrightarrow> alarm_on st \<noteq> 0"
  "report_status_bits st AND 0x04 = 0 \<longleftrightarrow> sensor_valid st = 0"
  by (auto simp: report_status_bits_def)

lemma report_frame_nth:
  "report_frame (report_payload st q) = [0xAA, 0x55, 15, 1, 1] @ le16 (gw_float_to_x10 (temperature st)) @
     le16 (gw_float_to_u16_x10 (humidity st)) @ le16 GW_VOLTAGE_MV_DEFAULT @ le16 (light st) @ [report_status_bits st] @ le32 q @
     le16 (gw_crc16_modbus (drop 2 (take 18 (report_frame (report_payload st q)))))"
  by (simp add: report_frame_def Let_def report_payload_def GW_DEVICE_ID_def GW_TYPE_SENSOR_DATA_def le16_def le32_def)

text \<open>A report is recognised by the replay and by the snapshot, with its number and its state.\<close>

lemma extract_report_seq [simp]: "gw_frame_extract_report_seq (report_frame (report_payload st q)) = Some q"
  unfolding gw_frame_extract_report_seq_def
  by (subst (1 2 3 4 5 6 7 8 9) report_frame_nth) (simp add: GW_TYPE_SENSOR_DATA_def le16_def le32_def)

lemma report_abnormal [simp]:
  "gw_sensor_frame_is_abnormal (report_frame (report_payload st q)) \<longleftrightarrow> alarm_on st \<noteq> 0 \<or> sensor_valid st = 0"
  unfolding gw_sensor_frame_is_abnormal_def
  by (subst (1 2 3 4 5 6) report_frame_nth)
     (simp add: GW_TYPE_SENSOR_DATA_def le16_def le32_def gw_sensor_payload_is_abnormal_def Let_def status_bits_abnormal)

lemma report_frame_eq: "report_frame (report_payload st q) = frame_bytes gw_crc16_modbus 0x01 (report_payload st q)"
  by (simp add: report_frame_def frame_bytes_def frame_body_def Let_def GW_TYPE_SENSOR_DATA_def)

section \<open>The table of pending reports\<close>

lemma first_slot_Some:
  "first_slot P k ps = Some j \<Longrightarrow> k \<le> j \<and> j < k + length ps \<and> P (ps ! (j - k))"
proof (induction P k ps rule: first_slot.induct)
  case (2 P i p ps)
  then show ?case by (cases "P p") (auto simp: nth_Cons')
qed simp

lemma first_slot_None: "first_slot P k ps = None \<longleftrightarrow> (\<forall>p \<in> set ps. \<not> P p)"
  by (induction P k ps rule: first_slot.induct) auto

lemma alloc_None: "gw_pending_alloc_slot ps = None \<longleftrightarrow> gw_pending_count ps = length ps"
proof -
  have "gw_pending_count ps = length ps \<longleftrightarrow> filter (\<lambda>p. pr_active p \<noteq> 0) ps = ps"
    by (metis filter_True filter_id_conv gw_pending_count_def length_filter_less less_irrefl)
  then show ?thesis by (auto simp: gw_pending_alloc_slot_def first_slot_None filter_id_conv)
qed

definition pending_ok :: "pending_report \<Rightarrow> bool" where
  "pending_ok p \<longleftrightarrow> (pr_active p \<noteq> 0 \<longrightarrow> 0 < length (pr_frame p) \<and> length (pr_frame p) \<le> 96)"

definition pending_inv :: "pending_report list \<Rightarrow> bool" where
  "pending_inv ps \<longleftrightarrow> length ps = 8 \<and> (\<forall>p \<in> set ps. pending_ok p)"

lemma pending_zero_ok [simp]: "pending_ok pending_zero" "pr_active pending_zero = 0"
  by (simp_all add: pending_ok_def pending_zero_def)

lemma pending_update: "pending_inv ps \<Longrightarrow> pending_ok p \<Longrightarrow> pending_inv (ps[i := p])"
  by (auto simp: pending_inv_def dest: set_update_subset_insert [THEN subsetD])

lemma clear_inv: "pending_inv ps \<Longrightarrow> pending_inv (gw_pending_clear i ps)"
  by (simp add: gw_pending_clear_def pending_update)

lemma enqueue_inv: "gw_pending_enqueue fr cs rs f t ps = (b, ps') \<Longrightarrow> pending_inv ps \<Longrightarrow> pending_inv ps'"
  by (auto simp: gw_pending_enqueue_def pending_ok_def intro!: pending_update split: option.splits if_splits)

lemma enqueue_spec:
  assumes "gw_pending_enqueue fr cs rs f t ps = (b, ps')"
  shows "b \<longleftrightarrow> gw_pending_count ps < length ps \<and> 0 < length f \<and> length f \<le> 96"
    and "\<not> b \<Longrightarrow> ps' = ps"
    and "b \<Longrightarrow> \<exists>i < length ps. pr_active (ps ! i) = 0 \<and> ps' = ps[i := \<lparr>pr_active = 1, pr_from_replay = fr, pr_report_seq = rs,
       pr_cache_seq = cs, pr_sent_ms = t, pr_frame = f\<rparr>]"
proof -
  have le: "gw_pending_count ps \<le> length ps" by (simp add: gw_pending_count_def)
  show "b \<longleftrightarrow> gw_pending_count ps < length ps \<and> 0 < length f \<and> length f \<le> 96"
    using assms alloc_None [of ps] le
    by (auto simp: gw_pending_enqueue_def split: option.splits if_splits)
  show "\<not> b \<Longrightarrow> ps' = ps" using assms by (auto simp: gw_pending_enqueue_def split: option.splits if_splits)
  show "b \<Longrightarrow> \<exists>i < length ps. pr_active (ps ! i) = 0 \<and> ps' = ps[i := \<lparr>pr_active = 1, pr_from_replay = fr,
      pr_report_seq = rs, pr_cache_seq = cs, pr_sent_ms = t, pr_frame = f\<rparr>]"
    using assms by (auto simp: gw_pending_enqueue_def gw_pending_alloc_slot_def split: option.splits if_splits
        dest!: first_slot_Some)
qed

text \<open>The scan for time-outs: a late slot is cleared, the others stay.\<close>

definition late :: "u32 \<Rightarrow> pending_report \<Rightarrow> bool" where
  "late now_ms p \<longleftrightarrow> pr_active p \<noteq> 0 \<and> now_ms - pr_sent_ms p > GW_REPORT_ACK_TIMEOUT_MS"

fun late_snapshots :: "u32 \<Rightarrow> u32 \<Rightarrow> pending_report list \<Rightarrow> storage_msg list \<Rightarrow> storage_msg list" where
  "late_snapshots now_ms backlog [] q = q"
| "late_snapshots now_ms backlog (p # ps) q =
     late_snapshots now_ms backlog ps
       (if late now_ms p \<and> pr_from_replay p = 0 then gw_try_cache_abnormal_snapshot (pr_frame p) backlog q else q)"

lemma scan_step:
  "gw_pending_scan_from now_ms backlog i (Suc n) ps q =
     gw_pending_scan_from now_ms backlog (i + 1) n (if late now_ms (ps ! i) then ps[i := pending_zero] else ps)
       (if late now_ms (ps ! i) \<and> pr_from_replay (ps ! i) = 0 then gw_try_cache_abnormal_snapshot (pr_frame (ps ! i)) backlog q
        else q)"
  by (simp add: late_def gw_pending_handle_timeout_def gw_pending_clear_def)

lemma scan_from_spec:
  "i + n = length ps \<Longrightarrow> gw_pending_scan_from now_ms backlog i n ps q =
     (take i ps @ map (\<lambda>p. if late now_ms p then pending_zero else p) (drop i ps), late_snapshots now_ms backlog (drop i ps) q)"
proof (induction n arbitrary: i ps q)
  case (Suc n)
  let ?ps = "if late now_ms (ps ! i) then ps[i := pending_zero] else ps"
  have i: "i < length ps" using Suc.prems by simp
  then have d: "drop i ps = ps ! i # drop (Suc i) ps" by (simp add: Cons_nth_drop_Suc)
  have t: "take (Suc i) ?ps = take i ps @ [if late now_ms (ps ! i) then pending_zero else ps ! i]"
    using i by (auto simp: take_Suc_conv_app_nth)
  have dr: "drop (Suc i) ?ps = drop (Suc i) ps" by simp
  have "i + 1 + n = length ?ps" using Suc.prems by simp
  from Suc.IH [OF this] show ?case unfolding scan_step d using t dr by simp
qed simp

lemma scan_timeout_spec:
  "length ps = 8 \<Longrightarrow> gw_pending_scan_timeout now_ms backlog ps q =
     (map (\<lambda>p. if late now_ms p then pending_zero else p) ps, late_snapshots now_ms backlog ps q)"
  using scan_from_spec [of 0 8 ps now_ms backlog q] by (simp add: gw_pending_scan_timeout_def GW_PENDING_QUEUE_SIZE_def)

section \<open>Where a report can end\<close>

lemma tx_bytes_wire: "tx_bytes bs l = (ok, l') \<Longrightarrow> \<exists>k \<le> length bs. tx_wire l' = tx_wire l @ take k bs \<and> (ok \<longrightarrow> k = length bs)"
proof (induction bs l arbitrary: ok l' rule: tx_bytes.induct)
  case (2 b bs l)
  obtain w l1 where w: "tx_wait USART_SR_TXE l = (w, l1)" by (cases "tx_wait USART_SR_TXE l")
  have l1: "tx_wire l1 = tx_wire l" using w by (auto simp: tx_wait_def)
  show ?case
  proof (cases w)
    case True
    then have "tx_bytes bs (l1\<lparr>tx_wire := tx_wire l1 @ [b]\<rparr>) = (ok, l')" using 2(2) w by simp
    from 2(1) [OF refl w [symmetric] _ this] True obtain k where "k \<le> length bs"
        "tx_wire l' = (tx_wire l @ [b]) @ take k bs" "ok \<longrightarrow> k = length bs"
      using l1 by auto
    then show ?thesis by (intro exI [of _ "Suc k"]) simp
  next
    case False
    then show ?thesis using 2(2) w l1 by (intro exI [of _ 0]) simp
  qed
qed simp

lemma send_bytes_wire:
  assumes "gw_uart_send_bytes data l = (ok, l')"
  shows "(\<exists>k. tx_wire l' = tx_wire l @ take k data) \<and> (ok \<longrightarrow> tx_wire l' = tx_wire l @ data)"
proof (cases "data = []")
  case False
  let ?l = "if tx_hex_dump_count l < GW_TX_HEX_DUMP_MAX_FRAMES then l\<lparr>tx_hex_dump_count := tx_hex_dump_count l + 1\<rparr> else l"
  obtain w l1 where w: "tx_bytes data ?l = (w, l1)" by (cases "tx_bytes data ?l")
  have "tx_wire ?l = tx_wire l" by simp
  with tx_bytes_wire [OF w] obtain k where k: "tx_wire l1 = tx_wire l @ take k data" "w \<longrightarrow> k = length data"
    by metis
  have "tx_wire l' = tx_wire l1" "ok \<longrightarrow> w"
    using assms False w by (auto simp: gw_uart_send_bytes_def tx_wait_def Let_def split: if_splits)
  then show ?thesis using k by auto
qed (use assms in \<open>auto simp: gw_uart_send_bytes_def\<close>)

lemma scan_inv: "pending_inv ps \<Longrightarrow> gw_pending_scan_timeout t bl ps q = (ps', q') \<Longrightarrow> pending_inv ps'"
  using scan_timeout_spec [of ps t bl q] by (auto simp: pending_inv_def)

lemma report_payload_frame: "length (report_frame (report_payload st q)) = 20"
  by simp


definition sample_line :: gw_line where
  "sample_line = \<lparr>tx_wire = [], tx_ops = 0, tx_start = (\<lambda>_. 0), tx_polls = (\<lambda>_. [(0xC0, 0)]), tx_hex_dump_count = 0\<rparr>"

definition sample_reports :: gw_reports where
  "sample_reports = \<lparr>g_report_seq = 0, g_pending_reports = replicate 8 pending_zero, g_replay_active = 0, g_replay_last_try_ms = 0,
     g_replay_last_backlog = 0, g_line = sample_line, g_store = sample_store, g_storage_queue = []\<rparr>"

lemma sample_pending_inv: "pending_inv (g_pending_reports sample_reports)"
  by (simp add: pending_inv_def sample_reports_def)


section \<open>The replay is stop-and-wait\<close>

definition replaying :: "pending_report \<Rightarrow> bool" where
  "replaying p \<longleftrightarrow> pr_active p \<noteq> 0 \<and> pr_from_replay p \<noteq> 0"

text \<open>At most one record of the cache is in flight, and it is the oldest.\<close>

definition in_flight :: "(u32 \<times> u8 list) list \<Rightarrow> pending_report list \<Rightarrow> bool" where
  "in_flight xs ps \<longleftrightarrow> length (filter replaying ps) \<le> 1 \<and>
     (\<forall>p \<in> set ps. replaying p \<longrightarrow> xs \<noteq> [] \<and> pr_cache_seq p = fst (hd xs))"

lemma not_replaying_zero [simp]: "\<not> replaying pending_zero"
  by (simp add: replaying_def)

lemma filter_update_le: "length (filter P (xs[i := x])) \<le> length (filter P xs) + (if P x then 1 else 0)"
proof (induction xs arbitrary: i)
  case (Cons y ys)
  then show ?case using Cons.IH [of "i - 1"] by (cases i) auto
qed simp

lemma in_flight_none: "\<forall>p \<in> set ps. \<not> replaying p \<Longrightarrow> in_flight xs ps"
  by (simp add: in_flight_def filter_False)

lemma in_flight_no_head:
  "in_flight xs ps \<Longrightarrow> gw_pending_find_replay_cache_seq (fst (hd xs)) ps = None \<Longrightarrow> \<forall>p \<in> set ps. \<not> replaying p"
  by (auto simp: in_flight_def gw_pending_find_replay_cache_seq_def first_slot_None replaying_def)

lemma in_flight_clear: "in_flight xs ps \<Longrightarrow> in_flight xs (gw_pending_clear i ps)"
  using filter_update_le [of replaying ps i pending_zero]
  by (auto simp: in_flight_def gw_pending_clear_def dest: set_update_subset_insert [THEN subsetD])

lemma in_flight_put: "in_flight xs ps \<Longrightarrow> \<not> replaying p \<Longrightarrow> in_flight xs (ps[i := p])"
  using filter_update_le [of replaying ps i p]
  by (auto simp: in_flight_def dest: set_update_subset_insert [THEN subsetD])

lemma in_flight_head:
  "\<forall>p \<in> set ps. \<not> replaying p \<Longrightarrow> xs \<noteq> [] \<Longrightarrow> pr_cache_seq p = fst (hd xs) \<Longrightarrow> in_flight xs (ps[i := p])"
  using filter_update_le [of replaying ps i p]
  by (auto simp: in_flight_def filter_False split: if_splits dest: set_update_subset_insert [THEN subsetD])

lemma in_flight_append: "in_flight xs ps \<Longrightarrow> in_flight (xs @ ys) ps"
  by (auto simp: in_flight_def)

lemma in_flight_cleared_head:
  assumes "in_flight xs ps" "i < length ps" "replaying (ps ! i)"
  shows "\<forall>p \<in> set (gw_pending_clear i ps). \<not> replaying p"
proof -
  have u: "filter replaying ps = filter replaying (take i ps) @ ps ! i # filter replaying (drop (Suc i) ps)"
    using assms(2,3) by (metis append_Cons filter.simps(2) filter_append id_take_nth_drop append_Nil)
  have "length (filter replaying ps) \<le> 1" using assms(1) by (simp add: in_flight_def)
  then have "filter replaying (take i ps) = []" "filter replaying (drop (Suc i) ps) = []" unfolding u by simp_all
  moreover have "gw_pending_clear i ps = take i ps @ pending_zero # drop (Suc i) ps"
    using assms(2) by (simp add: gw_pending_clear_def upd_conv_take_nth_drop)
  ultimately show ?thesis by (auto simp: filter_empty_conv)
qed

context report_queue
begin

lemma replay_loop_inv:
  "wf s \<Longrightarrow> pending_inv ps \<Longrightarrow> in_flight (items s) ps \<Longrightarrow> replay_loop peek ack now_ms n s ps l = (s', ps', l') \<Longrightarrow>
   wf s' \<and> pending_inv ps' \<and> in_flight (items s') ps' \<and>
   (\<exists>k. items s' = drop k (items s) \<and> (\<forall>x \<in> set (take k (items s)). gw_frame_extract_report_seq (snd x) = None))"
proof (induction n arbitrary: s ps l)
  case 0
  then show ?case by (auto intro!: exI [of _ 0])
next
  case (Suc n)
  obtain r s1 where p: "peek s = (r, s1)" by (cases "peek s")
  note P = peek [OF Suc.prems(1) p]
  have stop: "?case" if "s' = s1" "ps' = ps" using that P Suc.prems by (auto intro!: exI [of _ 0])
  show ?case
  proof (cases "gw_pending_count ps \<ge> GW_PENDING_QUEUE_SIZE \<or> r = None")
    case True
    show ?thesis
    proof (cases "gw_pending_count ps \<ge> GW_PENDING_QUEUE_SIZE")
      case True
      then have "s' = s" "ps' = ps" using Suc.prems(4) by simp_all
      then show ?thesis using Suc.prems(1,2,3) by (auto intro!: exI [of _ 0])
    next
      case False
      then have "s' = s1" "ps' = ps" using Suc.prems(4) p True by simp_all
      then show ?thesis by (rule stop)
    qed
  next
    case False
    then obtain seq payload where r: "r = Some (seq, payload)" by force
    then obtain xs where xs: "items s = (seq, payload) # xs" using P by (cases "items s") auto
    show ?thesis
    proof (cases "gw_pending_find_replay_cache_seq seq ps = None")
      case None: True
      have nr: "\<forall>p \<in> set ps. \<not> replaying p" by (rule in_flight_no_head [OF Suc.prems(3)]) (use xs None in simp)
      show ?thesis
      proof (cases "gw_frame_extract_report_seq payload")
        case bad: None
        obtain b s2 where a: "ack seq s1 = (b, s2)" by (cases "ack seq s1")
        have A: "items s2 = xs" "wf s2" using ack [OF _ a] P xs by auto
        have "replay_loop peek ack now_ms n s2 ps l = (s', ps', l')"
          using Suc.prems(4) False p r None bad a by simp
        from Suc.IH [OF A(2) Suc.prems(2) in_flight_none [OF nr] this] obtain k where
          k: "wf s'" "pending_inv ps'" "in_flight (items s') ps'" "items s' = drop k xs"
            "\<forall>x \<in> set (take k xs). gw_frame_extract_report_seq (snd x) = None"
          using A(1) by auto
        then show ?thesis using bad xs by (intro conjI exI [of _ "Suc k"]) auto
      next
        case (Some rs)
        obtain sent l1 where tx: "gw_uart_send_bytes payload l = (sent, l1)" by (cases "gw_uart_send_bytes payload l")
        obtain b ps1 where en: "gw_pending_enqueue 1 seq rs payload now_ms ps = (b, ps1)"
          by (cases "gw_pending_enqueue 1 seq rs payload now_ms ps")
        show ?thesis
        proof (cases "sent \<and> b")
          case True
          obtain i where i: "ps1 = ps[i := \<lparr>pr_active = 1, pr_from_replay = 1, pr_report_seq = rs, pr_cache_seq = seq,
              pr_sent_ms = now_ms, pr_frame = payload\<rparr>]"
            using enqueue_spec(3) [OF en] True by auto
          have "in_flight (items s1) ps1" unfolding i by (rule in_flight_head [OF nr]) (use P xs in simp_all)
          moreover have "replay_loop peek ack now_ms n s1 ps1 l1 = (s', ps', l')"
            using Suc.prems(4) False p r None Some tx en True by simp
          ultimately show ?thesis using Suc.IH [of s1 ps1 l1] enqueue_inv [OF en Suc.prems(2)] P by simp
        next
          case nb: False
          then have "s' = s1 \<and> ps' = ps"
            using Suc.prems(4) False p r None Some tx en enqueue_spec(2) [OF en] by (auto split: if_splits)
          then show ?thesis using stop by simp
        qed
      qed
    next
      case False
      then show ?thesis using Suc.prems(4) p r \<open>\<not> (gw_pending_count ps \<ge> GW_PENDING_QUEUE_SIZE \<or> r = None)\<close> stop by simp
    qed
  qed
qed

end

text \<open>The invariant of the reporting, and its steps: a report, a replay, an acknowledgement from the
  other side, and a record stored by the storage task where there is room.\<close>

definition reports_inv :: "gw_reports \<Rightarrow> bool" where
  "reports_inv g \<longleftrightarrow> cache_wf (g_store g) \<and> pending_inv (g_pending_reports g) \<and>
     in_flight (cache_items (g_store g)) (g_pending_reports g)"

inductive report_step :: "gw_reports \<Rightarrow> gw_reports \<Rightarrow> bool" where
  sent: "report_step g (gw_send_sensor_data state now_ms g)"
| replayed: "report_step g (gw_try_replay_cache now_ms g)"
| acked: "report_step g (gw_process_report_ack payload g)"
| stored: "cache_room p (g_store g) \<Longrightarrow> cache_put tick p (g_store g) = (b, s) \<Longrightarrow> report_step g (g\<lparr>g_store := s\<rparr>)"

lemma scan_in_flight:
  assumes "in_flight xs ps" "length ps = 8" "gw_pending_scan_timeout t bl ps q = (ps', q')"
  shows "in_flight xs ps'"
proof -
  have "ps' = map (\<lambda>p. if late t p then pending_zero else p) ps" using scan_timeout_spec [OF assms(2)] assms(3) by simp
  moreover have "length (filter replaying (map (\<lambda>p. if late t p then pending_zero else p) ps)) \<le> length (filter replaying ps)"
    by (induction ps) auto
  ultimately show ?thesis using assms(1) by (auto simp: in_flight_def)
qed

lemma send_reports_inv: "reports_inv g \<Longrightarrow> reports_inv (gw_send_sensor_data st t g)"
proof -
  assume I: "reports_inv g"
  obtain ps q where sc: "gw_pending_scan_timeout t (gw_backlog g) (g_pending_reports g) (g_storage_queue g) = (ps, q)"
    by (cases "gw_pending_scan_timeout t (gw_backlog g) (g_pending_reports g) (g_storage_queue g)")
  have ps: "pending_inv ps" "in_flight (cache_items (g_store g)) ps"
    using I scan_inv [OF _ sc] scan_in_flight [OF _ _ sc] by (auto simp: reports_inv_def pending_inv_def)
  let ?f = "report_frame (report_payload st (g_report_seq g + 1))"
  obtain sent l where tx: "gw_uart_send_bytes ?f (g_line g) = (sent, l)" by (cases "gw_uart_send_bytes ?f (g_line g)")
  obtain b ps1 where en: "gw_pending_enqueue 0 0 (g_report_seq g + 1) ?f t ps = (b, ps1)"
    by (cases "gw_pending_enqueue 0 0 (g_report_seq g + 1) ?f t ps")
  have "in_flight (cache_items (g_store g)) ps1"
  proof (cases b)
    case True
    then show ?thesis using enqueue_spec(3) [OF en] ps(2) by (auto simp: replaying_def intro: in_flight_put)
  qed (use enqueue_spec(2) [OF en] ps(2) in simp)
  then show ?thesis
    using I ps sc tx en enqueue_inv [OF en ps(1)]
    by (auto simp: reports_inv_def gw_send_sensor_data_def Let_def gw_backlog_def)
qed

lemma replay_reports_inv: "reports_inv g \<Longrightarrow> reports_inv (gw_try_replay_cache t g)"
proof -
  assume I: "reports_inv g"
  obtain s ps l where r: "replay_loop cache_peek cache_ack t GW_REPLAY_BATCH_MAX (g_store g) (g_pending_reports g) (g_line g) = (s, ps, l)"
    by (cases "replay_loop cache_peek cache_ack t GW_REPLAY_BATCH_MAX (g_store g) (g_pending_reports g) (g_line g)") auto
  have "cache_wf s \<and> pending_inv ps \<and> in_flight (cache_items s) ps"
    using unsent.replay_loop_inv [OF _ _ _ r] I by (simp add: reports_inv_def)
  then show ?thesis using I r by (auto simp: reports_inv_def gw_try_replay_cache_def Let_def)
qed

lemma find_by_seq_Some:
  "gw_pending_find_by_seq q ps = Some i \<Longrightarrow> i < length ps \<and> pr_active (ps ! i) \<noteq> 0 \<and> pr_report_seq (ps ! i) = q"
  by (auto simp: gw_pending_find_by_seq_def dest: first_slot_Some)

lemma ack_reports_inv: "reports_inv g \<Longrightarrow> reports_inv (gw_process_report_ack p g)"
proof -
  assume I: "reports_inv g"
  let ?q = "un32 (p ! 1) (p ! 2) (p ! 3) (p ! 4)" and ?ps = "g_pending_reports g"
  show ?thesis
  proof (cases "length p < 5 \<or> gw_pending_find_by_seq ?q ?ps = None")
    case True
    then show ?thesis using I by (auto simp: gw_process_report_ack_def Let_def)
  next
    case False
    then obtain i where i: "gw_pending_find_by_seq ?q ?ps = Some i" "\<not> length p < 5" by auto
    note f = find_by_seq_Some [OF i(1)]
    let ?slot = "?ps ! i"
    show ?thesis
    proof (cases "pr_from_replay ?slot = 0")
      case True
      then show ?thesis
        using I i by (simp add: gw_process_report_ack_def Let_def reports_inv_def clear_inv in_flight_clear)
    next
      case False
      then have rp: "replaying ?slot" using f by (simp add: replaying_def)
      obtain b s where a: "cache_ack (pr_cache_seq ?slot) (g_store g) = (b, s)"
        by (cases "cache_ack (pr_cache_seq ?slot) (g_store g)")
      have wf: "cache_wf s" using unsent.ack [OF _ a] I by (simp add: reports_inv_def)
      have "\<forall>x \<in> set (gw_pending_clear i ?ps). \<not> replaying x"
        by (rule in_flight_cleared_head) (use I f rp in \<open>auto simp: reports_inv_def\<close>)
      then have "in_flight (cache_items s) (gw_pending_clear i ?ps)" by (rule in_flight_none)
      then show ?thesis
        using I i False a wf by (simp add: gw_process_report_ack_def Let_def reports_inv_def clear_inv)
    qed
  qed
qed

lemma step_reports_inv: "report_step g g' \<Longrightarrow> reports_inv g \<Longrightarrow> reports_inv g'"
proof (induction rule: report_step.induct)
  case (stored p g tick b s)
  then show ?case
    using unsent.put [OF _ stored(1,2)] by (auto simp: reports_inv_def intro: in_flight_append)
qed (simp_all add: send_reports_inv replay_reports_inv ack_reports_inv)

text \<open>C12: the replay of the cache is stop-and-wait. Whatever reports are sent, acknowledged, replayed,
  timed out and stored, in any order, at most one record of the cache waits for its acknowledgement,
  it is the oldest record of the cache, and the table and the cache stay well formed.\<close>

theorem replay_stop_and_wait:
  assumes "report_step\<^sup>*\<^sup>* g g'" "reports_inv g"
  shows "length (filter replaying (g_pending_reports g')) \<le> 1 \<and>
    (\<forall>p \<in> set (g_pending_reports g'). replaying p \<longrightarrow>
       cache_items (g_store g') \<noteq> [] \<and> pr_cache_seq p = fst (hd (cache_items (g_store g')))) \<and>
    cache_wf (g_store g') \<and> pending_inv (g_pending_reports g')"
proof -
  have "reports_inv g'" using assms by (induction rule: rtranclp_induct) (auto intro: step_reports_inv)
  then show ?thesis unfolding reports_inv_def in_flight_def by blast
qed

lemma sample_reports_inv: "reports_inv sample_reports"
  using sample_store_wf sample_pending_inv by (simp add: reports_inv_def sample_reports_def in_flight_none)

theorem replay_stop_and_wait_witness:
  "length (filter replaying (g_pending_reports (gw_try_replay_cache 2000 (gw_send_sensor_data SmartHomeState_Init 5 sample_reports)))) \<le> 1"
proof -
  have "report_step\<^sup>*\<^sup>* sample_reports (gw_try_replay_cache 2000 (gw_send_sensor_data SmartHomeState_Init 5 sample_reports))"
    by (meson report_step.sent report_step.replayed rtranclp.rtrancl_into_rtrancl rtranclp.rtrancl_refl)
  from replay_stop_and_wait [OF this sample_reports_inv] show ?thesis by blast
qed

context report_queue
begin

lemma replay_waits:
  assumes "wf s" "items s = (seq, payload) # xs" "gw_pending_find_replay_cache_seq seq ps \<noteq> None"
  shows "\<exists>s'. replay_loop peek ack t n s ps l = (s', ps, l) \<and> items s' = items s \<and> wf s'"
proof (cases n)
  case (Suc m)
  obtain r s1 where p: "peek s = (r, s1)" by (cases "peek s")
  note P = peek [OF assms(1) p]
  then have "r = Some (seq, payload)" using assms(2) by simp
  then show ?thesis using Suc p P assms by auto
qed (use assms in simp)

lemma replay_sends:
  assumes "wf s" "items s = (seq, payload) # xs" "gw_frame_extract_report_seq payload = Some rs" "length payload \<le> 96"
    "\<forall>p \<in> set ps. \<not> replaying p" "gw_pending_count ps < 8" "length ps = 8" "gw_uart_send_bytes payload l = (True, l1)" "0 < n"
  shows "\<exists>s' i. i < 8 \<and> pr_active (ps ! i) = 0 \<and> items s' = items s \<and> wf s' \<and> replay_loop peek ack t n s ps l =
     (s', ps[i := \<lparr>pr_active = 1, pr_from_replay = 1, pr_report_seq = rs, pr_cache_seq = seq, pr_sent_ms = t, pr_frame = payload\<rparr>], l1)"
proof -
  obtain m where n: "n = Suc m" using assms(9) by (cases n) auto
  obtain r s1 where p: "peek s = (r, s1)" by (cases "peek s")
  have P: "r = Some (seq, payload)" "items s1 = items s" "wf s1" using peek [OF assms(1) p] assms(2) by simp_all
  have nf: "gw_pending_find_replay_cache_seq seq ps = None"
    using assms(5) by (auto simp: gw_pending_find_replay_cache_seq_def first_slot_None replaying_def)
  have "0 < length payload" using assms(3) by (auto simp: gw_frame_extract_report_seq_def split: if_splits)
  obtain b ps1 where en: "gw_pending_enqueue 1 seq rs payload t ps = (b, ps1)" by (cases "gw_pending_enqueue 1 seq rs payload t ps")
  have b: "b" using enqueue_spec(1) [OF en] assms(4,6,7) \<open>0 < length payload\<close> by simp
  obtain i where i: "i < 8" "pr_active (ps ! i) = 0" "ps1 = ps[i := \<lparr>pr_active = 1, pr_from_replay = 1, pr_report_seq = rs,
      pr_cache_seq = seq, pr_sent_ms = t, pr_frame = payload\<rparr>]"
    using enqueue_spec(3) [OF en b] assms(7) by auto
  have "gw_pending_find_replay_cache_seq seq ps1 \<noteq> None"
    using i(1,3) assms(7) unfolding gw_pending_find_replay_cache_seq_def first_slot_None
    by (auto intro!: bexI [OF _ set_update_memI])
  then obtain s' where s': "replay_loop peek ack t m s1 ps1 l1 = (s', ps1, l1)" "items s' = items s1" "wf s'"
    using replay_waits [OF P(3)] P(2) assms(2) by metis
  have "replay_loop peek ack t n s ps l = (s', ps1, l1)"
    using n p P(1) nf assms(3,6,8) en b s'(1) by (simp add: GW_PENDING_QUEUE_SIZE_def)
  then show ?thesis using i s' P by auto
qed

end

text \<open>C13: a kept report reaches the other side and leaves the cache. When the oldest record is a report
  frame, no record is in flight, a slot is free, no other pending report has its number and the line
  works, a replay puts exactly its frame on the wire; and when the acknowledgement of its number
  arrives, the record is removed from the cache and its slot is free again.\<close>

theorem replayed_report_delivered:
  assumes "reports_inv g" "cache_items (g_store g) = (seq, payload) # xs" "gw_frame_extract_report_seq payload = Some rs"
    "length payload \<le> 96" "\<forall>p \<in> set (g_pending_reports g). \<not> replaying p \<and> (pr_active p \<noteq> 0 \<longrightarrow> pr_report_seq p \<noteq> rs)"
    "gw_pending_count (g_pending_reports g) < 8" "now_ms - g_replay_last_try_ms g \<ge> 1000"
    "gw_uart_send_bytes payload (g_line g) = (True, l1)"
    "g1 = gw_try_replay_cache now_ms g" "g2 = gw_process_report_ack ([dev] @ le32 rs) g1"
  shows "tx_wire (g_line g1) = tx_wire (g_line g) @ payload \<and> cache_items (g_store g1) = (seq, payload) # xs \<and>
    cache_items (g_store g2) = xs \<and> gw_pending_count (g_pending_reports g2) < 8 \<and> (\<forall>p \<in> set (g_pending_reports g2). \<not> replaying p)"
proof -
  let ?ps = "g_pending_reports g"
  have I: "cache_wf (g_store g)" "pending_inv ?ps" "length ?ps = 8" using assms(1) by (auto simp: reports_inv_def pending_inv_def)
  have nr: "\<forall>p \<in> set ?ps. \<not> replaying p" using assms(5) by blast
  obtain s' i where r: "i < 8" "pr_active (?ps ! i) = 0" "cache_items s' = (seq, payload) # xs" "cache_wf s'"
      "replay_loop cache_peek cache_ack now_ms GW_REPLAY_BATCH_MAX (g_store g) ?ps (g_line g) =
        (s', ?ps[i := \<lparr>pr_active = 1, pr_from_replay = 1, pr_report_seq = rs, pr_cache_seq = seq, pr_sent_ms = now_ms, pr_frame = payload\<rparr>], l1)"
    using unsent.replay_sends [OF I(1) assms(2,3,4) nr assms(6) I(3) assms(8), of GW_REPLAY_BATCH_MAX now_ms] assms(2)
    by (auto simp: GW_REPLAY_BATCH_MAX_def)
  let ?slot = "\<lparr>pr_active = 1, pr_from_replay = 1, pr_report_seq = rs, pr_cache_seq = seq, pr_sent_ms = now_ms, pr_frame = payload\<rparr>"
  have bl: "gw_backlog g \<noteq> 0"
    using I(1) assms(2) by (auto simp: gw_backlog_def Storage_GetCacheBacklog_def dest: cache_empty)
  have g1: "g_store g1 = s'" "g_pending_reports g1 = ?ps[i := ?slot]" "g_line g1 = l1"
    using bl assms(7) r(5) unfolding assms(9) gw_try_replay_cache_def Let_def
    by (auto simp: GW_REPLAY_RETRY_INTERVAL_MS_def not_less)
  have fnd: "gw_pending_find_by_seq rs (g_pending_reports g1) = Some i"
  proof -
    have "gw_pending_find_by_seq rs (g_pending_reports g1) \<noteq> None"
      using r(1) I(3) unfolding gw_pending_find_by_seq_def first_slot_None g1(2)
      by (auto intro!: bexI [OF _ set_update_memI])
    then obtain j where j: "gw_pending_find_by_seq rs (g_pending_reports g1) = Some j" by auto
    have "j = i"
      using find_by_seq_Some [OF j] assms(5) I(3) unfolding g1(2) by (cases "j = i") auto
    then show ?thesis using j by simp
  qed
  have slot: "g_pending_reports g1 ! i = ?slot" using g1(2) r(1) I(3) by simp
  have un: "un32 (([dev] @ le32 rs) ! 1) (([dev] @ le32 rs) ! 2) (([dev] @ le32 rs) ! 3) (([dev] @ le32 rs) ! 4) = rs"
    by (simp add: le32_def)
  obtain b s2 where a: "cache_ack seq s' = (b, s2)" by (cases "cache_ack seq s'")
  have A: "cache_items s2 = xs" using unsent.ack [OF r(4) a] r(3) by simp
  have g2: "g_store g2 = s2" "g_pending_reports g2 = gw_pending_clear i (g_pending_reports g1)"
    using fnd slot a g1(1) unfolding assms(10) gw_process_report_ack_def Let_def un by simp_all
  have p2: "g_pending_reports g2 = ?ps[i := pending_zero]" unfolding g2(2) g1(2) by (simp add: gw_pending_clear_def)
  have "gw_pending_count (g_pending_reports g2) < 8"
    using filter_update_le [of "\<lambda>p. pr_active p \<noteq> 0" ?ps i pending_zero] assms(6) unfolding p2 by (simp add: gw_pending_count_def)
  moreover have "\<forall>p \<in> set (g_pending_reports g2). \<not> replaying p"
    using nr unfolding p2 by (auto dest: set_update_subset_insert [THEN subsetD])
  ultimately show ?thesis using send_bytes_wire [OF assms(8)] g1 g2 r(3) A by simp
qed

text \<open>A line whose register always shows both flags sends everything.\<close>

lemma ready_line_sends:
  assumes "\<forall>k. tx_polls l k = [(0xC0, 0)]" "data \<noteq> []"
  shows "fst (gw_uart_send_bytes data l)"
proof -
  have w: "tx_wait flag l' = (True, l'\<lparr>tx_ops := tx_ops l' + 1\<rparr>)"
    if "\<forall>k. tx_polls l' k = [(0xC0, 0)]" "flag = USART_SR_TXE \<or> flag = USART_SR_TC" for l' flag
    using that by (auto simp: tx_wait_def USART_SR_TXE_def USART_SR_TC_def)
  have b: "\<exists>l''. tx_bytes bs l' = (True, l'') \<and> (\<forall>k. tx_polls l'' k = [(0xC0, 0)])"
    if "\<forall>k. tx_polls l' k = [(0xC0, 0)]" for bs l'
    using that by (induction bs arbitrary: l') (auto simp: w)
  let ?l = "if tx_hex_dump_count l < GW_TX_HEX_DUMP_MAX_FRAMES then l\<lparr>tx_hex_dump_count := tx_hex_dump_count l + 1\<rparr> else l"
  have "\<forall>k. tx_polls ?l k = [(0xC0, 0)]" using assms(1) by simp
  from b [OF this] obtain l'' where "tx_bytes data ?l = (True, l'')" "\<forall>k. tx_polls l'' k = [(0xC0, 0)]" by blast
  then show ?thesis using w [of l'' USART_SR_TC] assms(2) unfolding gw_uart_send_bytes_def Let_def by simp
qed

definition sample_cached :: gw_reports where
  "sample_cached = sample_reports\<lparr>g_store := snd (cache_put 5 (report_frame (report_payload SmartHomeState_Init 7)) sample_store)\<rparr>"

lemma sample_cached_facts:
  "reports_inv sample_cached" "cache_items (g_store sample_cached) = [(1, report_frame (report_payload SmartHomeState_Init 7))]"
proof -
  let ?p = "report_frame (report_payload SmartHomeState_Init 7)"
  obtain b s where p: "cache_put 5 ?p sample_store = (b, s)" by (cases "cache_put 5 ?p sample_store")
  have "cache_items sample_store = []" "cache_next_seq sample_store = 1" "cache_room ?p sample_store"
    by (simp_all add: cache_items_def cache_recs_def cache_next_seq_def cache_room_def sample_store_def storage_ctx_zero_def
        storage_align4_def region_ends storage_consts sample_w25q_def blank_def)
  then have s: "cache_items s = [(1, ?p)]" "cache_wf s" using cache_put_effect [OF sample_store_wf _ p] by simp_all
  show "cache_items (g_store sample_cached) = [(1, ?p)]" using p s by (simp add: sample_cached_def)
  show "reports_inv sample_cached"
    using p s sample_pending_inv by (simp add: reports_inv_def sample_cached_def) (simp add: sample_reports_def in_flight_none)
qed

theorem replayed_report_delivered_witness:
  "cache_items (g_store (gw_process_report_ack ([1] @ le32 7) (gw_try_replay_cache 2000 sample_cached))) = []"
proof -
  let ?p = "report_frame (report_payload SmartHomeState_Init 7)"
  have "?p \<noteq> []" by (simp add: report_frame_def Let_def)
  then have "fst (gw_uart_send_bytes ?p (g_line sample_cached))"
    by (intro ready_line_sends) (simp_all add: sample_cached_def sample_reports_def sample_line_def)
  then obtain l1 where l1: "gw_uart_send_bytes ?p (g_line sample_cached) = (True, l1)" by (metis prod.collapse)
  have ps: "g_pending_reports sample_cached = replicate 8 pending_zero" by (simp add: sample_cached_def sample_reports_def)
  have "\<forall>p \<in> set (g_pending_reports sample_cached). \<not> replaying p \<and> (pr_active p \<noteq> 0 \<longrightarrow> pr_report_seq p \<noteq> 7)"
    "gw_pending_count (g_pending_reports sample_cached) < 8"
    unfolding ps by (simp_all add: gw_pending_count_def)
  moreover have "(2000 :: u32) - g_replay_last_try_ms sample_cached \<ge> 1000" by (simp add: sample_cached_def sample_reports_def)
  ultimately show ?thesis
    using replayed_report_delivered [OF sample_cached_facts extract_report_seq _ _ _ _ l1 refl refl, of 2000 1] by simp
qed

end
