(* ===== verification/Boot_Frame.thy ===== *)
theory Boot_Frame
  imports Frame
begin

text \<open>
  The frames of the bootloader (\<open>bl_send_frame\<close>, \<open>bl_read_frame\<close>, \<open>bl_send_ack\<close>,
  \<open>bl_send_nack\<close> in \<open>bootloader/bootloader_ota.c\<close>). The receiver reads one byte after the other
  with a timeout; it is modelled over the list of what its successive calls of
  \<open>bl_uart_read_byte\<close> return, a byte or a timeout.
\<close>

section \<open>The sender\<close>

text \<open>The 64-byte frame buffer of the sender is on its stack: a frame that does not fit although it
  passed the length check is an \<open>Overflow\<close>.\<close>

datatype send_result = Rejected | Overflow | Sent "u8 list"

definition bl_send_frame :: "u8 \<Rightarrow> u8 list \<Rightarrow> send_result" where
  "bl_send_frame type payload =
     (let wire_len = of_nat (length payload) + 1 :: u8
      in if wire_len > 64 - 5 then Rejected
         else
           let frame = [0xAA, 0x55, wire_len, type] @ payload;
               crc = bl_crc16_modbus (take (unat wire_len + 1) (drop 2 frame));
               frame1 = frame @ [ucast (crc AND 0xFF), ucast (drop_bit 8 crc AND 0xFF)]
           in if length frame1 > 64 then Overflow else Sent frame1)"

definition bl_push_u16 :: "u16 \<Rightarrow> u8 list" where
  "bl_push_u16 v = [ucast (v AND 0xFF), ucast (drop_bit 8 v AND 0xFF)]"

definition bl_push_u32 :: "u32 \<Rightarrow> u8 list" where
  "bl_push_u32 v = [ucast (v AND 0xFF), ucast (drop_bit 8 v AND 0xFF),
                    ucast (drop_bit 16 v AND 0xFF), ucast (drop_bit 24 v AND 0xFF)]"

definition bl_read_u16 :: "u8 list \<Rightarrow> nat \<Rightarrow> u16" where
  "bl_read_u16 p i = ucast (p ! i) OR push_bit 8 (ucast (p ! (i + 1)))"

definition bl_read_u32 :: "u8 list \<Rightarrow> nat \<Rightarrow> u32" where
  "bl_read_u32 p i = ucast (p ! i) OR push_bit 8 (ucast (p ! (i + 1))) OR
     push_bit 16 (ucast (p ! (i + 2))) OR push_bit 24 (ucast (p ! (i + 3)))"

definition BL_UP_OTA_ACK :: u8 where "BL_UP_OTA_ACK = 0x22"
definition BL_UP_OTA_NACK :: u8 where "BL_UP_OTA_NACK = 0x23"

definition bl_send_ack :: "u16 \<Rightarrow> send_result" where
  "bl_send_ack seq = bl_send_frame BL_UP_OTA_ACK (bl_push_u16 seq)"

definition bl_send_nack :: "u16 \<Rightarrow> u16 \<Rightarrow> send_result" where
  "bl_send_nack seq err = bl_send_frame BL_UP_OTA_NACK (bl_push_u16 seq @ bl_push_u16 err)"

section \<open>The receiver\<close>

text \<open>
  A reader takes what the coming calls of \<open>bl_uart_read_byte\<close> return. Its answer is \<open>None\<close> while it
  still waits at the end of that list; otherwise the C function's success value or failure, and the
  calls that are left.
\<close>

type_synonym 'a reader = "u8 option list \<Rightarrow> ('a option \<times> u8 option list) option"

definition rd_ret :: "'a \<Rightarrow> 'a reader" where
  "rd_ret x s = Some (Some x, s)"

definition rd_fail :: "'a reader" where
  "rd_fail s = Some (None, s)"

definition rd_bind :: "'a reader \<Rightarrow> ('a \<Rightarrow> 'b reader) \<Rightarrow> 'b reader" where
  "rd_bind m f s =
     (case m s of
        None \<Rightarrow> None
      | Some (None, r) \<Rightarrow> Some (None, r)
      | Some (Some x, r) \<Rightarrow> f x r)"

fun rd_byte :: "u8 reader" where
  "rd_byte [] = None"
| "rd_byte (out # rest) = Some (out, rest)"

fun rd_bytes :: "nat \<Rightarrow> u8 list reader" where
  "rd_bytes 0 = rd_ret []"
| "rd_bytes (Suc n) = rd_bind rd_byte (\<lambda>b. rd_bind (rd_bytes n) (\<lambda>bs. rd_ret (b # bs)))"

text \<open>The search for the sync bytes: a byte that follows an \<open>AA\<close> and is not \<open>55\<close> is dropped, even
  when it is another \<open>AA\<close>.\<close>

fun bl_hunt :: "unit reader" where
  "bl_hunt [] = None"
| "bl_hunt (None # s) = Some (None, s)"
| "bl_hunt (Some b # s) =
     (if b = 0xAA
      then case s of
             [] \<Rightarrow> None
           | None # s' \<Rightarrow> Some (None, s')
           | Some b' # s' \<Rightarrow> if b' = 0x55 then Some (Some (), s') else bl_hunt s'
      else bl_hunt s)"

definition bl_read_frame :: "(u8 \<times> u8 list) reader" where
  "bl_read_frame =
     rd_bind bl_hunt (\<lambda>_.
     rd_bind rd_byte (\<lambda>wire_len.
     if wire_len < 1 \<or> unat wire_len > 255 then rd_fail
     else rd_bind rd_byte (\<lambda>type.
          rd_bind (rd_bytes (unat (wire_len - 1))) (\<lambda>payload.
          rd_bind rd_byte (\<lambda>c0.
          rd_bind rd_byte (\<lambda>c1.
            let wire_crc = ucast c0 OR push_bit 8 (ucast c1);
                crc_buf = wire_len # type # payload;
                calc_crc = bl_crc16_modbus (take (unat wire_len + 1) crc_buf)
            in if wire_crc = calc_crc then rd_ret (type, payload) else rd_fail))))))"

section \<open>Facts on the pieces\<close>

lemma ucast_and_FF [simp]:
  "(ucast (x AND 0xFF :: u16) :: u8) = ucast x" "(ucast (y AND 0xFF :: u32) :: u8) = ucast y"
proof -
  have m: "(0xFF :: u16) = mask 8" "(0xFF :: u32) = mask 8" by (simp_all add: mask_eq_exp_minus_1)
  show "(ucast (x AND 0xFF :: u16) :: u8) = ucast x" "(ucast (y AND 0xFF :: u32) :: u8) = ucast y"
    unfolding m by (rule bit_word_eqI; simp add: bit_simps)+
qed

lemma bl_push_le [simp]: "bl_push_u16 v = le16 v" "bl_push_u32 w = le32 w"
  by (simp_all add: bl_push_u16_def bl_push_u32_def le16_def le32_def)

lemma bl_read_rd [simp]: "bl_read_u16 p i = rd16 p i" "bl_read_u32 p i = rd32 p i"
  by (simp_all add: bl_read_u16_def bl_read_u32_def rd16_def rd32_def un16_def un32_def)

lemma bl_send_frame_fits:
  assumes "length p \<le> 58"
  shows "bl_send_frame t p = Sent (frame_bytes bl_crc16_modbus t p)"
proof -
  have l: "unat (of_nat (length p) + 1 :: u8) = length p + 1" using assms by simp
  then have "\<not> (of_nat (length p) + 1 :: u8) > 64 - 5"
    using assms by (simp add: word_less_nat_alt)
  then show ?thesis
    using assms l by (simp add: bl_send_frame_def frame_bytes_def frame_body_def le16_def Let_def)
qed

lemma bl_send_frame_rejects:
  assumes "58 < length p" "length p < 255"
  shows "bl_send_frame t p = Rejected"
proof -
  have "unat (of_nat (length p) + 1 :: u8) = length p + 1" using assms by simp
  then have "(of_nat (length p) + 1 :: u8) > 64 - 5"
    using assms by (simp add: word_less_nat_alt)
  then show ?thesis by (simp add: bl_send_frame_def Let_def)
qed

text \<open>A payload length of 255 wraps to a wire length of zero and passes the length check.\<close>

lemma bl_send_frame_overflows: "length p = 255 \<Longrightarrow> bl_send_frame t p = Overflow"
  by (simp add: bl_send_frame_def Let_def)

lemma rd_bind_eq_Some:
  "rd_bind m f s = Some (Some y, r) \<longleftrightarrow> (\<exists>x r'. m s = Some (Some x, r') \<and> f x r' = Some (Some y, r))"
  by (auto simp: rd_bind_def split: option.splits prod.splits)

lemma rd_bind_step: "m s = Some (Some x, r) \<Longrightarrow> rd_bind m f s = f x r"
  by (simp add: rd_bind_def)

lemma rd_byte_eq_Some: "rd_byte s = Some (Some b, r) \<longleftrightarrow> s = Some b # r"
  by (cases s) auto

lemma rd_bytes_eq_Some:
  "rd_bytes n s = Some (Some bs, r) \<longleftrightarrow> length bs = n \<and> s = map Some bs @ r"
  by (induction n arbitrary: s bs)
     (auto simp: rd_ret_def rd_bind_eq_Some rd_byte_eq_Some length_Suc_conv)

lemma rd_bytes_map: "rd_bytes (length bs) (map Some bs @ r) = Some (Some bs, r)"
  by (simp add: rd_bytes_eq_Some)

lemma bl_hunt_sync: "0xAA \<notin> set noise \<Longrightarrow> bl_hunt (map Some (noise @ [0xAA, 0x55]) @ r) = Some (Some (), r)"
  by (induction noise) auto

lemma bl_hunt_eq_Some:
  "bl_hunt s = Some (Some u, r) \<Longrightarrow> \<exists>noise. s = map Some (noise @ [0xAA, 0x55]) @ r"
proof (induction s rule: bl_hunt.induct)
  case (3 b s)
  show ?case
  proof (cases "b = 0xAA \<and> (\<exists>s'. s = Some 0x55 # s')")
    case True
    then show ?thesis using 3 by (auto intro: exI [of _ "[]"])
  next
    case False
    then consider s' b' where "b = 0xAA" "s = Some b' # s'" "b' \<noteq> 0x55" "bl_hunt s' = Some (Some u, r)"
      | "b \<noteq> 0xAA" "bl_hunt s = Some (Some u, r)"
      using 3 by (auto split: if_splits list.splits option.splits)
    then show ?thesis
    proof cases
      case 1
      then obtain noise where "s' = map Some (noise @ [0xAA, 0x55]) @ r" using 3 by auto
      then show ?thesis using 1 by (auto intro: exI [of _ "b # b' # noise"])
    next
      case 2
      then obtain noise where "s = map Some (noise @ [0xAA, 0x55]) @ r" using 3 by auto
      then show ?thesis by (auto intro: exI [of _ "b # noise"])
    qed
  qed
qed auto

section \<open>What the receiver accepts\<close>

text \<open>The receiver behind the sync bytes, on a complete frame with any checksum field.\<close>

lemma bl_read_frame_after_sync:
  assumes "bl_hunt s = Some (Some u, map Some (frame_body t p @ [c0, c1]) @ r)" "length p < 255"
  shows "bl_read_frame s =
    (if un16 c0 c1 = bl_crc16_modbus (frame_body t p) then Some (Some (t, p), r) else Some (None, r))"
proof -
  let ?w = "of_nat (length p) + 1 :: u8"
  have w: "unat ?w = length p + 1" "unat (?w - 1) = length p" using assms(2) by auto
  have nz: "\<not> ?w < 1"
    using w(1) by (metis add_is_0 unat_0 word_less_1 zero_neq_one)
  have "bl_read_frame s = rd_bind (rd_bytes (length p)) (\<lambda>payload.
          rd_bind rd_byte (\<lambda>c0. rd_bind rd_byte (\<lambda>c1.
            if un16 c0 c1 = bl_crc16_modbus (take (length p + 2) (?w # t # payload))
            then rd_ret (t, payload) else rd_fail)))
       (map Some p @ Some c0 # Some c1 # r)"
    using assms w nz
    by (simp add: bl_read_frame_def rd_bind_step frame_body_def Let_def un16_def)
  then show ?thesis
    by (simp add: rd_bind_step [where m = "rd_bytes (length p)", OF rd_bytes_map] rd_bind_step
        frame_body_def rd_ret_def rd_fail_def)
qed



lemma bl_read_frame_sample:
  "bl_read_frame [Some 0xFF, Some 0xAA, Some 0x55, Some 0x01, Some 0x37, Some 0x41, Some 0xF6] =
   Some (Some (0x37, []), [])"
  by (simp add: bl_read_frame_def rd_bind_def rd_ret_def rd_fail_def crc_eval)

text \<open>C30: the receiver accepts nothing else. When it returns a frame, the bytes it consumed are some
  noise followed by exactly the frame of that type and payload, with its correct checksum.\<close>

theorem bl_read_frame_sound:
  assumes "bl_read_frame s = Some (Some (t, p), r)"
  shows "\<exists>noise. s = map Some (noise @ frame_bytes bl_crc16_modbus t p) @ r \<and> length p < 255"
proof -
  obtain w c0 c1 s1 where s1: "bl_hunt s = Some (Some (), s1)"
      "s1 = map Some (w # t # p @ [c0, c1]) @ r" "length p = unat (w - 1)" "\<not> w < 1"
      "un16 c0 c1 = bl_crc16_modbus (take (unat w + 1) (w # t # p))"
    using assms
    by (auto simp: bl_read_frame_def rd_bind_eq_Some rd_byte_eq_Some rd_bytes_eq_Some rd_ret_def
        rd_fail_def Let_def un16_def split: if_splits)
  obtain noise where noise: "s = map Some (noise @ [0xAA, 0x55]) @ s1"
    using bl_hunt_eq_Some [OF s1(1)] by blast
  have "w \<noteq> 0" using s1(4) by (simp add: word_less_1)
  then have u: "unat w = length p + 1" using s1(3) unat_minus_one [of w] by (simp add: unat_gt_0)
  then have w: "w = of_nat (length p) + 1" by (metis of_nat_1 of_nat_add of_nat_unat ucast_id)
  have lt: "length p < 255" using u unat_bound(1) [of w] by simp
  have "un16 c0 c1 = bl_crc16_modbus (frame_body t p)"
    using s1(5) u by (simp add: frame_body_def w)
  then have "le16 (bl_crc16_modbus (frame_body t p)) = [c0, c1]"
    by (metis le16_def le16_un16)
  then have "s = map Some (noise @ frame_bytes bl_crc16_modbus t p) @ r"
    using noise s1(2) by (simp add: frame_bytes_def frame_body_def w)
  then show ?thesis using lt by blast
qed

theorem bl_read_frame_sound_witness:
  "\<exists>noise. [Some 0xFF, Some 0xAA, Some 0x55, Some 0x01, Some 0x37, Some 0x41, Some 0xF6] =
     map Some (noise @ frame_bytes bl_crc16_modbus 0x37 []) @ []"
  using bl_read_frame_sound [OF bl_read_frame_sample] by blast

text \<open>A frame damaged in two neighbouring bytes of its body (or in one of them) is refused: the
  receiver consumes exactly the damaged frame and reports failure.\<close>

theorem bl_read_frame_damaged:
  assumes "length p < 255" and "t # p = xs @ d # e # ys" and "(d, e) \<noteq> (d', e')"
    and "t' # p' = xs @ d' # e' # ys"
    and "frame_bytes bl_crc16_modbus t p = 0xAA # 0x55 # frame_body t p @ field"
  shows "bl_read_frame (map Some (0xAA # 0x55 # frame_body t' p' @ field) @ rest) = Some (None, rest)"
proof -
  have "length p = length p'"
    using arg_cong [OF assms(2), of length] arg_cong [OF assms(4), of length] by simp
  then have fb: "frame_body t p = ((of_nat (length p) + 1) # xs) @ d # e # ys"
      "frame_body t' p' = ((of_nat (length p) + 1) # xs) @ d' # e' # ys" "length p' < 255"
    using assms by (simp_all add: frame_body_def)
  have ne: "bl_crc16_modbus (frame_body t' p') \<noteq> bl_crc16_modbus (frame_body t p)"
    using bl_wire.damage_detected [OF fb(1) assms(3)] fb(2) by simp
  obtain c0 c1 where c: "field = [c0, c1]" "un16 c0 c1 = bl_crc16_modbus (frame_body t p)"
    using assms(5) by (auto simp: frame_bytes_def le16_def)
  have "bl_hunt (map Some (0xAA # 0x55 # frame_body t' p' @ field) @ rest) =
      Some (Some (), map Some (frame_body t' p' @ [c0, c1]) @ rest)"
    using c(1) by simp
  from bl_read_frame_after_sync [OF this fb(3)] show ?thesis using ne c by simp
qed

theorem bl_read_frame_damaged_witness:
  "bl_read_frame (map Some [0xAA, 0x55, 0x02, 0x36, 0x05, 0xC6, 0x93]) = Some (None, [])"
  using bl_read_frame_damaged [of "[0x04]" "0x35" "[]" "0x35" "0x04" "[]" "0x36" "0x05" "0x36" "[0x05]"
      "[0xC6, 0x93]" "[]"]
  by (simp add: frame_bytes_def frame_body_def le16_def crc_eval)

section \<open>Returning, and what the resynchronisation loses\<close>

text \<open>A reader settles when one timeout among the coming reads is enough for it to answer, unless it
  succeeds before and leaves the timeout to its successor.\<close>

definition settles :: "'a reader \<Rightarrow> bool" where
  "settles m \<longleftrightarrow> (\<forall>s. None \<in> set s \<longrightarrow> (\<exists>out r. m s = Some (out, r) \<and> (out = None \<or> None \<in> set r)))"

lemma settlesD:
  "settles m \<Longrightarrow> None \<in> set s \<Longrightarrow> \<exists>out r. m s = Some (out, r) \<and> (out = None \<or> None \<in> set r)"
  by (auto simp: settles_def)

lemma settles_bind: "settles m \<Longrightarrow> (\<And>x. settles (f x)) \<Longrightarrow> settles (rd_bind m f)"
  unfolding settles_def rd_bind_def by (fastforce split: option.splits prod.splits)

lemma settles_ret: "settles (rd_ret x)" and settles_fail: "settles rd_fail"
  by (auto simp: settles_def rd_ret_def rd_fail_def)

lemma settles_byte: "settles rd_byte"
  unfolding settles_def
proof (intro allI impI)
  fix s :: "u8 option list" assume "None \<in> set s"
  then show "\<exists>out r. rd_byte s = Some (out, r) \<and> (out = None \<or> None \<in> set r)" by (cases s) auto
qed

lemma settles_bytes: "settles (rd_bytes n)"
  by (induction n) (simp_all add: settles_ret settles_bind settles_byte)

lemma settles_hunt: "settles bl_hunt"
proof -
  have "None \<in> set s \<Longrightarrow> \<exists>out r. bl_hunt s = Some (out, r) \<and> (out = None \<or> None \<in> set r)" for s
    by (induction s rule: bl_hunt.induct) (auto split: list.splits option.splits)
  then show ?thesis by (simp add: settles_def)
qed

text \<open>The frame receiver never hangs: if any of its byte reads times out, it has returned by then,
  with a frame or with a failure.\<close>

theorem bl_read_frame_returns:
  assumes "None \<in> set s"
  shows "\<exists>out r. bl_read_frame s = Some (out, r)"
proof -
  have "settles bl_read_frame"
    unfolding bl_read_frame_def
    by (auto simp: Let_def intro!: settles_bind settles_hunt settles_byte settles_bytes settles_ret settles_fail)
  then show ?thesis using assms settlesD by blast
qed

theorem bl_read_frame_returns_witness:
  "\<exists>out r. bl_read_frame [Some 0xAA, Some 0xAA, Some 0x55, None] = Some (out, r)"
  by (rule bl_read_frame_returns) simp

text \<open>The resynchronisation after an \<open>AA\<close> byte drops the byte it reads next, so a valid frame that
  directly follows a stray \<open>AA\<close> is lost, and the receiver waits until the next timeout.\<close>

lemma bl_read_frame_loses_after_stray_AA:
  assumes "0xAA \<notin> set (drop 1 (frame_bytes bl_crc16_modbus t p))"
  shows "bl_read_frame (map Some (0xAA # frame_bytes bl_crc16_modbus t p) @ None # rest) = Some (None, rest)"
proof -
  let ?f = "0x55 # frame_body t p @ le16 (bl_crc16_modbus (frame_body t p))"
  have skip: "0xAA \<notin> set xs \<Longrightarrow> bl_hunt (map Some xs @ None # rest) = Some (None, rest)" for xs
    by (induction xs) auto
  have "bl_hunt (map Some (0xAA # frame_bytes bl_crc16_modbus t p) @ None # rest) =
      bl_hunt (map Some ?f @ None # rest)"
    by (simp add: frame_bytes_def)
  also have "\<dots> = Some (None, rest)"
    by (rule skip) (use assms in \<open>simp add: frame_bytes_def\<close>)
  finally show ?thesis by (simp add: bl_read_frame_def rd_bind_def)
qed

lemma bl_read_frame_loses_after_stray_AA_witness:
  "bl_read_frame (map Some [0xAA, 0xAA, 0x55, 0x01, 0x37, 0x41, 0xF6] @ [None]) = Some (None, [])"
proof -
  have "frame_bytes bl_crc16_modbus 0x37 [] = [0xAA, 0x55, 0x01, 0x37, 0x41, 0xF6]"
    by (simp add: frame_bytes_def frame_body_def le16_def crc_eval)
  then show ?thesis using bl_read_frame_loses_after_stray_AA [of "0x37" "[]" "[]"] by simp
qed

end
