(* ===== verification/Boot_Flash.thy ===== *)
theory Boot_Flash
  imports Flash
begin

text \<open>
  The bootloader's image writer (\<open>bootloader/bootloader_flash.c\<close>): erasing one of the two slots, and
  writing a block with byte programming up to the next word boundary, word programming, byte
  programming of the rest, and a comparison of what the flash then holds.
\<close>

definition BL_APP_A_BASE :: u32 where "BL_APP_A_BASE = 0x08020000"
definition BL_APP_B_BASE :: u32 where "BL_APP_B_BASE = 0x08080000"
definition BL_APP_A_SIZE :: u32 where "BL_APP_A_SIZE = 0x60000"
definition BL_APP_B_SIZE :: u32 where "BL_APP_B_SIZE = 0x60000"

lemmas bl_layout = BL_APP_A_BASE_def BL_APP_B_BASE_def BL_APP_A_SIZE_def BL_APP_B_SIZE_def

definition bl_flash_pack_word :: "u8 list \<Rightarrow> u32" where
  "bl_flash_pack_word data =
     ucast (data ! 0) OR push_bit 8 (ucast (data ! 1)) OR push_bit 16 (ucast (data ! 2)) OR
     push_bit 24 (ucast (data ! 3))"

definition bl_flash_is_slot_base :: "u32 \<Rightarrow> bool" where
  "bl_flash_is_slot_base base \<longleftrightarrow> base = BL_APP_A_BASE \<or> base = BL_APP_B_BASE"

definition bl_flash_erase_slot :: "u32 \<Rightarrow> flash \<Rightarrow> bool \<times> flash" where
  "bl_flash_erase_slot slot_base f =
     (if \<not> bl_flash_is_slot_base slot_base then (False, f)
      else let sector = (if slot_base = BL_APP_A_BASE then 5 else 8);
               (st, f1) = HAL_FLASHEx_Erase sector 3 (HAL_FLASH_Unlock f)
           in if st \<noteq> HAL_OK then (False, HAL_FLASH_Lock f1) else (True, HAL_FLASH_Lock f1))"

text \<open>The first two loops of \<open>bl_flash_write\<close>; the last one is \<open>program_loop\<close>. Each returns whether it went through, and where it left the
  address, the remaining data and the flash.\<close>

fun bl_write_head :: "u32 \<Rightarrow> u8 list \<Rightarrow> flash \<Rightarrow> bool \<times> u32 \<times> u8 list \<times> flash" where
  "bl_write_head a [] f = (True, a, [], f)"
| "bl_write_head a (b # bs) f =
     (if a AND 3 \<noteq> 0
      then let (st, f1) = HAL_FLASH_Program FLASH_TYPEPROGRAM_BYTE a (ucast b) f
           in if st \<noteq> HAL_OK then (False, a, b # bs, f1) else bl_write_head (a + 1) bs f1
      else (True, a, b # bs, f))"

fun bl_write_words :: "u32 \<Rightarrow> u8 list \<Rightarrow> flash \<Rightarrow> bool \<times> u32 \<times> u8 list \<times> flash" where
  "bl_write_words a (b0 # b1 # b2 # b3 # bs) f =
     (let w = bl_flash_pack_word (b0 # b1 # b2 # b3 # bs);
          (st, f1) = HAL_FLASH_Program FLASH_TYPEPROGRAM_WORD a w f
      in if st \<noteq> HAL_OK then (False, a, b0 # b1 # b2 # b3 # bs, f1) else bl_write_words (a + 4) bs f1)"
| "bl_write_words a bs f = (True, a, bs, f)"

definition bl_flash_write :: "u32 \<Rightarrow> u8 list \<Rightarrow> flash \<Rightarrow> bool \<times> flash" where
  "bl_flash_write address data f =
     (if data = [] then (False, f)
      else let (ok1, a1, r1, f1) = bl_write_head address data (HAL_FLASH_Unlock f)
      in if \<not> ok1 then (False, HAL_FLASH_Lock f1)
      else let (ok2, a2, r2, f2) = bl_write_words a1 r1 f1
      in if \<not> ok2 then (False, HAL_FLASH_Lock f2)
      else let (ok3, f3) = program_loop a2 r2 f2
      in if \<not> ok3 then (False, HAL_FLASH_Lock f3)
      else let f4 = HAL_FLASH_Lock f3
           in (compare_loop (fl_mem f4) address data, f4))"

section \<open>Erasing a slot\<close>

lemma slot_sectors:
  "sectors_range [5 ..< 8] x \<longleftrightarrow> in_range BL_APP_A_BASE (unat BL_APP_A_SIZE) x"
  "sectors_range [8 ..< 11] x \<longleftrightarrow> in_range BL_APP_B_BASE (unat BL_APP_B_SIZE) x"
proof -
  have three: "in_range a 0x60000 x \<longleftrightarrow>
      in_range a 0x20000 x \<or> in_range (a + 0x20000) 0x20000 x \<or> in_range (a + 0x40000) 0x20000 x" for a
    using in_range_add [of "0x20000" "0x40000" a x] in_range_add [of "0x20000" "0x20000" "a + 0x20000" x]
    by (simp add: add.assoc)
  show "sectors_range [5 ..< 8] x \<longleftrightarrow> in_range BL_APP_A_BASE (unat BL_APP_A_SIZE) x"
    "sectors_range [8 ..< 11] x \<longleftrightarrow> in_range BL_APP_B_BASE (unat BL_APP_B_SIZE) x"
    by (simp_all add: sectors_range_def sector_base_def sector_size_def bl_layout three upt_rec)
qed

lemma bl_flash_erase_slot_spec:
  assumes "bl_flash_erase_slot base f = (ok, f')"
  shows "\<not> in_range base 0x60000 x \<Longrightarrow> fl_mem f' x = fl_mem f x"
    and "\<not> bl_flash_is_slot_base base \<Longrightarrow> \<not> ok \<and> f' = f"
    and "ok \<Longrightarrow> in_range base 0x60000 x \<Longrightarrow> fl_mem f' x = 0xFF"
    and "fl_env f' = fl_env f"
    and "waits_ok f \<Longrightarrow> bl_flash_is_slot_base base \<Longrightarrow> ok"
    and "bl_flash_is_slot_base base \<Longrightarrow> fl_locked f'"
proof -
  let ?s = "if base = BL_APP_A_BASE then 5 else 8 :: nat"
  let ?u = "HAL_FLASH_Unlock f"
  obtain st f1 where e: "HAL_FLASHEx_Erase ?s 3 ?u = (st, f1)" by (cases "HAL_FLASHEx_Erase ?s 3 ?u")
  note sp = HAL_FLASHEx_Erase_spec [OF e]
  have r: "bl_flash_is_slot_base base \<Longrightarrow> sectors_range [?s ..< 3 + ?s] x \<longleftrightarrow> in_range base 0x60000 x" for x
    using slot_sectors [of x] by (auto simp: bl_flash_is_slot_base_def bl_layout)
  have res: "bl_flash_is_slot_base base \<Longrightarrow> ok = (st = HAL_OK) \<and> f' = HAL_FLASH_Lock f1"
    using assms e by (auto simp: bl_flash_erase_slot_def Let_def split: if_splits)
  show n: "\<not> bl_flash_is_slot_base base \<Longrightarrow> \<not> ok \<and> f' = f"
    using assms by (simp add: bl_flash_erase_slot_def)
  show "\<not> in_range base 0x60000 x \<Longrightarrow> fl_mem f' x = fl_mem f x"
    using n res r [of x] sp(1)
    by (cases "bl_flash_is_slot_base base") (auto simp: only_at_def HAL_FLASH_Lock_def HAL_FLASH_Unlock_def)
  show "ok \<Longrightarrow> in_range base 0x60000 x \<Longrightarrow> fl_mem f' x = 0xFF"
    using n res r [of x] sp(2) [of x]
    by (cases "bl_flash_is_slot_base base") (simp_all add: HAL_FLASH_Lock_def HAL_FLASH_Unlock_def)
  show "fl_env f' = fl_env f"
    using n res sp(1)
    by (cases "bl_flash_is_slot_base base")
       (auto simp: only_at_def fl_env_def HAL_FLASH_Lock_def HAL_FLASH_Unlock_def)
  show "waits_ok f \<Longrightarrow> bl_flash_is_slot_base base \<Longrightarrow> ok"
    using res sp(3) by (simp add: waits_ok_def HAL_FLASH_Unlock_def)
  show "bl_flash_is_slot_base base \<Longrightarrow> fl_locked f'"
    using res by (simp add: HAL_FLASH_Lock_def)
qed

section \<open>Writing a block\<close>

lemma four_bytes [simp]:
  "take (4 + k) (b0 # b1 # b2 # b3 # bs) = b0 # b1 # b2 # b3 # take k bs"
  "drop (4 + k) (b0 # b1 # b2 # b3 # bs) = drop k bs"
  by (simp_all add: numeral_eq_Suc)

lemma bl_write_head_only_in:
  "bl_write_head a bs f = (ok, a', r, f') \<Longrightarrow> length bs \<le> 2 ^ 32 \<Longrightarrow>
   only_in a (length bs) f f' \<and> (\<exists>k \<le> length bs. a' = a + of_nat k \<and> r = drop k bs)"
proof (induction a bs f rule: bl_write_head.induct)
  case (2 a b bs f)
  obtain st f1 where p: "HAL_FLASH_Program FLASH_TYPEPROGRAM_BYTE a (ucast b) f = (st, f1)"
    by (cases "HAL_FLASH_Program FLASH_TYPEPROGRAM_BYTE a (ucast b) f")
  note o1 = program_byte_only_in [OF p, of "length bs"]
  show ?case
  proof (cases "a AND 3 \<noteq> 0 \<and> st = HAL_OK")
    case True
    then have w: "bl_write_head (a + 1) bs f1 = (ok, a', r, f')" using 2(2) p by simp
    have "only_in (a + 1) (length bs) f1 f' \<and> (\<exists>k \<le> length bs. a' = a + 1 + of_nat k \<and> r = drop k bs)"
      using 2(1) [OF _ p [symmetric] refl _ w] True 2(3) by simp
    then obtain k where k: "only_in (a + 1) (length bs) f1 f'" "k \<le> length bs"
        "a' = a + of_nat (Suc k)" "r = drop (Suc k) (b # bs)" by (auto simp: add.assoc)
    then have "only_in a (length (b # bs)) f1 f'"
      using only_in_sub [of a 1 "length (b # bs)" f1 f'] 2(3) by simp
    then show ?thesis using o1 k(2-4) by (fastforce intro: only_in_trans)
  next
    case False
    then have "a' = a \<and> r = b # bs \<and> (f' = f \<or> f' = f1)"
      using 2(2) p by (auto split: if_splits)
    then show ?thesis using o1 by (auto intro!: exI [of _ 0])
  qed
qed (auto intro!: exI [of _ 0])

lemma bl_write_words_only_in:
  "bl_write_words a bs f = (ok, a', r, f') \<Longrightarrow> length bs \<le> 2 ^ 32 \<Longrightarrow>
   only_in a (length bs) f f' \<and> (\<exists>k \<le> length bs. a' = a + of_nat k \<and> r = drop k bs)"
proof (induction a bs f rule: bl_write_words.induct)
  case (1 a b0 b1 b2 b3 bs f)
  let ?w = "bl_flash_pack_word (b0 # b1 # b2 # b3 # bs)"
  obtain st f1 where p: "HAL_FLASH_Program FLASH_TYPEPROGRAM_WORD a ?w f = (st, f1)"
    by (cases "HAL_FLASH_Program FLASH_TYPEPROGRAM_WORD a ?w f")
  have o1: "only_in a (length (b0 # b1 # b2 # b3 # bs)) f f1"
    using program_only_in [OF p] by (rule only_in_mono) simp
  show ?case
  proof (cases "st = HAL_OK")
    case True
    then have w: "bl_write_words (a + 4) bs f1 = (ok, a', r, f')" using 1(2) p by (simp add: Let_def)
    have "only_in (a + 4) (length bs) f1 f' \<and> (\<exists>k \<le> length bs. a' = a + 4 + of_nat k \<and> r = drop k bs)"
      using 1(1) [OF refl p [symmetric] refl _ w] True 1(3) by simp
    then obtain k where k: "only_in (a + 4) (length bs) f1 f'" "k \<le> length bs"
        "a' = a + of_nat (Suc (Suc (Suc (Suc k))))"
        "r = drop (Suc (Suc (Suc (Suc k)))) (b0 # b1 # b2 # b3 # bs)" by (auto simp: add.assoc)
    then have "only_in a (length (b0 # b1 # b2 # b3 # bs)) f1 f'"
      using only_in_sub [of a 4 "length (b0 # b1 # b2 # b3 # bs)" f1 f'] 1(3) by simp
    then show ?thesis using o1 k(2-4)
      by (intro conjI exI [of _ "Suc (Suc (Suc (Suc k)))"]) (auto intro: only_in_trans simp del: of_nat_Suc)
  next
    case False
    then show ?thesis using 1(2) p o1 by (auto simp: Let_def intro!: exI [of _ 0])
  qed
qed (auto intro!: exI [of _ 0])

lemma bl_flash_write_only_in:
  assumes "bl_flash_write a bs f = (ok, f')" "length bs \<le> 2 ^ 32"
  shows "fl_env f' = fl_env f" and "\<not> in_range a (length bs) x \<Longrightarrow> fl_mem f' x = fl_mem f x"
    and "bs \<noteq> [] \<Longrightarrow> fl_locked f'" and "ok \<Longrightarrow> rdn (fl_mem f') a (length bs) = bs"
proof -
  obtain ok1 a1 r1 f1 where w1: "bl_write_head a bs (HAL_FLASH_Unlock f) = (ok1, a1, r1, f1)"
    using prod_cases4 by blast
  obtain ok2 a2 r2 f2 where w2: "bl_write_words a1 r1 f1 = (ok2, a2, r2, f2)" using prod_cases4 by blast
  obtain ok3 f3 where w3: "program_loop a2 r2 f2 = (ok3, f3)" by (cases "program_loop a2 r2 f2")
  obtain k1 where k1: "only_in a (length bs) (HAL_FLASH_Unlock f) f1" "k1 \<le> length bs"
      "a1 = a + of_nat k1" "r1 = drop k1 bs"
    using bl_write_head_only_in [OF w1 assms(2)] by blast
  obtain k2 where k2: "only_in a1 (length r1) f1 f2" "k2 \<le> length r1" "a2 = a1 + of_nat k2" "r2 = drop k2 r1"
    using bl_write_words_only_in [OF w2] k1 assms(2) that by (metis diff_le_self le_trans length_drop)
  have "only_in a2 (length r2) f2 f3"
    using program_loop_only_in [OF w3] k1 k2 assms(2) by simp
  then have o3: "only_in a (length bs) f2 f3"
    using k1 k2 assms(2) only_in_sub [of a "k2 + k1" "length bs" f2 f3] by (simp add: ac_simps)
  have o2: "only_in a (length bs) f1 f2"
    using k1 k2 assms(2) only_in_sub [of a k1 "length bs" f1 f2] by simp
  have all: "only_in a (length bs) (HAL_FLASH_Unlock f) f2" "only_in a (length bs) (HAL_FLASH_Unlock f) f3"
    using k1(1) o2 o3 by (blast intro: only_in_trans)+
  have "bs = [] \<and> f' = f \<and> \<not> ok \<or> bs \<noteq> [] \<and> (\<exists>g. only_in a (length bs) (HAL_FLASH_Unlock f) g \<and>
      f' = HAL_FLASH_Lock g \<and> (ok \<longrightarrow> compare_loop (fl_mem f') a bs))"
    using assms(1) w1 w2 w3 k1(1) all by (auto simp: bl_flash_write_def Let_def split: if_splits)
  then consider "bs = []" "f' = f" "\<not> ok" | g where "bs \<noteq> []" "only_in a (length bs) (HAL_FLASH_Unlock f) g"
      "f' = HAL_FLASH_Lock g" "ok \<longrightarrow> compare_loop (fl_mem f') a bs" by blast
  note cases = this
  show "fl_env f' = fl_env f" "\<not> in_range a (length bs) x \<Longrightarrow> fl_mem f' x = fl_mem f x"
    using cases by (cases; simp add: only_in_def fl_env_def HAL_FLASH_Lock_def HAL_FLASH_Unlock_def)+
  show "bs \<noteq> [] \<Longrightarrow> fl_locked f'" using cases by cases (simp_all add: HAL_FLASH_Lock_def)
  show "ok \<Longrightarrow> rdn (fl_mem f') a (length bs) = bs" using cases by cases (simp_all add: compare_loop_eq)
qed

text \<open>On an erased range with a controller that answers, each of the loops goes through.\<close>

lemma bl_write_head_ok:
  "programmable a (length bs) f \<Longrightarrow> length bs \<le> 2 ^ 32 \<Longrightarrow>
   \<exists>k f'. bl_write_head a bs f = (True, a + of_nat k, drop k bs, f') \<and> k \<le> length bs \<and>
     programmable (a + of_nat k) (length bs - k) f' \<and> rdn (fl_mem f') a k = take k bs"
proof (induction a bs f rule: bl_write_head.induct)
  case (2 a b bs f)
  obtain f1 where p: "HAL_FLASH_Program FLASH_TYPEPROGRAM_BYTE a (ucast b) f = (HAL_OK, f1)"
      "programmable (a + 1) (length bs) f1" "fl_mem f1 a = b"
    using program_byte_ok [of a "length bs" f b] 2(2,3) by auto
  show ?case
  proof (cases "a AND 3 \<noteq> 0")
    case True
    obtain k f' where k: "bl_write_head (a + 1) bs f1 = (True, a + 1 + of_nat k, drop k bs, f')" "k \<le> length bs"
        "programmable (a + 1 + of_nat k) (length bs - k) f'" "rdn (fl_mem f') (a + 1) k = take k bs"
      using 2(1) [OF True p(1) [symmetric] refl] p(2) 2(3) by auto
    have "\<not> in_range (a + 1) (length bs) a"
      using in_range_disjoint [of a 1 "length bs" a] 2(3) by (auto simp: in_range_def)
    then have "fl_mem f' a = b"
      using bl_write_head_only_in [OF k(1)] p(3) 2(3) by (simp add: only_in_def)
    then show ?thesis
      using True p(1) k by (intro exI [of _ "Suc k"] exI [of _ f']) (simp add: add.assoc rdn_Suc)
  qed (use 2(2) in \<open>auto intro!: exI [of _ 0]\<close>)
qed (auto intro!: exI [of _ 0])

lemma bl_write_words_ok:
  "programmable a (length bs) f \<Longrightarrow> length bs \<le> 2 ^ 32 \<Longrightarrow>
   \<exists>k f'. bl_write_words a bs f = (True, a + of_nat k, drop k bs, f') \<and> k \<le> length bs \<and>
     programmable (a + of_nat k) (length bs - k) f' \<and> rdn (fl_mem f') a k = take k bs"
proof (induction a bs f rule: bl_write_words.induct)
  case (1 a b0 b1 b2 b3 bs f)
  let ?bs = "b0 # b1 # b2 # b3 # bs"
  let ?w = "bl_flash_pack_word ?bs"
  have w: "program_bytes FLASH_TYPEPROGRAM_WORD ?w = [b0, b1, b2, b3]"
    using le32_un32 [of b0 b1 b2 b3] by (simp add: bl_flash_pack_word_def un32_def le32_def)
  have l: "length ?bs = 4 + length bs" by simp
  obtain f1 where p: "HAL_FLASH_Program FLASH_TYPEPROGRAM_WORD a ?w f = (HAL_OK, f1)"
      "programmable (a + 4) (length bs) f1" "rdn (fl_mem f1) a 4 = [b0, b1, b2, b3]"
    using program_ok [of a FLASH_TYPEPROGRAM_WORD "length bs" f ?w] 1(2,3) w unfolding l by auto
  obtain k f' where k: "bl_write_words (a + 4) bs f1 = (True, a + 4 + of_nat k, drop k bs, f')" "k \<le> length bs"
      "programmable (a + 4 + of_nat k) (length bs - k) f'" "rdn (fl_mem f') (a + 4) k = take k bs"
    using 1(1) [OF refl p(1) [symmetric] refl] p(2) 1(3) by auto
  have "only_in (a + 4) (length bs) f1 f'"
    using bl_write_words_only_in [OF k(1)] 1(3) by simp
  then have "rdn (fl_mem f') a 4 = [b0, b1, b2, b3]"
    using only_in_rdn [of "a + 4" "length bs" f1 f' 4 a] in_range_disjoint [of a 4 "length bs"] p(3) 1(3)
    by fastforce
  then have r: "rdn (fl_mem f') a (4 + k) = take (4 + k) ?bs"
    using k(4) rdn_add [of "fl_mem f'" a 4 k] by simp
  have "bl_write_words a ?bs f = (True, a + of_nat (4 + k), drop (4 + k) ?bs, f')"
    using p(1) k(1) by (simp add: Let_def add.assoc)
  moreover have "programmable (a + of_nat (4 + k)) (length ?bs - (4 + k)) f'"
    using k(3) by (simp add: add.assoc)
  ultimately show ?case using r k(2) by (intro exI [of _ "4 + k"] exI [of _ f']) simp
qed (auto intro!: exI [of _ 0])

lemma bl_flash_write_ok:
  assumes "flash_ready a (length bs) f" "bs \<noteq> []" "length bs \<le> 2 ^ 32"
  shows "fst (bl_flash_write a bs f)"
proof -
  have "programmable a (length bs) (HAL_FLASH_Unlock f)"
    using assms(1) by (simp add: flash_ready_def programmable_def HAL_FLASH_Unlock_def waits_ok_def erased_cell_law_def)
  then obtain k f1 where w1: "bl_write_head a bs (HAL_FLASH_Unlock f) = (True, a + of_nat k, drop k bs, f1)"
      "k \<le> length bs" "programmable (a + of_nat k) (length bs - k) f1" "rdn (fl_mem f1) a k = take k bs"
    using bl_write_head_ok assms(3) by blast
  let ?a1 = "a + of_nat k" and ?r1 = "drop k bs"
  have p1: "programmable ?a1 (length ?r1) f1" "length ?r1 \<le> 2 ^ 32" using w1(3) assms(3) by simp_all
  obtain j f2 where w2: "bl_write_words ?a1 ?r1 f1 = (True, ?a1 + of_nat j, drop j ?r1, f2)"
      "j \<le> length ?r1" "programmable (?a1 + of_nat j) (length ?r1 - j) f2" "rdn (fl_mem f2) ?a1 j = take j ?r1"
    using bl_write_words_ok [OF p1] by blast
  have p2: "programmable (?a1 + of_nat j) (length (drop j ?r1)) f2" "length (drop j ?r1) \<le> 2 ^ 32"
    using w2(3) assms(3) by (simp_all add: add.commute)
  let ?a2 = "?a1 + of_nat j" and ?r2 = "drop j ?r1"
  obtain f3 where w3: "program_loop ?a2 ?r2 f2 = (True, f3)" "rdn (fl_mem f3) ?a2 (length ?r2) = ?r2"
    using program_loop_ok [OF p2] by blast
  have o2: "only_in ?a1 (length ?r1) f1 f2" using bl_write_words_only_in [OF w2(1)] assms(3) by simp
  have o3: "only_in ?a2 (length ?r2) f2 f3" using program_loop_only_in [OF w3(1)] assms(3) by simp
  have o23: "only_in ?a1 (length ?r1) f2 f3"
    using only_in_sub [of ?a1 j "length ?r1" f2 f3] o3 w2(2) assms(3)
    by (simp add: add.commute [of j k])
  have r: "rdn (fl_mem f3) a k = take k bs"
    using only_in_rdn [OF only_in_trans [OF o2 o23], of k a] w1(2,4) assms(3)
      in_range_disjoint [of a k "length ?r1"] by fastforce
  have "rdn (fl_mem f3) ?a1 j = take j ?r1"
    using only_in_rdn [OF o3, of j ?a1] w2(2,4) assms(3) in_range_disjoint [of ?a1 j "length ?r2"] by fastforce
  from rdn_split [OF this w3(2) w2(2)] have "rdn (fl_mem f3) a (length bs) = bs"
    by (rule rdn_split [OF r _ w1(2)])
  then show ?thesis
    using w1(1) w2(1) w3(1) assms(2) by (simp add: bl_flash_write_def HAL_FLASH_Lock_def compare_loop_eq)
qed

text \<open>The writer meets the contract.\<close>

interpretation bl_image: nor_store fl_mem bl_flash_write flash_ready
proof unfold_locales
  fix a bs f ok f' x
  assume "bl_flash_write a bs f = (ok, f')" "length bs \<le> 2 ^ 32" "\<not> in_range a (length bs) x"
  then show "fl_mem f' x = fl_mem f x" by (rule bl_flash_write_only_in)
next
  fix a bs f f'
  assume "bl_flash_write a bs f = (True, f')" "length bs \<le> 2 ^ 32"
  then show "rdn (fl_mem f') a (length bs) = bs" by (rule bl_flash_write_only_in) simp
qed (rule bl_flash_write_ok)

text \<open>Writing a block to flash is correct whatever the controller does. Nothing outside the block
  changes, the controller ends up locked, and a reported success means that the block reads back;
  and when the range was erased and the controller answers, the write does succeed.\<close>

theorem bl_flash_write_correct:
  assumes "bl_flash_write a bs f = (ok, f')" "bs \<noteq> []" "length bs \<le> 2 ^ 32"
  shows "(\<forall>x. fl_mem f' x = fl_mem f x \<or> in_range a (length bs) x) \<and> fl_locked f' \<and>
    (if ok then rdn (fl_mem f') a (length bs) = bs else \<not> flash_ready a (length bs) f)"
  using bl_flash_write_only_in [OF assms(1,3)] bl_flash_write_ok [of a bs f] assms by auto

theorem bl_flash_write_correct_witness:
  "\<exists>f'. bl_flash_write 0x08020002 [1, 2, 3, 4, 5, 6, 7] sample_flash = (True, f') \<and>
     rdn (fl_mem f') 0x08020002 7 = [1, 2, 3, 4, 5, 6, 7] \<and> fl_locked f'"
proof -
  obtain ok f' where w: "bl_flash_write 0x08020002 [1, 2, 3, 4, 5, 6, 7] sample_flash = (ok, f')"
    by (cases "bl_flash_write 0x08020002 [1, 2, 3, 4, 5, 6, 7] sample_flash")
  have l: "length [1, 2, 3, 4, 5, 6, 7 :: u8] = 7" by simp
  from bl_flash_write_correct [OF w] have "fl_locked f'" and
    "if ok then rdn (fl_mem f') 0x08020002 7 = [1, 2, 3, 4, 5, 6, 7] else \<not> flash_ready 0x08020002 7 sample_flash"
    unfolding l by simp_all
  then show ?thesis using w sample_flash_ready by (simp split: if_splits)
qed

text \<open>Erasing a slot leaves the other slot, the bootloader, the metadata and the crash log alone:
  it changes at most the 384 KB of the slot it is given, refuses every other address, and after a
  success all of the slot is erased. It succeeds whenever the controller answers.\<close>

theorem bl_flash_erase_slot_correct:
  assumes "bl_flash_erase_slot base f = (ok, f')"
  shows "(\<forall>x. fl_mem f' x = fl_mem f x \<or> bl_flash_is_slot_base base \<and> in_range base 0x60000 x) \<and>
    (ok \<longrightarrow> (\<forall>i < 0x60000. fl_mem f' (base + of_nat i) = 0xFF)) \<and>
    (waits_ok f \<longrightarrow> ok = bl_flash_is_slot_base base)"
  using bl_flash_erase_slot_spec [OF assms] in_range_nth [of _ "0x60000" base] by fastforce

theorem bl_flash_erase_slot_correct_witness:
  "\<exists>f'. bl_flash_erase_slot 0x08080000 sample_flash = (True, f') \<and> fl_mem f' 0x080DFFFF = 0xFF \<and>
     fl_mem f' 0x0801FFFF = fl_mem sample_flash 0x0801FFFF"
proof -
  obtain ok f' where w: "bl_flash_erase_slot 0x08080000 sample_flash = (ok, f')"
    by (cases "bl_flash_erase_slot 0x08080000 sample_flash")
  note e = bl_flash_erase_slot_correct [OF w]
  have "ok" using e sample_flash_ready [of 0 0]
    by (simp add: flash_ready_def bl_flash_is_slot_base_def bl_layout)
  moreover have "\<not> in_range 0x08080000 0x60000 0x0801FFFF" by (simp add: in_range_def)
  ultimately show ?thesis using e w by (auto dest: spec [where x = "0x5FFFF"])
qed

end
