(* ===== verification/Ota_Metadata.thy ===== *)
theory Ota_Metadata
  imports Flash Checksum
begin

text \<open>
  The record that the bootloader and the application share about the two image slots
  (\<open>ota_metadata_t\<close>, declared in \<open>bootloader/bootloader_metadata.h\<close> and again in
  \<open>1_App/app_gateway.c\<close>), its 60 bytes in memory, and the log of such records in flash sector 4:
  1092 slots that are filled one after the other, the newest valid record counting.
\<close>

section \<open>The record and its bytes\<close>

record ota_metadata =
  magic :: u32
  schema_version :: u16
  meta_seq :: u16
  active_slot :: u8
  pending_slot :: u8
  confirmed_slot :: u8
  boot_attempts :: u8
  app_a_version :: u32
  app_a_size :: u32
  app_a_crc32 :: u32
  app_a_state :: u32
  app_b_version :: u32
  app_b_size :: u32
  app_b_crc32 :: u32
  app_b_state :: u32
  rollback_count :: u32
  min_allowed_version :: u32
  last_error :: u32
  metadata_crc32 :: u32

definition meta_bytes :: "ota_metadata \<Rightarrow> u8 list" where
  "meta_bytes m =
     le32 (magic m) @ le16 (schema_version m) @ le16 (meta_seq m) @
     [active_slot m, pending_slot m, confirmed_slot m, boot_attempts m] @
     le32 (app_a_version m) @ le32 (app_a_size m) @ le32 (app_a_crc32 m) @ le32 (app_a_state m) @
     le32 (app_b_version m) @ le32 (app_b_size m) @ le32 (app_b_crc32 m) @ le32 (app_b_state m) @
     le32 (rollback_count m) @ le32 (min_allowed_version m) @ le32 (last_error m) @ le32 (metadata_crc32 m)"

definition meta_of_bytes :: "u8 list \<Rightarrow> ota_metadata" where
  "meta_of_bytes bs =
     \<lparr>magic = rd32 bs 0, schema_version = rd16 bs 4, meta_seq = rd16 bs 6,
      active_slot = bs ! 8, pending_slot = bs ! 9, confirmed_slot = bs ! 10, boot_attempts = bs ! 11,
      app_a_version = rd32 bs 12, app_a_size = rd32 bs 16, app_a_crc32 = rd32 bs 20, app_a_state = rd32 bs 24,
      app_b_version = rd32 bs 28, app_b_size = rd32 bs 32, app_b_crc32 = rd32 bs 36, app_b_state = rd32 bs 40,
      rollback_count = rd32 bs 44, min_allowed_version = rd32 bs 48, last_error = rd32 bs 52,
      metadata_crc32 = rd32 bs 56\<rparr>"

lemma length_meta_bytes [simp]: "length (meta_bytes m) = 60"
  by (simp add: meta_bytes_def)

lemma meta_bytes_roundtrip [simp]: "meta_of_bytes (meta_bytes m) = m"
  by (simp add: meta_of_bytes_def meta_bytes_def le32_def le16_def rd32_def rd16_def)

lemma meta_bytes_inject [simp]: "meta_bytes m = meta_bytes m' \<longleftrightarrow> m = m'"
  by (metis meta_bytes_roundtrip)

definition BL_META_MAGIC :: u32 where "BL_META_MAGIC = 0x454F5441"
definition BL_META_SCHEMA_VERSION :: u16 where "BL_META_SCHEMA_VERSION = 2"

lemmas meta_consts = BL_META_MAGIC_def BL_META_SCHEMA_VERSION_def

text \<open>A record with the right magic has a byte that an erased cell does not have.\<close>

lemma meta_bytes_not_erased:
  assumes "magic m = BL_META_MAGIC"
  shows "meta_bytes m \<noteq> replicate 60 0xFF"
proof
  assume "meta_bytes m = replicate 60 0xFF"
  then have "meta_bytes m ! 0 = (0xFF :: u8)" by simp
  then show False using assms by (simp add: meta_bytes_def le32_def meta_consts)
qed

section \<open>The slots of the log\<close>

definition meta_addr :: "nat \<Rightarrow> u32" where
  "meta_addr i = 0x08010000 + of_nat (i * 60)"

definition meta_max_records :: nat where
  "meta_max_records = 0x10000 div 60"

definition meta_slots :: "mem \<Rightarrow> u8 list list" where
  "meta_slots m = map (\<lambda>i. rdn m (meta_addr i) 60) [0 ..< meta_max_records]"

lemma meta_max_records: "meta_max_records = 1092"
  by (simp add: meta_max_records_def)

lemma length_meta_slots [simp]: "length (meta_slots m) = meta_max_records"
  by (simp add: meta_slots_def)

lemma nth_meta_slots: "i < meta_max_records \<Longrightarrow> meta_slots m ! i = rdn m (meta_addr i) 60"
  by (simp add: meta_slots_def)

lemma in_slot_iff: "in_range (meta_addr i) 60 x \<longleftrightarrow> (\<exists>k < 60. x = 0x08010000 + of_nat (i * 60 + k))"
  by (auto simp: in_range_iff meta_addr_def add.assoc)

lemma slots_disjoint:
  assumes "i < meta_max_records" "j < meta_max_records" "in_range (meta_addr i) 60 x" "in_range (meta_addr j) 60 x"
  shows "i = j"
proof -
  obtain k l where kl: "k < 60" "l < 60" "(of_nat (i * 60 + k) :: u32) = of_nat (j * 60 + l)"
    using assms(3,4) by (auto simp: in_slot_iff)
  have "i * 60 + k < 2 ^ LENGTH(32)" "j * 60 + l < 2 ^ LENGTH(32)"
    using kl(1,2) assms(1,2) by (simp_all add: meta_max_records)
  then have "i * 60 + k = j * 60 + l" using kl(3) by (simp only: of_nat_word_inj)
  then have "(i * 60 + k) div 60 = (j * 60 + l) div 60" by (rule arg_cong)
  then show ?thesis using kl(1,2) by simp
qed

lemma slots_in_sector:
  assumes "i < meta_max_records" "in_range (meta_addr i) 60 x"
  shows "in_range (sector_base 4) (sector_size 4) x"
proof -
  obtain k where "k < 60" "x = 0x08010000 + of_nat (i * 60 + k)" using assms(2) by (auto simp: in_slot_iff)
  then show ?thesis
    using assms(1)
    by (auto simp: sector_base_def sector_size_def in_range_iff meta_max_records
        intro!: exI [of _ "i * 60 + k"])
qed

lemma meta_slots_write:
  assumes "i < meta_max_records" "\<And>x. \<not> in_range (meta_addr i) 60 x \<Longrightarrow> m' x = m x"
  shows "meta_slots m' = (meta_slots m)[i := rdn m' (meta_addr i) 60]"
proof (rule nth_equalityI)
  fix j assume "j < length (meta_slots m')"
  then have j: "j < meta_max_records" by simp
  have "j \<noteq> i \<Longrightarrow> rdn m' (meta_addr j) 60 = rdn m (meta_addr j) 60"
    using assms slots_disjoint [OF assms(1) j] by (intro rdn_unchanged) auto
  then show "meta_slots m' ! j = (meta_slots m)[i := rdn m' (meta_addr i) 60] ! j"
    using j by (cases "j = i") (simp_all add: nth_meta_slots)
qed simp

section \<open>The newest record of a log\<close>

text \<open>Slots after the first erased one do not count, and a record replaces the candidate only when its
  sequence number is newer modulo 65536.\<close>

definition seq_newer :: "u16 \<Rightarrow> u16 \<Rightarrow> bool" where
  "seq_newer c d \<longleftrightarrow> c - d \<noteq> 0 \<and> c - d < 0x8000"

fun newest :: "(ota_metadata \<Rightarrow> bool) \<Rightarrow> u8 list list \<Rightarrow> ota_metadata option \<Rightarrow> ota_metadata option" where
  "newest valid [] best = best"
| "newest valid (s # ss) best =
     (if s = replicate 60 0xFF then best
      else let r = meta_of_bytes s
           in if \<not> valid r then newest valid ss best
              else case best of
                     None \<Rightarrow> newest valid ss (Some r)
                   | Some b \<Rightarrow> if seq_newer (meta_seq r) (meta_seq b) then newest valid ss (Some r)
                              else newest valid ss best)"

lemma newest_valid: "newest valid ss best = Some r \<Longrightarrow> (\<And>b. best = Some b \<Longrightarrow> valid b) \<Longrightarrow> valid r"
  by (induction valid ss best rule: newest.induct) (auto simp: Let_def split: if_splits option.splits)

definition erased_slot :: "u8 list \<Rightarrow> bool" where
  "erased_slot s \<longleftrightarrow> s = replicate 60 0xFF"

text \<open>A log in order: once a slot is erased, so is every later one.\<close>

definition log_in_order :: "u8 list list \<Rightarrow> bool" where
  "log_in_order ss \<longleftrightarrow> (\<forall>i < length ss. \<forall>j < i. erased_slot (ss ! j) \<longrightarrow> erased_slot (ss ! i))"

lemma newest_stop: "erased_slot s \<Longrightarrow> newest valid (s # ss) best = best"
  by (simp add: erased_slot_def)

lemma newest_append:
  "\<forall>s \<in> set xs. \<not> erased_slot s \<Longrightarrow> newest valid (xs @ ys) best = newest valid ys (newest valid xs best)"
  by (induction valid xs best rule: newest.induct) (auto simp: erased_slot_def Let_def split: option.splits)

lemma newest_erased_rest: "\<forall>s \<in> set ss. erased_slot s \<Longrightarrow> newest valid ss best = best"
  by (cases ss) (auto simp: newest_stop simp del: newest.simps(2))

lemma log_split:
  assumes "log_in_order ss" "k < length ss" "erased_slot (ss ! k)" "\<And>j. j < k \<Longrightarrow> \<not> erased_slot (ss ! j)"
  shows "ss = take k ss @ ss ! k # drop (Suc k) ss" "\<forall>s \<in> set (take k ss). \<not> erased_slot s"
    "\<forall>s \<in> set (drop (Suc k) ss). erased_slot s"
proof -
  show "ss = take k ss @ ss ! k # drop (Suc k) ss" by (rule id_take_nth_drop) fact
  show "\<forall>s \<in> set (take k ss). \<not> erased_slot s" using assms by (auto simp: in_set_conv_nth)
  show "\<forall>s \<in> set (drop (Suc k) ss). erased_slot s"
  proof
    fix s assume "s \<in> set (drop (Suc k) ss)"
    then obtain i where "i < length ss" "k < i" "s = ss ! i"
      by (auto simp: in_set_conv_nth) (metis add_Suc less_add_Suc1 less_diff_conv add.commute)
    then show "erased_slot s" using assms(1,3) by (auto simp: log_in_order_def)
  qed
qed

text \<open>Filling the first free slot of a log in order: the reader sees the old answer, replaced by what
  now stands in that slot if that is valid and newer.\<close>

lemma newest_fill:
  assumes "log_in_order ss" "k < length ss" "erased_slot (ss ! k)" "\<And>j. j < k \<Longrightarrow> \<not> erased_slot (ss ! j)"
  shows "newest valid (ss[k := s]) None =
    (let old = newest valid ss None; r = meta_of_bytes s
     in if erased_slot s \<or> \<not> valid r then old
        else case old of None \<Rightarrow> Some r
                       | Some b \<Rightarrow> if seq_newer (meta_seq r) (meta_seq b) then Some r else old)"
proof -
  note sp = log_split [OF assms]
  have upd: "ss[k := s] = take k ss @ s # drop (Suc k) ss"
    using assms(2) by (simp add: upd_conv_take_nth_drop)
  have old: "newest valid ss None = newest valid (take k ss) None"
    using sp(1) newest_append [OF sp(2), of valid] assms(3) newest_stop by metis
  have rest: "newest valid (drop (Suc k) ss) b = b" for b
    by (rule newest_erased_rest [OF sp(3)])
  have "newest valid (ss[k := s]) None =
      newest valid (s # drop (Suc k) ss) (newest valid (take k ss) None)"
    by (simp only: upd newest_append [OF sp(2)])
  then show ?thesis
    by (auto simp: old rest erased_slot_def Let_def split: option.splits)
qed

lemma log_in_order_fill:
  assumes "log_in_order ss" "k < length ss" "erased_slot (ss ! k)" "\<And>j. j < k \<Longrightarrow> \<not> erased_slot (ss ! j)"
  shows "log_in_order (ss[k := s])"
  unfolding log_in_order_def
proof (intro allI impI)
  fix i j
  assume *: "i < length (ss[k := s])" "j < i" "erased_slot (ss[k := s] ! j)"
  have "k \<le> j" using * assms(4) [of j] by (cases "j < k") auto
  moreover have "erased_slot (ss ! i)" if "k < i"
    using assms(1-3) * that by (auto simp: log_in_order_def)
  ultimately show "erased_slot (ss[k := s] ! i)" using * by simp
qed

end
