(* ===== verification/Boot_Metadata.thy ===== *)
theory Boot_Metadata
  imports Ota_Metadata
begin

text \<open>
  The bootloader's metadata log (\<open>bootloader/bootloader_metadata.c\<close>): finding the newest valid
  record, and committing a new one to the first erased slot, or to the start of the sector after
  erasing it when the log is full.
\<close>

section \<open>Operations\<close>

datatype image_state = IMG_INVALID | IMG_VALID | IMG_PENDING | IMG_CONFIRMED | IMG_ROLLBACK

fun img_code :: "image_state \<Rightarrow> u32" where
  "img_code IMG_INVALID = 0"
| "img_code IMG_VALID = 1"
| "img_code IMG_PENDING = 2"
| "img_code IMG_CONFIRMED = 3"
| "img_code IMG_ROLLBACK = 4"

definition BL_SLOT_A :: u8 where "BL_SLOT_A = 0"
definition BL_SLOT_B :: u8 where "BL_SLOT_B = 1"
definition BL_SLOT_NONE :: u8 where "BL_SLOT_NONE = 0xFF"

lemmas bl_slots = BL_SLOT_A_def BL_SLOT_B_def BL_SLOT_NONE_def

datatype validate_reason = BL_META_OK | BL_META_ERR_NULL | BL_META_ERR_MAGIC | BL_META_ERR_SCHEMA | BL_META_ERR_CRC

definition bl_metadata_validate_reason :: "ota_metadata \<Rightarrow> validate_reason" where
  "bl_metadata_validate_reason m =
     (if magic m \<noteq> BL_META_MAGIC then BL_META_ERR_MAGIC
      else if schema_version m \<noteq> BL_META_SCHEMA_VERSION then BL_META_ERR_SCHEMA
      else let crc = bl_crc32 (meta_bytes (m\<lparr>metadata_crc32 := 0\<rparr>))
           in if crc \<noteq> metadata_crc32 m then BL_META_ERR_CRC else BL_META_OK)"

definition bl_metadata_validate :: "ota_metadata \<Rightarrow> bool" where
  "bl_metadata_validate m \<longleftrightarrow> bl_metadata_validate_reason m = BL_META_OK"

definition bl_metadata_update_crc :: "ota_metadata \<Rightarrow> ota_metadata" where
  "bl_metadata_update_crc m =
     (let m0 = m\<lparr>metadata_crc32 := 0\<rparr> in m0\<lparr>metadata_crc32 := bl_crc32 (meta_bytes m0)\<rparr>)"

definition bl_metadata_default :: ota_metadata where
  "bl_metadata_default = bl_metadata_update_crc
     \<lparr>magic = BL_META_MAGIC, schema_version = BL_META_SCHEMA_VERSION, meta_seq = 1,
      active_slot = BL_SLOT_A, pending_slot = BL_SLOT_NONE, confirmed_slot = BL_SLOT_A, boot_attempts = 0,
      app_a_version = 0, app_a_size = 0, app_a_crc32 = 0, app_a_state = img_code IMG_VALID,
      app_b_version = 0, app_b_size = 0, app_b_crc32 = 0, app_b_state = img_code IMG_INVALID,
      rollback_count = 0, min_allowed_version = 1, last_error = 0, metadata_crc32 = 0\<rparr>"

definition bl_meta_seq_is_newer :: "u16 \<Rightarrow> u16 \<Rightarrow> bool" where
  "bl_meta_seq_is_newer candidate current =
     (let delta = candidate - current in delta \<noteq> 0 \<and> delta < 0x8000)"

definition bl_meta_slot_is_erased :: "mem \<Rightarrow> u32 \<Rightarrow> bool" where
  "bl_meta_slot_is_erased m addr = list_all (\<lambda>i. m (addr + of_nat i) = 0xFF) [0 ..< 60]"

fun bl_meta_scan :: "mem \<Rightarrow> nat list \<Rightarrow> (u32 \<times> ota_metadata) option \<Rightarrow> (u32 \<times> ota_metadata) option" where
  "bl_meta_scan m [] best = best"
| "bl_meta_scan m (i # is) best =
     (let addr = 0x08010000 + of_nat i * 60; rec = meta_of_bytes (rdn m addr 60)
      in if bl_meta_slot_is_erased m addr then best
         else if \<not> bl_metadata_validate rec then bl_meta_scan m is best
         else if (case best of None \<Rightarrow> True | Some (_, b) \<Rightarrow> bl_meta_seq_is_newer (meta_seq rec) (meta_seq b))
              then bl_meta_scan m is (Some (addr, rec))
              else bl_meta_scan m is best)"

definition bl_meta_find_latest :: "mem \<Rightarrow> (u32 \<times> ota_metadata) option" where
  "bl_meta_find_latest m = bl_meta_scan m [0 ..< 0x10000 div 60] None"

definition bl_meta_find_append_addr :: "mem \<Rightarrow> u32 option" where
  "bl_meta_find_append_addr m =
     map_option (\<lambda>i. 0x08010000 + of_nat i * 60)
       (List.find (\<lambda>i. bl_meta_slot_is_erased m (0x08010000 + of_nat i * 60)) [0 ..< 0x10000 div 60])"

definition bl_metadata_write_record :: "u32 \<Rightarrow> ota_metadata \<Rightarrow> flash \<Rightarrow> bool \<times> flash" where
  "bl_metadata_write_record addr meta f =
     (let (ok, f1) = program_loop addr (meta_bytes meta) f
      in if \<not> ok then (False, f1)
         else if \<not> compare_loop (fl_mem f1) addr (meta_bytes meta) then (False, f1)
         else (bl_metadata_validate (meta_of_bytes (rdn (fl_mem f1) addr 60)), f1))"

definition bl_metadata_erase_sector :: "flash \<Rightarrow> bool \<times> flash" where
  "bl_metadata_erase_sector f = (let (st, f1) = HAL_FLASHEx_Erase 4 1 f in (st = HAL_OK, f1))"

definition bl_metadata_load_or_default :: "mem \<Rightarrow> ota_metadata" where
  "bl_metadata_load_or_default m =
     (case bl_meta_find_latest m of Some (_, r) \<Rightarrow> r | None \<Rightarrow> bl_metadata_default)"

definition bl_metadata_any_valid :: "mem \<Rightarrow> bool" where
  "bl_metadata_any_valid m \<longleftrightarrow> bl_meta_find_latest m \<noteq> None"

definition bl_metadata_set_error :: "ota_metadata \<Rightarrow> u32 \<Rightarrow> ota_metadata" where
  "bl_metadata_set_error m err = bl_metadata_update_crc (m\<lparr>last_error := err\<rparr>)"

definition bl_metadata_min_allowed_version :: "ota_metadata \<Rightarrow> u32" where
  "bl_metadata_min_allowed_version m = (if min_allowed_version m = 0 then 1 else min_allowed_version m)"

definition bl_metadata_commit :: "ota_metadata \<Rightarrow> flash \<Rightarrow> bool \<times> flash" where
  "bl_metadata_commit meta f =
     (let work = (if meta_seq meta = 0 then meta\<lparr>meta_seq := 1\<rparr> else meta);
          work1 = bl_metadata_update_crc work;
          f1 = HAL_FLASH_Unlock f
      in case bl_meta_find_append_addr (fl_mem f1) of
           Some append_addr \<Rightarrow>
             (let (ok, f2) = bl_metadata_write_record append_addr work1 f1 in (ok, HAL_FLASH_Lock f2))
         | None \<Rightarrow>
             (let (ok, f2) = bl_metadata_erase_sector f1
              in if \<not> ok then (False, HAL_FLASH_Lock f2)
                 else let (ok1, f3) = bl_metadata_write_record 0x08010000 work1 f2
                      in (ok1, HAL_FLASH_Lock f3)))"

section \<open>Records and checksums\<close>

lemma update_crc_valid:
  "magic m = BL_META_MAGIC \<Longrightarrow> schema_version m = BL_META_SCHEMA_VERSION \<Longrightarrow>
   bl_metadata_validate (bl_metadata_update_crc m)"
  by (simp add: bl_metadata_validate_def bl_metadata_validate_reason_def bl_metadata_update_crc_def Let_def)

lemma update_crc_fields [simp]:
  "magic (bl_metadata_update_crc m) = magic m" "schema_version (bl_metadata_update_crc m) = schema_version m"
  "meta_seq (bl_metadata_update_crc m) = meta_seq m"
  by (simp_all add: bl_metadata_update_crc_def Let_def)

lemma validate_magic: "bl_metadata_validate m \<Longrightarrow> magic m = BL_META_MAGIC"
  by (simp add: bl_metadata_validate_def bl_metadata_validate_reason_def split: if_splits)

lemma validate_crc:
  "bl_metadata_validate m \<Longrightarrow> bl_metadata_update_crc m = m"
  by (simp add: bl_metadata_validate_def bl_metadata_validate_reason_def bl_metadata_update_crc_def Let_def
      split: if_splits)

section \<open>The scan reads the newest record of the log\<close>

lemma addr_eq: "0x08010000 + of_nat i * 60 = meta_addr i"
  by (simp add: meta_addr_def)

lemma slot_is_erased_eq: "bl_meta_slot_is_erased m addr \<longleftrightarrow> erased_slot (rdn m addr 60)"
  by (auto simp: bl_meta_slot_is_erased_def erased_slot_def list_all_iff rdn_eq_iff)

lemma seq_is_newer_eq [simp]: "bl_meta_seq_is_newer c d = seq_newer c d"
  by (simp add: bl_meta_seq_is_newer_def seq_newer_def Let_def)

lemma scan_newest:
  "map_option snd (bl_meta_scan m is best) =
   newest bl_metadata_validate (map (\<lambda>i. rdn m (meta_addr i) 60) is) (map_option snd best)"
  by (induction m "is" best rule: bl_meta_scan.induct)
     (auto simp: addr_eq slot_is_erased_eq erased_slot_def Let_def split: option.splits)

lemma find_latest_newest:
  "map_option snd (bl_meta_find_latest m) = newest bl_metadata_validate (meta_slots m) None"
  by (simp add: bl_meta_find_latest_def scan_newest meta_slots_def meta_max_records_def)

lemma find_append_Some:
  assumes "bl_meta_find_append_addr m = Some a"
  obtains k where "k < meta_max_records" "a = meta_addr k" "erased_slot (meta_slots m ! k)"
    "\<And>j. j < k \<Longrightarrow> \<not> erased_slot (meta_slots m ! j)"
  using assms
  by (auto simp: bl_meta_find_append_addr_def find_Some_iff addr_eq slot_is_erased_eq
      nth_meta_slots meta_max_records)

lemma find_append_None:
  "bl_meta_find_append_addr m = None \<longleftrightarrow> (\<forall>k < meta_max_records. \<not> erased_slot (meta_slots m ! k))"
  by (auto simp: bl_meta_find_append_addr_def find_None_iff addr_eq slot_is_erased_eq nth_meta_slots meta_max_records)

section \<open>Committing\<close>

definition commit_record :: "ota_metadata \<Rightarrow> ota_metadata" where
  "commit_record meta = bl_metadata_update_crc (if meta_seq meta = 0 then meta\<lparr>meta_seq := 1\<rparr> else meta)"

lemma commit_record_fields [simp]:
  "magic (commit_record m) = magic m" "schema_version (commit_record m) = schema_version m"
  "active_slot (commit_record m) = active_slot m" "pending_slot (commit_record m) = pending_slot m"
  "confirmed_slot (commit_record m) = confirmed_slot m" "boot_attempts (commit_record m) = boot_attempts m"
  "app_a_version (commit_record m) = app_a_version m" "app_a_size (commit_record m) = app_a_size m"
  "app_a_crc32 (commit_record m) = app_a_crc32 m" "app_a_state (commit_record m) = app_a_state m"
  "app_b_version (commit_record m) = app_b_version m" "app_b_size (commit_record m) = app_b_size m"
  "app_b_crc32 (commit_record m) = app_b_crc32 m" "app_b_state (commit_record m) = app_b_state m"
  "rollback_count (commit_record m) = rollback_count m" "last_error (commit_record m) = last_error m"
  "min_allowed_version (commit_record m) = min_allowed_version m"
  by (simp_all add: commit_record_def bl_metadata_update_crc_def Let_def)

text \<open>A record whose sequence number is one more than another's is stored as newer, also when the
  number wraps around to zero and is stored as one.\<close>

lemma commit_record_newer: "meta_seq m = s + 1 \<Longrightarrow> bl_meta_seq_is_newer (meta_seq (commit_record m)) s"
proof -
  assume m: "meta_seq m = s + 1"
  show ?thesis
  proof (cases "s + 1 = 0")
    case True
    then have "s = - 1" by (simp add: eq_neg_iff_add_eq_0)
    then show ?thesis using m by (simp add: commit_record_def seq_newer_def)
  qed (simp add: m commit_record_def seq_newer_def)
qed

lemma write_record_alt:
  "bl_metadata_write_record addr w f =
     (let (ok, f1) = program_compare addr (meta_bytes w) f
      in (ok \<and> bl_metadata_validate (meta_of_bytes (rdn (fl_mem f1) addr 60)), f1))"
  by (auto simp: bl_metadata_write_record_def program_compare_def split: prod.splits)

lemma write_record_spec:
  assumes "bl_metadata_write_record addr w f = (ok, f')"
  shows "only_in addr 60 f f'" and "ok \<Longrightarrow> rdn (fl_mem f') addr 60 = meta_bytes w"
    and "ok \<Longrightarrow> bl_metadata_validate w"
proof -
  obtain ok1 where w: "program_compare addr (meta_bytes w) f = (ok1, f')"
      "ok = (ok1 \<and> bl_metadata_validate (meta_of_bytes (rdn (fl_mem f') addr 60)))"
    using assms by (auto simp: write_record_alt split: prod.splits)
  show "only_in addr 60 f f'" using program_compare_only_in [OF w(1)] by simp
  show *: "ok \<Longrightarrow> rdn (fl_mem f') addr 60 = meta_bytes w"
    using w bytewise.wr_readback [of addr "meta_bytes w" f f'] by simp
  show "ok \<Longrightarrow> bl_metadata_validate w" using w(2) * by simp
qed

lemma write_record_ok:
  assumes "programmable addr 60 f" "bl_metadata_validate w"
  shows "fst (bl_metadata_write_record addr w f)"
  using bytewise.wr_ready_content [of addr "meta_bytes w" f] assms
  by (auto simp: write_record_alt split: prod.splits simp flip: length_greater_0_conv)

text \<open>Storing a finished record in the log: the part of a commit that does not depend on how the
  record was made.\<close>

definition log_store :: "ota_metadata \<Rightarrow> flash \<Rightarrow> bool \<times> flash" where
  "log_store w f =
     (case bl_meta_find_append_addr (fl_mem (HAL_FLASH_Unlock f)) of
        Some addr \<Rightarrow> (let (ok, f2) = bl_metadata_write_record addr w (HAL_FLASH_Unlock f) in (ok, HAL_FLASH_Lock f2))
      | None \<Rightarrow>
          (let (ok, f2) = bl_metadata_erase_sector (HAL_FLASH_Unlock f)
           in if \<not> ok then (False, HAL_FLASH_Lock f2)
              else let (ok1, f3) = bl_metadata_write_record 0x08010000 w f2 in (ok1, HAL_FLASH_Lock f3)))"

lemma commit_log_store: "bl_metadata_commit meta f = log_store (commit_record meta) f"
  by (simp add: bl_metadata_commit_def log_store_def commit_record_def Let_def)

lemma store_cases:
  assumes "log_store w f = (ok, f')"
  obtains
    (append) k where "k < meta_max_records" "erased_slot (meta_slots (fl_mem f) ! k)"
      "\<And>j. j < k \<Longrightarrow> \<not> erased_slot (meta_slots (fl_mem f) ! j)"
      "\<exists>f2. bl_metadata_write_record (meta_addr k) w (HAL_FLASH_Unlock f) = (ok, f2) \<and> f' = HAL_FLASH_Lock f2"
  | (erase_failed) f2 where "\<forall>k < meta_max_records. \<not> erased_slot (meta_slots (fl_mem f) ! k)"
      "bl_metadata_erase_sector (HAL_FLASH_Unlock f) = (False, f2)" "f' = HAL_FLASH_Lock f2" "\<not> ok"
  | (rotate) f2 f3 where "\<forall>k < meta_max_records. \<not> erased_slot (meta_slots (fl_mem f) ! k)"
      "bl_metadata_erase_sector (HAL_FLASH_Unlock f) = (True, f2)"
      "bl_metadata_write_record (meta_addr 0) w f2 = (ok, f3)" "f' = HAL_FLASH_Lock f3"
proof -
  have m: "fl_mem (HAL_FLASH_Unlock f) = fl_mem f" by (simp add: HAL_FLASH_Unlock_def)
  note c = assms [unfolded log_store_def m]
  show thesis
  proof (cases "bl_meta_find_append_addr (fl_mem f)")
    case (Some a)
    then obtain k where "k < meta_max_records" "a = meta_addr k" "erased_slot (meta_slots (fl_mem f) ! k)"
        "\<And>j. j < k \<Longrightarrow> \<not> erased_slot (meta_slots (fl_mem f) ! j)" by (rule find_append_Some) blast
    then show thesis using append [of k] c Some by (auto split: prod.splits)
  next
    case None
    then have full: "\<forall>k < meta_max_records. \<not> erased_slot (meta_slots (fl_mem f) ! k)"
      by (simp only: find_append_None)
    obtain ok2 f2 where e: "bl_metadata_erase_sector (HAL_FLASH_Unlock f) = (ok2, f2)"
      by (cases "bl_metadata_erase_sector (HAL_FLASH_Unlock f)")
    show thesis
      using c None e full erase_failed rotate
      by (cases ok2) (auto simp: meta_addr_def split: prod.splits)
  qed
qed

lemma commit_record_seq: "meta_seq (commit_record m) = (if meta_seq m = 0 then 1 else meta_seq m)"
  by (simp add: commit_record_def)

lemma commit_record_valid:
  "magic m = BL_META_MAGIC \<Longrightarrow> schema_version m = BL_META_SCHEMA_VERSION \<Longrightarrow>
   bl_metadata_validate (commit_record m)"
  by (simp add: commit_record_def update_crc_valid)

text \<open>What an append does to the log, whatever its outcome.\<close>

lemma append_slots:
  assumes "k < meta_max_records"
    "bl_metadata_write_record (meta_addr k) w (HAL_FLASH_Unlock f) = (ok, f2)" "f' = HAL_FLASH_Lock f2"
  shows "meta_slots (fl_mem f') = (meta_slots (fl_mem f))[k := rdn (fl_mem f') (meta_addr k) 60]"
    and "ok \<Longrightarrow> rdn (fl_mem f') (meta_addr k) 60 = meta_bytes w"
proof -
  note w = write_record_spec [OF assms(2)]
  show "meta_slots (fl_mem f') = (meta_slots (fl_mem f))[k := rdn (fl_mem f') (meta_addr k) 60]"
    using assms(1) by (rule meta_slots_write)
      (use w(1) in \<open>simp add: assms(3) only_in_def HAL_FLASH_Lock_def HAL_FLASH_Unlock_def\<close>)
  show "ok \<Longrightarrow> rdn (fl_mem f') (meta_addr k) 60 = meta_bytes w"
    using w(2) by (simp add: assms(3) HAL_FLASH_Lock_def)
qed

lemma erase_sector_slots:
  assumes "bl_metadata_erase_sector f = (ok, f')"
  shows "only_in 0x08010000 0x10000 f f'"
    and "ok \<Longrightarrow> \<not> fl_locked f \<Longrightarrow> i < meta_max_records \<Longrightarrow> erased_slot (meta_slots (fl_mem f') ! i)"
proof -
  obtain st where e: "HAL_FLASHEx_Erase 4 1 f = (st, f')" "ok = (st = HAL_OK)"
    using assms by (auto simp: bl_metadata_erase_sector_def split: prod.splits)
  have r: "sectors_range [4 ..< 1 + 4] x \<longleftrightarrow> in_range 0x08010000 0x10000 x" for x
    by (simp add: sectors_range_def upt_rec sector_base_def sector_size_def)
  show "only_in 0x08010000 0x10000 f f'"
    using HAL_FLASHEx_Erase_spec(1) [OF e(1)] r by (simp add: only_at_def only_in_def)
  show "erased_slot (meta_slots (fl_mem f') ! i)" if "ok" "\<not> fl_locked f" "i < meta_max_records"
    using HAL_FLASHEx_Erase_spec(2) [OF e(1)] e(2) that r slots_in_sector [OF that(3)]
    by (auto simp: erased_slot_def nth_meta_slots rdn_eq_iff sector_base_def sector_size_def in_range_nth)
qed

section \<open>What a reader sees after a commit\<close>

lemma log_in_order_erased: "\<forall>s \<in> set ss. erased_slot s \<Longrightarrow> log_in_order ss"
  by (auto simp: log_in_order_def)

lemma load_newest:
  "bl_metadata_load_or_default m =
     (case newest bl_metadata_validate (meta_slots m) None of Some r \<Rightarrow> r | None \<Rightarrow> bl_metadata_default)"
  by (auto simp: bl_metadata_load_or_default_def simp flip: find_latest_newest split: option.splits)

lemma any_valid_newest:
  "bl_metadata_any_valid m \<longleftrightarrow> newest bl_metadata_validate (meta_slots m) None \<noteq> None"
  by (simp add: bl_metadata_any_valid_def flip: find_latest_newest)

lemma append_newest:
  assumes "log_in_order (meta_slots (fl_mem f))" "k < meta_max_records" "erased_slot (meta_slots (fl_mem f) ! k)"
    "\<And>j. j < k \<Longrightarrow> \<not> erased_slot (meta_slots (fl_mem f) ! j)"
    "bl_metadata_write_record (meta_addr k) w (HAL_FLASH_Unlock f) = (True, f2)" "f' = HAL_FLASH_Lock f2"
  shows "newest bl_metadata_validate (meta_slots (fl_mem f')) None =
    (case newest bl_metadata_validate (meta_slots (fl_mem f)) None of
       None \<Rightarrow> Some w | Some b \<Rightarrow> if seq_newer (meta_seq w) (meta_seq b) then Some w else Some b)"
    and "log_in_order (meta_slots (fl_mem f'))"
proof -
  note sl = append_slots [OF assms(2) assms(5,6)]
  have v: "bl_metadata_validate w" using write_record_spec(3) [OF assms(5)] by simp
  then have "\<not> erased_slot (meta_bytes w)"
    using meta_bytes_not_erased validate_magic by (simp add: erased_slot_def)
  then show "newest bl_metadata_validate (meta_slots (fl_mem f')) None =
    (case newest bl_metadata_validate (meta_slots (fl_mem f)) None of
       None \<Rightarrow> Some w | Some b \<Rightarrow> if seq_newer (meta_seq w) (meta_seq b) then Some w else Some b)"
    using newest_fill [OF assms(1) _ assms(3,4), of bl_metadata_validate "meta_bytes w"] sl v assms(2)
    by (simp add: Let_def split: option.splits)
  show "log_in_order (meta_slots (fl_mem f'))"
    using log_in_order_fill [OF assms(1) _ assms(3,4)] sl(1) assms(2) by simp
qed

lemma rotate_newest:
  assumes "bl_metadata_erase_sector (HAL_FLASH_Unlock f) = (True, f2)"
    "bl_metadata_write_record (meta_addr 0) w f2 = (True, f3)" "f' = HAL_FLASH_Lock f3"
  shows "newest bl_metadata_validate (meta_slots (fl_mem f')) None = Some w"
    and "log_in_order (meta_slots (fl_mem f'))"
proof -
  have all: "\<forall>s \<in> set (meta_slots (fl_mem f2)). erased_slot s"
    using erase_sector_slots(2) [OF assms(1)]
    by (metis HAL_FLASH_Unlock_def flash.select_convs(2) flash.surjective flash.update_convs(2)
        in_set_conv_nth length_meta_slots)
  have o: "log_in_order (meta_slots (fl_mem f2))" using all by (rule log_in_order_erased)
  have z: "0 < meta_max_records" by (simp add: meta_max_records)
  have e0: "erased_slot (meta_slots (fl_mem f2) ! 0)" using all z by simp
  have "only_in (meta_addr 0) 60 f2 f3" "rdn (fl_mem f3) (meta_addr 0) 60 = meta_bytes w" "bl_metadata_validate w"
    using write_record_spec [OF assms(2)] by simp_all
  then have sl: "meta_slots (fl_mem f') = (meta_slots (fl_mem f2))[0 := meta_bytes w]" and v: "bl_metadata_validate w"
    using meta_slots_write [OF z, of "fl_mem f3" "fl_mem f2"]
    by (simp_all add: assms(3) only_in_def HAL_FLASH_Lock_def)
  have "\<not> erased_slot (meta_bytes w)"
    using v meta_bytes_not_erased validate_magic by (simp add: erased_slot_def)
  then show "newest bl_metadata_validate (meta_slots (fl_mem f')) None = Some w"
    using newest_fill [OF o _ e0, of bl_metadata_validate "meta_bytes w"] z v
      newest_erased_rest [OF all, of bl_metadata_validate None] by (simp add: sl Let_def)
  show "log_in_order (meta_slots (fl_mem f'))"
    using log_in_order_fill [OF o _ e0] z by (simp add: sl)
qed

lemma store_persists:
  assumes "log_store w f = (True, f')" "log_in_order (meta_slots (fl_mem f))"
    and "\<And>r. newest bl_metadata_validate (meta_slots (fl_mem f)) None = Some r \<Longrightarrow> seq_newer (meta_seq w) (meta_seq r)"
  shows "newest bl_metadata_validate (meta_slots (fl_mem f')) None = Some w" "log_in_order (meta_slots (fl_mem f'))"
  using assms(1)
proof (atomize (full), cases rule: store_cases)
  case (append k)
  then obtain f2 where f2: "bl_metadata_write_record (meta_addr k) w (HAL_FLASH_Unlock f) = (True, f2)"
      "f' = HAL_FLASH_Lock f2" by blast
  then show "newest bl_metadata_validate (meta_slots (fl_mem f')) None = Some w \<and> log_in_order (meta_slots (fl_mem f'))"
    using append_newest [OF assms(2) append(1-3) f2] assms(3) by (auto split: option.splits)
next
  case (rotate f2 f3)
  then show "newest bl_metadata_validate (meta_slots (fl_mem f')) None = Some w \<and> log_in_order (meta_slots (fl_mem f'))"
    using rotate_newest [OF rotate(2-4)] by simp
qed simp

lemma commit_persists:
  assumes "bl_metadata_commit meta f = (True, f')" "log_in_order (meta_slots (fl_mem f))"
    and "bl_metadata_any_valid (fl_mem f) \<Longrightarrow>
      bl_meta_seq_is_newer (meta_seq (commit_record meta)) (meta_seq (bl_metadata_load_or_default (fl_mem f)))"
  shows "bl_metadata_load_or_default (fl_mem f') = commit_record meta \<and> bl_metadata_any_valid (fl_mem f') \<and>
    log_in_order (meta_slots (fl_mem f'))"
proof -
  have "seq_newer (meta_seq (commit_record meta)) (meta_seq r)"
    if "newest bl_metadata_validate (meta_slots (fl_mem f)) None = Some r" for r
    using assms(3) that by (simp add: load_newest any_valid_newest)
  note store_persists [OF assms(1) [unfolded commit_log_store] assms(2) this]
  then show ?thesis by (simp add: load_newest any_valid_newest)
qed

text \<open>C6: a committed record survives the reset: when its sequence number is newer than that of the
  record read before, or the log had no valid record, a commit that reports success makes the next
  load return exactly the committed record, in both the append and the rotate case, and leaves the
  log in order.\<close>

theorem bl_metadata_commit_persists:
  assumes "bl_metadata_commit meta f = (True, f')" "log_in_order (meta_slots (fl_mem f))"
    and "bl_metadata_any_valid (fl_mem f) \<Longrightarrow>
      bl_meta_seq_is_newer (meta_seq (commit_record meta)) (meta_seq (bl_metadata_load_or_default (fl_mem f)))"
  shows "bl_metadata_load_or_default (fl_mem f') = commit_record meta \<and> bl_metadata_any_valid (fl_mem f') \<and>
    log_in_order (meta_slots (fl_mem f'))"
  using assms by (rule commit_persists)

lemma sample_slots_erased:
  "meta_slots (fl_mem sample_flash) = replicate meta_max_records (replicate 60 0xFF)"
  by (rule nth_equalityI) (simp_all add: nth_meta_slots sample_flash_def rdn_eq_iff)

lemma sample_log: "log_in_order (meta_slots (fl_mem sample_flash))" "\<not> bl_metadata_any_valid (fl_mem sample_flash)"
  by (simp_all add: sample_slots_erased log_in_order_erased erased_slot_def any_valid_newest
      newest_erased_rest)

lemma flash_ready_commit:
  assumes "flash_ready 0x08010000 0x10000 f" "magic m = BL_META_MAGIC" "schema_version m = BL_META_SCHEMA_VERSION"
  shows "fst (bl_metadata_commit m f)"
proof -
  obtain ok f' where c: "bl_metadata_commit m f = (ok, f')" by (cases "bl_metadata_commit m f")
  have e: "erased_slot (meta_slots (fl_mem f) ! 0)"
    using assms(1) by (auto simp: nth_meta_slots meta_max_records erased_slot_def rdn_eq_iff flash_ready_def
        meta_addr_def in_range_nth)
  from c [unfolded commit_log_store] have "ok"
  proof (cases rule: store_cases)
    case (append k)
    then have "k = 0" using e by (metis gr0I)
    moreover have "programmable (meta_addr 0) 60 (HAL_FLASH_Unlock f)"
      using assms(1) by (auto simp: programmable_def flash_ready_def HAL_FLASH_Unlock_def waits_ok_def
          erased_cell_law_def meta_addr_def dest: in_range_mono [where n = "0x10000"])
    ultimately show ?thesis
      using append(4) write_record_ok [of "meta_addr 0" "HAL_FLASH_Unlock f" "commit_record m"]
        commit_record_valid [OF assms(2,3)] by auto
  qed (use e in \<open>auto simp: meta_max_records\<close>)
  then show ?thesis using c by simp
qed

theorem bl_metadata_commit_persists_witness:
  "\<exists>f'. bl_metadata_commit bl_metadata_default sample_flash = (True, f') \<and>
     bl_metadata_load_or_default (fl_mem f') = commit_record bl_metadata_default"
proof -
  have "fst (bl_metadata_commit bl_metadata_default sample_flash)"
    by (rule flash_ready_commit) (simp_all add: sample_flash_ready bl_metadata_default_def)
  then obtain f' where "bl_metadata_commit bl_metadata_default sample_flash = (True, f')"
    by (metis prod.collapse)
  with bl_metadata_commit_persists [OF this sample_log(1)] sample_log(2) show ?thesis by blast
qed

lemma commit_same_seq:
  assumes "bl_metadata_commit meta f = (True, f')" "log_in_order (meta_slots (fl_mem f))"
    and "bl_metadata_any_valid (fl_mem f)" "bl_meta_find_append_addr (fl_mem f) \<noteq> None"
    and "meta_seq meta = meta_seq (bl_metadata_load_or_default (fl_mem f))" "meta_seq meta \<noteq> 0"
  shows "bl_metadata_load_or_default (fl_mem f') = bl_metadata_load_or_default (fl_mem f)"
  using assms(1) [unfolded commit_log_store]
proof (cases rule: store_cases)
  case (append k)
  then obtain f2 where f2: "bl_metadata_write_record (meta_addr k) (commit_record meta) (HAL_FLASH_Unlock f) = (True, f2)"
      "f' = HAL_FLASH_Lock f2" by blast
  then show ?thesis
    using append_newest(1) [OF assms(2) append(1-3) f2] assms(3,5,6)
    by (auto simp: load_newest any_valid_newest commit_record_seq seq_newer_def)
qed (use assms(4) in \<open>auto simp: find_append_None [symmetric]\<close>)

text \<open>A commit that does not advance the sequence number is reported as written and yet changes
  nothing that a later boot can see: while the log has a free slot, the next load still returns the
  old record.\<close>

theorem bl_metadata_commit_same_seq_invisible:
  assumes "bl_metadata_commit meta f = (True, f')" "log_in_order (meta_slots (fl_mem f))"
    and "bl_metadata_any_valid (fl_mem f)" "bl_meta_find_append_addr (fl_mem f) \<noteq> None"
    and "meta_seq meta = meta_seq (bl_metadata_load_or_default (fl_mem f))" "meta_seq meta \<noteq> 0"
  shows "bl_metadata_load_or_default (fl_mem f') = bl_metadata_load_or_default (fl_mem f)"
  using assms by (rule commit_same_seq)

text \<open>The first and the second commit into an erased sector, on a controller that answers.\<close>

lemma ready_slots:
  assumes "flash_ready 0x08010000 0x10000 f"
  shows "\<forall>s \<in> set (meta_slots (fl_mem f)). erased_slot s"
proof
  fix s assume "s \<in> set (meta_slots (fl_mem f))"
  then obtain i where i: "i < meta_max_records" "s = rdn (fl_mem f) (meta_addr i) 60"
    by (auto simp: in_set_conv_nth nth_meta_slots)
  have "in_range (sector_base 4) (sector_size 4) (meta_addr i + of_nat k)" if "k < 60" for k
    using slots_in_sector [OF i(1)] in_range_nth [of k 60 "meta_addr i"] that by simp
  then show "erased_slot s"
    using assms by (simp add: i(2) erased_slot_def rdn_eq_iff flash_ready_def sector_base_def sector_size_def)
qed

lemma ready_unlogged:
  assumes "flash_ready 0x08010000 0x10000 f"
  shows "log_in_order (meta_slots (fl_mem f))" "\<not> bl_metadata_any_valid (fl_mem f)"
    "bl_metadata_load_or_default (fl_mem f) = bl_metadata_default"
  using log_in_order_erased [OF ready_slots [OF assms]]
    newest_erased_rest [OF ready_slots [OF assms], of bl_metadata_validate None]
  by (simp_all add: any_valid_newest load_newest)

lemma first_commit:
  assumes "flash_ready 0x08010000 0x10000 f" "magic m = BL_META_MAGIC" "schema_version m = BL_META_SCHEMA_VERSION"
  obtains f1 where "bl_metadata_commit m f = (True, f1)"
    "bl_metadata_load_or_default (fl_mem f1) = commit_record m" "bl_metadata_any_valid (fl_mem f1)"
    "log_in_order (meta_slots (fl_mem f1))" "\<not> erased_slot (meta_slots (fl_mem f1) ! 0)"
    "erased_slot (meta_slots (fl_mem f1) ! 1)"
    "waits_ok f1" "erased_cell_law f1" "\<forall>x. in_range (meta_addr 1) 60 x \<longrightarrow> fl_mem f1 x = 0xFF"
proof -
  obtain f1 where c: "bl_metadata_commit m f = (True, f1)"
    using flash_ready_commit [OF assms] by (metis prod.collapse)
  have er: "i < meta_max_records \<Longrightarrow> erased_slot (meta_slots (fl_mem f) ! i)" for i
    using ready_slots [OF assms(1)] by simp
  from c [unfolded commit_log_store] show thesis
  proof (cases rule: store_cases)
    case (append k)
    have k: "k = 0" using append(3) [of 0] er [of 0] by (simp add: meta_max_records) blast
    obtain f2 where f2: "bl_metadata_write_record (meta_addr 0) (commit_record m) (HAL_FLASH_Unlock f) = (True, f2)"
        "f1 = HAL_FLASH_Lock f2" using append(4) k by auto
    have a: "newest bl_metadata_validate (meta_slots (fl_mem f1)) None = Some (commit_record m)"
      "log_in_order (meta_slots (fl_mem f1))"
      using append_newest [OF ready_unlogged(1) [OF assms(1)] append(1-3) f2 [folded k]] ready_unlogged(2) [OF assms(1)]
      by (simp_all add: any_valid_newest k)
    have sl: "meta_slots (fl_mem f1) = (meta_slots (fl_mem f))[0 := meta_bytes (commit_record m)]"
      using append_slots [OF _ f2] append(1) k by simp
    have o: "only_in (meta_addr 0) 60 (HAL_FLASH_Unlock f) f2" using write_record_spec(1) [OF f2(1)] .
    have "fl_mem f1 x = 0xFF" if x: "in_range (meta_addr 1) 60 x" for x
    proof -
      have "\<not> in_range (meta_addr 0) 60 x" using slots_disjoint [of 0 1 x] x by (auto simp: meta_max_records)
      moreover have "in_range 0x08010000 0x10000 x"
        using slots_in_sector [of 1 x] x by (simp add: sector_base_def sector_size_def meta_max_records)
      ultimately show ?thesis
        using o f2(2) assms(1) by (simp add: only_in_def flash_ready_def HAL_FLASH_Lock_def HAL_FLASH_Unlock_def)
    qed
    moreover have "waits_ok f1" "erased_cell_law f1"
      using o f2(2) assms(1) by (simp_all add: flash_ready_def waits_ok_def erased_cell_law_def only_in_def fl_env_def
          HAL_FLASH_Lock_def HAL_FLASH_Unlock_def)
    moreover have "\<not> erased_slot (meta_slots (fl_mem f1) ! 0)"
      using meta_bytes_not_erased [of "commit_record m"] assms(2)
      by (simp add: sl meta_max_records) (simp add: erased_slot_def)
    moreover have "erased_slot (meta_slots (fl_mem f1) ! 1)" using er [of 1] by (simp add: sl meta_max_records)
    ultimately show thesis using that [OF c] a by (simp add: load_newest any_valid_newest)
  qed (use er in \<open>auto simp: meta_max_records dest: spec [where x = 0]\<close>)
qed

lemma second_commit:
  assumes "\<not> erased_slot (meta_slots (fl_mem f1) ! 0)" "erased_slot (meta_slots (fl_mem f1) ! 1)"
    "waits_ok f1" "erased_cell_law f1" "\<forall>x. in_range (meta_addr 1) 60 x \<longrightarrow> fl_mem f1 x = 0xFF"
    "magic m = BL_META_MAGIC" "schema_version m = BL_META_SCHEMA_VERSION"
  obtains f2 where "bl_metadata_commit m f1 = (True, f2)" "bl_meta_find_append_addr (fl_mem f1) \<noteq> None"
proof -
  obtain ok f2 where c: "bl_metadata_commit m f1 = (ok, f2)" by (cases "bl_metadata_commit m f1")
  from c [unfolded commit_log_store] have "ok"
  proof (cases rule: store_cases)
    case (append k)
    have "k = 1" using append(1-3) assms(1,2) by (metis One_nat_def gr0I less_one linorder_neqE_nat)
    moreover have "programmable (meta_addr 1) 60 (HAL_FLASH_Unlock f1)"
      using assms(3-5) by (simp add: programmable_def HAL_FLASH_Unlock_def waits_ok_def erased_cell_law_def)
    ultimately show ?thesis
      using append(4) write_record_ok [of "meta_addr 1" "HAL_FLASH_Unlock f1" "commit_record m"]
        commit_record_valid [OF assms(6,7)] by auto
  qed (use assms(2) in \<open>auto simp: meta_max_records\<close>)
  moreover have "bl_meta_find_append_addr (fl_mem f1) \<noteq> None"
    using assms(2) unfolding find_append_None by (auto simp: meta_max_records intro!: exI [of _ 1])
  ultimately show thesis using that c by simp
qed

lemma default_meta [simp]:
  "magic bl_metadata_default = BL_META_MAGIC" "schema_version bl_metadata_default = BL_META_SCHEMA_VERSION"
  "meta_seq bl_metadata_default = 1" "commit_record bl_metadata_default = bl_metadata_default"
  by (simp_all add: commit_record_def bl_metadata_default_def bl_metadata_update_crc_def Let_def)

theorem bl_metadata_commit_same_seq_invisible_witness:
  "\<exists>f1 f2. bl_metadata_commit bl_metadata_default sample_flash = (True, f1) \<and>
     bl_metadata_commit (bl_metadata_default\<lparr>boot_attempts := 1\<rparr>) f1 = (True, f2) \<and>
     bl_metadata_load_or_default (fl_mem f2) = bl_metadata_default"
proof -
  let ?m = "bl_metadata_default\<lparr>boot_attempts := 1\<rparr>"
  obtain f1 where f1: "bl_metadata_commit bl_metadata_default sample_flash = (True, f1)"
    "bl_metadata_load_or_default (fl_mem f1) = bl_metadata_default" "bl_metadata_any_valid (fl_mem f1)"
    "log_in_order (meta_slots (fl_mem f1))" "\<not> erased_slot (meta_slots (fl_mem f1) ! 0)"
    "erased_slot (meta_slots (fl_mem f1) ! 1)"
    "waits_ok f1" "erased_cell_law f1" "\<forall>x. in_range (meta_addr 1) 60 x \<longrightarrow> fl_mem f1 x = 0xFF"
    by (rule first_commit [OF sample_flash_ready, of bl_metadata_default]) simp_all
  obtain f2 where f2: "bl_metadata_commit ?m f1 = (True, f2)" "bl_meta_find_append_addr (fl_mem f1) \<noteq> None"
    by (rule second_commit [OF f1(5-9), of ?m]) simp_all
  have "bl_metadata_load_or_default (fl_mem f2) = bl_metadata_default"
    using bl_metadata_commit_same_seq_invisible [OF f2(1) f1(4,3) f2(2)] f1(2) by simp
  then show ?thesis using f1(1) f2(1) by blast
qed

text \<open>C7: an interrupted or failing append never loses the metadata. Whatever the outcome of a commit
  into a free slot, and whatever the controller left in that slot, the next load returns either the
  record it returned before, or a record that validates and has a newer sequence number.\<close>

theorem bl_metadata_commit_keeps_old:
  assumes "bl_metadata_commit meta f = (ok, f')" "log_in_order (meta_slots (fl_mem f))"
    and "bl_metadata_any_valid (fl_mem f)" "bl_meta_find_append_addr (fl_mem f) \<noteq> None"
  shows "bl_metadata_any_valid (fl_mem f') \<and> log_in_order (meta_slots (fl_mem f')) \<and>
    (bl_metadata_load_or_default (fl_mem f') = bl_metadata_load_or_default (fl_mem f) \<or>
     bl_metadata_validate (bl_metadata_load_or_default (fl_mem f')) \<and>
     bl_meta_seq_is_newer (meta_seq (bl_metadata_load_or_default (fl_mem f')))
       (meta_seq (bl_metadata_load_or_default (fl_mem f))))"
  using assms(1) [unfolded commit_log_store]
proof (cases rule: store_cases)
  case (append k)
  then obtain f2 where f2: "bl_metadata_write_record (meta_addr k) (commit_record meta) (HAL_FLASH_Unlock f) = (ok, f2)"
      "f' = HAL_FLASH_Lock f2" by blast
  note sl = append_slots(1) [OF append(1) f2]
  have "k < length (meta_slots (fl_mem f))" using append(1) by simp
  note fill = newest_fill [OF assms(2) this append(2,3), of bl_metadata_validate]
    log_in_order_fill [OF assms(2) this append(2,3)]
  obtain b where b: "newest bl_metadata_validate (meta_slots (fl_mem f)) None = Some b"
    using assms(3) by (auto simp: any_valid_newest)
  show ?thesis
    unfolding any_valid_newest load_newest using fill(1) [of "rdn (fl_mem f') (meta_addr k) 60"]
    by (simp add: sl fill(2) b Let_def)
qed (use assms(4) in \<open>auto simp: find_append_None [symmetric]\<close>)

theorem bl_metadata_commit_keeps_old_witness:
  "\<exists>f1. bl_metadata_commit bl_metadata_default sample_flash = (True, f1) \<and>
    bl_metadata_any_valid (fl_mem (snd (bl_metadata_commit bl_metadata_default (f1\<lparr>fl_wait := \<lambda>_. HAL_TIMEOUT\<rparr>))))"
proof -
  obtain f1 where f1: "bl_metadata_commit bl_metadata_default sample_flash = (True, f1)"
    "bl_metadata_any_valid (fl_mem f1)" "log_in_order (meta_slots (fl_mem f1))" "\<not> erased_slot (meta_slots (fl_mem f1) ! 0)"
    "erased_slot (meta_slots (fl_mem f1) ! 1)"
    "waits_ok f1" "erased_cell_law f1" "\<forall>x. in_range (meta_addr 1) 60 x \<longrightarrow> fl_mem f1 x = 0xFF"
    by (rule first_commit [OF sample_flash_ready, of bl_metadata_default]) simp_all
  let ?f = "f1\<lparr>fl_wait := \<lambda>_. HAL_TIMEOUT\<rparr>"
  obtain g where "bl_meta_find_append_addr (fl_mem f1) \<noteq> None"
    by (rule second_commit [OF f1(4-8), of bl_metadata_default]) simp_all
  moreover obtain ok f2 where c: "bl_metadata_commit bl_metadata_default ?f = (ok, f2)"
    by (cases "bl_metadata_commit bl_metadata_default ?f")
  ultimately have "bl_metadata_any_valid (fl_mem f2)"
    using bl_metadata_commit_keeps_old [of bl_metadata_default ?f ok f2] f1(2,3) by simp
  then have "bl_metadata_any_valid (fl_mem (snd (bl_metadata_commit bl_metadata_default ?f)))"
    using c by simp
  then show ?thesis using f1(1) by blast
qed

text \<open>A commit stays inside the metadata sector and leaves the controller locked, whatever its outcome.\<close>

lemma store_frame:
  "(\<forall>x. fl_mem (snd (log_store w f)) x = fl_mem f x \<or> in_range 0x08010000 0x10000 x) \<and>
   fl_locked (snd (log_store w f))"
proof -
  obtain ok f' where c: "log_store w f = (ok, f')" by (cases "log_store w f")
  have slot: "i < meta_max_records \<Longrightarrow> in_range (meta_addr i) 60 x \<Longrightarrow> in_range 0x08010000 0x10000 x" for i x
    using slots_in_sector by (simp add: sector_base_def sector_size_def)
  have m: "fl_mem (HAL_FLASH_Unlock f) = fl_mem f" "fl_mem (HAL_FLASH_Lock g) = fl_mem g"
    "fl_locked (HAL_FLASH_Lock g)" for g
    by (simp_all add: HAL_FLASH_Unlock_def HAL_FLASH_Lock_def)
  from c have "(\<forall>x. fl_mem f' x = fl_mem f x \<or> in_range 0x08010000 0x10000 x) \<and> fl_locked f'"
  proof (cases rule: store_cases)
    case (append k)
    then obtain f2 where f2: "f' = HAL_FLASH_Lock f2" "only_in (meta_addr k) 60 (HAL_FLASH_Unlock f) f2"
      using write_record_spec(1) by blast
    then have "fl_mem f' x = fl_mem f x \<or> in_range 0x08010000 0x10000 x" for x
      using slot [OF append(1), of x] by (auto simp: only_in_def m)
    then show ?thesis using f2(1) by (simp add: m)
  next
    case (erase_failed f2)
    then show ?thesis using erase_sector_slots(1) by (auto simp: only_in_def m)
  next
    case (rotate f2 f3)
    have "\<not> in_range 0x08010000 0x10000 x \<Longrightarrow> \<not> in_range (meta_addr 0) 60 x" for x
      using slot [of 0 x] by (auto simp: meta_max_records)
    then have "fl_mem f' x = fl_mem f x \<or> in_range 0x08010000 0x10000 x" for x
      using erase_sector_slots(1) [OF rotate(2)] write_record_spec(1) [OF rotate(3)]
      by (cases "in_range 0x08010000 0x10000 x") (simp_all add: only_in_def m rotate(4))
    then show ?thesis by (simp add: m rotate(4))
  qed
  then show ?thesis using c by simp
qed

lemma commit_frame:
  "(\<forall>x. fl_mem (snd (bl_metadata_commit meta f)) x = fl_mem f x \<or> in_range 0x08010000 0x10000 x) \<and>
   fl_locked (snd (bl_metadata_commit meta f))"
  unfolding commit_log_store by (rule store_frame)

end
