(* ===== verification/Boot_Ota.thy ===== *)
theory Boot_Ota
  imports Boot_Frame Boot_Flash Boot_Metadata
begin

text \<open>
  The update session of the bootloader (\<open>bootloader/bootloader_ota.c\<close>): the handlers of PREPARE,
  DATA, VERIFY, COMMIT and ABORT, and the loop that reads frames, announces itself while nobody has
  started a session, and gives up after a time without frames. The state is the session, the
  metadata in RAM, the flash, the frames sent, and whether the processor was reset.
\<close>

section \<open>State\<close>

record bl_ota_ctx =
  ctx_active :: bool
  expected_seq :: u16
  target_base :: u32
  image_size :: u32
  image_crc32 :: u32
  chunk_size :: u16
  image_version :: u32
  write_offset :: u32

record boot =
  b_ctx :: bl_ota_ctx
  b_meta :: ota_metadata
  b_flash :: flash
  b_tx :: "send_result list"
  b_reset :: bool

datatype bl_err =
    BL_ERR_BAD_PAYLOAD | BL_ERR_BAD_CHUNK_SIZE | BL_ERR_BAD_TARGET | BL_ERR_ERASE_FAILED | BL_ERR_BAD_OFFSET
  | BL_ERR_WRITE_FAILED | BL_ERR_BAD_CRC32 | BL_ERR_BAD_VECTOR | BL_ERR_META_COMMIT | BL_ERR_ROLLBACK

fun bl_err_code :: "bl_err \<Rightarrow> u16" where
  "bl_err_code BL_ERR_BAD_PAYLOAD = 1"
| "bl_err_code BL_ERR_BAD_CHUNK_SIZE = 2"
| "bl_err_code BL_ERR_BAD_TARGET = 3"
| "bl_err_code BL_ERR_ERASE_FAILED = 4"
| "bl_err_code BL_ERR_BAD_OFFSET = 5"
| "bl_err_code BL_ERR_WRITE_FAILED = 6"
| "bl_err_code BL_ERR_BAD_CRC32 = 7"
| "bl_err_code BL_ERR_BAD_VECTOR = 8"
| "bl_err_code BL_ERR_META_COMMIT = 9"
| "bl_err_code BL_ERR_ROLLBACK = 10"

definition bl_ctx_reset :: bl_ota_ctx where
  "bl_ctx_reset = \<lparr>ctx_active = False, expected_seq = 0, target_base = 0, image_size = 0, image_crc32 = 0,
     chunk_size = 0, image_version = 0, write_offset = 0\<rparr>"

definition b_send :: "send_result \<Rightarrow> boot \<Rightarrow> boot" where
  "b_send r b = b\<lparr>b_tx := b_tx b @ [r]\<rparr>"

definition b_ack :: "u16 \<Rightarrow> boot \<Rightarrow> boot" where
  "b_ack seq b = b_send (bl_send_ack seq) b"

definition b_nack :: "u16 \<Rightarrow> bl_err \<Rightarrow> boot \<Rightarrow> boot" where
  "b_nack seq err b = b_send (bl_send_nack seq (bl_err_code err)) b"

section \<open>Checks\<close>

definition bl_vector_valid_for_slot :: "mem \<Rightarrow> u32 \<Rightarrow> u32 \<Rightarrow> bool" where
  "bl_vector_valid_for_slot m slot_base slot_size =
     (let sp = rdmem32 m slot_base; pc = rdmem32 m (slot_base + 4)
      in if sp < 0x20000000 \<or> sp \<ge> 0x20030000 then False
         else if pc < slot_base \<or> pc \<ge> slot_base + slot_size then False
         else True)"

definition bl_pick_target_slot :: "ota_metadata \<Rightarrow> u32" where
  "bl_pick_target_slot meta = (if active_slot meta = BL_SLOT_A then BL_APP_B_BASE else BL_APP_A_BASE)"

definition bl_prepare_target_allowed :: "ota_metadata \<Rightarrow> u32 \<Rightarrow> bool" where
  "bl_prepare_target_allowed meta target =
     (if \<not> bl_flash_is_slot_base target then False
      else if (app_a_state meta = img_code IMG_INVALID \<or> app_a_state meta = img_code IMG_ROLLBACK) \<and>
              (app_b_state meta = img_code IMG_INVALID \<or> app_b_state meta = img_code IMG_ROLLBACK) then True
      else if active_slot meta = BL_SLOT_NONE \<or> confirmed_slot meta = BL_SLOT_NONE then True
      else if active_slot meta = BL_SLOT_A \<and> target = BL_APP_A_BASE then False
      else if active_slot meta = BL_SLOT_B \<and> target = BL_APP_B_BASE then False
      else if confirmed_slot meta = BL_SLOT_A \<and> target = BL_APP_A_BASE then False
      else if confirmed_slot meta = BL_SLOT_B \<and> target = BL_APP_B_BASE then False
      else True)"

definition bl_ota_send_hello :: "ota_metadata \<Rightarrow> send_result" where
  "bl_ota_send_hello meta =
     bl_send_frame 0x20 ([ucast BL_META_SCHEMA_VERSION, active_slot meta, pending_slot meta, confirmed_slot meta] @
       bl_push_u32 (rollback_count meta))"

section \<open>Handlers\<close>

text \<open>PREPARE in its parts: the target, the session fields as the request overwrites them before it is
  checked, the checks in their order, and the session that an accepted request starts.\<close>

definition prepare_target :: "ota_metadata \<Rightarrow> u8 list \<Rightarrow> u32" where
  "prepare_target meta payload =
     (if length payload \<ge> 16 then bl_read_u32 payload 12 else bl_pick_target_slot meta)"

definition prepare_fields :: "u8 list \<Rightarrow> bl_ota_ctx \<Rightarrow> bl_ota_ctx" where
  "prepare_fields payload c =
     (let c1 = c\<lparr>image_size := bl_read_u32 payload 2, image_crc32 := bl_read_u32 payload 6,
                 chunk_size := bl_read_u16 payload 10, image_version := 0\<rparr>
      in if length payload \<ge> 20 then c1\<lparr>image_version := bl_read_u32 payload 16\<rparr> else c1)"

definition prepare_refusal :: "ota_metadata \<Rightarrow> u32 \<Rightarrow> bl_ota_ctx \<Rightarrow> bl_err option" where
  "prepare_refusal meta target c =
     (if image_size c = 0 \<or> image_size c > BL_APP_A_SIZE then Some BL_ERR_BAD_PAYLOAD
      else if chunk_size c = 0 \<or> chunk_size c > 246 then Some BL_ERR_BAD_CHUNK_SIZE
      else if \<not> bl_prepare_target_allowed meta target then Some BL_ERR_BAD_TARGET
      else if image_version c \<noteq> 0 \<and> image_version c < bl_metadata_min_allowed_version meta
      then Some BL_ERR_ROLLBACK
      else None)"

definition prepare_session :: "u8 list \<Rightarrow> u32 \<Rightarrow> bl_ota_ctx" where
  "prepare_session payload target =
     (let c3 = bl_ctx_reset\<lparr>ctx_active := True, expected_seq := bl_read_u16 payload 0 + 1, target_base := target,
                 image_size := bl_read_u32 payload 2, image_crc32 := bl_read_u32 payload 6,
                 chunk_size := bl_read_u16 payload 10\<rparr>;
          c4 = (if length payload \<ge> 20 then c3\<lparr>image_version := bl_read_u32 payload 16\<rparr> else c3)
      in c4\<lparr>write_offset := 0\<rparr>)"

definition bl_handle_prepare :: "u8 list \<Rightarrow> boot \<Rightarrow> boot" where
  "bl_handle_prepare payload b =
     (if length payload < 12 then b_nack 0 BL_ERR_BAD_PAYLOAD b
      else
        let seq = bl_read_u16 payload 0;
            target = prepare_target (b_meta b) payload;
            b2 = b\<lparr>b_ctx := prepare_fields payload (b_ctx b)\<rparr>
        in case prepare_refusal (b_meta b) target (b_ctx b2) of
             Some err \<Rightarrow> b_nack seq err b2
           | None \<Rightarrow>
               (let (erase_ok, f1) = bl_flash_erase_slot target (b_flash b2);
                    b3 = b2\<lparr>b_flash := f1\<rparr>
                in if \<not> erase_ok then b_nack seq BL_ERR_ERASE_FAILED b3
                   else b_ack seq (b3\<lparr>b_ctx := prepare_session payload target\<rparr>)))"

definition data_duplicate :: "u8 list \<Rightarrow> bl_ota_ctx \<Rightarrow> bool" where
  "data_duplicate payload c \<longleftrightarrow>
     (let prev_seq = expected_seq c - 1; chunk_len = bl_read_u16 payload 6
      in bl_read_u16 payload 0 = prev_seq \<and> unat chunk_len = length payload - 8 \<and>
         bl_read_u32 payload 2 + ucast chunk_len = write_offset c)"

definition data_refusal :: "u8 list \<Rightarrow> bl_ota_ctx \<Rightarrow> bl_err option" where
  "data_refusal payload c =
     (let seq = bl_read_u16 payload 0; offset = bl_read_u32 payload 2; chunk_len = bl_read_u16 payload 6
      in if seq \<noteq> expected_seq c then Some BL_ERR_BAD_OFFSET
         else if unat chunk_len \<noteq> length payload - 8 \<or> chunk_len > chunk_size c then Some BL_ERR_BAD_PAYLOAD
         else if offset \<noteq> write_offset c \<or> offset + ucast chunk_len > image_size c then Some BL_ERR_BAD_OFFSET
         else None)"

definition bl_handle_data :: "u8 list \<Rightarrow> boot \<Rightarrow> boot" where
  "bl_handle_data payload b =
     (let c = b_ctx b in
      if \<not> ctx_active c \<or> length payload < 8 then b_nack 0 BL_ERR_BAD_PAYLOAD b
      else
        let seq = bl_read_u16 payload 0; offset = bl_read_u32 payload 2; chunk_len = bl_read_u16 payload 6
        in if data_duplicate payload c then b_ack seq b
           else case data_refusal payload c of
             Some err \<Rightarrow> b_nack seq err b
           | None \<Rightarrow>
               (let (ok, f1) = bl_flash_write (target_base c + offset)
                                 (take (unat chunk_len) (drop 8 payload)) (b_flash b);
                    b1 = b\<lparr>b_flash := f1\<rparr>
                in if \<not> ok then b_nack seq BL_ERR_WRITE_FAILED b1
                   else b_ack seq (b1\<lparr>b_ctx := c\<lparr>write_offset := write_offset c + ucast chunk_len,
                                                   expected_seq := expected_seq c + 1\<rparr>\<rparr>)))"

definition bl_handle_verify :: "u8 list \<Rightarrow> boot \<Rightarrow> boot" where
  "bl_handle_verify payload b =
     (let len = length payload; c = b_ctx b in
      if \<not> ctx_active c \<or> len < 6 then b_nack 0 BL_ERR_BAD_PAYLOAD b
      else
        let seq = bl_read_u16 payload 0; crc_in = bl_read_u32 payload 2
        in if seq \<noteq> expected_seq c \<or> crc_in \<noteq> image_crc32 c \<or> write_offset c \<noteq> image_size c
           then b_nack seq BL_ERR_BAD_PAYLOAD b
           else
             let crc = bl_crc32 (rdn (fl_mem (b_flash b)) (target_base c) (unat (image_size c)))
             in if crc \<noteq> image_crc32 c then b_nack seq BL_ERR_BAD_CRC32 b
                else if \<not> bl_vector_valid_for_slot (fl_mem (b_flash b)) (target_base c) BL_APP_A_SIZE
                then b_nack seq BL_ERR_BAD_VECTOR b
                else b_ack seq (b\<lparr>b_ctx := c\<lparr>expected_seq := expected_seq c + 1\<rparr>\<rparr>))"

definition bl_commit_meta :: "bl_ota_ctx \<Rightarrow> ota_metadata \<Rightarrow> ota_metadata" where
  "bl_commit_meta c meta =
     (let slot = (if target_base c = BL_APP_B_BASE then BL_SLOT_B else BL_SLOT_A);
          n1 = meta\<lparr>pending_slot := slot, boot_attempts := 0\<rparr>;
          n2 = (if slot = BL_SLOT_A
                then n1\<lparr>app_a_state := img_code IMG_PENDING, app_a_size := image_size c,
                        app_a_crc32 := image_crc32 c, app_a_version := image_version c\<rparr>
                else n1\<lparr>app_b_state := img_code IMG_PENDING, app_b_size := image_size c,
                        app_b_crc32 := image_crc32 c, app_b_version := image_version c\<rparr>)
      in n2\<lparr>meta_seq := meta_seq n2 + 1\<rparr>)"

definition bl_handle_commit :: "u8 list \<Rightarrow> boot \<Rightarrow> boot" where
  "bl_handle_commit payload b =
     (let len = length payload; c = b_ctx b in
      if \<not> ctx_active c \<or> len < 2 then b_nack 0 BL_ERR_BAD_PAYLOAD b
      else
        let seq = bl_read_u16 payload 0
        in if seq \<noteq> expected_seq c then b_nack seq BL_ERR_BAD_PAYLOAD b
           else
             let nxt = bl_commit_meta c (b_meta b);
                 (ok, f1) = bl_metadata_commit nxt (b_flash b);
                 b1 = b\<lparr>b_flash := f1\<rparr>
             in if \<not> ok then b_nack seq BL_ERR_META_COMMIT b1
                else (b_ack seq (b1\<lparr>b_meta := nxt\<rparr>))\<lparr>b_reset := True\<rparr>)"

definition bl_handle_abort :: "u8 list \<Rightarrow> boot \<Rightarrow> boot" where
  "bl_handle_abort payload b =
     (let seq = (if length payload \<ge> 2 then bl_read_u16 payload 0 else 0)
      in b_ack seq (b\<lparr>b_ctx := bl_ctx_reset\<rparr>))"

definition bl_handle_get_version :: "boot \<Rightarrow> boot" where
  "bl_handle_get_version b =
     b_send (bl_send_frame 0x21 (bl_push_u32 (app_a_version (b_meta b)) @ bl_push_u32 (app_b_version (b_meta b)))) b"

section \<open>The session loop\<close>

text \<open>One element of the input is what one call of \<open>bl_read_frame\<close> gives: a frame, or nothing within its
  100 ms. The loop ends when the idle time is used up, or with the reset after a commit.\<close>

record ota_loop =
  idle_elapsed_ms :: u32
  hello_elapsed_ms :: u32
  hello_idx :: u32
  hello_periodic_enabled :: bool

datatype loop_end = Running | Idle_timeout | Was_reset

definition bl_ota_frame :: "u8 \<Rightarrow> u8 list \<Rightarrow> ota_loop \<times> boot \<Rightarrow> ota_loop \<times> boot" where
  "bl_ota_frame type payload = (\<lambda>(l, b).
     if type = 0x31 then (l\<lparr>idle_elapsed_ms := 0, hello_periodic_enabled := False\<rparr>, bl_handle_prepare payload b)
     else if type = 0x32 then (l\<lparr>idle_elapsed_ms := 0\<rparr>, bl_handle_data payload b)
     else if type = 0x33 then (l\<lparr>idle_elapsed_ms := 0\<rparr>, bl_handle_verify payload b)
     else if type = 0x34 then (l\<lparr>idle_elapsed_ms := 0\<rparr>, bl_handle_commit payload b)
     else if type = 0x35 then (l\<lparr>idle_elapsed_ms := 0\<rparr>, bl_handle_abort payload b)
     else if type = 0x37 then (l\<lparr>idle_elapsed_ms := 0\<rparr>, bl_handle_get_version b)
     else (l, b))"

definition bl_ota_no_frame :: "u32 \<Rightarrow> ota_loop \<times> boot \<Rightarrow> bool \<times> ota_loop \<times> boot" where
  "bl_ota_no_frame idle_timeout_ms = (\<lambda>(l, b).
     let l1 = (if idle_timeout_ms > 0 then l\<lparr>idle_elapsed_ms := idle_elapsed_ms l + 100\<rparr> else l);
         (l2, b2) =
           (if hello_periodic_enabled l1
            then let l' = l1\<lparr>hello_elapsed_ms := hello_elapsed_ms l1 + 100\<rparr>
                 in if hello_elapsed_ms l' \<ge> 300
                    then (l'\<lparr>hello_idx := hello_idx l' + 1, hello_elapsed_ms := 0\<rparr>,
                          b_send (bl_ota_send_hello (b_meta b)) b)
                    else (l', b)
            else (l1, b))
     in (idle_timeout_ms > 0 \<and> idle_elapsed_ms l2 \<ge> idle_timeout_ms, l2, b2))"

fun bl_ota_loop_from ::
  "u32 \<Rightarrow> (u8 \<times> u8 list) option list \<Rightarrow> ota_loop \<times> boot \<Rightarrow> loop_end \<times> ota_loop \<times> boot" where
  "bl_ota_loop_from idle_timeout_ms [] s = (Running, s)"
| "bl_ota_loop_from idle_timeout_ms (None # evs) s =
     (let (expired, s1) = bl_ota_no_frame idle_timeout_ms s
      in if expired then (Idle_timeout, s1) else bl_ota_loop_from idle_timeout_ms evs s1)"
| "bl_ota_loop_from idle_timeout_ms (Some (type, payload) # evs) s =
     (let s1 = bl_ota_frame type payload s
      in if b_reset (snd s1) then (Was_reset, s1) else bl_ota_loop_from idle_timeout_ms evs s1)"

definition bl_ota_loop :: "u32 \<Rightarrow> (u8 \<times> u8 list) option list \<Rightarrow> boot \<Rightarrow> loop_end \<times> ota_loop \<times> boot" where
  "bl_ota_loop idle_timeout_ms evs b =
     bl_ota_loop_from idle_timeout_ms evs
       (\<lparr>idle_elapsed_ms = 0, hello_elapsed_ms = 0, hello_idx = 0, hello_periodic_enabled = True\<rparr>,
        b_send (bl_ota_send_hello (b_meta b)) (b\<lparr>b_ctx := bl_ctx_reset\<rparr>))"

section \<open>What a request changes\<close>

lemma b_send_simps [simp, frame_simps]:
  "b_ctx (b_send r b) = b_ctx b" "b_meta (b_send r b) = b_meta b" "b_flash (b_send r b) = b_flash b"
  "b_reset (b_send r b) = b_reset b" "b_tx (b_send r b) = b_tx b @ [r]"
  by (simp_all add: b_send_def)

lemma b_ack_simps [simp, frame_simps]:
  "b_ctx (b_ack s b) = b_ctx b" "b_meta (b_ack s b) = b_meta b" "b_flash (b_ack s b) = b_flash b"
  "b_reset (b_ack s b) = b_reset b" "b_tx (b_ack s b) = b_tx b @ [bl_send_ack s]"
  by (simp_all add: b_ack_def)

lemma b_nack_simps [simp, frame_simps]:
  "b_ctx (b_nack s e b) = b_ctx b" "b_meta (b_nack s e b) = b_meta b" "b_flash (b_nack s e b) = b_flash b"
  "b_reset (b_nack s e b) = b_reset b" "b_tx (b_nack s e b) = b_tx b @ [bl_send_nack s (bl_err_code e)]"
  by (simp_all add: b_nack_def)

text \<open>An acknowledgement is never a refusal: the two frames differ in their type byte.\<close>

lemma ack_frame: "bl_send_ack s = Sent (frame_bytes bl_crc16_modbus 0x22 (le16 s))"
  by (simp add: bl_send_ack_def BL_UP_OTA_ACK_def bl_send_frame_fits)

lemma nack_frame: "bl_send_nack s e = Sent (frame_bytes bl_crc16_modbus 0x23 (le16 s @ le16 e))"
  by (simp add: bl_send_nack_def BL_UP_OTA_NACK_def bl_send_frame_fits)

lemma ack_neq_nack [simp]: "bl_send_ack s \<noteq> bl_send_nack s' e" "bl_send_nack s' e \<noteq> bl_send_ack s"
  using bl_wire.frame_bytes_inject [of "0x22" "le16 s" "0x23" "le16 s' @ le16 e"]
  by (auto simp: ack_frame nack_frame)

lemma ack_inject [simp]: "bl_send_ack s = bl_send_ack s' \<longleftrightarrow> s = s'"
  using bl_wire.frame_bytes_inject [of "0x22" "le16 s" "0x22" "le16 s'"] by (auto simp: ack_frame)

lemma nack_inject [simp]: "bl_send_nack s e = bl_send_nack s' e' \<longleftrightarrow> s = s' \<and> e = e'"
proof
  assume "bl_send_nack s e = bl_send_nack s' e'"
  then have "le16 s @ le16 e = le16 s' @ le16 e'"
    using bl_wire.frame_bytes_inject [of "0x23" "le16 s @ le16 e" "0x23" "le16 s' @ le16 e'"]
    by (auto simp: nack_frame)
  then show "s = s' \<and> e = e'" by simp
qed simp

text \<open>A handler answers exactly once; whether it accepted is the last frame sent.\<close>

definition accepted :: "u16 \<Rightarrow> boot \<Rightarrow> bool" where
  "accepted seq b \<longleftrightarrow> b_tx b \<noteq> [] \<and> last (b_tx b) = bl_send_ack seq"

lemma accepted_simps [simp]:
  "accepted s (b_ack s' b) \<longleftrightarrow> s = s'" "\<not> accepted s (b_nack s' e b)"
  by (auto simp: accepted_def)

section \<open>PREPARE\<close>

lemma target_allowed_slot: "bl_prepare_target_allowed meta t \<Longrightarrow> bl_flash_is_slot_base t"
  by (simp add: bl_prepare_target_allowed_def split: if_splits)

lemma prepare_refusal_None:
  "prepare_refusal meta t c = None \<Longrightarrow> bl_prepare_target_allowed meta t \<and> 0 < image_size c \<and>
   image_size c \<le> BL_APP_A_SIZE \<and> 0 < chunk_size c \<and> chunk_size c \<le> 246"
  by (auto simp: prepare_refusal_def word_gt_0 split: if_splits)

lemma prepare_cases:
  obtains
    (short) "length p < 12" "bl_handle_prepare p b = b_nack 0 BL_ERR_BAD_PAYLOAD b"
  | (refused) e where "12 \<le> length p"
      "prepare_refusal (b_meta b) (prepare_target (b_meta b) p) (prepare_fields p (b_ctx b)) = Some e"
      "bl_handle_prepare p b = b_nack (bl_read_u16 p 0) e (b\<lparr>b_ctx := prepare_fields p (b_ctx b)\<rparr>)"
  | (erase_failed) f1 where "12 \<le> length p"
      "prepare_refusal (b_meta b) (prepare_target (b_meta b) p) (prepare_fields p (b_ctx b)) = None"
      "bl_flash_erase_slot (prepare_target (b_meta b) p) (b_flash b) = (False, f1)"
      "bl_handle_prepare p b = b_nack (bl_read_u16 p 0) BL_ERR_ERASE_FAILED
         (b\<lparr>b_ctx := prepare_fields p (b_ctx b), b_flash := f1\<rparr>)"
  | (started) f1 where "12 \<le> length p"
      "prepare_refusal (b_meta b) (prepare_target (b_meta b) p) (prepare_fields p (b_ctx b)) = None"
      "bl_flash_erase_slot (prepare_target (b_meta b) p) (b_flash b) = (True, f1)"
      "bl_handle_prepare p b = b_ack (bl_read_u16 p 0)
         (b\<lparr>b_flash := f1, b_ctx := prepare_session p (prepare_target (b_meta b) p)\<rparr>)"
proof -
  let ?t = "prepare_target (b_meta b) p"
  obtain ok f1 where e: "bl_flash_erase_slot ?t (b_flash b) = (ok, f1)" by (cases "bl_flash_erase_slot ?t (b_flash b)")
  show thesis
  proof (cases "length p < 12")
    case True
    show thesis by (rule short) (use True in \<open>simp_all add: bl_handle_prepare_def\<close>)
  next
    case False
    then have l: "12 \<le> length p" by simp
    show thesis
    proof (cases "prepare_refusal (b_meta b) ?t (prepare_fields p (b_ctx b))")
      case None
      show thesis
      proof (cases ok)
        case True
        show thesis by (rule started) (use l None e True in \<open>simp_all add: bl_handle_prepare_def Let_def\<close>)
      next
        case False
        show thesis by (rule erase_failed) (use l None e False in \<open>simp_all add: bl_handle_prepare_def Let_def\<close>)
      qed
    next
      case (Some err)
      show thesis by (rule refused) (use l Some in \<open>simp_all add: bl_handle_prepare_def Let_def\<close>)
    qed
  qed
qed

lemma slots_apart: "in_range BL_APP_A_BASE 0x60000 x \<Longrightarrow> \<not> in_range BL_APP_B_BASE 0x60000 x"
  using in_range_disjoint [of BL_APP_A_BASE "0x60000" "0x60000" x] by (auto simp: bl_layout)


text \<open>A fresh device: default metadata, an erased flash, no session.\<close>

definition sample_boot :: boot where
  "sample_boot = \<lparr>b_ctx = bl_ctx_reset, b_meta = bl_metadata_default, b_flash = sample_flash, b_tx = [], b_reset = False\<rparr>"

lemma default_meta_fields [simp]:
  "active_slot bl_metadata_default = BL_SLOT_A" "confirmed_slot bl_metadata_default = BL_SLOT_A"
  "app_a_state bl_metadata_default = 1" "app_b_state bl_metadata_default = 0"
  "min_allowed_version bl_metadata_default = 1"
  by (simp_all add: bl_metadata_default_def bl_metadata_update_crc_def Let_def)


section \<open>DATA\<close>

definition ota_inv :: "bl_ota_ctx \<Rightarrow> bool" where
  "ota_inv c \<longleftrightarrow> (ctx_active c \<longrightarrow> bl_flash_is_slot_base (target_base c) \<and> image_size c \<le> BL_APP_A_SIZE \<and>
     write_offset c \<le> image_size c \<and> 0 < chunk_size c \<and> chunk_size c \<le> 246)"

text \<open>The image bytes that the session has put in flash so far.\<close>

definition ota_received :: "boot \<Rightarrow> u8 list" where
  "ota_received b = rdn (fl_mem (b_flash b)) (target_base (b_ctx b)) (unat (write_offset (b_ctx b)))"

lemma prepare_field_simps [simp]:
  "image_size (prepare_fields p c) = bl_read_u32 p 2" "image_crc32 (prepare_fields p c) = bl_read_u32 p 6"
  "chunk_size (prepare_fields p c) = bl_read_u16 p 10"
  "ctx_active (prepare_fields p c) = ctx_active c" "target_base (prepare_fields p c) = target_base c"
  "write_offset (prepare_fields p c) = write_offset c" "expected_seq (prepare_fields p c) = expected_seq c"
  by (simp_all add: prepare_fields_def Let_def)

lemma prepare_session_simps [simp]:
  "image_size (prepare_session p t) = bl_read_u32 p 2" "image_crc32 (prepare_session p t) = bl_read_u32 p 6"
  "chunk_size (prepare_session p t) = bl_read_u16 p 10" "ctx_active (prepare_session p t)"
  "target_base (prepare_session p t) = t" "write_offset (prepare_session p t) = 0"
  "expected_seq (prepare_session p t) = bl_read_u16 p 0 + 1"
  by (simp_all add: prepare_session_def Let_def)

lemma prepare_session_inv:
  "prepare_refusal meta t (prepare_fields p c) = None \<Longrightarrow> ota_inv (prepare_session p t)"
  using target_allowed_slot [of meta t] by (auto simp: ota_inv_def dest!: prepare_refusal_None)

lemma data_refusal_None:
  "data_refusal p c = None \<Longrightarrow> bl_read_u16 p 0 = expected_seq c \<and> unat (bl_read_u16 p 6) = length p - 8 \<and>
   bl_read_u16 p 6 \<le> chunk_size c \<and> bl_read_u32 p 2 = write_offset c \<and>
   write_offset c + ucast (bl_read_u16 p 6) \<le> image_size c"
  by (auto simp: data_refusal_def Let_def split: if_splits)

lemma data_cases:
  obtains
    (no_session) "\<not> ctx_active (b_ctx b) \<or> length p < 8" "bl_handle_data p b = b_nack 0 BL_ERR_BAD_PAYLOAD b"
  | (duplicate) "bl_handle_data p b = b_ack (bl_read_u16 p 0) b" "ctx_active (b_ctx b)" "data_duplicate p (b_ctx b)"
  | (refused) e where "ctx_active (b_ctx b)" "8 \<le> length p" "\<not> data_duplicate p (b_ctx b)"
      "data_refusal p (b_ctx b) = Some e" "bl_handle_data p b = b_nack (bl_read_u16 p 0) e b"
  | (write_failed) f1 where "ctx_active (b_ctx b)" "8 \<le> length p" "data_refusal p (b_ctx b) = None"
      "bl_flash_write (target_base (b_ctx b) + write_offset (b_ctx b)) (drop 8 p) (b_flash b) = (False, f1)"
      "bl_handle_data p b = b_nack (bl_read_u16 p 0) BL_ERR_WRITE_FAILED (b\<lparr>b_flash := f1\<rparr>)"
  | (appended) f1 where "ctx_active (b_ctx b)" "8 \<le> length p" "data_refusal p (b_ctx b) = None"
      "bl_flash_write (target_base (b_ctx b) + write_offset (b_ctx b)) (drop 8 p) (b_flash b) = (True, f1)"
      "bl_handle_data p b = b_ack (bl_read_u16 p 0) (b\<lparr>b_flash := f1, b_ctx := (b_ctx b)
         \<lparr>write_offset := write_offset (b_ctx b) + ucast (bl_read_u16 p 6),
          expected_seq := expected_seq (b_ctx b) + 1\<rparr>\<rparr>)"
proof (cases "ctx_active (b_ctx b) \<and> 8 \<le> length p \<and> \<not> data_duplicate p (b_ctx b)")
  case False
  show thesis
  proof (cases "\<not> ctx_active (b_ctx b) \<or> length p < 8")
    case True
    show thesis by (rule no_session) (use True in \<open>simp_all add: bl_handle_data_def Let_def\<close>)
  next
    case F: False
    show thesis by (rule duplicate) (use False F in \<open>simp_all add: bl_handle_data_def Let_def\<close>)
  qed
next
  case a: True
  show thesis
  proof (cases "data_refusal p (b_ctx b)")
    case (Some e)
    show thesis by (rule refused) (use a Some in \<open>simp_all add: bl_handle_data_def Let_def\<close>)
  next
    case None
    note n = data_refusal_None [OF None, simplified]
    obtain ok f1 where w: "bl_flash_write (target_base (b_ctx b) + write_offset (b_ctx b)) (drop 8 p) (b_flash b) = (ok, f1)"
      by (cases "bl_flash_write (target_base (b_ctx b) + write_offset (b_ctx b)) (drop 8 p) (b_flash b)")
    show thesis
    proof (cases ok)
      case True
      show thesis by (rule appended) (use a None n w True in \<open>simp_all add: bl_handle_data_def Let_def\<close>)
    next
      case False
      show thesis by (rule write_failed) (use a None n w False in \<open>simp_all add: bl_handle_data_def Let_def\<close>)
    qed
  qed
qed

lemma slot_size: "unat BL_APP_A_SIZE = 0x60000"
  by (simp add: bl_layout)

lemma data_bounds:
  assumes "ota_inv c" "ctx_active c" "data_refusal p c = None"
  shows "unat (write_offset c + ucast (bl_read_u16 p 6)) = unat (write_offset c) + (length p - 8)"
    and "unat (write_offset c) + (length p - 8) \<le> 0x60000" and "length p - 8 \<le> 246"
    and "write_offset c + ucast (bl_read_u16 p 6) = write_offset c + of_nat (length p - 8)"
proof -
  let ?n = "bl_read_u16 p 6"
  note d = data_refusal_None [OF assms(3)]
  have inv: "image_size c \<le> BL_APP_A_SIZE" "write_offset c \<le> image_size c" "chunk_size c \<le> 246"
    using assms(1,2) by (simp_all add: ota_inv_def)
  have "?n \<le> 246" using d inv(3) by (meson order_trans)
  then have n: "unat ?n \<le> 246" by (simp add: word_le_nat_alt)
  then show l: "length p - 8 \<le> 246" using d by simp
  have u: "unat (ucast ?n :: u32) = length p - 8" using d by simp
  then show eq: "write_offset c + ucast ?n = write_offset c + of_nat (length p - 8)"
    by (metis of_nat_unat ucast_id)
  have "unat (write_offset c) \<le> unat (image_size c)" "unat (image_size c) \<le> 0x60000"
    using inv slot_size by (simp_all add: word_le_nat_alt)
  then have "unat (write_offset c) + unat (ucast ?n :: u32) < 2 ^ LENGTH(32)" using u l by simp
  then show a: "unat (write_offset c + ucast ?n) = unat (write_offset c) + (length p - 8)"
    using u by (metis unat_add_lem)
  have "unat (write_offset c + ucast ?n) \<le> unat (image_size c)" using d by (simp add: word_le_nat_alt)
  then show "unat (write_offset c) + (length p - 8) \<le> 0x60000"
    using a \<open>unat (image_size c) \<le> 0x60000\<close> by simp
qed

lemma length_data: "8 \<le> length p \<Longrightarrow> length (drop 8 p) = length p - 8"
  by simp

text \<open>What one DATA request does to the flash and to the received part of the image.\<close>

lemma data_write:
  assumes "ota_inv (b_ctx b)" "ctx_active (b_ctx b)" "8 \<le> length p" "data_refusal p (b_ctx b) = None"
    and "bl_flash_write (target_base (b_ctx b) + write_offset (b_ctx b)) (drop 8 p) (b_flash b) = (ok, f1)"
  shows "fl_mem f1 x = fl_mem (b_flash b) x \<or>
      in_range (target_base (b_ctx b)) 0x60000 x \<and>
      \<not> in_range (target_base (b_ctx b)) (unat (write_offset (b_ctx b))) x"
    and "rdn (fl_mem f1) (target_base (b_ctx b)) (unat (write_offset (b_ctx b))) = ota_received b"
    and "ok \<Longrightarrow> rdn (fl_mem f1) (target_base (b_ctx b)) (unat (write_offset (b_ctx b)) + (length p - 8)) =
      ota_received b @ drop 8 p"
proof -
  let ?t = "target_base (b_ctx b)" and ?wo = "write_offset (b_ctx b)"
  note bd = data_bounds [OF assms(1,2,4)]
  have a: "?t + of_nat (unat ?wo) = ?t + ?wo" by simp
  have le: "length (drop 8 p) \<le> 2 ^ 32" using bd(3) by simp
  note w = bl_flash_write_only_in [OF assms(5) le]
  show out: "fl_mem f1 x = fl_mem (b_flash b) x \<or> in_range ?t 0x60000 x \<and> \<not> in_range ?t (unat ?wo) x" for x
  proof (cases "in_range (?t + ?wo) (length (drop 8 p)) x")
    case True
    then have "in_range (?t + of_nat (unat ?wo)) (length p - 8) x" by simp
    then have "\<not> in_range ?t (unat ?wo) x" "in_range ?t (unat ?wo + (length p - 8)) x"
      using bd(2) in_range_disjoint in_range_add [of "unat ?wo" "length p - 8" ?t x] by fastforce+
    then show ?thesis using bd(2) by (auto dest: in_range_mono)
  qed (use w(2) in simp)
  show keep: "rdn (fl_mem f1) ?t (unat ?wo) = ota_received b"
    unfolding ota_received_def using out bd(2) by (intro rdn_unchanged) auto
  show "rdn (fl_mem f1) ?t (unat ?wo + (length p - 8)) = ota_received b @ drop 8 p" if ok
    using w(4) that keep by (simp add: rdn_add)
qed

text \<open>C16: a session never writes outside its slot nor over image bytes it already has. Under the
  session invariant every DATA request, accepted or not, keeps the invariant and the metadata and
  changes flash at most between the write offset and the end of the target slot.\<close>

theorem bl_data_stays_in_slot:
  assumes "ota_inv (b_ctx b)"
  shows "ota_inv (b_ctx (bl_handle_data p b)) \<and> b_meta (bl_handle_data p b) = b_meta b \<and>
    (\<forall>x. fl_mem (b_flash (bl_handle_data p b)) x = fl_mem (b_flash b) x \<or>
         ctx_active (b_ctx b) \<and> in_range (target_base (b_ctx b)) 0x60000 x \<and>
         \<not> in_range (target_base (b_ctx b)) (unat (write_offset (b_ctx b))) x)"
proof (cases rule: data_cases [of b p])
  case (write_failed f1)
  then show ?thesis using data_write(1) [OF assms write_failed(1-4)] assms by simp
next
  case (appended f1)
  have "write_offset (b_ctx b) + ucast (bl_read_u16 p 6) \<le> image_size (b_ctx b)"
    using data_refusal_None [OF appended(3)] by simp
  then have "ota_inv ((b_ctx b)\<lparr>write_offset := write_offset (b_ctx b) + ucast (bl_read_u16 p 6),
      expected_seq := expected_seq (b_ctx b) + 1\<rparr>)"
    using assms by (simp add: ota_inv_def)
  then show ?thesis using data_write(1) [OF assms appended(1-4)] appended by simp
qed (use assms in simp_all)

text \<open>The bytes of a DATA request, and a small session that the witnesses share.\<close>

definition data_request :: "u16 \<Rightarrow> u32 \<Rightarrow> u8 list \<Rightarrow> u8 list" where
  "data_request seq off chunk = le16 seq @ le32 off @ le16 (of_nat (length chunk)) @ chunk"

definition sample_session :: boot where
  "sample_session = sample_boot\<lparr>b_ctx := bl_ctx_reset\<lparr>ctx_active := True, expected_seq := 6,
     target_base := BL_APP_B_BASE, image_size := 8, chunk_size := 4\<rparr>\<rparr>"

lemma sample_session_fields [simp]:
  "ctx_active (b_ctx sample_session)" "expected_seq (b_ctx sample_session) = 6"
  "target_base (b_ctx sample_session) = BL_APP_B_BASE" "image_size (b_ctx sample_session) = 8"
  "chunk_size (b_ctx sample_session) = 4" "write_offset (b_ctx sample_session) = 0"
  "b_flash sample_session = sample_flash"
  by (simp_all add: sample_session_def bl_ctx_reset_def sample_boot_def)

lemma sample_session_inv: "ota_inv (b_ctx sample_session)" "ctx_active (b_ctx sample_session)"
  by (simp_all add: ota_inv_def bl_flash_is_slot_base_def bl_layout)

theorem bl_data_stays_in_slot_witness:
  "fl_mem (b_flash (bl_handle_data (data_request 6 0 [1, 2, 3, 4]) sample_session)) 0x0807FFFF =
   fl_mem (b_flash sample_session) 0x0807FFFF"
proof -
  have "\<not> in_range (target_base (b_ctx sample_session)) 0x60000 0x0807FFFF"
    using slots_apart [of "0x0807FFFF"] by (simp add: in_range_def bl_layout)
  then show ?thesis
    using bl_data_stays_in_slot [OF sample_session_inv(1), of "data_request 6 0 [1, 2, 3, 4]"] by blast
qed

lemma data_not_duplicate: "data_refusal p c = None \<Longrightarrow> \<not> data_duplicate p c"
proof
  assume "data_refusal p c = None" "data_duplicate p c"
  then have "expected_seq c = expected_seq c - 1" by (auto simp: data_duplicate_def Let_def dest!: data_refusal_None)
  then show False by simp
qed

lemma data_appended_accepted:
  assumes "ctx_active (b_ctx b)" "8 \<le> length p" "data_refusal p (b_ctx b) = None" "accepted (bl_read_u16 p 0) (bl_handle_data p b)"
  obtains f1 where
    "bl_flash_write (target_base (b_ctx b) + write_offset (b_ctx b)) (drop 8 p) (b_flash b) = (True, f1)"
    "bl_handle_data p b = b_ack (bl_read_u16 p 0) (b\<lparr>b_flash := f1, b_ctx := (b_ctx b)
         \<lparr>write_offset := write_offset (b_ctx b) + ucast (bl_read_u16 p 6),
          expected_seq := expected_seq (b_ctx b) + 1\<rparr>\<rparr>)"
proof (cases rule: data_cases [of b p])
  case no_session
  then show thesis using assms(1,2) by simp
next
  case duplicate
  then show thesis using data_not_duplicate [OF assms(3)] by simp
next
  case (refused e)
  then show thesis using assms(3) by simp
next
  case (write_failed f1)
  then show thesis using assms(4) by simp
next
  case (appended f1)
  show thesis by (rule that) (fact appended)+
qed

text \<open>DATA is idempotent under retransmission. A request that was accepted and is sent again,
  because its acknowledgement was lost, is acknowledged again and changes neither the session nor
  the flash nor the metadata.\<close>

theorem bl_data_retransmission:
  assumes "ota_inv (b_ctx b)" "ctx_active (b_ctx b)" "8 \<le> length p" "data_refusal p (b_ctx b) = None"
    and "accepted (bl_read_u16 p 0) (bl_handle_data p b)"
  shows "bl_handle_data p (bl_handle_data p b) = b_ack (bl_read_u16 p 0) (bl_handle_data p b)"
proof -
  obtain f1 where h: "bl_handle_data p b = b_ack (bl_read_u16 p 0) (b\<lparr>b_flash := f1, b_ctx := (b_ctx b)
      \<lparr>write_offset := write_offset (b_ctx b) + ucast (bl_read_u16 p 6), expected_seq := expected_seq (b_ctx b) + 1\<rparr>\<rparr>)"
    using data_appended_accepted [OF assms(2-5)] by blast
  have "data_duplicate p (b_ctx (bl_handle_data p b))" "ctx_active (b_ctx (bl_handle_data p b))"
    using data_refusal_None [OF assms(4)] assms(2) by (simp_all add: h data_duplicate_def Let_def)
  then show ?thesis using assms(3) by (simp add: bl_handle_data_def [of p "bl_handle_data p b"] Let_def)
qed

lemma sample_session_accepts:
  "data_refusal (data_request 6 0 [1, 2, 3, 4]) (b_ctx sample_session) = None"
  "8 \<le> length (data_request 6 0 [1, 2, 3, 4])"
  "accepted (bl_read_u16 (data_request 6 0 [1, 2, 3, 4]) 0)
     (bl_handle_data (data_request 6 0 [1, 2, 3, 4]) sample_session)"
proof -
  let ?p = "data_request 6 0 [1, 2, 3, 4]"
  show r: "data_refusal ?p (b_ctx sample_session) = None"
    by (simp add: data_refusal_def data_request_def rd16_def rd32_def le16_def le32_def
        un16_def un32_def Let_def)
  show l: "8 \<le> length ?p" by (simp add: data_request_def)
  have w: "fst (bl_flash_write (target_base (b_ctx sample_session) + write_offset (b_ctx sample_session)) (drop 8 ?p) (b_flash sample_session))"
    by (rule bl_flash_write_ok) (simp_all add: data_request_def sample_flash_ready)
  show "accepted (bl_read_u16 ?p 0) (bl_handle_data ?p sample_session)"
  proof (cases rule: data_cases [of sample_session ?p])
    case no_session
    then show ?thesis using l by simp
  next
    case (write_failed f1)
    then show ?thesis using w by simp
  qed (use r in simp_all)
qed

theorem bl_data_retransmission_witness:
  "bl_handle_data (data_request 6 0 [1, 2, 3, 4]) (bl_handle_data (data_request 6 0 [1, 2, 3, 4]) sample_session) =
   b_ack 6 (bl_handle_data (data_request 6 0 [1, 2, 3, 4]) sample_session)"
proof -
  have "bl_read_u16 (data_request 6 0 [1, 2, 3, 4]) 0 = 6"
    by (simp add: data_request_def rd16_def le16_def un16_def)
  then show ?thesis
    using bl_data_retransmission [OF sample_session_inv sample_session_accepts(2,1,3)] by simp
qed

section \<open>A whole transfer\<close>

text \<open>A DATA request is honest for an image when the bytes it carries are those of the image at its
  offset. The sender's requests are honest whatever is lost, repeated or reordered on the way.\<close>

definition honest_data :: "u8 list \<Rightarrow> u8 list \<Rightarrow> bool" where
  "honest_data img p \<longleftrightarrow>
     (8 \<le> length p \<longrightarrow> drop 8 p = take (length p - 8) (drop (unat (bl_read_u32 p 2)) img))"

text \<open>What a transfer keeps: the session that PREPARE started, the part of the image up to the write
  offset in the slot, and everything outside the slot.\<close>

definition transfer_inv :: "u8 list \<Rightarrow> u32 \<Rightarrow> u32 \<Rightarrow> u32 \<Rightarrow> mem \<Rightarrow> boot \<Rightarrow> bool" where
  "transfer_inv img t sz crc m b \<longleftrightarrow> ota_inv (b_ctx b) \<and> ctx_active (b_ctx b) \<and> target_base (b_ctx b) = t \<and>
     image_size (b_ctx b) = sz \<and> image_crc32 (b_ctx b) = crc \<and>
     ota_received b = take (unat (write_offset (b_ctx b))) img \<and>
     (\<forall>x. \<not> in_range t 0x60000 x \<longrightarrow> fl_mem (b_flash b) x = m x)"

lemma transfer_data:
  assumes "transfer_inv img t sz crc m b" "honest_data img p"
  shows "transfer_inv img t sz crc m (bl_handle_data p b)"
proof -
  have inv: "ota_inv (b_ctx b)" "ctx_active (b_ctx b)" "target_base (b_ctx b) = t"
    using assms(1) by (simp_all add: transfer_inv_def)
  have inv': "ota_inv (b_ctx (bl_handle_data p b))"
    and out: "\<not> in_range t 0x60000 x \<Longrightarrow> fl_mem (b_flash (bl_handle_data p b)) x = fl_mem (b_flash b) x" for x
    using bl_data_stays_in_slot [OF inv(1), of p] inv(3) by auto
  show ?thesis
  proof (cases rule: data_cases [of b p])
    case (write_failed f1)
    then have "ota_received (bl_handle_data p b) = ota_received b"
      using data_write(2) [OF inv(1) write_failed(1-4)] by (simp add: ota_received_def)
    then show ?thesis using assms(1) inv' out write_failed by (simp add: transfer_inv_def)
  next
    case (appended f1)
    note bd = data_bounds [OF inv(1) appended(1,3)]
    have wo: "write_offset (b_ctx (bl_handle_data p b)) = write_offset (b_ctx b) + ucast (bl_read_u16 p 6)"
      by (simp add: appended(5))
    have "ota_received (bl_handle_data p b) = rdn (fl_mem f1) t (unat (write_offset (b_ctx b)) + (length p - 8))"
      unfolding ota_received_def wo bd(1) using appended(5) inv(3) by simp
    also have "\<dots> = ota_received b @ drop 8 p"
      using data_write(3) [OF inv(1) appended(1-4)] inv(3) by simp
    also have "drop 8 p = take (length p - 8) (drop (unat (write_offset (b_ctx b))) img)"
      using assms(2) appended(2) data_refusal_None [OF appended(3)] by (simp add: honest_data_def)
    also have "ota_received b = take (unat (write_offset (b_ctx b))) img"
      using assms(1) by (simp add: transfer_inv_def)
    finally have "ota_received (bl_handle_data p b) =
        take (unat (write_offset (b_ctx (bl_handle_data p b)))) img"
      by (simp only: wo bd(1) take_add)
    then show ?thesis using assms(1) inv' out by (simp add: transfer_inv_def) (simp add: appended(5))
  qed (use assms(1) in \<open>auto simp: transfer_inv_def ota_received_def\<close>)
qed

lemma transfer_datas:
  "transfer_inv img t sz crc m b \<Longrightarrow> list_all (honest_data img) ps \<Longrightarrow>
   transfer_inv img t sz crc m (fold bl_handle_data ps b)"
  by (induction ps arbitrary: b) (auto intro: transfer_data)

lemma prepare_started:
  assumes "accepted s (bl_handle_prepare p b)"
  shows "transfer_inv img (prepare_target (b_meta b) p) (bl_read_u32 p 2) (bl_read_u32 p 6)
    (fl_mem (b_flash b)) (bl_handle_prepare p b)"
proof (cases rule: prepare_cases [of p b])
  case (started f1)
  then show ?thesis
    using prepare_session_inv [OF started(2)] bl_flash_erase_slot_spec(1) [OF started(3)]
    by (simp add: transfer_inv_def ota_received_def)
qed (use assms in auto)

lemma verify_accepted:
  assumes "accepted s (bl_handle_verify p b)"
  shows "ctx_active (b_ctx b) \<and> write_offset (b_ctx b) = image_size (b_ctx b) \<and>
    bl_crc32 (ota_received b) = image_crc32 (b_ctx b) \<and>
    bl_vector_valid_for_slot (fl_mem (b_flash b)) (target_base (b_ctx b)) BL_APP_A_SIZE \<and>
    bl_handle_verify p b = b_ack (bl_read_u16 p 0) (b\<lparr>b_ctx := (b_ctx b)\<lparr>expected_seq := expected_seq (b_ctx b) + 1\<rparr>\<rparr>)"
  using assms by (simp add: bl_handle_verify_def Let_def ota_received_def split: if_splits)

text \<open>C2: an update that verifies is the image that was sent. If PREPARE is accepted, and every DATA
  request that arrives afterwards (in any order, lost, damaged requests having been dropped by their
  checksum, or repeated) is honest for an image, then an accepted VERIFY means that the slot holds
  exactly the announced number of bytes of that image, that they have the announced CRC-32, that the
  vector table fits the slot, and that nothing outside the slot has changed since before PREPARE.\<close>

theorem ota_update_delivers:
  assumes "accepted s (bl_handle_prepare p b)" "list_all (honest_data img) ps"
    and "b2 = fold bl_handle_data ps (bl_handle_prepare p b)" "accepted s' (bl_handle_verify v b2)"
    and "t = prepare_target (b_meta b) p" "n = unat (bl_read_u32 p 2)"
  shows "rdn (fl_mem (b_flash (bl_handle_verify v b2))) t n = take n img \<and> n \<le> length img \<and>
    bl_crc32 (take n img) = bl_read_u32 p 6 \<and>
    bl_vector_valid_for_slot (fl_mem (b_flash (bl_handle_verify v b2))) t BL_APP_A_SIZE \<and>
    (\<forall>x. fl_mem (b_flash (bl_handle_verify v b2)) x = fl_mem (b_flash b) x \<or> in_range t 0x60000 x)"
proof -
  have tr: "transfer_inv img t (bl_read_u32 p 2) (bl_read_u32 p 6) (fl_mem (b_flash b)) b2"
    unfolding assms(3,5) using prepare_started [OF assms(1)] assms(2) by (rule transfer_datas)
  note v = verify_accepted [OF assms(4)]
  have r: "rdn (fl_mem (b_flash b2)) t n = take n img" "bl_crc32 (take n img) = bl_read_u32 p 6"
    using tr v assms(6) by (auto simp: transfer_inv_def ota_received_def)
  have "length (rdn (fl_mem (b_flash b2)) t n) = length (take n img)" by (simp only: r(1))
  then have "n \<le> length img" by simp
  moreover have "b_flash (bl_handle_verify v b2) = b_flash b2" using v by simp
  ultimately show ?thesis using tr r v by (auto simp: transfer_inv_def)
qed

text \<open>A complete session on the fresh device: eight bytes, a stack pointer and an entry point.\<close>

definition sample_image :: "u8 list" where
  "sample_image = [0, 0, 1, 0x20, 1, 1, 8, 8]"

definition sample_prepare :: "u8 list" where
  "sample_prepare = [5, 0, 8, 0, 0, 0, 0xA0, 0x2C, 0xC3, 0x10, 246, 0]"

definition sample_verify :: "u8 list" where
  "sample_verify = [7, 0, 0xA0, 0x2C, 0xC3, 0x10]"

lemma sample_prepare_fields [simp]:
  "length sample_prepare = 12" "rd16 sample_prepare 0 = 5" "rd32 sample_prepare 2 = 8"
  "rd32 sample_prepare 6 = 0x10C32CA0" "rd16 sample_prepare 10 = 246"
  by (simp_all add: sample_prepare_def rd16_def rd32_def un16_def un32_def)

lemma sample_data_fields [simp]:
  "length (data_request 6 0 sample_image) = 16" "rd16 (data_request 6 0 sample_image) 0 = 6"
  "rd32 (data_request 6 0 sample_image) 2 = 0" "rd16 (data_request 6 0 sample_image) 6 = 8"
  "drop 8 (data_request 6 0 sample_image) = sample_image" "take 8 sample_image = sample_image"
  by (simp_all add: data_request_def sample_image_def rd16_def rd32_def un16_def un32_def le16_def le32_def)

lemma sample_crc: "bl_crc32 sample_image = 0x10C32CA0"
  by (simp add: sample_image_def crc_eval)

lemma sample_started:
  obtains b1 where "bl_handle_prepare sample_prepare sample_boot = b1" "accepted 5 b1"
    "b_ctx b1 = prepare_session sample_prepare BL_APP_B_BASE" "flash_ready BL_APP_B_BASE 0x60000 (b_flash b1)"
    "b_meta b1 = bl_metadata_default"
proof -
  let ?b = sample_boot
  have t: "prepare_target (b_meta ?b) sample_prepare = BL_APP_B_BASE"
    by (simp add: prepare_target_def bl_pick_target_slot_def sample_boot_def)
  have r: "prepare_refusal (b_meta ?b) BL_APP_B_BASE (prepare_fields sample_prepare (b_ctx ?b)) = None"
    by (simp add: prepare_refusal_def bl_prepare_target_allowed_def bl_flash_is_slot_base_def bl_layout bl_slots
        sample_boot_def prepare_fields_def Let_def)
  have ok: "fst (bl_flash_erase_slot BL_APP_B_BASE (b_flash ?b))"
    using bl_flash_erase_slot_spec(5) [of BL_APP_B_BASE "b_flash ?b" "fst (bl_flash_erase_slot BL_APP_B_BASE (b_flash ?b))"
      "snd (bl_flash_erase_slot BL_APP_B_BASE (b_flash ?b))"] sample_flash_ready [of 0 0]
    by (simp add: sample_boot_def flash_ready_def bl_flash_is_slot_base_def)
  show thesis
  proof (cases rule: prepare_cases [of sample_prepare ?b])
    case (started f1)
    have e: "waits_ok (b_flash ?b)" "erased_cell_law (b_flash ?b)"
      using sample_flash_ready [of 0 0] by (simp_all add: sample_boot_def flash_ready_def)
    have "flash_ready BL_APP_B_BASE 0x60000 f1"
      using bl_flash_erase_slot_spec(3,4) [OF started(3)] e
      by (simp add: t flash_ready_def waits_ok_def erased_cell_law_def fl_env_def)
    then show thesis
      by (intro that [OF refl]) (simp_all add: started(4) t, simp add: sample_boot_def)
  qed (use r t ok in simp_all)
qed

lemma sample_transfer:
  obtains b2 where "fold bl_handle_data [data_request 6 0 sample_image] (bl_handle_prepare sample_prepare sample_boot) = b2"
    "accepted 7 (bl_handle_verify sample_verify b2)"
proof -
  let ?p = "data_request 6 0 sample_image"
  obtain b1 where b1: "bl_handle_prepare sample_prepare sample_boot = b1" "accepted 5 b1"
    "b_ctx b1 = prepare_session sample_prepare BL_APP_B_BASE" "flash_ready BL_APP_B_BASE 0x60000 (b_flash b1)"
    using sample_started by metis
  have r: "data_refusal ?p (b_ctx b1) = None"
    by (simp add: data_refusal_def b1(3) Let_def)
  have w: "fst (bl_flash_write (target_base (b_ctx b1) + write_offset (b_ctx b1)) (drop 8 ?p) (b_flash b1))"
    unfolding sample_data_fields(5)
    by (rule bl_flash_write_ok)
       (use b1(4) in \<open>auto simp: b1(3) flash_ready_def sample_image_def dest: in_range_mono [where n = "0x60000"]\<close>)
  have inv: "ota_inv (b_ctx b1)" "ctx_active (b_ctx b1)"
    by (simp_all add: b1(3) ota_inv_def bl_flash_is_slot_base_def bl_layout)
  have l: "8 \<le> length ?p" by simp
  obtain f1 where f1: "bl_flash_write (target_base (b_ctx b1) + write_offset (b_ctx b1)) (drop 8 ?p) (b_flash b1) = (True, f1)"
    using w by (metis prod.collapse)
  have h: "bl_handle_data ?p b1 = b_ack 6 (b1\<lparr>b_flash := f1, b_ctx := (b_ctx b1)\<lparr>write_offset := 8, expected_seq := 7\<rparr>\<rparr>)"
    using data_not_duplicate [OF r] r inv f1 by (simp add: bl_handle_data_def b1(3) Let_def)
  let ?b2 = "bl_handle_data ?p b1"
  have "rdn (fl_mem f1) BL_APP_B_BASE 8 = sample_image"
    using data_write(3) [OF inv l r f1] by (simp add: b1(3) ota_received_def)
  then have img: "rdn (fl_mem f1) BL_APP_B_BASE 8 = [0, 0, 1, 0x20, 1, 1, 8, 8]" by (simp add: sample_image_def)
  have b: "fl_mem f1 (0x08080000 + of_nat i) = [0, 0, 1, 0x20, 1, 1, 8, 8] ! i" if "i < 8" for i
    using img that by (simp only: rdn_eq_iff bl_layout)
  have "rdmem32 (fl_mem f1) 0x08080000 = 0x20010000" "rdmem32 (fl_mem f1) 0x08080004 = 0x08080101"
    using b [of 0] b [of 1] b [of 2] b [of 3] b [of 4] b [of 5] b [of 6] b [of 7]
    by (simp_all add: rdmem32_def un32_def)
  then have vec: "bl_vector_valid_for_slot (fl_mem f1) BL_APP_B_BASE BL_APP_A_SIZE"
    by (simp add: bl_vector_valid_for_slot_def bl_layout)
  have "bl_crc32 (rdn (fl_mem f1) BL_APP_B_BASE 8) = 0x10C32CA0"
    using img sample_crc by (simp add: sample_image_def)
  moreover have "rd16 sample_verify 0 = 7" "rd32 sample_verify 2 = 0x10C32CA0" "length sample_verify = 6"
    by (simp_all add: sample_verify_def rd16_def rd32_def un16_def un32_def)
  ultimately have "accepted 7 (bl_handle_verify sample_verify ?b2)"
    using vec by (simp add: h b1(3) bl_handle_verify_def Let_def)
  then show thesis by (intro that [OF refl]) (simp add: b1(1))
qed

theorem ota_update_delivers_witness:
  "\<exists>b3. accepted 7 b3 \<and> rdn (fl_mem (b_flash b3)) BL_APP_B_BASE 8 = take 8 sample_image \<and>
     bl_crc32 (take 8 sample_image) = 0x10C32CA0"
proof -
  obtain b1 where b1: "bl_handle_prepare sample_prepare sample_boot = b1" "accepted 5 b1"
    using sample_started by metis
  obtain b2 where b2: "fold bl_handle_data [data_request 6 0 sample_image] (bl_handle_prepare sample_prepare sample_boot) = b2"
    "accepted 7 (bl_handle_verify sample_verify b2)" using sample_transfer by metis
  have h: "list_all (honest_data sample_image) [data_request 6 0 sample_image]"
    by (simp add: honest_data_def)
  have t: "BL_APP_B_BASE = prepare_target (b_meta sample_boot) sample_prepare"
    by (simp add: prepare_target_def bl_pick_target_slot_def sample_boot_def)
  have n: "8 = unat (bl_read_u32 sample_prepare 2)" by simp
  show ?thesis
    using ota_update_delivers [OF b1(2) [folded b1(1)] h b2(1) [symmetric] b2(2) t n] b2(2) by auto
qed

section \<open>COMMIT\<close>

lemma commit_accepted:
  assumes "accepted s (bl_handle_commit p b)"
  obtains f1 where "bl_metadata_commit (bl_commit_meta (b_ctx b) (b_meta b)) (b_flash b) = (True, f1)"
    "b_flash (bl_handle_commit p b) = f1" "b_meta (bl_handle_commit p b) = bl_commit_meta (b_ctx b) (b_meta b)"
    "b_reset (bl_handle_commit p b)" "ctx_active (b_ctx b)"
  using assms
  by (cases "bl_metadata_commit (bl_commit_meta (b_ctx b) (b_meta b)) (b_flash b)")
     (auto simp: bl_handle_commit_def Let_def split: if_splits)

lemma commit_meta_seq [simp]: "meta_seq (bl_commit_meta c m) = meta_seq m + 1"
  by (simp add: bl_commit_meta_def Let_def)

text \<open>An accepted COMMIT survives the reset that follows it. The next load of the metadata returns
  the new image as pending, with the size, checksum and version of the session, no boot attempt
  counted, and everything about the other slot and the active and confirmed slots as before; the
  images themselves are untouched. The sequence number may wrap around.\<close>

theorem bl_commit_persists:
  assumes "accepted s (bl_handle_commit p b)" "log_in_order (meta_slots (fl_mem (b_flash b)))"
    and "b_meta b = bl_metadata_load_or_default (fl_mem (b_flash b))"
    and "m' = bl_metadata_load_or_default (fl_mem (b_flash (bl_handle_commit p b)))"
  shows "b_reset (bl_handle_commit p b) \<and>
    pending_slot m' = (if target_base (b_ctx b) = BL_APP_B_BASE then BL_SLOT_B else BL_SLOT_A) \<and>
    boot_attempts m' = 0 \<and> active_slot m' = active_slot (b_meta b) \<and> confirmed_slot m' = confirmed_slot (b_meta b) \<and>
    (if target_base (b_ctx b) = BL_APP_B_BASE
     then app_b_state m' = img_code IMG_PENDING \<and> app_b_size m' = image_size (b_ctx b) \<and>
          app_b_crc32 m' = image_crc32 (b_ctx b) \<and> app_b_version m' = image_version (b_ctx b) \<and>
          app_a_state m' = app_a_state (b_meta b) \<and> app_a_size m' = app_a_size (b_meta b)
     else app_a_state m' = img_code IMG_PENDING \<and> app_a_size m' = image_size (b_ctx b) \<and>
          app_a_crc32 m' = image_crc32 (b_ctx b) \<and> app_a_version m' = image_version (b_ctx b) \<and>
          app_b_state m' = app_b_state (b_meta b) \<and> app_b_size m' = app_b_size (b_meta b)) \<and>
    (\<forall>x. fl_mem (b_flash (bl_handle_commit p b)) x = fl_mem (b_flash b) x \<or> in_range 0x08010000 0x10000 x)"
proof -
  let ?n = "bl_commit_meta (b_ctx b) (b_meta b)"
  obtain f1 where c: "bl_metadata_commit ?n (b_flash b) = (True, f1)" "b_flash (bl_handle_commit p b) = f1"
      "b_reset (bl_handle_commit p b)"
    using commit_accepted [OF assms(1)] by metis
  have "bl_meta_seq_is_newer (meta_seq (commit_record ?n)) (meta_seq (b_meta b))"
    by (rule commit_record_newer) simp
  then have newer: "bl_metadata_any_valid (fl_mem (b_flash b)) \<Longrightarrow> bl_meta_seq_is_newer (meta_seq (commit_record ?n))
      (meta_seq (bl_metadata_load_or_default (fl_mem (b_flash b))))"
    by (simp only: assms(3))
  have "m' = commit_record ?n"
    using commit_persists [OF c(1) assms(2) newer] c(2) assms(4) by simp
  moreover have "\<forall>x. fl_mem f1 x = fl_mem (b_flash b) x \<or> in_range 0x08010000 0x10000 x"
    using commit_frame [of ?n "b_flash b"] c(1) by simp
  ultimately show ?thesis
    using c(2,3) by (auto simp: bl_commit_meta_def Let_def bl_slots)
qed

lemma sample_session_commit: "accepted 6 (bl_handle_commit [6, 0] sample_session)"
proof -
  have "fst (bl_metadata_commit (bl_commit_meta (b_ctx sample_session) bl_metadata_default) sample_flash)"
    by (rule flash_ready_commit) (simp_all add: sample_flash_ready bl_commit_meta_def Let_def)
  then obtain f1 where
    "bl_metadata_commit (bl_commit_meta (b_ctx sample_session) bl_metadata_default) sample_flash = (True, f1)"
    by (metis prod.collapse)
  moreover have "b_meta sample_session = bl_metadata_default"
    by (simp add: sample_session_def sample_boot_def)
  ultimately show ?thesis
    by (simp add: bl_handle_commit_def rd16_def un16_def Let_def accepted_def)
qed

theorem bl_commit_persists_witness:
  "pending_slot (bl_metadata_load_or_default (fl_mem (b_flash (bl_handle_commit [6, 0] sample_session)))) = BL_SLOT_B"
proof -
  have m: "b_meta sample_session = bl_metadata_load_or_default (fl_mem (b_flash sample_session))"
    using sample_log(2) by (auto simp: bl_metadata_load_or_default_def bl_metadata_any_valid_def sample_session_def
        sample_boot_def split: option.splits)
  have l: "log_in_order (meta_slots (fl_mem (b_flash sample_session)))" using sample_log(1) by simp
  show ?thesis using bl_commit_persists [OF sample_session_commit l m refl] by simp
qed

text \<open>COMMIT does not ask for a VERIFY. A session whose image is incomplete, or has never been
  checked, is committed as pending when only the sequence number is the expected one and the
  metadata can be written.\<close>

lemma bl_commit_without_verify:
  assumes "ctx_active (b_ctx b)" "2 \<le> length p" "bl_read_u16 p 0 = expected_seq (b_ctx b)"
    and "write_offset (b_ctx b) \<noteq> image_size (b_ctx b)"
    and "fst (bl_metadata_commit (bl_commit_meta (b_ctx b) (b_meta b)) (b_flash b))"
  shows "accepted (bl_read_u16 p 0) (bl_handle_commit p b) \<and> b_reset (bl_handle_commit p b) \<and>
    pending_slot (b_meta (bl_handle_commit p b)) \<in> {BL_SLOT_A, BL_SLOT_B}"
  using assms
  by (cases "bl_metadata_commit (bl_commit_meta (b_ctx b) (b_meta b)) (b_flash b)")
     (simp add: bl_handle_commit_def bl_commit_meta_def accepted_def Let_def)

lemma bl_commit_without_verify_witness:
  "accepted 6 (bl_handle_commit [6, 0] sample_session)"
proof -
  have "fst (bl_metadata_commit (bl_commit_meta (b_ctx sample_session) (b_meta sample_session)) (b_flash sample_session))"
    by (rule flash_ready_commit) (simp_all add: sample_flash_ready bl_commit_meta_def Let_def sample_session_def sample_boot_def)
  then show ?thesis
    using bl_commit_without_verify [of sample_session "[6, 0]"] by (simp add: rd16_def un16_def)
qed

section \<open>A refused PREPARE and the running session\<close>

text \<open>C38: a PREPARE that is refused changes the running session all the same: the image size, checksum
  and chunk size of the session are those of the refused request. With a complete image in slot A,
  the next DATA request can then be accepted at the offset behind the slot, where it is written over
  the first bytes of slot B.\<close>

theorem bl_refused_prepare_escapes_slot:
  assumes "ctx_active (b_ctx b)" "target_base (b_ctx b) = BL_APP_A_BASE" "write_offset (b_ctx b) = BL_APP_A_SIZE"
    and "12 \<le> length p" "bl_read_u32 p 2 > BL_APP_A_SIZE"
    and "8 \<le> length d" "data_refusal d (prepare_fields p (b_ctx b)) = None"
  shows "b_tx (bl_handle_prepare p b) = b_tx b @ [bl_send_nack (bl_read_u16 p 0) 1] \<and>
    b_flash (bl_handle_data d (bl_handle_prepare p b)) = snd (bl_flash_write BL_APP_B_BASE (drop 8 d) (b_flash b))"
proof -
  have h: "bl_handle_prepare p b = b_nack (bl_read_u16 p 0) BL_ERR_BAD_PAYLOAD (b\<lparr>b_ctx := prepare_fields p (b_ctx b)\<rparr>)"
    using assms(4,5) by (simp add: bl_handle_prepare_def prepare_refusal_def Let_def)
  have "data_refusal d (b_ctx (bl_handle_prepare p b)) = None" "ctx_active (b_ctx (bl_handle_prepare p b))"
    using assms(1,7) by (simp_all add: h)
  moreover have "BL_APP_A_BASE + BL_APP_A_SIZE = BL_APP_B_BASE" by (simp add: bl_layout)
  ultimately show ?thesis
    using data_not_duplicate [of d "b_ctx (bl_handle_prepare p b)"] data_refusal_None [of d "b_ctx (bl_handle_prepare p b)"] assms
    by (cases "bl_flash_write BL_APP_B_BASE (drop 8 d) (b_flash b)")
       (auto simp: h bl_handle_data_def Let_def)
qed

theorem bl_refused_prepare_escapes_slot_witness:
  "b_flash (bl_handle_data (data_request 6 0x60000 [0]) (bl_handle_prepare [9, 0, 0xFF, 0xFF, 0xFF, 0xFF, 0, 0, 0, 0, 4, 0]
     (sample_boot\<lparr>b_ctx := bl_ctx_reset\<lparr>ctx_active := True, expected_seq := 6, target_base := BL_APP_A_BASE,
        image_size := BL_APP_A_SIZE, chunk_size := 4, write_offset := BL_APP_A_SIZE\<rparr>\<rparr>))) =
   snd (bl_flash_write BL_APP_B_BASE [0] sample_flash)"
proof -
  let ?p = "[9, 0, 0xFF, 0xFF, 0xFF, 0xFF, 0, 0, 0, 0, 4, 0] :: u8 list"
  let ?b = "sample_boot\<lparr>b_ctx := bl_ctx_reset\<lparr>ctx_active := True, expected_seq := 6, target_base := BL_APP_A_BASE,
        image_size := BL_APP_A_SIZE, chunk_size := 4, write_offset := BL_APP_A_SIZE\<rparr>\<rparr>"
  let ?d = "data_request 6 0x60000 [0]"
  have d: "length ?d = 9" "rd16 ?d 0 = 6" "rd32 ?d 2 = 0x60000" "rd16 ?d 6 = 1" "drop 8 ?d = [0]"
    by (simp_all add: data_request_def rd16_def rd32_def un16_def un32_def le16_def le32_def)
  have p: "rd32 ?p 2 = 0xFFFFFFFF" "rd16 ?p 10 = 4" by (simp_all add: rd16_def rd32_def un16_def un32_def)
  have "data_refusal ?d (prepare_fields ?p (b_ctx ?b)) = None"
    by (simp add: data_refusal_def d p bl_layout Let_def)
  then show ?thesis
    using bl_refused_prepare_escapes_slot [of ?b ?p ?d] d p
    by (simp add: bl_layout sample_boot_def)
qed

section \<open>The end of the loop\<close>

lemma no_frame_idle:
  "bl_ota_no_frame 60000 (l, b) = (ex, l', b') \<Longrightarrow>
   idle_elapsed_ms l' = idle_elapsed_ms l + 100 \<and> ex = (idle_elapsed_ms l + 100 \<ge> 60000)"
  by (auto simp: bl_ota_no_frame_def Let_def split: if_splits)

lemma frame_idle:
  "idle_elapsed_ms (fst (bl_ota_frame ty p (l, b))) \<in> {0, idle_elapsed_ms l}"
  by (simp add: bl_ota_frame_def)

lemma idle_step: "idle < 60000 \<Longrightarrow> unat (idle + 100 :: u32) = unat idle + 100"
proof -
  assume "idle < 60000"
  then have "unat idle + unat (100 :: u32) < 2 ^ LENGTH(32)" by (simp add: word_less_nat_alt)
  then show ?thesis by (simp add: unat_add_lem [THEN iffD1])
qed

lemma silent_loop_ends:
  "idle_elapsed_ms l < 60000 \<Longrightarrow> 60000 \<le> unat (idle_elapsed_ms l) + 100 * n \<Longrightarrow>
   fst (bl_ota_loop_from 60000 (replicate n None @ rest) (l, b)) = Idle_timeout"
proof (induction n arbitrary: l b)
  case 0
  then show ?case by (simp add: word_less_nat_alt)
next
  case (Suc n)
  obtain ex l' b' where s: "bl_ota_no_frame 60000 (l, b) = (ex, l', b')" using prod_cases3 by blast
  note i = no_frame_idle [OF s]
  show ?case
  proof (cases ex)
    case False
    then have "idle_elapsed_ms l' < 60000" using i by simp
    moreover have "60000 \<le> unat (idle_elapsed_ms l') + 100 * n"
      using Suc.prems idle_step [OF Suc.prems(1)] i by simp
    ultimately show ?thesis using Suc.IH False s by simp
  qed (use s in simp)
qed

text \<open>C32: a forced bootloader always gives the application its turn again. With the 60 s idle limit of
  the boot flow, whatever frames came before, 600 silent reads in a row end the session loop, unless
  it has ended before with an earlier timeout or with the reset after a COMMIT.\<close>

theorem bl_ota_loop_gives_up:
  "fst (bl_ota_loop 60000 (evs @ replicate 600 None @ rest) b) \<noteq> Running"
proof -
  have "idle_elapsed_ms l < 60000 \<Longrightarrow>
      fst (bl_ota_loop_from 60000 (evs @ replicate 600 None @ rest) (l, b)) \<noteq> Running" for l b
  proof (induction evs arbitrary: l b)
    case Nil
    then show ?case using silent_loop_ends [of l 600 rest b] by simp
  next
    case (Cons e evs)
    show ?case
    proof (cases e)
      case None
      obtain ex l' b' where s: "bl_ota_no_frame 60000 (l, b) = (ex, l', b')" using prod_cases3 by blast
      then show ?thesis using None Cons.IH [of l' b'] no_frame_idle [OF s] by auto
    next
      case (Some f)
      obtain ty p where f: "f = (ty, p)" by (cases f)
      obtain l' b' where s: "bl_ota_frame ty p (l, b) = (l', b')" by (cases "bl_ota_frame ty p (l, b)")
      have "idle_elapsed_ms l' < 60000" using frame_idle [of ty p l b] Cons.prems s by auto
      then show ?thesis using Some f s Cons.IH [of l' b'] by (simp add: Let_def)
    qed
  qed
  then show ?thesis by (simp add: bl_ota_loop_def)
qed

end
