(* ===== verification/Boot_Main.thy ===== *)
theory Boot_Main
  imports Boot_Ota
begin

text \<open>
  The boot flow (\<open>bootloader/bootloader_main.c\<close>): load the metadata or heal it, serve an update
  session when the application asked for one, then choose the image to start. The production build is
  modelled (no CRC bypass, no forced slot). The inputs are the flash, the backup register that carries
  the application's request, and what the frame receiver returns during the two session loops.
\<close>

section \<open>Images\<close>

definition bl_is_vector_valid :: "mem \<Rightarrow> u32 \<Rightarrow> bool" where
  "bl_is_vector_valid m app_base =
     (let initial_sp = rdmem32 m app_base; reset_handler = rdmem32 m (app_base + 4)
      in if initial_sp AND 0x2FFE0000 \<noteq> 0x20000000 then False
         else if reset_handler < 0x08000000 \<or> reset_handler \<ge> 0x08000000 + 0x100000 then False
         else True)"

definition bl_slot_base :: "u8 \<Rightarrow> u32" where
  "bl_slot_base slot = (if slot = BL_SLOT_B then BL_APP_B_BASE else BL_APP_A_BASE)"

definition bl_slot_size :: "u8 \<Rightarrow> u32" where
  "bl_slot_size slot = BL_APP_A_SIZE"

definition bl_slot_crc :: "ota_metadata \<Rightarrow> u8 \<Rightarrow> u32" where
  "bl_slot_crc meta slot = (if slot = BL_SLOT_B then app_b_crc32 meta else app_a_crc32 meta)"

definition bl_slot_image_size :: "ota_metadata \<Rightarrow> u8 \<Rightarrow> u32" where
  "bl_slot_image_size meta slot = (if slot = BL_SLOT_B then app_b_size meta else app_a_size meta)"

definition bl_set_slot_state :: "ota_metadata \<Rightarrow> u8 \<Rightarrow> u32 \<Rightarrow> ota_metadata" where
  "bl_set_slot_state meta slot st =
     (if slot = BL_SLOT_B then meta\<lparr>app_b_state := st\<rparr> else meta\<lparr>app_a_state := st\<rparr>)"

definition bl_slot_image_valid :: "mem \<Rightarrow> ota_metadata \<Rightarrow> u8 \<Rightarrow> bool" where
  "bl_slot_image_valid m meta slot =
     (let base = bl_slot_base slot; sz = bl_slot_image_size meta slot; crc = bl_slot_crc meta slot;
          size_ok = (sz \<noteq> 0 \<and> sz \<le> bl_slot_size slot)
      in if \<not> size_ok then False
         else if \<not> bl_is_vector_valid m base then False
         else if bl_crc32 (rdn m base (unat sz)) \<noteq> crc then False
         else True)"

definition bl_select_slot :: "ota_metadata \<Rightarrow> u32" where
  "bl_select_slot meta =
     (if pending_slot meta = 1 \<and> app_b_state meta = img_code IMG_PENDING then BL_APP_B_BASE
      else if pending_slot meta = 0 \<and> app_a_state meta = img_code IMG_PENDING then BL_APP_A_BASE
      else if active_slot meta = 1 then BL_APP_B_BASE
      else BL_APP_A_BASE)"

section \<open>The flow\<close>

text \<open>How the run of the bootloader ends: with a jump to an image (its base, stack pointer and entry
  point), with the reset after a COMMIT, or not within the given frames.\<close>

datatype boot_end = Jump u32 u32 u32 | Reset | Waiting

definition bl_jump_to_app :: "mem \<Rightarrow> u32 \<Rightarrow> boot_end" where
  "bl_jump_to_app m app_base = Jump app_base (rdmem32 m app_base) (rdmem32 m (app_base + 4))"

definition bl_load_metadata :: "flash \<Rightarrow> ota_metadata \<times> flash" where
  "bl_load_metadata f =
     (if bl_metadata_any_valid (fl_mem f) then (bl_metadata_load_or_default (fl_mem f), f)
      else (bl_metadata_default, snd (bl_metadata_commit bl_metadata_default f)))"

definition bl_consume_force_bootloader_flag :: "u32 \<Rightarrow> bool \<times> u32" where
  "bl_consume_force_bootloader_flag bkp0r = (if bkp0r = 0xB00710AD then (True, 0) else (False, bkp0r))"

definition known_slot :: "u8 \<Rightarrow> bool" where
  "known_slot s \<longleftrightarrow> s = BL_SLOT_A \<or> s = BL_SLOT_B"

definition bl_rollback_pending :: "ota_metadata \<Rightarrow> ota_metadata" where
  "bl_rollback_pending meta =
     (bl_set_slot_state meta (pending_slot meta) (img_code IMG_ROLLBACK))
       \<lparr>pending_slot := BL_SLOT_NONE, rollback_count := rollback_count meta + 1, boot_attempts := 0\<rparr>"

text \<open>The part of \<open>main\<close> behind the first session loop: a jump, or none, with the metadata and the flash
  as they then are.\<close>

definition bl_boot_pending :: "ota_metadata \<Rightarrow> flash \<Rightarrow> boot_end option \<times> ota_metadata \<times> flash" where
  "bl_boot_pending meta f =
     (if known_slot (pending_slot meta)
      then if \<not> bl_slot_image_valid (fl_mem f) meta (pending_slot meta)
           then let m1 = bl_rollback_pending meta in (None, m1, snd (bl_metadata_commit m1 f))
           else if boot_attempts meta \<ge> 3
           then let m1 = bl_rollback_pending meta in (None, m1, snd (bl_metadata_commit m1 f))
           else let m1 = meta\<lparr>boot_attempts := boot_attempts meta + 1\<rparr>;
                    f1 = snd (bl_metadata_commit m1 f)
                in (Some (bl_jump_to_app (fl_mem f1) (bl_slot_base (pending_slot m1))), m1, f1)
      else (None, meta, f))"

definition bl_boot_image :: "ota_metadata \<Rightarrow> flash \<Rightarrow> boot_end option \<times> ota_metadata \<times> flash" where
  "bl_boot_image meta f =
     (case bl_boot_pending meta f of
        (Some j, m1, f1) \<Rightarrow> (Some j, m1, f1)
      | (None, m1, f1) \<Rightarrow>
          if known_slot (active_slot m1) \<and> bl_slot_image_valid (fl_mem f1) m1 (active_slot m1)
          then (Some (bl_jump_to_app (fl_mem f1) (bl_slot_base (active_slot m1))), m1, f1)
          else if known_slot (confirmed_slot m1) \<and> bl_slot_image_valid (fl_mem f1) m1 (confirmed_slot m1)
          then (Some (bl_jump_to_app (fl_mem f1) (bl_slot_base (confirmed_slot m1))), m1, f1)
          else (None, m1, f1))"

definition bl_main ::
  "flash \<Rightarrow> u32 \<Rightarrow> (u8 \<times> u8 list) option list \<Rightarrow> (u8 \<times> u8 list) option list \<Rightarrow> boot_end \<times> flash \<times> u32" where
  "bl_main f bkp0r evs1 evs2 =
     (let (meta, f1) = bl_load_metadata f;
          (forced, bkp1) = bl_consume_force_bootloader_flag bkp0r;
          b0 = \<lparr>b_ctx = bl_ctx_reset, b_meta = meta, b_flash = f1, b_tx = [], b_reset = False\<rparr>;
          (e, b1) = (if forced then (case bl_ota_loop 60000 evs1 b0 of (e, _, b) \<Rightarrow> (e, b))
                     else (Idle_timeout, b0))
      in case e of
           Was_reset \<Rightarrow> (Reset, b_flash b1, bkp1)
         | Running \<Rightarrow> (Waiting, b_flash b1, bkp1)
         | Idle_timeout \<Rightarrow>
             (case bl_boot_image (b_meta b1) (b_flash b1) of
                (Some j, m2, f2) \<Rightarrow> (j, f2, bkp1)
              | (None, m2, f2) \<Rightarrow>
                  (case bl_ota_loop 0 evs2 \<lparr>b_ctx = bl_ctx_reset, b_meta = m2, b_flash = f2, b_tx = [], b_reset = False\<rparr> of
                     (Was_reset, _, b) \<Rightarrow> (Reset, b_flash b, bkp1)
                   | (_, _, b) \<Rightarrow> (Waiting, b_flash b, bkp1))))"

section \<open>Images and the metadata sector\<close>

lemma slot_base_range: "in_range (bl_slot_base s) 0x60000 x \<Longrightarrow> \<not> in_range 0x08010000 0x10000 x"
proof -
  have a: "in_range BL_APP_A_BASE 0x60000 x \<Longrightarrow> \<not> in_range 0x08010000 0x10000 x"
    using in_range_disjoint [of "0x08010000" "0x10000" "0x60000" x] by (simp add: bl_layout)
  have b: "in_range BL_APP_B_BASE 0x60000 x \<Longrightarrow> \<not> in_range 0x08010000 0x10000 x"
  proof -
    assume "in_range BL_APP_B_BASE 0x60000 x"
    then have "in_range (0x08010000 + of_nat 0x10000) (0x60000 + 0x60000) x"
      using in_range_add [of "0x60000" "0x60000" BL_APP_A_BASE x] by (simp add: bl_layout)
    then show ?thesis using in_range_disjoint [of "0x08010000" "0x10000" "0x60000 + 0x60000" x] by simp
  qed
  show "in_range (bl_slot_base s) 0x60000 x \<Longrightarrow> \<not> in_range 0x08010000 0x10000 x"
    using a b by (simp add: bl_slot_base_def split: if_splits)
qed

text \<open>Two memories with the same slot agree on the image checks.\<close>

lemma same_slot_words:
  assumes "\<And>x. in_range base 0x60000 x \<Longrightarrow> m' x = m x"
  shows "rdmem32 m' base = rdmem32 m base" "rdmem32 m' (base + 4) = rdmem32 m (base + 4)"
    and "n \<le> 0x60000 \<Longrightarrow> rdn m' base n = rdn m base n"
proof -
  have i: "i < 0x60000 \<Longrightarrow> m' (base + of_nat i) = m (base + of_nat i)" for i
    using assms in_range_nth [of i "0x60000" base] by simp
  show "rdmem32 m' base = rdmem32 m base" "rdmem32 m' (base + 4) = rdmem32 m (base + 4)"
    using i [of 0] i [of 1] i [of 2] i [of 3] i [of 4] i [of 5] i [of 6] i [of 7]
    by (simp_all add: rdmem32_def add.assoc)
  show "n \<le> 0x60000 \<Longrightarrow> rdn m' base n = rdn m base n"
    by (rule rdn_cong) (simp add: i)
qed

lemma sector_keeps_image:
  assumes "\<And>x. fl_mem f' x = fl_mem f x \<or> in_range 0x08010000 0x10000 x"
  shows "bl_slot_image_valid (fl_mem f') m s = bl_slot_image_valid (fl_mem f) m s"
    and "bl_jump_to_app (fl_mem f') (bl_slot_base s) = bl_jump_to_app (fl_mem f) (bl_slot_base s)"
proof -
  have "in_range (bl_slot_base s) 0x60000 x \<Longrightarrow> fl_mem f' x = fl_mem f x" for x
    using assms [of x] slot_base_range [of s x] by auto
  note w = same_slot_words [of "bl_slot_base s" "fl_mem f'" "fl_mem f", OF this]
  have "bl_slot_image_size m s \<le> bl_slot_size s \<Longrightarrow> unat (bl_slot_image_size m s) \<le> 0x60000"
    by (simp add: bl_slot_size_def bl_layout word_le_nat_alt)
  then show "bl_slot_image_valid (fl_mem f') m s = bl_slot_image_valid (fl_mem f) m s"
    using w by (auto simp: bl_slot_image_valid_def bl_is_vector_valid_def Let_def)
  show "bl_jump_to_app (fl_mem f') (bl_slot_base s) = bl_jump_to_app (fl_mem f) (bl_slot_base s)"
    using w by (simp add: bl_jump_to_app_def)
qed

lemma commit_keeps_image:
  assumes "f' = snd (bl_metadata_commit meta f)"
  shows "bl_slot_image_valid (fl_mem f') m s = bl_slot_image_valid (fl_mem f) m s"
    and "bl_jump_to_app (fl_mem f') (bl_slot_base s) = bl_jump_to_app (fl_mem f) (bl_slot_base s)"
  using sector_keeps_image [of f' f] commit_frame [of meta f] assms by simp_all

section \<open>The choice of the image\<close>

text \<open>What the flow is meant to choose: the first image that passes its checks among the pending one,
  while it has attempts left, the active one and the confirmed one.\<close>

definition boot_choice :: "mem \<Rightarrow> ota_metadata \<Rightarrow> u8 option" where
  "boot_choice m meta =
     List.find (\<lambda>s. known_slot s \<and> bl_slot_image_valid m meta s)
       ((if boot_attempts meta < 3 then [pending_slot meta] else []) @ [active_slot meta, confirmed_slot meta])"

lemma rollback_fields [simp]:
  "active_slot (bl_rollback_pending m) = active_slot m" "confirmed_slot (bl_rollback_pending m) = confirmed_slot m"
  "bl_slot_image_size (bl_rollback_pending m) s = bl_slot_image_size m s"
  "bl_slot_crc (bl_rollback_pending m) s = bl_slot_crc m s" "meta_seq (bl_rollback_pending m) = meta_seq m"
  by (simp_all add: bl_rollback_pending_def bl_set_slot_state_def bl_slot_image_size_def bl_slot_crc_def)

lemma rollback_valid [simp]: "bl_slot_image_valid mm (bl_rollback_pending m) s = bl_slot_image_valid mm m s"
  by (simp add: bl_slot_image_valid_def)

lemma boot_pending_none:
  assumes "bl_boot_pending meta f = (None, m1, f1)"
  shows "bl_slot_image_valid (fl_mem f1) m1 s = bl_slot_image_valid (fl_mem f) meta s"
    "bl_jump_to_app (fl_mem f1) (bl_slot_base s) = bl_jump_to_app (fl_mem f) (bl_slot_base s)"
    "active_slot m1 = active_slot meta" "confirmed_slot m1 = confirmed_slot meta"
    "\<not> (known_slot (pending_slot meta) \<and> boot_attempts meta < 3 \<and>
        bl_slot_image_valid (fl_mem f) meta (pending_slot meta))"
  using assms commit_keeps_image [OF refl, of _ f]
  by (auto simp: bl_boot_pending_def Let_def split: if_splits)

lemma boot_pending_some:
  assumes "bl_boot_pending meta f = (Some j, m1, f1)"
  shows "j = bl_jump_to_app (fl_mem f) (bl_slot_base (pending_slot meta))"
    "known_slot (pending_slot meta)" "boot_attempts meta < 3"
    "bl_slot_image_valid (fl_mem f) meta (pending_slot meta)"
    "f1 = snd (bl_metadata_commit (meta\<lparr>boot_attempts := boot_attempts meta + 1\<rparr>) f)"
  using assms commit_keeps_image(2) [OF refl, of _ f]
  by (auto simp: bl_boot_pending_def Let_def split: if_splits)

lemma boot_image_choice:
  "fst (bl_boot_image meta f) =
   map_option (\<lambda>s. bl_jump_to_app (fl_mem f) (bl_slot_base s)) (boot_choice (fl_mem f) meta)"
proof -
  obtain r m1 f1 where p: "bl_boot_pending meta f = (r, m1, f1)" using prod_cases3 by blast
  show ?thesis
  proof (cases r)
    case None
    note n = boot_pending_none [OF p [unfolded None]]
    show ?thesis using p None n by (auto simp: bl_boot_image_def boot_choice_def)
  next
    case (Some j)
    note n = boot_pending_some [OF p [unfolded Some]]
    show ?thesis using p Some n by (simp add: bl_boot_image_def boot_choice_def)
  qed
qed

text \<open>C5: the boot flow implements the choice. It starts exactly the first image that passes its size,
  vector and checksum tests among the pending one with fewer than three attempts, the active one and
  the confirmed one, and starts nothing when none passes; the metadata it writes on the way never
  changes the images it chooses from.\<close>

theorem bl_boot_image_refines_choice:
  "fst (bl_boot_image meta f) =
   map_option (\<lambda>s. bl_jump_to_app (fl_mem f) (bl_slot_base s)) (boot_choice (fl_mem f) meta)"
  by (rule boot_image_choice)

lemma load_keeps_images:
  "bl_slot_image_valid (fl_mem (snd (bl_load_metadata f))) m s = bl_slot_image_valid (fl_mem f) m s"
  "bl_jump_to_app (fl_mem (snd (bl_load_metadata f))) (bl_slot_base s) = bl_jump_to_app (fl_mem f) (bl_slot_base s)"
  using commit_keeps_image [OF refl, of bl_metadata_default f] by (simp_all add: bl_load_metadata_def)

lemma main_unforced:
  assumes "bkp0r \<noteq> 0xB00710AD"
  shows "fst (bl_main f bkp0r evs1 evs2) \<noteq> Waiting \<and> fst (bl_main f bkp0r evs1 evs2) \<noteq> Reset \<longleftrightarrow>
      boot_choice (fl_mem f) (fst (bl_load_metadata f)) \<noteq> None"
    and "boot_choice (fl_mem f) (fst (bl_load_metadata f)) = Some s \<Longrightarrow>
      fst (bl_main f bkp0r evs1 evs2) = bl_jump_to_app (fl_mem f) (bl_slot_base s)"
proof -
  obtain meta f1 where l: "bl_load_metadata f = (meta, f1)" by (cases "bl_load_metadata f")
  have c: "boot_choice (fl_mem f1) meta = boot_choice (fl_mem f) meta"
    using load_keeps_images [of f] l by (simp add: boot_choice_def)
  obtain j m2 f2 where i: "bl_boot_image meta f1 = (j, m2, f2)" using prod_cases3 by blast
  have j: "j = map_option (\<lambda>s. bl_jump_to_app (fl_mem f) (bl_slot_base s)) (boot_choice (fl_mem f) meta)"
    using boot_image_choice [of meta f1] i c load_keeps_images(2) [of f] l by simp
  show "fst (bl_main f bkp0r evs1 evs2) \<noteq> Waiting \<and> fst (bl_main f bkp0r evs1 evs2) \<noteq> Reset \<longleftrightarrow>
      boot_choice (fl_mem f) (fst (bl_load_metadata f)) \<noteq> None"
    using assms l i j
    by (auto simp: bl_main_def bl_consume_force_bootloader_flag_def bl_jump_to_app_def
        split: option.splits loop_end.splits prod.splits)
  show "boot_choice (fl_mem f) (fst (bl_load_metadata f)) = Some s \<Longrightarrow>
      fst (bl_main f bkp0r evs1 evs2) = bl_jump_to_app (fl_mem f) (bl_slot_base s)"
    using assms l i j by (simp add: bl_main_def bl_consume_force_bootloader_flag_def)
qed

text \<open>C4: an ordinary boot only ever starts a checked image. If the bootloader jumps, it jumps to a slot
  that the metadata it loaded names as pending, active or confirmed, whose image has a size that fits
  the slot and the recorded CRC-32, with a reset handler in flash.\<close>

theorem bl_main_starts_checked_image:
  assumes "bkp0r \<noteq> 0xB00710AD" "fst (bl_main f bkp0r evs1 evs2) = Jump base sp pc"
    and "meta = fst (bl_load_metadata f)"
  shows "\<exists>s \<in> {pending_slot meta, active_slot meta, confirmed_slot meta} \<inter> {BL_SLOT_A, BL_SLOT_B}.
    base = bl_slot_base s \<and> bl_slot_image_size meta s \<noteq> 0 \<and> bl_slot_image_size meta s \<le> BL_APP_A_SIZE \<and>
    bl_crc32 (rdn (fl_mem f) base (unat (bl_slot_image_size meta s))) = bl_slot_crc meta s \<and>
    sp = rdmem32 (fl_mem f) base \<and> pc = rdmem32 (fl_mem f) (base + 4) \<and> 0x08000000 \<le> pc \<and> pc < 0x08100000"
proof -
  obtain s where s: "boot_choice (fl_mem f) meta = Some s"
    using main_unforced(1) [OF assms(1), of f evs1 evs2] assms(2,3) by auto
  have k: "known_slot s" "bl_slot_image_valid (fl_mem f) meta s"
      "s \<in> {pending_slot meta, active_slot meta, confirmed_slot meta}"
    using s by (auto simp: boot_choice_def split: if_splits)
  have "Jump base sp pc = bl_jump_to_app (fl_mem f) (bl_slot_base s)"
    using main_unforced(2) [OF assms(1)] s assms(2,3) by metis
  then show ?thesis
    using k by (intro bexI [of _ s])
      (auto simp: bl_jump_to_app_def known_slot_def bl_slot_image_valid_def bl_is_vector_valid_def
        bl_slot_size_def Let_def not_less split: if_splits)
qed

text \<open>The request for the bootloader is served once. Whatever happens in the session that it opens,
  the backup register no longer holds the request when the flow leaves the bootloader.\<close>

lemma bl_main_consumes_request:
  "snd (snd (bl_main f bkp0r evs1 evs2)) \<noteq> 0xB00710AD"
  by (auto simp: bl_main_def bl_consume_force_bootloader_flag_def Let_def
      split: prod.splits loop_end.splits option.splits)

section \<open>From an update to the next boot\<close>

lemma target_slot_base:
  "bl_flash_is_slot_base t \<Longrightarrow> bl_slot_base (if t = BL_APP_B_BASE then BL_SLOT_B else BL_SLOT_A) = t"
  by (auto simp: bl_flash_is_slot_base_def bl_slot_base_def bl_layout bl_slots)

lemma commit_committed:
  assumes "accepted s (bl_handle_commit p b)" "log_in_order (meta_slots (fl_mem (b_flash b)))"
    and "b_meta b = bl_metadata_load_or_default (fl_mem (b_flash b))"
  shows "bl_load_metadata (b_flash (bl_handle_commit p b)) =
    (commit_record (bl_commit_meta (b_ctx b) (b_meta b)), b_flash (bl_handle_commit p b))"
    and "bl_slot_image_valid (fl_mem (b_flash (bl_handle_commit p b))) m sl = bl_slot_image_valid (fl_mem (b_flash b)) m sl"
    and "bl_jump_to_app (fl_mem (b_flash (bl_handle_commit p b))) (bl_slot_base sl) = bl_jump_to_app (fl_mem (b_flash b)) (bl_slot_base sl)"
proof -
  let ?n = "bl_commit_meta (b_ctx b) (b_meta b)"
  obtain f1 where c: "bl_metadata_commit ?n (b_flash b) = (True, f1)" "b_flash (bl_handle_commit p b) = f1"
    using commit_accepted [OF assms(1)] by metis
  have "bl_meta_seq_is_newer (meta_seq (commit_record ?n)) (meta_seq (b_meta b))"
    by (rule commit_record_newer) simp
  then have "bl_metadata_any_valid (fl_mem (b_flash b)) \<Longrightarrow> bl_meta_seq_is_newer (meta_seq (commit_record ?n))
      (meta_seq (bl_metadata_load_or_default (fl_mem (b_flash b))))"
    by (simp only: assms(3))
  from commit_persists [OF c(1) assms(2) this]
  show "bl_load_metadata (b_flash (bl_handle_commit p b)) = (commit_record ?n, b_flash (bl_handle_commit p b))"
    using c(2) by (simp add: bl_load_metadata_def)
  show "bl_slot_image_valid (fl_mem (b_flash (bl_handle_commit p b))) m sl = bl_slot_image_valid (fl_mem (b_flash b)) m sl"
    and "bl_jump_to_app (fl_mem (b_flash (bl_handle_commit p b))) (bl_slot_base sl) = bl_jump_to_app (fl_mem (b_flash b)) (bl_slot_base sl)"
    using commit_keeps_image [of f1 ?n "b_flash b"] c by simp_all
qed

lemma verified_image_valid:
  assumes "ota_inv (b_ctx b)" "accepted s (bl_handle_verify v b)" "image_size (b_ctx b) \<noteq> 0"
    and "rdmem32 (fl_mem (b_flash b)) (target_base (b_ctx b)) AND 0x2FFE0000 = 0x20000000"
    and "sl = (if target_base (b_ctx b) = BL_APP_B_BASE then BL_SLOT_B else BL_SLOT_A)"
    and "c = b_ctx (bl_handle_verify v b)"
  shows "bl_slot_image_valid (fl_mem (b_flash b)) (commit_record (bl_commit_meta c m)) sl"
    and "bl_slot_base sl = target_base (b_ctx b)"
proof -
  note ver = verify_accepted [OF assms(2)]
  have inv: "bl_flash_is_slot_base (target_base (b_ctx b))" "image_size (b_ctx b) \<le> BL_APP_A_SIZE"
    using assms(1) ver by (simp_all add: ota_inv_def)
  show sb: "bl_slot_base sl = target_base (b_ctx b)"
    using target_slot_base [OF inv(1)] assms(5) by simp
  have c: "target_base c = target_base (b_ctx b)" "image_size c = image_size (b_ctx b)" "image_crc32 c = image_crc32 (b_ctx b)"
    using ver assms(6) by simp_all
  have sz: "bl_slot_image_size (commit_record (bl_commit_meta c m)) sl = image_size (b_ctx b)"
    "bl_slot_crc (commit_record (bl_commit_meta c m)) sl = image_crc32 (b_ctx b)"
    using c assms(5) by (simp_all add: bl_slot_image_size_def bl_slot_crc_def bl_commit_meta_def bl_slots Let_def)
  have "bl_vector_valid_for_slot (fl_mem (b_flash b)) (target_base (b_ctx b)) BL_APP_A_SIZE" using ver by simp
  then have pc: "target_base (b_ctx b) \<le> rdmem32 (fl_mem (b_flash b)) (target_base (b_ctx b) + 4)"
      "rdmem32 (fl_mem (b_flash b)) (target_base (b_ctx b) + 4) < target_base (b_ctx b) + BL_APP_A_SIZE"
    by (simp_all add: bl_vector_valid_for_slot_def Let_def not_le not_less split: if_splits)
  have "0x08000000 \<le> rdmem32 (fl_mem (b_flash b)) (target_base (b_ctx b) + 4)"
      "rdmem32 (fl_mem (b_flash b)) (target_base (b_ctx b) + 4) < 0x08100000"
    using inv(1) pc unfolding bl_flash_is_slot_base_def bl_layout 
    by (auto simp: word_le_nat_alt word_less_nat_alt)
  then have "bl_is_vector_valid (fl_mem (b_flash b)) (target_base (b_ctx b))"
    using assms(4) by (simp add: bl_is_vector_valid_def Let_def not_less)
  moreover have "bl_crc32 (rdn (fl_mem (b_flash b)) (target_base (b_ctx b)) (unat (image_size (b_ctx b)))) = image_crc32 (b_ctx b)"
    using ver by (metis ota_received_def)
  ultimately show "bl_slot_image_valid (fl_mem (b_flash b)) (commit_record (bl_commit_meta c m)) sl"
    using inv(2) assms(3) by (simp add: bl_slot_image_valid_def sb sz bl_slot_size_def Let_def)
qed


text \<open>A device whose slot B holds the eight-byte image, in a session that has received it.\<close>

definition image_flash :: flash where
  "image_flash = sample_flash\<lparr>fl_mem := \<lambda>x. if in_range BL_APP_B_BASE 8 x
     then sample_image ! unat (x - BL_APP_B_BASE) else 0xFF\<rparr>"

definition received_boot :: boot where
  "received_boot = \<lparr>b_ctx = bl_ctx_reset\<lparr>ctx_active := True, expected_seq := 7, target_base := BL_APP_B_BASE,
       image_size := 8, image_crc32 := 0x10C32CA0, chunk_size := 246, write_offset := 8\<rparr>,
     b_meta = bl_metadata_default, b_flash = image_flash, b_tx = [], b_reset = False\<rparr>"

lemma image_flash_bytes: "rdn (fl_mem image_flash) BL_APP_B_BASE 8 = sample_image"
  by (simp add: rdn_eq_iff image_flash_def in_range_nth) (simp add: sample_image_def)

lemma image_flash_words:
  "rdmem32 (fl_mem image_flash) BL_APP_B_BASE = 0x20010000"
  "rdmem32 (fl_mem image_flash) (BL_APP_B_BASE + 4) = 0x08080101"
proof -
  have b: "fl_mem image_flash (BL_APP_B_BASE + of_nat i) = sample_image ! i" if "i < 8" for i
    using image_flash_bytes that by (simp only: rdn_eq_iff)
  show "rdmem32 (fl_mem image_flash) BL_APP_B_BASE = 0x20010000"
    "rdmem32 (fl_mem image_flash) (BL_APP_B_BASE + 4) = 0x08080101"
    using b [of 0] b [of 1] b [of 2] b [of 3] b [of 4] b [of 5] b [of 6] b [of 7]
    by (simp_all add: rdmem32_def add.assoc sample_image_def un32_def)
qed

lemma image_flash_meta:
  "in_range 0x08010000 0x10000 x \<Longrightarrow> fl_mem image_flash x = 0xFF"
  using slot_base_range [of BL_SLOT_B x] in_range_mono [of BL_APP_B_BASE 8 x "0x60000"]
  by (auto simp: image_flash_def bl_slot_base_def)

lemma image_flash_ready: "flash_ready 0x08010000 0x10000 image_flash"
  using image_flash_meta sample_flash_ready [of 0 0]
  by (simp add: flash_ready_def waits_ok_def erased_cell_law_def) (simp add: image_flash_def)

lemma image_flash_unlogged:
  "log_in_order (meta_slots (fl_mem image_flash))" "\<not> bl_metadata_any_valid (fl_mem image_flash)"
  "bl_metadata_default = bl_metadata_load_or_default (fl_mem image_flash)"
  using ready_unlogged [OF image_flash_ready] by simp_all

lemma received_boot_fields [simp]:
  "b_flash received_boot = image_flash" "b_meta received_boot = bl_metadata_default"
  "ctx_active (b_ctx received_boot)" "expected_seq (b_ctx received_boot) = 7"
  "target_base (b_ctx received_boot) = BL_APP_B_BASE" "image_size (b_ctx received_boot) = 8"
  "image_crc32 (b_ctx received_boot) = 0x10C32CA0" "write_offset (b_ctx received_boot) = 8"
  "chunk_size (b_ctx received_boot) = 246"
  by (simp_all add: received_boot_def)

lemma received_boot_session:
  "ota_inv (b_ctx received_boot)" "accepted 7 (bl_handle_verify sample_verify received_boot)"
  "accepted 8 (bl_handle_commit [8, 0] (bl_handle_verify sample_verify received_boot))"
proof -
  show "ota_inv (b_ctx received_boot)" by (simp add: ota_inv_def bl_flash_is_slot_base_def bl_layout)
  have "rd16 sample_verify 0 = 7" "rd32 sample_verify 2 = 0x10C32CA0" "length sample_verify = 6"
    by (simp_all add: sample_verify_def rd16_def rd32_def un16_def un32_def)
  moreover have "bl_vector_valid_for_slot (fl_mem image_flash) BL_APP_B_BASE BL_APP_A_SIZE"
    using image_flash_words by (simp add: bl_vector_valid_for_slot_def Let_def) (simp add: bl_layout)
  ultimately have h: "bl_handle_verify sample_verify received_boot =
      b_ack 7 (received_boot\<lparr>b_ctx := (b_ctx received_boot)\<lparr>expected_seq := 8\<rparr>\<rparr>)"
    by (simp add: bl_handle_verify_def Let_def image_flash_bytes sample_crc)
  then show "accepted 7 (bl_handle_verify sample_verify received_boot)" by simp
  let ?n = "bl_commit_meta ((b_ctx received_boot)\<lparr>expected_seq := 8\<rparr>) bl_metadata_default"
  have "fst (bl_metadata_commit ?n image_flash)"
    by (rule flash_ready_commit) (simp_all add: image_flash_ready bl_commit_meta_def Let_def)
  then obtain f1 where "bl_metadata_commit ?n image_flash = (True, f1)" by (metis prod.collapse)
  then show "accepted 8 (bl_handle_commit [8, 0] (bl_handle_verify sample_verify received_boot))"
    by (simp add: h bl_handle_commit_def rd16_def un16_def Let_def accepted_def)
qed

lemma received_boot_verified:
  "b_flash (bl_handle_verify sample_verify received_boot) = image_flash"
  using verify_accepted [OF received_boot_session(2)] by simp


lemma sample_main_jumps:
  "fst (bl_main (b_flash (bl_handle_commit [8, 0] (bl_handle_verify sample_verify received_boot))) 0 [] []) =
   Jump 0x08080000 0x20010000 0x08080101"
proof -
  let ?b = "bl_handle_verify sample_verify received_boot"
  have m: "b_meta ?b = bl_metadata_default" using verify_accepted [OF received_boot_session(2)] by simp
  have com: "bl_load_metadata (b_flash (bl_handle_commit [8, 0] ?b)) =
      (commit_record (bl_commit_meta (b_ctx ?b) (b_meta ?b)), b_flash (bl_handle_commit [8, 0] ?b))"
    "bl_slot_image_valid (fl_mem (b_flash (bl_handle_commit [8, 0] ?b))) mm sl = bl_slot_image_valid (fl_mem image_flash) mm sl"
    "bl_jump_to_app (fl_mem (b_flash (bl_handle_commit [8, 0] ?b))) (bl_slot_base sl) = bl_jump_to_app (fl_mem image_flash) (bl_slot_base sl)"
    for mm sl
    using commit_committed [OF received_boot_session(3)] image_flash_unlogged m received_boot_verified by simp_all
  let ?m = "commit_record (bl_commit_meta (b_ctx ?b) (b_meta ?b))"
  have "bl_slot_image_valid (fl_mem image_flash) ?m BL_SLOT_B"
    using verified_image_valid(1) [OF received_boot_session(1,2) _ _ _ refl, of BL_SLOT_B "b_meta ?b"]
      image_flash_words by simp
  moreover have "pending_slot ?m = BL_SLOT_B" "boot_attempts ?m = 0"
    using verify_accepted [OF received_boot_session(2)] by (simp_all add: bl_commit_meta_def Let_def)
  ultimately have "boot_choice (fl_mem (b_flash (bl_handle_commit [8, 0] ?b))) ?m = Some BL_SLOT_B"
    by (simp add: boot_choice_def com(2) known_slot_def)
  then have "fst (bl_main (b_flash (bl_handle_commit [8, 0] ?b)) 0 [] []) = bl_jump_to_app (fl_mem image_flash) (bl_slot_base BL_SLOT_B)"
    using main_unforced(2) [of 0 "b_flash (bl_handle_commit [8, 0] ?b)" BL_SLOT_B "[]" "[]"] com(1,3) by simp
  then show ?thesis using image_flash_words by (simp add: bl_jump_to_app_def bl_slot_base_def) (simp add: bl_layout)
qed

theorem bl_main_starts_checked_image_witness:
  "\<exists>f meta. fst (bl_main f 0 [] []) = Jump 0x08080000 0x20010000 0x08080101 \<and>
    (\<exists>s \<in> {pending_slot meta, active_slot meta, confirmed_slot meta} \<inter> {BL_SLOT_A, BL_SLOT_B}.
    0x08080000 = bl_slot_base s \<and> bl_slot_image_size meta s \<noteq> 0 \<and> bl_slot_image_size meta s \<le> BL_APP_A_SIZE \<and>
    bl_crc32 (rdn (fl_mem f) 0x08080000 (unat (bl_slot_image_size meta s))) = bl_slot_crc meta s \<and>
    0x20010000 = rdmem32 (fl_mem f) 0x08080000 \<and> 0x08080101 = rdmem32 (fl_mem f) (0x08080000 + 4) \<and>
    0x08000000 \<le> (0x08080101 :: u32) \<and> (0x08080101 :: u32) < 0x08100000)"
proof -
  have b: "0 \<noteq> (0xB00710AD :: u32)" by simp
  show ?thesis
    by (rule exI, rule exI, rule conjI, rule sample_main_jumps,
        rule bl_main_starts_checked_image [OF b sample_main_jumps refl])
qed

section \<open>What the boot flow does not keep\<close>

text \<open>C37: neither a boot attempt nor a rollback is remembered. The flow commits its metadata without a
  new sequence number, so while the log has a free slot the next boot loads the record from before:
  the attempt counter it reads never grows, and a pending image that fails stays pending.\<close>

theorem bl_boot_pending_forgets:
  assumes "meta = bl_metadata_load_or_default (fl_mem f)" "bl_metadata_any_valid (fl_mem f)"
    and "log_in_order (meta_slots (fl_mem f))" "bl_meta_find_append_addr (fl_mem f) \<noteq> None"
    and "meta_seq meta \<noteq> 0" "known_slot (pending_slot meta)"
    and "bl_boot_pending meta f = (j, m1, f1)" "fst (bl_metadata_commit m1 f)"
  shows "m1 \<noteq> meta \<and> bl_metadata_load_or_default (fl_mem f1) = meta"
proof -
  have m: "meta_seq m1 = meta_seq meta" "f1 = snd (bl_metadata_commit m1 f)"
    using assms(6,7) by (auto simp: bl_boot_pending_def Let_def split: if_splits)
  have "m1 \<noteq> meta"
  proof -
    have "pending_slot m1 = BL_SLOT_NONE \<or> boot_attempts m1 = boot_attempts meta + 1"
      using assms(6,7) by (auto simp: bl_boot_pending_def bl_rollback_pending_def Let_def split: if_splits)
    then show ?thesis using assms(6) by (auto simp: known_slot_def bl_slots)
  qed
  moreover obtain f2 where "bl_metadata_commit m1 f = (True, f2)" using assms(8) by (metis prod.collapse)
  ultimately show ?thesis
    using commit_same_seq [of m1 f f2] m assms(1-5) by simp
qed

text \<open>The default record with the eight-byte image pending in slot B.\<close>

definition pending_meta :: ota_metadata where
  "pending_meta = bl_metadata_default\<lparr>pending_slot := BL_SLOT_B, app_b_size := 8, app_b_crc32 := 0x10C32CA0\<rparr>"

theorem bl_boot_pending_forgets_witness:
  "\<exists>f f1. bl_boot_pending (commit_record pending_meta) f =
       (Some (Jump 0x08080000 0x20010000 0x08080101), (commit_record pending_meta)\<lparr>boot_attempts := 1\<rparr>, f1) \<and>
     bl_metadata_load_or_default (fl_mem f1) = commit_record pending_meta"
proof -
  let ?m = "commit_record pending_meta" and ?m1 = "(commit_record pending_meta)\<lparr>boot_attempts := 1\<rparr>"
  obtain f where f: "bl_metadata_commit pending_meta image_flash = (True, f)"
    "bl_metadata_load_or_default (fl_mem f) = ?m" "bl_metadata_any_valid (fl_mem f)"
    "log_in_order (meta_slots (fl_mem f))" "\<not> erased_slot (meta_slots (fl_mem f) ! 0)"
    "erased_slot (meta_slots (fl_mem f) ! 1)"
    "waits_ok f" "erased_cell_law f" "\<forall>x. in_range (meta_addr 1) 60 x \<longrightarrow> fl_mem f x = 0xFF"
    by (rule first_commit [OF image_flash_ready, of pending_meta]) (simp_all add: pending_meta_def)
  obtain f1 where f1: "bl_metadata_commit ?m1 f = (True, f1)" "bl_meta_find_append_addr (fl_mem f) \<noteq> None"
    by (rule second_commit [OF f(5-9), of ?m1]) (simp_all add: pending_meta_def)
  have p: "pending_slot ?m = BL_SLOT_B" "boot_attempts ?m = 0" "meta_seq ?m = 1"
    by (simp_all add: pending_meta_def commit_record_seq) (simp add: bl_metadata_default_def bl_metadata_update_crc_def Let_def)
  have "bl_slot_image_valid (fl_mem image_flash) ?m BL_SLOT_B"
    using image_flash_bytes image_flash_words sample_crc
    by (simp add: bl_slot_image_valid_def bl_slot_image_size_def bl_slot_crc_def bl_slot_base_def bl_slot_size_def
        bl_is_vector_valid_def pending_meta_def bl_layout Let_def)
  then have v: "bl_slot_image_valid (fl_mem f) ?m BL_SLOT_B"
    using commit_keeps_image(1) [of f pending_meta image_flash] f(1) by simp
  have "bl_jump_to_app (fl_mem f1) (bl_slot_base BL_SLOT_B) = bl_jump_to_app (fl_mem image_flash) (bl_slot_base BL_SLOT_B)"
    using commit_keeps_image(2) [of f pending_meta image_flash] commit_keeps_image(2) [of f1 ?m1 f] f(1) f1(1) by simp
  also have "\<dots> = Jump 0x08080000 0x20010000 0x08080101"
    using image_flash_words by (simp add: bl_jump_to_app_def bl_slot_base_def) (simp add: bl_layout)
  finally have b: "bl_boot_pending ?m f = (Some (Jump 0x08080000 0x20010000 0x08080101), ?m1, f1)"
    using p v f1(1) by (simp add: bl_boot_pending_def known_slot_def)
  have k: "known_slot (pending_slot ?m)" "meta_seq ?m \<noteq> 0" using p by (simp_all add: known_slot_def)
  show ?thesis
    using bl_boot_pending_forgets [OF f(2) [symmetric] f(3,4) f1(2) k(2,1) b] f1(1) b by auto
qed

text \<open>The two stack-pointer tests disagree. An image whose initial stack pointer is the end of the
  128 KB of RAM, \<open>0x20020000\<close>, is verified and can be committed, but the boot flow never starts it;
  and the boot flow takes a stack pointer of \<open>0x30000000\<close>, which VERIFY refuses.\<close>

lemma bl_vector_tests_disagree:
  assumes "bl_flash_is_slot_base base" "base \<le> rdmem32 m (base + 4)" "rdmem32 m (base + 4) < base + BL_APP_A_SIZE"
  shows "(rdmem32 m base = 0x20020000 \<longrightarrow>
      bl_vector_valid_for_slot m base BL_APP_A_SIZE \<and> \<not> bl_is_vector_valid m base) \<and>
    (rdmem32 m base = 0x30000000 \<longrightarrow>
      \<not> bl_vector_valid_for_slot m base BL_APP_A_SIZE \<and> bl_is_vector_valid m base)"
proof -
  have "0x08000000 \<le> rdmem32 m (base + 4)" "rdmem32 m (base + 4) < 0x08100000"
    using assms unfolding bl_flash_is_slot_base_def bl_layout
    by (auto simp: word_le_nat_alt word_less_nat_alt)
  then have "\<not> rdmem32 m (base + 4) < 0x08000000" "\<not> 0x08100000 \<le> rdmem32 m (base + 4)"
    "\<not> rdmem32 m (base + 4) < base" "\<not> base + BL_APP_A_SIZE \<le> rdmem32 m (base + 4)"
    using assms(2,3) by (simp_all add: not_le not_less)
  then show ?thesis by (simp add: bl_vector_valid_for_slot_def bl_is_vector_valid_def Let_def)
qed

lemma bl_vector_tests_disagree_witness:
  "bl_vector_valid_for_slot (\<lambda>a. if a = 0x08020000 then 0 else if a = 0x08020002 then 2 else if a = 0x08020003 then 0x20
     else if a = 0x08020006 then 2 else if a = 0x08020007 then 8 else if a = 0x08020005 then 1 else 0) 0x08020000 BL_APP_A_SIZE"
  using bl_vector_tests_disagree [of "0x08020000" "\<lambda>a. if a = 0x08020000 then 0 else if a = 0x08020002 then 2 else if a = 0x08020003 then 0x20
     else if a = 0x08020006 then 2 else if a = 0x08020007 then 8 else if a = 0x08020005 then 1 else 0"]
  by (simp add: bl_flash_is_slot_base_def bl_layout rdmem32_def un32_def)

end
