(* ===== verification/Gateway_Ota.thy ===== *)
theory Gateway_Ota
  imports Boot_Main
begin

text \<open>
  The application's half of the update protocol (\<open>1_App/app_gateway.c\<close>): its own copy of the metadata
  log, the confirmation of a started image, and the request that sends the device back to the
  bootloader. The interface of a metadata log is the locale \<open>meta_log\<close>; it is interpreted on the
  bootloader's copy and on this one, which makes them interchangeable on the same sector.
\<close>

section \<open>The application's copy of the log\<close>

definition OTA_META_MAGIC :: u32 where "OTA_META_MAGIC = 0x454F5441"
definition OTA_META_SCHEMA_VERSION :: u16 where "OTA_META_SCHEMA_VERSION = 2"
definition OTA_META_ADDR :: u32 where "OTA_META_ADDR = 0x08010000"
definition OTA_META_SECTOR :: nat where "OTA_META_SECTOR = 4"
definition OTA_SLOT_B_BASE :: u32 where "OTA_SLOT_B_BASE = 0x08080000"
definition OTA_SLOT_A :: u8 where "OTA_SLOT_A = 0"
definition OTA_SLOT_B :: u8 where "OTA_SLOT_B = 1"
definition OTA_SLOT_NONE :: u8 where "OTA_SLOT_NONE = 0xFF"
definition OTA_IMG_PENDING :: u32 where "OTA_IMG_PENDING = 2"
definition OTA_IMG_CONFIRMED :: u32 where "OTA_IMG_CONFIRMED = 3"
definition OTA_BL_BOOT_MAGIC :: u32 where "OTA_BL_BOOT_MAGIC = 0xB00710AD"

lemmas ota_consts = OTA_META_MAGIC_def OTA_META_SCHEMA_VERSION_def OTA_META_ADDR_def OTA_META_SECTOR_def
  OTA_SLOT_B_BASE_def OTA_SLOT_A_def OTA_SLOT_B_def OTA_SLOT_NONE_def OTA_IMG_PENDING_def OTA_IMG_CONFIRMED_def
  OTA_BL_BOOT_MAGIC_def

definition ota_meta_update_crc :: "ota_metadata \<Rightarrow> ota_metadata" where
  "ota_meta_update_crc meta =
     (let m0 = meta\<lparr>metadata_crc32 := 0\<rparr> in m0\<lparr>metadata_crc32 := ota_crc32 (meta_bytes m0)\<rparr>)"

definition ota_meta_seq_is_newer :: "u16 \<Rightarrow> u16 \<Rightarrow> bool" where
  "ota_meta_seq_is_newer candidate current =
     (let delta = candidate - current in if delta \<noteq> 0 \<and> delta < 0x8000 then True else False)"

fun erased_loop :: "mem \<Rightarrow> u32 \<Rightarrow> nat \<Rightarrow> bool" where
  "erased_loop m p 0 = True"
| "erased_loop m p (Suc n) = (if m p \<noteq> 0xFF then False else erased_loop m (p + 1) n)"

definition ota_meta_slot_is_erased :: "mem \<Rightarrow> u32 \<Rightarrow> bool" where
  "ota_meta_slot_is_erased m addr = erased_loop m addr 60"

fun ota_meta_scan :: "mem \<Rightarrow> nat list \<Rightarrow> ota_metadata option \<Rightarrow> ota_metadata option" where
  "ota_meta_scan m [] best = best"
| "ota_meta_scan m (i # is) best =
     (let addr = OTA_META_ADDR + of_nat i * 60
      in if ota_meta_slot_is_erased m addr then best
         else
           let tmp = meta_of_bytes (rdn m addr 60)
           in if magic tmp \<noteq> OTA_META_MAGIC \<or> schema_version tmp \<noteq> OTA_META_SCHEMA_VERSION
              then ota_meta_scan m is best
              else
                let crc = metadata_crc32 tmp
                in if ota_crc32 (meta_bytes (tmp\<lparr>metadata_crc32 := 0\<rparr>)) \<noteq> crc then ota_meta_scan m is best
                   else if (case best of None \<Rightarrow> True
                                       | Some b \<Rightarrow> ota_meta_seq_is_newer (meta_seq tmp) (meta_seq b))
                        then ota_meta_scan m is (Some tmp)
                        else ota_meta_scan m is best)"

definition ota_meta_load :: "mem \<Rightarrow> ota_metadata option" where
  "ota_meta_load m = ota_meta_scan m [0 ..< 0x10000 div 60] None"

definition ota_meta_commit :: "ota_metadata \<Rightarrow> flash \<Rightarrow> bool \<times> flash" where
  "ota_meta_commit meta f =
     (let work = ota_meta_update_crc meta;
          f1 = HAL_FLASH_Unlock f;
          append_at = map_option (\<lambda>i. OTA_META_ADDR + of_nat i * 60)
            (List.find (\<lambda>i. ota_meta_slot_is_erased (fl_mem f1) (OTA_META_ADDR + of_nat i * 60)) [0 ..< 0x10000 div 60]);
          (ok, append_addr, f2) = (case append_at of
             Some a \<Rightarrow> (True, a, f1)
           | None \<Rightarrow> (let (st, f') = HAL_FLASHEx_Erase OTA_META_SECTOR 1 f1 in (st = HAL_OK, OTA_META_ADDR, f')))
      in if \<not> ok then (False, HAL_FLASH_Lock f2)
         else
           let (programmed, f3) = program_loop append_addr (meta_bytes work) f2;
               f4 = HAL_FLASH_Lock f3
           in if \<not> programmed then (False, f4)
              else (compare_loop (fl_mem f4) append_addr (meta_bytes work), f4))"

section \<open>Confirming, and asking for the bootloader\<close>

text \<open>The address of the running image's vector table tells the slot it was linked for.\<close>

definition ota_current_slot :: "u32 \<Rightarrow> u8" where
  "ota_current_slot vec =
     (if vec \<ge> OTA_SLOT_B_BASE \<and> vec < OTA_SLOT_B_BASE + 0x00060000 then OTA_SLOT_B else OTA_SLOT_A)"

definition OtaApp_RequestBootloader :: "u32 \<Rightarrow> u32" where
  "OtaApp_RequestBootloader bkp0r = OTA_BL_BOOT_MAGIC"

text \<open>The outcome, which the code writes to its log.\<close>

datatype confirm_log = Meta_load_failed | Not_pending | State_mismatch | Commit_ok | Commit_failed

definition confirm_record :: "u8 \<Rightarrow> ota_metadata \<Rightarrow> ota_metadata" where
  "confirm_record slot m =
     (let m1 = m\<lparr>active_slot := slot, confirmed_slot := slot, pending_slot := OTA_SLOT_NONE, boot_attempts := 0\<rparr>;
          m2 = (if slot = OTA_SLOT_A
                then let a = m1\<lparr>app_a_state := OTA_IMG_CONFIRMED\<rparr>
                     in if app_a_version a > min_allowed_version a
                        then a\<lparr>min_allowed_version := app_a_version a\<rparr> else a
                else let b = m1\<lparr>app_b_state := OTA_IMG_CONFIRMED\<rparr>
                     in if app_b_version b > min_allowed_version b
                        then b\<lparr>min_allowed_version := app_b_version b\<rparr> else b)
      in m2\<lparr>meta_seq := meta_seq m2 + 1\<rparr>)"

definition Gateway_ConfirmSlotEarly :: "u32 \<Rightarrow> flash \<Rightarrow> confirm_log \<times> flash" where
  "Gateway_ConfirmSlotEarly vec f =
     (case ota_meta_load (fl_mem f) of
        None \<Rightarrow> (Meta_load_failed, f)
      | Some meta \<Rightarrow>
          let slot = ota_current_slot vec
          in if pending_slot meta \<noteq> slot then (Not_pending, f)
             else if slot = OTA_SLOT_A \<and> app_a_state meta \<noteq> OTA_IMG_PENDING \<or>
                     slot = OTA_SLOT_B \<and> app_b_state meta \<noteq> OTA_IMG_PENDING then (State_mismatch, f)
             else let (ok, f1) = ota_meta_commit (confirm_record slot meta) f
                  in (if ok then Commit_ok else Commit_failed, f1))"

section \<open>The interface of a metadata log\<close>

locale meta_log =
  fixes load :: "mem \<Rightarrow> ota_metadata option"
    and commit :: "ota_metadata \<Rightarrow> flash \<Rightarrow> bool \<times> flash"
    and stored :: "ota_metadata \<Rightarrow> ota_metadata"
  assumes load_newest: "load m = newest bl_metadata_validate (meta_slots m) None"
    and commit_store: "magic r = BL_META_MAGIC \<Longrightarrow> schema_version r = BL_META_SCHEMA_VERSION \<Longrightarrow>
      commit r f = log_store (stored r) f"
begin

lemma load_committed:
  assumes "commit r f = (True, f')" "log_in_order (meta_slots (fl_mem f))"
    and "magic r = BL_META_MAGIC" "schema_version r = BL_META_SCHEMA_VERSION"
    and "\<And>b. load (fl_mem f) = Some b \<Longrightarrow> seq_newer (meta_seq (stored r)) (meta_seq b)"
  shows "load (fl_mem f') = Some (stored r)" "log_in_order (meta_slots (fl_mem f'))"
  using store_persists [OF assms(1) [unfolded commit_store [OF assms(3,4)]] assms(2)] assms(5)
  by (simp_all only: load_newest)

lemma commit_in_sector:
  assumes "magic r = BL_META_MAGIC" "schema_version r = BL_META_SCHEMA_VERSION"
  shows "fl_mem (snd (commit r f)) x = fl_mem f x \<or> in_range 0x08010000 0x10000 x"
    and "fl_locked (snd (commit r f))"
  using store_frame [of "stored r" f] by (simp_all add: commit_store [OF assms])

end

text \<open>The bootloader's log is one; and so is the application's, although it stores without the
  bootloader's final validation and does not avoid the sequence number zero.\<close>

interpretation bl_log: meta_log "\<lambda>m. map_option snd (bl_meta_find_latest m)" bl_metadata_commit commit_record
  by unfold_locales (simp_all add: find_latest_newest commit_log_store)

lemma erased_loop_eq: "erased_loop m p n \<longleftrightarrow> rdn m p n = replicate n 0xFF"
  by (induction m p n rule: erased_loop.induct) (auto simp: rdn_Suc)

lemma ota_slot_is_erased [simp]: "ota_meta_slot_is_erased = bl_meta_slot_is_erased"
  by (simp add: fun_eq_iff ota_meta_slot_is_erased_def erased_loop_eq slot_is_erased_eq erased_slot_def)

lemma ota_seq_is_newer [simp]: "ota_meta_seq_is_newer = seq_newer"
  by (simp add: fun_eq_iff ota_meta_seq_is_newer_def seq_newer_def Let_def)

lemma ota_validate:
  "bl_metadata_validate m \<longleftrightarrow> magic m = OTA_META_MAGIC \<and> schema_version m = OTA_META_SCHEMA_VERSION \<and>
     ota_crc32 (meta_bytes (m\<lparr>metadata_crc32 := 0\<rparr>)) = metadata_crc32 m"
  by (simp add: bl_metadata_validate_def bl_metadata_validate_reason_def ota_crc32_eq_bl ota_consts meta_consts Let_def)

lemma ota_scan_newest:
  "ota_meta_scan m is best = newest bl_metadata_validate (map (\<lambda>i. rdn m (meta_addr i) 60) is) best"
  by (induction m "is" best rule: ota_meta_scan.induct)
     (auto simp: ota_validate slot_is_erased_eq erased_slot_def OTA_META_ADDR_def addr_eq Let_def
       split: option.splits)

lemma ota_load_newest: "ota_meta_load m = newest bl_metadata_validate (meta_slots m) None"
  by (simp add: ota_meta_load_def ota_scan_newest meta_slots_def meta_max_records_def)

lemma ota_update_crc [simp]: "ota_meta_update_crc = bl_metadata_update_crc"
  by (simp add: fun_eq_iff ota_meta_update_crc_def bl_metadata_update_crc_def ota_crc32_eq_bl)

lemma ota_commit_store:
  assumes "magic r = BL_META_MAGIC" "schema_version r = BL_META_SCHEMA_VERSION"
  shows "ota_meta_commit r f = log_store (bl_metadata_update_crc r) f"
proof -
  let ?w = "bl_metadata_update_crc r"
  have w: "bl_metadata_write_record a ?w g =
      (let (ok, g1) = program_loop a (meta_bytes ?w) g in if \<not> ok then (False, g1) else (compare_loop (fl_mem g1) a (meta_bytes ?w), g1))"
    for a g
    using update_crc_valid [OF assms] compare_loop_eq [of _ a "meta_bytes ?w"]
    by (auto simp: bl_metadata_write_record_def split: prod.splits)
  have l: "fl_mem (HAL_FLASH_Lock g) = fl_mem g" for g by (simp add: HAL_FLASH_Lock_def)
  have a: "bl_meta_find_append_addr m = map_option (\<lambda>i. OTA_META_ADDR + of_nat i * 60)
      (List.find (\<lambda>i. bl_meta_slot_is_erased m (OTA_META_ADDR + of_nat i * 60)) [0 ..< 0x10000 div 60])" for m
    by (simp add: bl_meta_find_append_addr_def OTA_META_ADDR_def)
  show ?thesis
    unfolding ota_meta_commit_def log_store_def ota_slot_is_erased ota_update_crc Let_def a [symmetric] w
      bl_metadata_erase_sector_def
    by (auto simp: l OTA_META_ADDR_def OTA_META_SECTOR_def split: option.splits prod.splits)
qed

interpretation app_log: meta_log ota_meta_load ota_meta_commit bl_metadata_update_crc
  by unfold_locales (simp_all add: ota_load_newest ota_commit_store)

section \<open>Confirming an image\<close>

text \<open>The application and the bootloader never disagree about the metadata: whatever bytes the
  sector holds, both copies of the reader find the same record, or both find none.\<close>

theorem ota_meta_load_agrees:
  "ota_meta_load m = map_option snd (bl_meta_find_latest m)"
  by (simp add: ota_load_newest find_latest_newest)

lemma ota_load_valid: "ota_meta_load m = Some r \<Longrightarrow> bl_metadata_validate r"
  using newest_valid by (auto simp: ota_load_newest)

lemma ota_load_header:
  "ota_meta_load m = Some r \<Longrightarrow> magic r = BL_META_MAGIC" "ota_meta_load m = Some r \<Longrightarrow> schema_version r = BL_META_SCHEMA_VERSION"
  using ota_load_valid [of m r] by (auto simp: ota_validate ota_consts meta_consts)

lemma ota_load_default: "ota_meta_load m = Some r \<Longrightarrow> bl_metadata_load_or_default m = r \<and> bl_metadata_any_valid m"
  by (simp add: ota_load_newest load_newest any_valid_newest)

lemma update_crc_content [simp]:
  "active_slot (bl_metadata_update_crc m) = active_slot m" "pending_slot (bl_metadata_update_crc m) = pending_slot m"
  "confirmed_slot (bl_metadata_update_crc m) = confirmed_slot m" "boot_attempts (bl_metadata_update_crc m) = boot_attempts m"
  "app_a_version (bl_metadata_update_crc m) = app_a_version m" "app_a_size (bl_metadata_update_crc m) = app_a_size m"
  "app_a_crc32 (bl_metadata_update_crc m) = app_a_crc32 m" "app_a_state (bl_metadata_update_crc m) = app_a_state m"
  "app_b_version (bl_metadata_update_crc m) = app_b_version m" "app_b_size (bl_metadata_update_crc m) = app_b_size m"
  "app_b_crc32 (bl_metadata_update_crc m) = app_b_crc32 m" "app_b_state (bl_metadata_update_crc m) = app_b_state m"
  "rollback_count (bl_metadata_update_crc m) = rollback_count m" "last_error (bl_metadata_update_crc m) = last_error m"
  "min_allowed_version (bl_metadata_update_crc m) = min_allowed_version m"
  by (simp_all add: bl_metadata_update_crc_def Let_def)

definition slot_version :: "ota_metadata \<Rightarrow> u8 \<Rightarrow> u32" where
  "slot_version m s = (if s = OTA_SLOT_A then app_a_version m else app_b_version m)"

definition slot_state :: "ota_metadata \<Rightarrow> u8 \<Rightarrow> u32" where
  "slot_state m s = (if s = OTA_SLOT_A then app_a_state m else app_b_state m)"

lemma confirm_record_fields [simp]:
  "magic (confirm_record s m) = magic m" "schema_version (confirm_record s m) = schema_version m"
  "meta_seq (confirm_record s m) = meta_seq m + 1" "active_slot (confirm_record s m) = s"
  "confirmed_slot (confirm_record s m) = s" "pending_slot (confirm_record s m) = OTA_SLOT_NONE"
  "boot_attempts (confirm_record s m) = 0"
  "app_a_size (confirm_record s m) = app_a_size m" "app_a_crc32 (confirm_record s m) = app_a_crc32 m"
  "app_b_size (confirm_record s m) = app_b_size m" "app_b_crc32 (confirm_record s m) = app_b_crc32 m"
  "app_a_version (confirm_record s m) = app_a_version m" "app_b_version (confirm_record s m) = app_b_version m"
  "app_a_state (confirm_record s m) = (if s = OTA_SLOT_A then OTA_IMG_CONFIRMED else app_a_state m)"
  "app_b_state (confirm_record s m) = (if s = OTA_SLOT_A then app_b_state m else OTA_IMG_CONFIRMED)"
  "rollback_count (confirm_record s m) = rollback_count m"
  by (simp_all add: confirm_record_def Let_def)

lemma confirm_record_version:
  "min_allowed_version (confirm_record s m) = max (min_allowed_version m) (slot_version m s)"
  by (auto simp: confirm_record_def slot_version_def Let_def max_def)

lemma current_slot_cases: "ota_current_slot vec = OTA_SLOT_A \<or> ota_current_slot vec = OTA_SLOT_B"
  by (simp add: ota_current_slot_def)

lemma seq_newer_next: "seq_newer (s + 1) s"
  by (simp add: seq_newer_def)

lemma confirm_cases:
  obtains
    (no_metadata) "ota_meta_load (fl_mem f) = None" "Gateway_ConfirmSlotEarly vec f = (Meta_load_failed, f)"
  | (idle) m c where "ota_meta_load (fl_mem f) = Some m" "c = Not_pending \<or> c = State_mismatch"
      "\<not> (pending_slot m = ota_current_slot vec \<and> slot_state m (ota_current_slot vec) = OTA_IMG_PENDING)"
      "Gateway_ConfirmSlotEarly vec f = (c, f)"
  | (committed) m ok f' where "ota_meta_load (fl_mem f) = Some m" "pending_slot m = ota_current_slot vec"
      "slot_state m (ota_current_slot vec) = OTA_IMG_PENDING"
      "ota_meta_commit (confirm_record (ota_current_slot vec) m) f = (ok, f')"
      "Gateway_ConfirmSlotEarly vec f = (if ok then Commit_ok else Commit_failed, f')"
proof (cases "ota_meta_load (fl_mem f)")
  case None
  then show thesis using no_metadata by (simp add: Gateway_ConfirmSlotEarly_def)
next
  case (Some m)
  obtain ok f' where c: "ota_meta_commit (confirm_record (ota_current_slot vec) m) f = (ok, f')"
    by (cases "ota_meta_commit (confirm_record (ota_current_slot vec) m) f")
  have ab: "OTA_SLOT_A \<noteq> OTA_SLOT_B" by (simp add: ota_consts)
  show thesis
  proof (cases "pending_slot m = ota_current_slot vec \<and> slot_state m (ota_current_slot vec) = OTA_IMG_PENDING")
    case True
    then show thesis
      using Some c committed current_slot_cases [of vec] ab
      by (auto simp: Gateway_ConfirmSlotEarly_def slot_state_def Let_def)
  next
    case False
    then show thesis
      using Some idle [of m "if pending_slot m = ota_current_slot vec then State_mismatch else Not_pending"]
        current_slot_cases [of vec] ab
      by (auto simp: Gateway_ConfirmSlotEarly_def slot_state_def Let_def split: if_splits)
  qed
qed

text \<open>Confirming is guarded and stays in the metadata sector. The log is written only when the newest
  record names the running slot as pending with the state pending; in every other case the flash is
  as before, and no case touches an image.\<close>

theorem confirm_guarded:
  "(fst (Gateway_ConfirmSlotEarly vec f) \<in> {Commit_ok, Commit_failed} \<longleftrightarrow>
    (\<exists>m. ota_meta_load (fl_mem f) = Some m \<and> pending_slot m = ota_current_slot vec \<and>
         slot_state m (ota_current_slot vec) = OTA_IMG_PENDING)) \<and>
   (fst (Gateway_ConfirmSlotEarly vec f) \<in> {Commit_ok, Commit_failed} \<or> snd (Gateway_ConfirmSlotEarly vec f) = f) \<and>
   (\<forall>x. fl_mem (snd (Gateway_ConfirmSlotEarly vec f)) x = fl_mem f x \<or> in_range 0x08010000 0x10000 x)"
proof (cases rule: confirm_cases [of f vec])
  case (committed m ok f')
  show ?thesis
    using committed app_log.commit_in_sector(1) [of "confirm_record (ota_current_slot vec) m" f]
      ota_load_header [OF committed(1)] by (auto simp: committed(4))
qed auto

lemma confirm_ok:
  assumes "Gateway_ConfirmSlotEarly vec f = (Commit_ok, f')" "log_in_order (meta_slots (fl_mem f))"
  obtains m where "ota_meta_load (fl_mem f) = Some m" "pending_slot m = ota_current_slot vec"
    "ota_meta_load (fl_mem f') = Some (bl_metadata_update_crc (confirm_record (ota_current_slot vec) m))"
    "log_in_order (meta_slots (fl_mem f'))"
    "\<And>x. fl_mem f' x = fl_mem f x \<or> in_range 0x08010000 0x10000 x"
proof (cases rule: confirm_cases [of f vec])
  case (committed m ok g)
  then have c: "ota_meta_commit (confirm_record (ota_current_slot vec) m) f = (True, f')"
    using assms(1) by (auto split: if_splits)
  note h = ota_load_header [OF committed(1)]
  show thesis
    by (rule that [OF committed(1,2)])
      (use app_log.load_committed [OF c assms(2)] app_log.commit_in_sector(1) [of "confirm_record (ota_current_slot vec) m" f]
        h c committed(1) seq_newer_next in auto)
qed (use assms(1) in auto)

text \<open>A device that has just booted the pending image of slot B; the vector table of that image is at
  the start of the slot.\<close>

definition updated_meta :: ota_metadata where
  "updated_meta = bl_metadata_default\<lparr>pending_slot := BL_SLOT_B, app_b_size := 8, app_b_crc32 := 0x10C32CA0,
     app_b_version := 5, app_b_state := img_code IMG_PENDING\<rparr>"

lemma updated_meta_fields:
  "magic updated_meta = BL_META_MAGIC" "schema_version updated_meta = BL_META_SCHEMA_VERSION" "meta_seq updated_meta = 1"
  "pending_slot updated_meta = BL_SLOT_B" "app_b_size updated_meta = 8" "app_b_crc32 updated_meta = 0x10C32CA0"
  "app_b_version updated_meta = 5" "app_b_state updated_meta = img_code IMG_PENDING" "min_allowed_version updated_meta = 1"
  by (simp_all add: updated_meta_def bl_metadata_default_def bl_metadata_update_crc_def Let_def)

lemma updated_slot: "ota_current_slot 0x08080000 = BL_SLOT_B"
  by (simp add: ota_current_slot_def ota_consts bl_slots)

lemma updated_device:
  obtains f f' where "Gateway_ConfirmSlotEarly 0x08080000 f = (Commit_ok, f')" "log_in_order (meta_slots (fl_mem f))"
    "bl_metadata_load_or_default (fl_mem f) = commit_record updated_meta"
    "bl_slot_image_valid (fl_mem f) (commit_record updated_meta) BL_SLOT_B"
    "bl_jump_to_app (fl_mem f) BL_APP_B_BASE = Jump 0x08080000 0x20010000 0x08080101"
proof -
  let ?m = "commit_record updated_meta" and ?c = "confirm_record BL_SLOT_B (commit_record updated_meta)"
  obtain f where f: "bl_metadata_commit updated_meta image_flash = (True, f)"
    "bl_metadata_load_or_default (fl_mem f) = ?m" "bl_metadata_any_valid (fl_mem f)"
    "log_in_order (meta_slots (fl_mem f))" "\<not> erased_slot (meta_slots (fl_mem f) ! 0)"
    "erased_slot (meta_slots (fl_mem f) ! 1)"
    "waits_ok f" "erased_cell_law f" "\<forall>x. in_range (meta_addr 1) 60 x \<longrightarrow> fl_mem f x = 0xFF"
    by (rule first_commit [OF image_flash_ready, of updated_meta]) (simp_all add: updated_meta_fields)
  obtain f' where f': "bl_metadata_commit ?c f = (True, f')"
    by (rule second_commit [OF f(5-9), of ?c]) (simp_all add: updated_meta_fields)
  have "commit_record ?c = bl_metadata_update_crc ?c"
    by (simp add: commit_record_def [of ?c] commit_record_seq updated_meta_fields)
  then have c: "ota_meta_commit ?c f = (True, f')"
    using f' by (simp add: ota_commit_store updated_meta_fields commit_log_store)
  have l: "ota_meta_load (fl_mem f) = Some ?m"
    using f(2,3) by (auto simp: ota_load_newest load_newest any_valid_newest)
  have "pending_slot ?m = BL_SLOT_B" "app_b_state ?m = OTA_IMG_PENDING"
    by (simp_all add: updated_meta_fields ota_consts)
  then have "Gateway_ConfirmSlotEarly 0x08080000 f = (Commit_ok, f')"
    using l c by (simp add: Gateway_ConfirmSlotEarly_def updated_slot) (simp add: ota_consts bl_slots)
  moreover have "bl_slot_image_valid (fl_mem image_flash) ?m BL_SLOT_B"
    using image_flash_bytes image_flash_words sample_crc
    by (simp add: bl_slot_image_valid_def bl_slot_image_size_def bl_slot_crc_def bl_slot_base_def bl_slot_size_def
        bl_is_vector_valid_def updated_meta_fields bl_layout Let_def)
  then have "bl_slot_image_valid (fl_mem f) ?m BL_SLOT_B"
    using commit_keeps_image(1) [of f updated_meta image_flash] f(1) by simp
  moreover have "bl_jump_to_app (fl_mem f) BL_APP_B_BASE = Jump 0x08080000 0x20010000 0x08080101"
    using commit_keeps_image(2) [of f updated_meta image_flash BL_SLOT_B] f(1) image_flash_words
    by (simp add: bl_jump_to_app_def bl_slot_base_def) (simp add: bl_layout)
  ultimately show thesis using that f(2,4) by blast
qed

text \<open>A confirmation that reports success is what every later boot reads: the running slot is the
  active and the confirmed one, nothing is pending, no attempt is counted, the image's size and
  checksum are those of before, the other slot is untouched, and the lowest version that may be
  installed has been raised to the running one and never lowered.\<close>

theorem confirm_persists:
  assumes "Gateway_ConfirmSlotEarly vec f = (Commit_ok, f')" "log_in_order (meta_slots (fl_mem f))"
    and "m = bl_metadata_load_or_default (fl_mem f)" "m' = bl_metadata_load_or_default (fl_mem f')"
    and "s = ota_current_slot vec"
  shows "active_slot m' = s \<and> confirmed_slot m' = s \<and> pending_slot m' = BL_SLOT_NONE \<and> boot_attempts m' = 0 \<and>
    slot_state m' s = img_code IMG_CONFIRMED \<and>
    (\<forall>t. bl_slot_image_size m' t = bl_slot_image_size m t \<and> bl_slot_crc m' t = bl_slot_crc m t \<and>
         slot_version m' t = slot_version m t) \<and>
    min_allowed_version m' = max (min_allowed_version m) (slot_version m s) \<and>
    meta_seq m' = meta_seq m + 1 \<and> log_in_order (meta_slots (fl_mem f'))"
proof -
  obtain r where r: "ota_meta_load (fl_mem f) = Some r"
    "ota_meta_load (fl_mem f') = Some (bl_metadata_update_crc (confirm_record s r))" "log_in_order (meta_slots (fl_mem f'))"
    using assms(1,2) unfolding assms(5) by (rule confirm_ok)
  then have m: "m = r" "m' = bl_metadata_update_crc (confirm_record s r)"
    using ota_load_default assms(3,4) by blast+
  show ?thesis
    using r(3) by (simp add: m bl_slot_image_size_def bl_slot_crc_def slot_version_def slot_state_def confirm_record_version)
      (simp add: ota_consts bl_slots)
qed

theorem confirm_persists_witness:
  "\<exists>f f'. Gateway_ConfirmSlotEarly 0x08080000 f = (Commit_ok, f') \<and>
     confirmed_slot (bl_metadata_load_or_default (fl_mem f')) = BL_SLOT_B \<and>
     min_allowed_version (bl_metadata_load_or_default (fl_mem f')) = 5"
proof -
  obtain f f' where f: "Gateway_ConfirmSlotEarly 0x08080000 f = (Commit_ok, f')" "log_in_order (meta_slots (fl_mem f))"
    "bl_metadata_load_or_default (fl_mem f) = commit_record updated_meta"
    by (rule updated_device)
  have "slot_version (commit_record updated_meta) BL_SLOT_B = 5" "min_allowed_version (commit_record updated_meta) = 1"
    by (simp_all add: slot_version_def updated_meta_fields) (simp add: ota_consts bl_slots)
  then show ?thesis
    using confirm_persists [OF f(1,2) f(3) [symmetric] refl updated_slot [symmetric]] f(1) by auto
qed

text \<open>C9: a confirmed image stays the one that boots. After a successful confirmation of an image that
  passes the bootloader's checks, every ordinary start of the bootloader jumps to that image's slot.\<close>

theorem confirmed_image_boots:
  assumes "Gateway_ConfirmSlotEarly vec f = (Commit_ok, f')" "log_in_order (meta_slots (fl_mem f))"
    and "s = ota_current_slot vec" "bl_slot_image_valid (fl_mem f) (bl_metadata_load_or_default (fl_mem f)) s"
    and "bkp0r \<noteq> OTA_BL_BOOT_MAGIC"
  shows "fst (bl_main f' bkp0r evs1 evs2) = bl_jump_to_app (fl_mem f) (bl_slot_base s)"
proof -
  obtain r where r: "ota_meta_load (fl_mem f) = Some r"
    "ota_meta_load (fl_mem f') = Some (bl_metadata_update_crc (confirm_record s r))"
    "\<And>x. fl_mem f' x = fl_mem f x \<or> in_range 0x08010000 0x10000 x"
    using confirm_ok [OF assms(1,2)] unfolding assms(3) by metis
  let ?m = "bl_metadata_update_crc (confirm_record s r)"
  have l: "fst (bl_load_metadata f') = ?m"
    using ota_load_default [OF r(2)] by (simp add: bl_load_metadata_def)
  have same: "bl_slot_image_valid (fl_mem f') mm s = bl_slot_image_valid (fl_mem f) mm s"
    "bl_jump_to_app (fl_mem f') (bl_slot_base s) = bl_jump_to_app (fl_mem f) (bl_slot_base s)" for mm
    using sector_keeps_image [OF r(3)] by simp_all
  have "bl_slot_image_size ?m s = bl_slot_image_size r s" "bl_slot_crc ?m s = bl_slot_crc r s"
    by (simp_all add: bl_slot_image_size_def bl_slot_crc_def)
  then have "bl_slot_image_valid (fl_mem f') ?m s"
    using assms(4) ota_load_default [OF r(1)] by (simp add: same(1)) (simp add: bl_slot_image_valid_def)
  moreover have "known_slot s" "\<not> known_slot BL_SLOT_NONE"
    using current_slot_cases [of vec] assms(3) by (auto simp: known_slot_def ota_consts bl_slots)
  ultimately have "boot_choice (fl_mem f') ?m = Some s"
    by (simp add: boot_choice_def) (simp add: ota_consts bl_slots)
  then show ?thesis
    using main_unforced(2) [of bkp0r f' s evs1 evs2] assms(5) l same by (simp add: OTA_BL_BOOT_MAGIC_def)
qed

theorem confirmed_image_boots_witness:
  "\<exists>f f'. Gateway_ConfirmSlotEarly 0x08080000 f = (Commit_ok, f') \<and>
     fst (bl_main f' 0 [] []) = Jump 0x08080000 0x20010000 0x08080101"
proof -
  obtain f f' where f: "Gateway_ConfirmSlotEarly 0x08080000 f = (Commit_ok, f')" "log_in_order (meta_slots (fl_mem f))"
    "bl_metadata_load_or_default (fl_mem f) = commit_record updated_meta"
    "bl_slot_image_valid (fl_mem f) (commit_record updated_meta) BL_SLOT_B"
    "bl_jump_to_app (fl_mem f) BL_APP_B_BASE = Jump 0x08080000 0x20010000 0x08080101"
    by (rule updated_device)
  have "fst (bl_main f' 0 [] []) = bl_jump_to_app (fl_mem f) (bl_slot_base BL_SLOT_B)"
    by (rule confirmed_image_boots [OF f(1,2) updated_slot [symmetric]]) (simp_all add: f(3,4) OTA_BL_BOOT_MAGIC_def)
  then show ?thesis using f(1,5) by (auto simp: bl_slot_base_def)
qed

end
