(* ===== verification/Watchdog.thy ===== *)
theory Watchdog
  imports Prelude
begin

text \<open>
  The task watchdog (\<open>1_App/app_watchdog.c\<close>) and the backup registers it and the crash recorder use
  (\<open>5_Platform/platform_backup.c\<close>). Time is the millisecond tick of the kernel (1000 Hz, 32 bits), an
  argument of the operations that read it; the table of tasks is a list of seven entries. The
  independent hardware watchdog is switched off in the configuration that is built.
\<close>

section \<open>Backup registers\<close>

text \<open>Twenty registers; an index beyond them addresses the first.\<close>

definition bkp_reg_ptr :: "nat \<Rightarrow> nat" where
  "bkp_reg_ptr idx = (if idx > 19 then 0 else idx)"

definition PlatformBackup_Read :: "nat \<Rightarrow> u32 list \<Rightarrow> u32" where
  "PlatformBackup_Read idx regs = regs ! bkp_reg_ptr idx"

definition PlatformBackup_Write :: "nat \<Rightarrow> u32 \<Rightarrow> u32 list \<Rightarrow> u32 list" where
  "PlatformBackup_Write idx v regs = regs[bkp_reg_ptr idx := v]"

datatype boot_reason = BOOT_REASON_UNKNOWN | BOOT_REASON_POWER_ON | BOOT_REASON_PIN_RESET | BOOT_REASON_IWDG
  | BOOT_REASON_WWDG | BOOT_REASON_SOFTWARE | BOOT_REASON_BOR

fun boot_reason_code :: "boot_reason \<Rightarrow> u32" where
  "boot_reason_code BOOT_REASON_UNKNOWN = 0"
| "boot_reason_code BOOT_REASON_POWER_ON = 1"
| "boot_reason_code BOOT_REASON_PIN_RESET = 2"
| "boot_reason_code BOOT_REASON_IWDG = 3"
| "boot_reason_code BOOT_REASON_WWDG = 4"
| "boot_reason_code BOOT_REASON_SOFTWARE = 5"
| "boot_reason_code BOOT_REASON_BOR = 6"

text \<open>The reset flags of the clock controller's status register, by their bit numbers.\<close>

definition PlatformBackup_DetectAndClearResetReason :: "u32 \<Rightarrow> boot_reason" where
  "PlatformBackup_DetectAndClearResetReason csr =
     (if bit csr 29 then BOOT_REASON_IWDG
      else if bit csr 30 then BOOT_REASON_WWDG
      else if bit csr 28 then BOOT_REASON_SOFTWARE
      else if bit csr 26 then BOOT_REASON_PIN_RESET
      else if bit csr 25 then BOOT_REASON_BOR
      else if bit csr 27 then BOOT_REASON_POWER_ON
      else BOOT_REASON_UNKNOWN)"

fun PlatformBackup_ResetReasonToString :: "boot_reason \<Rightarrow> string" where
  "PlatformBackup_ResetReasonToString BOOT_REASON_POWER_ON = ''POWER_ON''"
| "PlatformBackup_ResetReasonToString BOOT_REASON_PIN_RESET = ''PIN_RESET''"
| "PlatformBackup_ResetReasonToString BOOT_REASON_IWDG = ''IWDG''"
| "PlatformBackup_ResetReasonToString BOOT_REASON_WWDG = ''WWDG''"
| "PlatformBackup_ResetReasonToString BOOT_REASON_SOFTWARE = ''SOFTWARE''"
| "PlatformBackup_ResetReasonToString BOOT_REASON_BOR = ''BOR''"
| "PlatformBackup_ResetReasonToString BOOT_REASON_UNKNOWN = ''UNKNOWN''"

definition PlatformBackup_SwResetSourceToString :: "u32 \<Rightarrow> string" where
  "PlatformBackup_SwResetSourceToString src =
     (if src = 1 then ''gateway_cmd'' else if src = 2 then ''hardfault'' else if src = 3 then ''watchdog'' else ''unknown'')"

definition BKP_IDX_LAST_DEAD_TASK :: nat where "BKP_IDX_LAST_DEAD_TASK = 5"
definition BKP_IDX_SW_RESET_SRC :: nat where "BKP_IDX_SW_RESET_SRC = 6"

lemma backup_read_write [simp]:
  "length regs = 20 \<Longrightarrow> PlatformBackup_Read i (PlatformBackup_Write j v regs) =
     (if bkp_reg_ptr i = bkp_reg_ptr j then v else PlatformBackup_Read i regs)"
  "length (PlatformBackup_Write j v regs) = length regs"
  by (auto simp: PlatformBackup_Read_def PlatformBackup_Write_def bkp_reg_ptr_def)

section \<open>The table of tasks\<close>

datatype wd_task = WD_TASK_GATEWAY | WD_TASK_SENSOR | WD_TASK_ALARM | WD_TASK_STORAGE | WD_TASK_DISPLAY | WD_TASK_KEY
  | WD_TASK_LED

fun wd_index :: "wd_task \<Rightarrow> nat" where
  "wd_index WD_TASK_GATEWAY = 0"
| "wd_index WD_TASK_SENSOR = 1"
| "wd_index WD_TASK_ALARM = 2"
| "wd_index WD_TASK_STORAGE = 3"
| "wd_index WD_TASK_DISPLAY = 4"
| "wd_index WD_TASK_KEY = 5"
| "wd_index WD_TASK_LED = 6"

definition WD_TASK_MAX :: nat where "WD_TASK_MAX = 7"

record wd_entry =
  wd_used :: bool
  wd_timeout_ms :: u32
  wd_last_kick_ms :: u32

definition wd_empty :: wd_entry where
  "wd_empty = \<lparr>wd_used = False, wd_timeout_ms = 0, wd_last_kick_ms = 0\<rparr>"

definition Watchdog_Init :: "wd_entry list" where
  "Watchdog_Init = replicate WD_TASK_MAX wd_empty"

definition Watchdog_IsTaskFresh :: "nat \<Rightarrow> u32 \<Rightarrow> wd_entry list \<Rightarrow> bool" where
  "Watchdog_IsTaskFresh tid now g_wd =
     (if tid \<ge> WD_TASK_MAX \<or> \<not> wd_used (g_wd ! tid) then False
      else if now - wd_last_kick_ms (g_wd ! tid) \<le> wd_timeout_ms (g_wd ! tid) then True else False)"

definition Watchdog_RegisterTask :: "nat \<Rightarrow> u32 \<Rightarrow> u32 \<Rightarrow> wd_entry list \<Rightarrow> wd_entry list" where
  "Watchdog_RegisterTask tid timeout_ms now g_wd =
     (if tid \<ge> WD_TASK_MAX then g_wd
      else g_wd[tid := \<lparr>wd_used = True, wd_timeout_ms = timeout_ms, wd_last_kick_ms = now\<rparr>])"

definition Watchdog_Kick :: "nat \<Rightarrow> u32 \<Rightarrow> wd_entry list \<Rightarrow> wd_entry list" where
  "Watchdog_Kick tid now g_wd =
     (if tid \<ge> WD_TASK_MAX \<or> \<not> wd_used (g_wd ! tid) then g_wd
      else g_wd[tid := (g_wd ! tid)\<lparr>wd_last_kick_ms := now\<rparr>])"

section \<open>One pass of the supervising task\<close>

text \<open>The loop that looks for the first task that is late, from entry \<open>i\<close> on.\<close>

fun wd_scan :: "u32 \<Rightarrow> nat \<Rightarrow> wd_entry list \<Rightarrow> nat option" where
  "wd_scan now i [] = None"
| "wd_scan now i (e # es) =
     (if \<not> wd_used e then wd_scan now (i + 1) es
      else if now - wd_last_kick_ms e > wd_timeout_ms e then Some i
      else wd_scan now (i + 1) es)"

text \<open>What the pass ends with: another delay, or the reset, with the registers as they are then.\<close>

datatype wd_outcome = Wd_continue | Wd_reset

definition WatchdogTask_pass :: "u32 \<Rightarrow> wd_entry list \<Rightarrow> u32 list \<Rightarrow> wd_outcome \<times> u32 list" where
  "WatchdogTask_pass now g_wd regs =
     (case wd_scan now 0 g_wd of
        None \<Rightarrow> (Wd_continue, regs)
      | Some i \<Rightarrow>
          (let regs1 = PlatformBackup_Write BKP_IDX_LAST_DEAD_TASK (of_nat i) regs
           in (Wd_reset, PlatformBackup_Write BKP_IDX_SW_RESET_SRC 3 regs1)))"

section \<open>Properties\<close>

lemma wd_scan_Some:
  "wd_scan now i es = Some j \<Longrightarrow>
   i \<le> j \<and> j < i + length es \<and> wd_used (es ! (j - i)) \<and>
   now - wd_last_kick_ms (es ! (j - i)) > wd_timeout_ms (es ! (j - i)) \<and>
   (\<forall>k. i \<le> k \<longrightarrow> k < j \<longrightarrow> wd_used (es ! (k - i)) \<longrightarrow> now - wd_last_kick_ms (es ! (k - i)) \<le> wd_timeout_ms (es ! (k - i)))"
proof (induction now i es rule: wd_scan.induct)
  case (2 now i e es)
  show ?case
  proof (cases "wd_used e \<and> now - wd_last_kick_ms e > wd_timeout_ms e")
    case True
    then show ?thesis using 2(3) by auto
  next
    case False
    then have "wd_scan now (i + 1) es = Some j" using 2(3) by (auto split: if_splits)
    then have ih: "i + 1 \<le> j" "j < i + 1 + length es" "wd_used (es ! (j - (i + 1)))"
      "now - wd_last_kick_ms (es ! (j - (i + 1))) > wd_timeout_ms (es ! (j - (i + 1)))"
      "\<And>k. i + 1 \<le> k \<Longrightarrow> k < j \<Longrightarrow> wd_used (es ! (k - (i + 1))) \<Longrightarrow>
         now - wd_last_kick_ms (es ! (k - (i + 1))) \<le> wd_timeout_ms (es ! (k - (i + 1)))"
      using 2(1,2) False by (auto simp: not_less split: if_splits)
    have n: "(e # es) ! (k - i) = es ! (k - (i + 1))" if "i + 1 \<le> k" for k
    proof -
      have "k - i = Suc (k - (i + 1))" using that by simp
      then show ?thesis by simp
    qed
    have "wd_used ((e # es) ! (k - i)) \<longrightarrow> now - wd_last_kick_ms ((e # es) ! (k - i)) \<le> wd_timeout_ms ((e # es) ! (k - i))"
      if "i \<le> k" "k < j" for k
    proof (cases "k = i")
      case True
      then show ?thesis using False by auto
    next
      case False
      then show ?thesis using ih(5) [of k] n [of k] that by simp
    qed
    then show ?thesis using ih n [OF ih(1)] by auto
  qed
qed simp

lemma wd_scan_None:
  "wd_scan now i es = None \<longleftrightarrow> (\<forall>e \<in> set es. wd_used e \<longrightarrow> now - wd_last_kick_ms e \<le> wd_timeout_ms e)"
  by (induction now i es rule: wd_scan.induct) (auto simp: not_less)

text \<open>C33: the watchdog acts exactly when a task is late. A pass continues if and only if every
  registered task is fresh; otherwise it resets the device, having recorded the first task that is
  late and the watchdog as the source of the reset in the backup registers.\<close>

theorem WatchdogTask_pass_correct:
  assumes "length g_wd = 7" "length regs = 20"
  shows "(fst (WatchdogTask_pass now g_wd regs) = Wd_continue \<longleftrightarrow>
      (\<forall>tid < 7. wd_used (g_wd ! tid) \<longrightarrow> Watchdog_IsTaskFresh tid now g_wd)) \<and>
    (fst (WatchdogTask_pass now g_wd regs) = Wd_continue \<longrightarrow> snd (WatchdogTask_pass now g_wd regs) = regs) \<and>
    (fst (WatchdogTask_pass now g_wd regs) = Wd_reset \<longrightarrow>
      (\<exists>tid < 7. wd_used (g_wd ! tid) \<and> \<not> Watchdog_IsTaskFresh tid now g_wd \<and>
         (\<forall>k < tid. wd_used (g_wd ! k) \<longrightarrow> Watchdog_IsTaskFresh k now g_wd) \<and>
         PlatformBackup_Read BKP_IDX_LAST_DEAD_TASK (snd (WatchdogTask_pass now g_wd regs)) = of_nat tid \<and>
         PlatformBackup_Read BKP_IDX_SW_RESET_SRC (snd (WatchdogTask_pass now g_wd regs)) = 3))"
proof (cases "wd_scan now 0 g_wd")
  case None
  then have "\<forall>tid < 7. wd_used (g_wd ! tid) \<longrightarrow> Watchdog_IsTaskFresh tid now g_wd"
    using assms(1) by (auto simp: wd_scan_None Watchdog_IsTaskFresh_def WD_TASK_MAX_def)
  then show ?thesis using None by (simp add: WatchdogTask_pass_def)
next
  case (Some j)
  note s = wd_scan_Some [OF Some]
  have j: "j < 7" "wd_used (g_wd ! j)" "\<not> Watchdog_IsTaskFresh j now g_wd"
    "\<forall>k < j. wd_used (g_wd ! k) \<longrightarrow> Watchdog_IsTaskFresh k now g_wd"
    using s assms(1) by (auto simp: Watchdog_IsTaskFresh_def WD_TASK_MAX_def)
  have "PlatformBackup_Read BKP_IDX_LAST_DEAD_TASK (snd (WatchdogTask_pass now g_wd regs)) = of_nat j"
    "PlatformBackup_Read BKP_IDX_SW_RESET_SRC (snd (WatchdogTask_pass now g_wd regs)) = 3"
    using assms(2) Some by (simp_all add: WatchdogTask_pass_def Let_def bkp_reg_ptr_def BKP_IDX_LAST_DEAD_TASK_def BKP_IDX_SW_RESET_SRC_def)
  then show ?thesis using Some j by (auto simp: WatchdogTask_pass_def Let_def)
qed

text \<open>The table as \<open>main\<close> fills it.\<close>

definition main_watchdog :: "u32 \<Rightarrow> wd_entry list" where
  "main_watchdog now =
     Watchdog_RegisterTask 6 6000 now (Watchdog_RegisterTask 5 6000 now (Watchdog_RegisterTask 4 6000 now
       (Watchdog_RegisterTask 3 12000 now (Watchdog_RegisterTask 2 6000 now (Watchdog_RegisterTask 1 6000 now
         (Watchdog_RegisterTask 0 6000 now Watchdog_Init))))))"

lemma main_watchdog_entries:
  "main_watchdog now = map (\<lambda>t. \<lparr>wd_used = True, wd_timeout_ms = t, wd_last_kick_ms = now\<rparr>)
     [6000, 6000, 6000, 12000, 6000, 6000, 6000]"
  by (simp add: main_watchdog_def Watchdog_RegisterTask_def Watchdog_Init_def WD_TASK_MAX_def eval_nat_numeral)

theorem WatchdogTask_pass_correct_witness:
  "fst (WatchdogTask_pass 6001 (main_watchdog 0) (replicate 20 0)) = Wd_reset \<and>
   PlatformBackup_Read BKP_IDX_SW_RESET_SRC (snd (WatchdogTask_pass 6001 (main_watchdog 0) (replicate 20 0))) = 3"
proof -
  have "fst (WatchdogTask_pass 6001 (main_watchdog 0) (replicate 20 0)) = Wd_reset"
    by (simp add: WatchdogTask_pass_def main_watchdog_entries)
  then show ?thesis
    using WatchdogTask_pass_correct [of "main_watchdog 0" "replicate 20 0" 6001] by (auto simp: main_watchdog_entries)
qed

lemma fresh_after_kick:
  assumes "length g_wd = 7" "tid < 7" "wd_used (g_wd ! tid)"
  shows "Watchdog_IsTaskFresh tid (t + d) (Watchdog_Kick tid t g_wd) \<longleftrightarrow> d \<le> wd_timeout_ms (g_wd ! tid)"
  using assms by (simp add: Watchdog_IsTaskFresh_def Watchdog_Kick_def WD_TASK_MAX_def)

end
