(* ===== verification/Gateway_Task.thy ===== *)
theory Gateway_Task
  imports Gateway_Replay Gateway_Ota Watchdog
begin

text \<open>
  The gateway task (\<open>1_App/app_gateway.c\<close>): the commands of the other side, the dispatch of received
  frames, the health check before an image is confirmed, and one pass of the task's loop. The state
  gathers what the task works on; the tick of the kernel is read from a schedule, one value for each
  reading. Interrupts act between passes.
\<close>

section \<open>The state of the task\<close>

record gateway =
  gt_reports :: gw_reports
  gt_uart :: gw_uart
  gt_frame_buf :: "u8 list"
  gt_event_queue :: "u8 list"
  gt_force_report :: u8
  gt_app_confirm_sent :: u8
  gt_last_report_tick :: u32
  gt_last_heartbeat_tick :: u32
  gt_last_diag_tick :: u32
  gt_boot_tick :: u32
  gt_home :: home_state
  gt_cfg :: runtime_cfg
  gt_log_level :: u8
  gt_wd :: "wd_entry list"
  gt_bkp :: "u32 list"
  gt_flash :: flash
  gt_vectors :: u32
  gt_ticks :: "nat \<Rightarrow> u32"
  gt_tick_no :: nat

definition read_tick :: "gateway \<Rightarrow> u32 \<times> gateway" where
  "read_tick g = (gt_ticks g (gt_tick_no g), g\<lparr>gt_tick_no := gt_tick_no g + 1\<rparr>)"

text \<open>A step of the task ends with the task running on, or with a reset of the device.\<close>

datatype task_end = Runs gateway | Resets gateway

definition with_reports :: "(gw_reports \<Rightarrow> gw_reports) \<Rightarrow> gateway \<Rightarrow> gateway" where
  "with_reports f g = g\<lparr>gt_reports := f (gt_reports g)\<rparr>"

definition Gateway_RequestImmediateReport :: "gateway \<Rightarrow> gateway" where
  "Gateway_RequestImmediateReport g = g\<lparr>gt_force_report := 1\<rparr>"

definition GW_EVENT_QUEUE_LEN :: nat where "GW_EVENT_QUEUE_LEN = 8"

definition Gateway_ReportAlarmEvent :: "u8 \<Rightarrow> u8 list \<Rightarrow> u8 list" where
  "Gateway_ReportAlarmEvent event_code q = (if length q \<ge> GW_EVENT_QUEUE_LEN then q else q @ [event_code])"

text \<open>A sensor report now.\<close>

definition report_now :: "gateway \<Rightarrow> gateway" where
  "report_now g = (let (now, g1) = read_tick g in with_reports (gw_send_sensor_data (gt_home g1) now) g1)"

section \<open>Commands\<close>

definition GW_ACK_OK :: u8 where "GW_ACK_OK = 0"
definition GW_ACK_BAD_PAYLOAD :: u8 where "GW_ACK_BAD_PAYLOAD = 1"
definition GW_ACK_UNKNOWN_CMD :: u8 where "GW_ACK_UNKNOWN_CMD = 2"

lemmas gw_acks = GW_ACK_OK_def GW_ACK_BAD_PAYLOAD_def GW_ACK_UNKNOWN_CMD_def

text \<open>The branches of the switch except the restart into the bootloader.\<close>

definition gw_command :: "u8 \<Rightarrow> u8 \<Rightarrow> u8 list \<Rightarrow> gateway \<Rightarrow> u8 \<times> gateway" where
  "gw_command cmd_type cmd_arg payload g =
     (if cmd_type = 0x01 then
        (if length payload < 5 then (GW_ACK_BAD_PAYLOAD, g)
         else (GW_ACK_OK, Gateway_RequestImmediateReport
                 (g\<lparr>gt_home := SmartHomeState_SetManualLed (if cmd_arg \<noteq> 0 then 1 else 0) (gt_home g)\<rparr>)))
      else if cmd_type = 0x02 then
        (if length payload < 5 then (GW_ACK_BAD_PAYLOAD, g)
         else (GW_ACK_OK, Gateway_RequestImmediateReport
                 (g\<lparr>gt_home := SmartHomeState_SetManualBuzzer (if cmd_arg \<noteq> 0 then 1 else 0) (gt_home g)\<rparr>)))
      else if cmd_type = 0x03 then
        (if length payload < 5 then (GW_ACK_BAD_PAYLOAD, g)
         else (GW_ACK_OK, Gateway_RequestImmediateReport
                 (g\<lparr>gt_home := SmartHomeState_SetMode (if cmd_arg \<noteq> 0 then SMARTHOME_MODE_AUTO else SMARTHOME_MODE_MANUAL)
                                 (gt_home g)\<rparr>)))
      else if cmd_type = 0x04 then (GW_ACK_OK, Gateway_RequestImmediateReport g)
      else if cmd_type = 0x05 then
        (if length payload < 8 then (GW_ACK_BAD_PAYLOAD, g)
         else let temp_threshold = f_div (of_nat (unat (un16 (payload ! 4) (payload ! 5)))) 10;
                  humi_threshold = f_div (of_nat (unat (un16 (payload ! 6) (payload ! 7)))) 10
              in (GW_ACK_OK, Gateway_RequestImmediateReport
                    (g\<lparr>gt_cfg := SmartHomeConfig_SetThreshold temp_threshold humi_threshold (gt_cfg g)\<rparr>)))
      else if cmd_type = 0x06 then
        (if length payload < 5 then (GW_ACK_BAD_PAYLOAD, g)
         else if cmd_arg > LOG_LEVEL_INFO then (GW_ACK_BAD_PAYLOAD, g)
         else (GW_ACK_OK, g\<lparr>gt_log_level := Log_SetLevel cmd_arg\<rparr>))
      else (GW_ACK_UNKNOWN_CMD, g))"

definition gw_reboot_to_bootloader :: "u16 \<Rightarrow> gateway \<Rightarrow> gateway" where
  "gw_reboot_to_bootloader command_id g =
     (let g1 = with_reports (gw_send_command_ack command_id GW_ACK_OK) g;
          g2 = g1\<lparr>gt_bkp := (gt_bkp g1)[0 := OtaApp_RequestBootloader (gt_bkp g1 ! 0)]\<rparr>
      in g2\<lparr>gt_bkp := PlatformBackup_Write BKP_IDX_SW_RESET_SRC 1 (gt_bkp g2)\<rparr>)"

definition gw_handle_command_req :: "u8 list \<Rightarrow> gateway \<Rightarrow> task_end" where
  "gw_handle_command_req payload g =
     (if length payload < 4 then Runs g
      else let target_device = payload ! 0
           in if target_device \<noteq> GW_DEVICE_ID then Runs g
              else let command_id = un16 (payload ! 1) (payload ! 2);
                       cmd_type = payload ! 3;
                       cmd_arg = (if length payload \<ge> 5 then payload ! 4 else 0)
                   in if cmd_type = 0x07 then Resets (gw_reboot_to_bootloader command_id g)
                      else let (r, g1) = gw_command cmd_type cmd_arg payload g;
                               g2 = with_reports (gw_send_command_ack command_id r) g1
                           in Runs (if r = GW_ACK_OK then with_reports gw_send_device_status (report_now g2) else g2))"

definition gw_process_frame :: "u8 \<Rightarrow> u8 list \<Rightarrow> gateway \<Rightarrow> task_end" where
  "gw_process_frame frame_type payload g =
     (if frame_type = 0x10 then gw_handle_command_req payload g
      else if frame_type = 0x06 then Runs (with_reports (gw_process_report_ack payload) g)
      else Runs g)"

section \<open>The loops over received bytes and queued events\<close>

fun process_frames :: "(u8 \<times> u8 list) list \<Rightarrow> gateway \<Rightarrow> task_end" where
  "process_frames [] g = Runs g"
| "process_frames ((ty, p) # fs) g = (case gw_process_frame ty p g of Resets g1 \<Rightarrow> Resets g1 | Runs g1 \<Rightarrow> process_frames fs g1)"

text \<open>The ring never holds more than 511 bytes, so 512 turns empty it.\<close>

fun gw_rx_loop :: "nat \<Rightarrow> gateway \<Rightarrow> task_end" where
  "gw_rx_loop 0 g = Runs g"
| "gw_rx_loop (Suc n) g =
     (case gw_uart_read_byte (gt_uart g) of
        None \<Rightarrow> Runs g
      | Some (rx_byte, u) \<Rightarrow>
          (case gw_process_rx_byte rx_byte (gt_frame_buf g) of
             (fs, buf) \<Rightarrow> (case process_frames fs (g\<lparr>gt_uart := u, gt_frame_buf := buf\<rparr>) of
                             Resets g1 \<Rightarrow> Resets g1
                           | Runs g1 \<Rightarrow> gw_rx_loop n g1)))"

fun send_events :: "u8 list \<Rightarrow> gateway \<Rightarrow> gateway" where
  "send_events [] g = g\<lparr>gt_event_queue := []\<rparr>"
| "send_events (e # es) g = send_events es (with_reports (gw_send_alarm_event e) g)"

section \<open>Health and confirmation\<close>

fun all_fresh :: "nat list \<Rightarrow> gateway \<Rightarrow> bool \<times> gateway" where
  "all_fresh [] g = (True, g)"
| "all_fresh (t # ts) g =
     (let (now, g1) = read_tick g in if \<not> Watchdog_IsTaskFresh t now (gt_wd g1) then (False, g1) else all_fresh ts g1)"

definition gw_can_confirm_slot :: "gateway \<Rightarrow> bool \<times> gateway" where
  "gw_can_confirm_slot g =
     (let (fresh, g1) = all_fresh (map wd_index [WD_TASK_GATEWAY, WD_TASK_SENSOR, WD_TASK_ALARM, WD_TASK_STORAGE,
                                                 WD_TASK_DISPLAY, WD_TASK_KEY, WD_TASK_LED]) g
      in if \<not> fresh then (False, g1)
         else if \<not> fst (Storage_GetStats (fst (g_store (gt_reports g1)))) then (False, g1)
         else (sensor_valid (gt_home g1) \<noteq> 0, g1))"

definition GW_HEARTBEAT_PERIOD_MS :: u32 where "GW_HEARTBEAT_PERIOD_MS = 10000"
definition GW_DIAG_HEARTBEAT_MS :: u32 where "GW_DIAG_HEARTBEAT_MS = 30000"
definition GW_APP_CONFIRM_DELAY_MS :: u32 where "GW_APP_CONFIRM_DELAY_MS = 30000"

definition pass_report :: "gateway \<Rightarrow> gateway" where
  "pass_report g =
     (let (due, g1) = (if gt_force_report g \<noteq> 0 then (True, g)
                       else (let (t, g') = read_tick g in (t - gt_last_report_tick g' \<ge> ucast (mqtt_report_period_ms (gt_cfg g')), g')))
      in if due then (let (now_tick, g2) = read_tick g1
                      in (report_now g2)\<lparr>gt_last_report_tick := now_tick, gt_force_report := 0\<rparr>)
         else g1)"

definition pass_heartbeat :: "gateway \<Rightarrow> gateway" where
  "pass_heartbeat g =
     (let (t, g1) = read_tick g
      in if t - gt_last_heartbeat_tick g1 \<ge> GW_HEARTBEAT_PERIOD_MS
         then (let (t', g2) = read_tick (with_reports (gw_send_device_status \<circ> gw_send_heartbeat) g1)
               in g2\<lparr>gt_last_heartbeat_tick := t'\<rparr>)
         else g1)"

definition pass_replay :: "gateway \<Rightarrow> gateway" where
  "pass_replay g = (let (t, g1) = read_tick g in with_reports (gw_try_replay_cache t) g1)"

definition pass_diag :: "gateway \<Rightarrow> gateway" where
  "pass_diag g =
     (let (t, g1) = read_tick g
      in if t - gt_last_diag_tick g1 \<ge> GW_DIAG_HEARTBEAT_MS
         then (let (t', g2) = read_tick g1 in g2\<lparr>gt_last_diag_tick := t'\<rparr>) else g1)"

definition pass_confirm :: "gateway \<Rightarrow> gateway" where
  "pass_confirm g =
     (if gt_app_confirm_sent g \<noteq> 0 then g
      else (let (t, g1) = read_tick g
            in if t - gt_boot_tick g1 \<ge> GW_APP_CONFIRM_DELAY_MS
               then (let (can, g2) = gw_can_confirm_slot g1
                     in if can
                        then let g3 = g2\<lparr>gt_flash := snd (Gateway_ConfirmSlotEarly (gt_vectors g2) (gt_flash g2))\<rparr>
                             in (with_reports gw_send_app_confirm g3)\<lparr>gt_app_confirm_sent := 1\<rparr>
                        else g2)
               else g1))"

text \<open>One pass of the loop, up to its delay.\<close>

definition GatewayTask_pass :: "gateway \<Rightarrow> task_end" where
  "GatewayTask_pass g =
     (let (now, g0) = read_tick g
      in (case gw_rx_loop 512 (g0\<lparr>gt_wd := Watchdog_Kick (wd_index WD_TASK_GATEWAY) now (gt_wd g0)\<rparr>) of
            Resets g1 \<Rightarrow> Resets g1
          | Runs g1 \<Rightarrow>
              Runs (pass_confirm (pass_diag (pass_replay (pass_heartbeat (pass_report (send_events (gt_event_queue g1) g1))))))))"

text \<open>The start of the task, after the set-up of its interface.\<close>

definition GatewayTask_start :: "gateway \<Rightarrow> gateway" where
  "GatewayTask_start g =
     (let h = SmartHomeState_SetMQTTReconnectFailCount 0 (SmartHomeState_SetMQTTConnected 0 (SmartHomeState_SetWiFiConnected 0 (gt_home g)));
          (t1, g1) = read_tick (g\<lparr>gt_home := h\<rparr>);
          (t2, g2) = read_tick g1;
          (t3, g3) = read_tick g2;
          (t4, g4) = read_tick g3;
          (t5, g5) = read_tick g4
      in g5\<lparr>gt_last_report_tick := t1, gt_last_heartbeat_tick := t2, gt_last_diag_tick := t3, gt_boot_tick := t4,
            gt_force_report := 1, gt_app_confirm_sent := 0,
            gt_reports := (gt_reports g5)\<lparr>g_pending_reports := replicate GW_PENDING_QUEUE_SIZE pending_zero,
              g_replay_active := 0, g_replay_last_try_ms := t5, g_replay_last_backlog := 0\<rparr>\<rparr>)"

section \<open>What the task leaves alone\<close>

text \<open>The part of the state on which the confirmation rests.\<close>

definition store_inited :: "gw_reports \<Rightarrow> u8" where
  "store_inited r = st_inited (fst (g_store r))"

definition gt_guard where
  "gt_guard g = (gt_flash g, gt_vectors g, gt_boot_tick g, gt_app_confirm_sent g, gt_ticks g, sensor_valid (gt_home g),
     store_inited (gt_reports g), gt_wd g)"

lemma peek_inited: "st_inited (fst (snd (cache_peek s))) = st_inited (fst s)"
  by (auto simp: cache_peek_def Storage_PeekCache_def storage_scan_cache_region_def Let_def split: prod.splits option.splits)

lemma ack_inited: "st_inited (fst (snd (cache_ack q s))) = st_inited (fst s)"
  by (auto simp: cache_ack_def Storage_MarkCacheAck_def Let_def split: prod.splits option.splits)

lemma replay_loop_inited:
  "replay_loop cache_peek cache_ack t n s ps l = (s', ps', l') \<Longrightarrow> st_inited (fst s') = st_inited (fst s)"
proof (induction n arbitrary: s ps l)
  case (Suc n)
  obtain r s1 where p: "cache_peek s = (r, s1)" by (cases "cache_peek s")
  have i1: "st_inited (fst s1) = st_inited (fst s)" using peek_inited [of s] p by simp
  obtain b s2 where a: "cache_ack (fst (the r)) s1 = (b, s2)" by (cases "cache_ack (fst (the r)) s1")
  have i2: "st_inited (fst s2) = st_inited (fst s)" using ack_inited [of "fst (the r)" s1] a i1 by simp
  show ?case
    using Suc.prems p a i1 i2 Suc.IH by (auto split: if_splits option.splits prod.splits)
qed simp

lemma on_line_store [simp]: "g_store (on_line f r) = g_store r"
  by (simp add: on_line_def)

lemma inited_frames [frame_simps]:
  "store_inited (gw_send_sensor_data st t r) = store_inited r"
  "store_inited (gw_try_replay_cache t r) = store_inited r"
  "store_inited (gw_process_report_ack p r) = store_inited r"
  "store_inited (gw_send_heartbeat r) = store_inited r" "store_inited (gw_send_alarm_event e r) = store_inited r"
  "store_inited (gw_send_device_status r) = store_inited r" "store_inited (gw_send_app_confirm r) = store_inited r"
  "store_inited (gw_send_command_ack c x r) = store_inited r"
proof -
  show "store_inited (gw_send_sensor_data st t r) = store_inited r"
    by (simp add: store_inited_def gw_send_sensor_data_def Let_def split: prod.split)
  show "store_inited (gw_try_replay_cache t r) = store_inited r"
    using replay_loop_inited by (auto simp: store_inited_def gw_try_replay_cache_def Let_def split: prod.split)
  show "store_inited (gw_process_report_ack p r) = store_inited r"
    by (simp add: store_inited_def gw_process_report_ack_def Let_def ack_inited split: option.split)
qed (simp_all add: store_inited_def gw_send_heartbeat_def gw_send_alarm_event_def gw_send_device_status_def
    gw_send_app_confirm_def gw_send_command_ack_def)

lemma guard_read_tick [frame_simps]: "read_tick g = (t, g') \<Longrightarrow> gt_guard g' = gt_guard g"
  by (auto simp: read_tick_def gt_guard_def)

lemma guard_with_reports [frame_simps]:
  "store_inited (f (gt_reports g)) = store_inited (gt_reports g) \<Longrightarrow> gt_guard (with_reports f g) = gt_guard g"
  by (simp add: gt_guard_def with_reports_def)

lemma guard_report_now [frame_simps]: "gt_guard (report_now g) = gt_guard g"
  by (auto simp: report_now_def frame_simps split: prod.split)

lemma guard_command: "gw_command ty a p g = (r, g') \<Longrightarrow> gt_guard g' = gt_guard g"
  by (auto simp: gw_command_def Gateway_RequestImmediateReport_def gt_guard_def home_setters Let_def split: if_splits)

lemma guard_frame: "gw_process_frame ty p g = Runs g' \<Longrightarrow> gt_guard g' = gt_guard g"
  by (auto simp: gw_process_frame_def gw_handle_command_req_def Let_def frame_simps dest!: guard_command
      split: if_splits prod.splits)

lemma guard_frames: "process_frames fs g = Runs g' \<Longrightarrow> gt_guard g' = gt_guard g"
  by (induction fs g rule: process_frames.induct) (auto dest: guard_frame split: task_end.splits)

lemma guard_rx_loop: "gw_rx_loop n g = Runs g' \<Longrightarrow> gt_guard g' = gt_guard g"
proof (induction n arbitrary: g)
  case (Suc n)
  have "gt_guard (g\<lparr>gt_uart := u, gt_frame_buf := buf\<rparr>) = gt_guard g" for u buf by (simp add: gt_guard_def)
  then show ?case using Suc.prems Suc.IH
    by (auto split: option.splits prod.splits task_end.splits dest!: guard_frames)
qed simp

lemma guard_events: "gt_guard (send_events es g) = gt_guard g"
  by (induction es g rule: send_events.induct) (simp_all add: frame_simps, simp add: gt_guard_def)

lemma guard_pass_parts:
  "gt_guard (pass_report g) = gt_guard g" "gt_guard (pass_heartbeat g) = gt_guard g"
  "gt_guard (pass_replay g) = gt_guard g" "gt_guard (pass_diag g) = gt_guard g"
proof -
  have u: "gt_guard (g'\<lparr>gt_last_report_tick := a, gt_force_report := b\<rparr>) = gt_guard g'"
    "gt_guard (g'\<lparr>gt_last_heartbeat_tick := a\<rparr>) = gt_guard g'" "gt_guard (g'\<lparr>gt_last_diag_tick := a\<rparr>) = gt_guard g'" for g' a b
    by (simp_all add: gt_guard_def)
  show "gt_guard (pass_report g) = gt_guard g"
    by (auto simp: pass_report_def u Let_def frame_simps split: prod.splits if_splits)
  show "gt_guard (pass_heartbeat g) = gt_guard g"
    by (auto simp: pass_heartbeat_def u Let_def frame_simps split: prod.splits if_splits)
  show "gt_guard (pass_replay g) = gt_guard g"
    by (auto simp: pass_replay_def frame_simps split: prod.splits)
  show "gt_guard (pass_diag g) = gt_guard g"
    by (auto simp: pass_diag_def u frame_simps split: prod.splits)
qed

section \<open>Time only moves forward\<close>

lemma tick_no_frames [frame_simps]:
  "gt_tick_no (with_reports f g) = gt_tick_no g" "gt_tick_no (Gateway_RequestImmediateReport g) = gt_tick_no g"
  "read_tick g = (t, g') \<Longrightarrow> gt_tick_no g' = gt_tick_no g + 1" "gt_tick_no (report_now g) = gt_tick_no g + 1"
  by (auto simp: with_reports_def Gateway_RequestImmediateReport_def read_tick_def report_now_def)

lemma tick_no_command: "gw_command ty a p g = (r, g') \<Longrightarrow> gt_tick_no g' = gt_tick_no g"
  by (auto simp: gw_command_def Let_def frame_simps split: if_splits)

lemma tick_no_frame: "gw_process_frame ty p g = Runs g' \<Longrightarrow> gt_tick_no g \<le> gt_tick_no g'"
  by (auto simp: gw_process_frame_def gw_handle_command_req_def Let_def frame_simps dest!: tick_no_command
      split: if_splits prod.splits)

lemma tick_no_process_frames: "process_frames fs g = Runs g' \<Longrightarrow> gt_tick_no g \<le> gt_tick_no g'"
  by (induction fs g rule: process_frames.induct) (auto dest: tick_no_frame split: task_end.splits)

lemma tick_no_rx_loop: "gw_rx_loop n g = Runs g' \<Longrightarrow> gt_tick_no g \<le> gt_tick_no g'"
proof (induction n arbitrary: g)
  case (Suc n)
  show ?case using Suc.prems Suc.IH
    by (fastforce split: option.splits prod.splits task_end.splits dest!: tick_no_process_frames)
qed simp

lemma tick_no_events: "gt_tick_no (send_events es g) = gt_tick_no g"
  by (induction es g rule: send_events.induct) (simp_all add: frame_simps)

lemma tick_no_pass_parts:
  "gt_tick_no g \<le> gt_tick_no (pass_report g)" "gt_tick_no g \<le> gt_tick_no (pass_heartbeat g)"
  "gt_tick_no g \<le> gt_tick_no (pass_replay g)" "gt_tick_no g \<le> gt_tick_no (pass_diag g)"
proof -
  note t = read_tick_def tick_no_frames(1,4)
  show "gt_tick_no g \<le> gt_tick_no (pass_report g)" by (simp add: pass_report_def Let_def t)
  show "gt_tick_no g \<le> gt_tick_no (pass_heartbeat g)" by (simp add: pass_heartbeat_def t)
  show "gt_tick_no g \<le> gt_tick_no (pass_replay g)" by (simp add: pass_replay_def t)
  show "gt_tick_no g \<le> gt_tick_no (pass_diag g)" by (simp add: pass_diag_def t)
qed

section \<open>Confirmation is gated\<close>

text \<open>The task was fresh at a tick read between two points of the schedule.\<close>

definition fresh_between :: "(nat \<Rightarrow> u32) \<Rightarrow> nat \<Rightarrow> nat \<Rightarrow> wd_entry list \<Rightarrow> nat \<Rightarrow> bool" where
  "fresh_between ticks a b wd tid \<longleftrightarrow> (\<exists>k. a \<le> k \<and> k < b \<and> Watchdog_IsTaskFresh tid (ticks k) wd)"

lemma fresh_between_mono: "fresh_between ticks a b wd tid \<Longrightarrow> a' \<le> a \<Longrightarrow> b \<le> b' \<Longrightarrow> fresh_between ticks a' b' wd tid"
proof -
  assume a: "fresh_between ticks a b wd tid" "a' \<le> a" "b \<le> b'"
  from a(1) obtain k where "a \<le> k" "k < b" "Watchdog_IsTaskFresh tid (ticks k) wd" unfolding fresh_between_def by blast
  with a(2,3) show ?thesis unfolding fresh_between_def by (intro exI [of _ k]) simp
qed

lemma all_fresh_spec:
  "all_fresh ts g = (b, g') \<Longrightarrow> gt_guard g' = gt_guard g \<and> gt_home g' = gt_home g \<and> gt_reports g' = gt_reports g \<and>
     gt_tick_no g \<le> gt_tick_no g' \<and>
     (b \<longrightarrow> (\<forall>t \<in> set ts. fresh_between (gt_ticks g) (gt_tick_no g) (gt_tick_no g') (gt_wd g) t))"
proof (induction ts g arbitrary: b g' rule: all_fresh.induct)
  case (2 t ts g)
  let ?g1 = "g\<lparr>gt_tick_no := gt_tick_no g + 1\<rparr>"
  have r: "read_tick g = (gt_ticks g (gt_tick_no g), ?g1)" by (simp add: read_tick_def)
  show ?case
  proof (cases "Watchdog_IsTaskFresh t (gt_ticks g (gt_tick_no g)) (gt_wd g)")
    case True
    then have a: "all_fresh ts ?g1 = (b, g')" using 2(2) r by simp
    have "gt_guard g' = gt_guard ?g1 \<and> gt_home g' = gt_home ?g1 \<and> gt_reports g' = gt_reports ?g1 \<and>
        gt_tick_no ?g1 \<le> gt_tick_no g' \<and>
        (b \<longrightarrow> (\<forall>t \<in> set ts. fresh_between (gt_ticks ?g1) (gt_tick_no ?g1) (gt_tick_no g') (gt_wd ?g1) t))"
      by (rule 2(1) [OF refl r [symmetric] _ a]) (use True in simp)
    moreover from this have "fresh_between (gt_ticks g) (gt_tick_no g) (gt_tick_no g') (gt_wd g) t"
      unfolding fresh_between_def using True by (intro exI [of _ "gt_tick_no g"]) simp
    ultimately show ?thesis by (auto simp: gt_guard_def intro: fresh_between_mono)
  next
    case False
    then show ?thesis using 2(2) r by (auto simp: gt_guard_def)
  qed
qed (simp add: gt_guard_def)

text \<open>The seven supervised tasks are the identifiers below seven.\<close>

lemma supervised_ids:
  "set (map wd_index [WD_TASK_GATEWAY, WD_TASK_SENSOR, WD_TASK_ALARM, WD_TASK_STORAGE, WD_TASK_DISPLAY, WD_TASK_KEY, WD_TASK_LED])
     = {..<7}"
  by (auto simp: lessThan_nat_numeral lessThan_Suc)

lemma pass_confirm_flash:
  assumes "gt_flash (pass_confirm g) \<noteq> gt_flash g"
  shows "gt_app_confirm_sent g = 0 \<and> gt_ticks g (gt_tick_no g) - gt_boot_tick g \<ge> 30000 \<and>
    gt_tick_no g < gt_tick_no (pass_confirm g) \<and>
    (\<forall>tid < 7. fresh_between (gt_ticks g) (gt_tick_no g) (gt_tick_no (pass_confirm g)) (gt_wd g) tid) \<and>
    store_inited (gt_reports g) \<noteq> 0 \<and>
    sensor_valid (gt_home g) \<noteq> 0 \<and> gt_flash (pass_confirm g) = snd (Gateway_ConfirmSlotEarly (gt_vectors g) (gt_flash g)) \<and>
    gt_app_confirm_sent (pass_confirm g) = 1"
proof -
  let ?ids = "map wd_index [WD_TASK_GATEWAY, WD_TASK_SENSOR, WD_TASK_ALARM, WD_TASK_STORAGE, WD_TASK_DISPLAY, WD_TASK_KEY, WD_TASK_LED]"
  let ?g1 = "g\<lparr>gt_tick_no := gt_tick_no g + 1\<rparr>"
  obtain b g2 where f: "all_fresh ?ids ?g1 = (b, g2)" by (cases "all_fresh ?ids ?g1")
  note F = all_fresh_spec [OF f, unfolded supervised_ids]
  have g2: "gt_flash g2 = gt_flash g" "gt_vectors g2 = gt_vectors g" "gt_home g2 = gt_home g" "gt_reports g2 = gt_reports g"
    using F by (simp_all add: gt_guard_def)
  have c: "gt_app_confirm_sent g = 0" "gt_ticks g (gt_tick_no g) - gt_boot_tick g \<ge> 30000" "b"
    "store_inited (gt_reports g) \<noteq> 0" "sensor_valid (gt_home g) \<noteq> 0"
    using assms f g2
    by (auto simp: pass_confirm_def read_tick_def gw_can_confirm_slot_def GW_APP_CONFIRM_DELAY_MS_def Storage_GetStats_def
        store_inited_def Let_def split: if_splits)
  have p: "gt_flash (pass_confirm g) = snd (Gateway_ConfirmSlotEarly (gt_vectors g) (gt_flash g))"
    "gt_app_confirm_sent (pass_confirm g) = 1" "gt_tick_no (pass_confirm g) = gt_tick_no g2"
    using c f g2
    by (simp_all add: pass_confirm_def read_tick_def gw_can_confirm_slot_def GW_APP_CONFIRM_DELAY_MS_def Storage_GetStats_def
        store_inited_def with_reports_def Let_def)
  have fr: "\<forall>tid < 7. fresh_between (gt_ticks g) (gt_tick_no g + 1) (gt_tick_no g2) (gt_wd g) tid" using F c(3) by simp
  have "fresh_between (gt_ticks g) (gt_tick_no g) (gt_tick_no g2) (gt_wd g) tid" if "tid < 7" for tid
    by (rule fresh_between_mono [OF fr [rule_format, OF that]]) simp_all
  moreover have "gt_tick_no g < gt_tick_no g2" using F by simp
  ultimately show ?thesis using c p by simp
qed

text \<open>C8: an image is confirmed only by a healthy system. A pass of the gateway task changes the
  internal flash only through the confirmation of the running image, at most once after a start, and
  only when, by the ticks it reads in this very pass, thirty seconds have passed, every one of the seven
  supervised tasks is fresh, the storage is initialised and the last sensor reading was valid.\<close>

theorem confirmation_needs_health:
  assumes "GatewayTask_pass g = Runs g'" "gt_flash g' \<noteq> gt_flash g"
  shows "gt_flash g' = snd (Gateway_ConfirmSlotEarly (gt_vectors g) (gt_flash g)) \<and>
    gt_app_confirm_sent g = 0 \<and> gt_app_confirm_sent g' = 1 \<and>
    (\<exists>k. gt_tick_no g < k \<and> k < gt_tick_no g' \<and> gt_ticks g k - gt_boot_tick g \<ge> 30000) \<and>
    (\<forall>tid < 7. \<exists>k. gt_tick_no g < k \<and> k < gt_tick_no g' \<and>
       Watchdog_IsTaskFresh tid (gt_ticks g k) (Watchdog_Kick 0 (gt_ticks g (gt_tick_no g)) (gt_wd g))) \<and>
    st_inited (fst (g_store (gt_reports g))) \<noteq> 0 \<and> sensor_valid (gt_home g) \<noteq> 0"
proof -
  let ?wd = "Watchdog_Kick 0 (gt_ticks g (gt_tick_no g)) (gt_wd g)"
  let ?g0 = "g\<lparr>gt_tick_no := gt_tick_no g + 1, gt_wd := ?wd\<rparr>"
  obtain g1 where rx: "gw_rx_loop 512 ?g0 = Runs g1"
    and g': "g' = pass_confirm (pass_diag (pass_replay (pass_heartbeat (pass_report (send_events (gt_event_queue g1) g1)))))"
    using assms(1) by (auto simp: GatewayTask_pass_def read_tick_def split: task_end.splits)
  define g2 where "g2 = pass_diag (pass_replay (pass_heartbeat (pass_report (send_events (gt_event_queue g1) g1))))"
  have "gt_guard g2 = gt_guard ?g0"
    using guard_rx_loop [OF rx] unfolding g2_def by (simp add: guard_pass_parts guard_events)
  then have e: "gt_flash g2 = gt_flash g" "gt_vectors g2 = gt_vectors g" "gt_boot_tick g2 = gt_boot_tick g"
    "gt_app_confirm_sent g2 = gt_app_confirm_sent g" "gt_ticks g2 = gt_ticks g" "sensor_valid (gt_home g2) = sensor_valid (gt_home g)"
    "store_inited (gt_reports g2) = store_inited (gt_reports g)" "gt_wd g2 = ?wd"
    by (simp_all add: gt_guard_def)
  have "gt_tick_no ?g0 \<le> gt_tick_no g1" by (rule tick_no_rx_loop [OF rx])
  also have "\<dots> \<le> gt_tick_no g2"
    unfolding g2_def by (intro order_trans [OF _ tick_no_pass_parts(4)] order_trans [OF _ tick_no_pass_parts(3)]
        order_trans [OF _ tick_no_pass_parts(2)] order_trans [OF _ tick_no_pass_parts(1)]) (simp add: tick_no_events)
  finally have n: "gt_tick_no g + 1 \<le> gt_tick_no g2" by simp
  have "gt_flash (pass_confirm g2) \<noteq> gt_flash g2" using assms(2) g' e(1) by (simp add: g2_def)
  note c = pass_confirm_flash [OF this, unfolded e]
  have g'': "g' = pass_confirm g2" using g' by (simp add: g2_def)
  have fr: "\<exists>k. gt_tick_no g < k \<and> k < gt_tick_no g' \<and> Watchdog_IsTaskFresh tid (gt_ticks g k) ?wd" if "tid < 7" for tid
  proof -
    have "fresh_between (gt_ticks g) (gt_tick_no g2) (gt_tick_no g') ?wd tid" using c that g'' by blast
    then obtain k where "gt_tick_no g2 \<le> k" "k < gt_tick_no g'" "Watchdog_IsTaskFresh tid (gt_ticks g k) ?wd"
      unfolding fresh_between_def by blast
    with n show ?thesis by (intro exI [of _ k]) simp
  qed
  have "gt_tick_no g < gt_tick_no g2 \<and> gt_tick_no g2 < gt_tick_no g' \<and> gt_ticks g (gt_tick_no g2) - gt_boot_tick g \<ge> 30000"
    using c n g'' by simp
  then show ?thesis using c fr unfolding g'' store_inited_def by blast
qed

text \<open>A gateway on a device that has just booted the pending image of slot B, forty seconds after its
  start, with nothing to send and nothing received.\<close>

definition sample_gateway :: "flash \<Rightarrow> gateway" where
  "sample_gateway f =
     \<lparr>gt_reports = sample_reports\<lparr>g_store := (fst sample_store\<lparr>st_inited := 1\<rparr>, snd sample_store)\<rparr>,
      gt_uart = \<lparr>gw_rx_ring = replicate 512 0, gw_rx_head = 0, gw_rx_tail = 0, gw_rx_dma_buf = replicate 256 0,
        gw_rx_dma_last_pos = 0, gw_rx_dma_event_count = 0, gw_rx_ring_overflow_count = 0, gw_rx_dma_error_count = 0\<rparr>,
      gt_frame_buf = [], gt_event_queue = [], gt_force_report = 0, gt_app_confirm_sent = 0,
      gt_last_report_tick = 40000, gt_last_heartbeat_tick = 40000, gt_last_diag_tick = 40000, gt_boot_tick = 0,
      gt_home = SmartHomeState_Init\<lparr>sensor_valid := 1\<rparr>, gt_cfg = SmartHomeConfig_Init, gt_log_level = 2,
      gt_wd = main_watchdog 40000, gt_bkp = replicate 20 0, gt_flash = f, gt_vectors = 0x08080000,
      gt_ticks = (\<lambda>_. 40000), gt_tick_no = 0\<rparr>"

lemma rx_loop_empty: "gw_rx_tail (gt_uart g) = gw_rx_head (gt_uart g) \<Longrightarrow> gw_rx_loop n g = Runs g"
  by (cases n) (simp_all add: gw_uart_read_byte_def)

lemma sample_pass:
  "\<exists>g'. GatewayTask_pass (sample_gateway f) = Runs g' \<and> gt_flash g' = snd (Gateway_ConfirmSlotEarly 0x08080000 f)"
proof -
  let ?g = "sample_gateway f"
  define g1 where "g1 = ?g\<lparr>gt_tick_no := 1\<rparr>"
  have b: "gw_backlog (gt_reports ?g) = 0"
    by (simp add: gw_backlog_def Storage_GetCacheBacklog_def sample_gateway_def sample_store_def storage_ctx_zero_def)
  have wd: "Watchdog_Kick 0 40000 (main_watchdog 40000) = main_watchdog 40000"
    by (simp add: main_watchdog_entries Watchdog_Kick_def WD_TASK_MAX_def)
  have rx: "gw_rx_loop 512 g1 = Runs g1" by (rule rx_loop_empty) (simp add: g1_def sample_gateway_def)
  have "GatewayTask_pass ?g = Runs (pass_confirm (pass_diag (pass_replay (pass_heartbeat (pass_report (send_events [] g1))))))"
    using rx wd by (simp add: GatewayTask_pass_def read_tick_def g1_def sample_gateway_def)
  moreover have "send_events [] g1 = g1" by (simp add: g1_def sample_gateway_def)
  moreover have "pass_report g1 = g1\<lparr>gt_tick_no := 2\<rparr>"
    by (simp add: pass_report_def read_tick_def g1_def sample_gateway_def SmartHomeConfig_Init_def)
  moreover have "pass_heartbeat (g1\<lparr>gt_tick_no := 2\<rparr>) = g1\<lparr>gt_tick_no := 3\<rparr>"
    by (simp add: pass_heartbeat_def read_tick_def g1_def sample_gateway_def GW_HEARTBEAT_PERIOD_MS_def)
  moreover have "pass_replay (g1\<lparr>gt_tick_no := 3\<rparr>) = g1\<lparr>gt_tick_no := 4\<rparr>"
    using b by (simp add: pass_replay_def read_tick_def g1_def sample_gateway_def gw_try_replay_cache_def with_reports_def
        sample_reports_def)
  moreover have "pass_diag (g1\<lparr>gt_tick_no := 4\<rparr>) = g1\<lparr>gt_tick_no := 5\<rparr>"
    by (simp add: pass_diag_def read_tick_def g1_def sample_gateway_def GW_DIAG_HEARTBEAT_MS_def)
  moreover have "gt_flash (pass_confirm (g1\<lparr>gt_tick_no := 5\<rparr>)) = snd (Gateway_ConfirmSlotEarly 0x08080000 f)"
    by (simp add: pass_confirm_def read_tick_def g1_def sample_gateway_def GW_APP_CONFIRM_DELAY_MS_def gw_can_confirm_slot_def
        Storage_GetStats_def main_watchdog_entries Watchdog_IsTaskFresh_def WD_TASK_MAX_def with_reports_def Let_def)
  ultimately show ?thesis by simp
qed

theorem confirmation_needs_health_witness:
  "\<exists>f g'. GatewayTask_pass (sample_gateway f) = Runs g' \<and> gt_flash g' \<noteq> f \<and> gt_app_confirm_sent g' = 1"
proof -
  obtain f f' where f: "Gateway_ConfirmSlotEarly 0x08080000 f = (Commit_ok, f')" "log_in_order (meta_slots (fl_mem f))"
    by (rule updated_device)
  from confirm_ok [OF this] obtain m where m: "ota_meta_load (fl_mem f) = Some m" "pending_slot m = BL_SLOT_B"
    "ota_meta_load (fl_mem f') = Some (bl_metadata_update_crc (confirm_record BL_SLOT_B m))"
    unfolding updated_slot by blast
  have "pending_slot (confirm_record BL_SLOT_B m) \<noteq> BL_SLOT_B"
    by (simp add: confirm_record_fields) (simp add: ota_consts bl_slots)
  then have "bl_metadata_update_crc (confirm_record BL_SLOT_B m) \<noteq> m" using m(2) by (metis update_crc_content(2))
  then have "f' \<noteq> f" using m by auto
  moreover obtain g' where g': "GatewayTask_pass (sample_gateway f) = Runs g'" "gt_flash g' = f'"
    using sample_pass [of f] f(1) by auto
  moreover have "gt_flash (sample_gateway f) = f" by (simp add: sample_gateway_def)
  ultimately have "gt_app_confirm_sent g' = 1" using confirmation_needs_health [OF g'(1)] by simp
  then show ?thesis using g' \<open>f' \<noteq> f\<close> by blast
qed

section \<open>The way into the bootloader\<close>

text \<open>The state in which the bootloader opens its session.\<close>

definition bl_session_start :: "flash \<Rightarrow> boot" where
  "bl_session_start f = \<lparr>b_ctx = bl_ctx_reset, b_meta = fst (bl_load_metadata f), b_flash = snd (bl_load_metadata f),
     b_tx = [], b_reset = False\<rparr>"

lemma forced_main:
  assumes "bl_consume_force_bootloader_flag r = (True, r')" "fst (bl_ota_loop 60000 evs1 (bl_session_start f)) \<noteq> Idle_timeout"
  shows "fst (bl_main f r evs1 evs2) =
    (if fst (bl_ota_loop 60000 evs1 (bl_session_start f)) = Was_reset then Reset else Waiting)"
proof -
  obtain e l b where "bl_ota_loop 60000 evs1 (bl_session_start f) = (e, l, b)" using prod_cases3 by blast
  then show ?thesis
    using assms by (cases e; cases "bl_load_metadata f") (simp_all add: bl_main_def bl_session_start_def)
qed

text \<open>C17: the reboot command reaches the bootloader. A request to this device resets it with the magic
  word in the backup register that the bootloader tests. On the next boot, whatever the flash holds, no
  image is started before the update session that the bootloader opens has been idle for a minute: a session
  that is still going on waits for its frames, one that ends an update resets. The source of the reset
  is recorded, and the flash is as it was.\<close>

theorem reboot_command_enters_bootloader:
  assumes "length payload \<ge> 4" "payload ! 0 = GW_DEVICE_ID" "payload ! 3 = 0x07" "length (gt_bkp g) = 20"
  shows "\<exists>g'. gw_process_frame 0x10 payload g = Resets g' \<and>
    bl_consume_force_bootloader_flag (gt_bkp g' ! 0) = (True, 0) \<and>
    (\<forall>f evs1 evs2. fst (bl_ota_loop 60000 evs1 (bl_session_start f)) \<noteq> Idle_timeout \<longrightarrow>
       fst (bl_main f (gt_bkp g' ! 0) evs1 evs2) =
         (if fst (bl_ota_loop 60000 evs1 (bl_session_start f)) = Was_reset then Reset else Waiting)) \<and>
    PlatformBackup_Read BKP_IDX_SW_RESET_SRC (gt_bkp g') = 1 \<and> gt_flash g' = gt_flash g"
proof -
  define g' where "g' = gw_reboot_to_bootloader (un16 (payload ! 1) (payload ! 2)) g"
  have r: "gw_process_frame 0x10 payload g = Resets g'"
    using assms(1,2,3) by (simp add: gw_process_frame_def gw_handle_command_req_def Let_def g'_def)
  have b: "gt_bkp g' = (gt_bkp g)[0 := 0xB00710AD, 6 := 1]" "gt_flash g' = gt_flash g"
    by (simp_all add: g'_def gw_reboot_to_bootloader_def with_reports_def PlatformBackup_Write_def bkp_reg_ptr_def
        BKP_IDX_SW_RESET_SRC_def OtaApp_RequestBootloader_def ota_consts Let_def)
  then have m: "gt_bkp g' ! 0 = 0xB00710AD" "PlatformBackup_Read BKP_IDX_SW_RESET_SRC (gt_bkp g') = 1"
    using assms(4) by (simp_all add: PlatformBackup_Read_def bkp_reg_ptr_def BKP_IDX_SW_RESET_SRC_def)
  have f: "bl_consume_force_bootloader_flag (gt_bkp g' ! 0) = (True, 0)"
    by (simp add: m bl_consume_force_bootloader_flag_def)
  show ?thesis using r f forced_main [OF f] m(2) b(2) by blast
qed

theorem reboot_command_enters_bootloader_witness:
  "\<forall>f. \<exists>g'. gw_process_frame 0x10 [GW_DEVICE_ID, 7, 0, 0x07] (sample_gateway f) = Resets g' \<and>
     fst (bl_main f (gt_bkp g' ! 0) [None] []) = Waiting"
proof
  fix f
  have b: "length (gt_bkp (sample_gateway f)) = 20" by (simp add: sample_gateway_def)
  have e: "fst (bl_ota_loop 60000 [None] (bl_session_start f)) = Running"
    by (simp add: bl_ota_loop_def bl_ota_no_frame_def Let_def)
  obtain g' where g': "gw_process_frame 0x10 [GW_DEVICE_ID, 7, 0, 0x07] (sample_gateway f) = Resets g'"
    "\<forall>f evs1 evs2. fst (bl_ota_loop 60000 evs1 (bl_session_start f)) \<noteq> Idle_timeout \<longrightarrow>
       fst (bl_main f (gt_bkp g' ! 0) evs1 evs2) =
         (if fst (bl_ota_loop 60000 evs1 (bl_session_start f)) = Was_reset then Reset else Waiting)"
    using reboot_command_enters_bootloader [OF _ _ _ b, of "[GW_DEVICE_ID, 7, 0, 0x07]"] by auto
  from g'(2) [rule_format, of "[None]" f "[]"] e have "fst (bl_main f (gt_bkp g' ! 0) [None] []) = Waiting"
    by simp
  then show "\<exists>g'. gw_process_frame 0x10 [GW_DEVICE_ID, 7, 0, 0x07] (sample_gateway f) = Resets g' \<and>
      fst (bl_main f (gt_bkp g' ! 0) [None] []) = Waiting"
    using g'(1) by blast
qed

section \<open>The receive loop empties the ring\<close>

lemma uart_command: "gw_command ty a p g = (r, g') \<Longrightarrow> gt_uart g' = gt_uart g"
  by (auto simp: gw_command_def Gateway_RequestImmediateReport_def Let_def split: if_splits)

lemma uart_frame: "gw_process_frame ty p g = Runs g' \<Longrightarrow> gt_uart g' = gt_uart g"
  by (auto simp: gw_process_frame_def gw_handle_command_req_def report_now_def read_tick_def with_reports_def Let_def
      dest!: uart_command split: if_splits prod.splits)

lemma uart_frames: "process_frames fs g = Runs g' \<Longrightarrow> gt_uart g' = gt_uart g"
  by (induction fs g rule: process_frames.induct) (auto dest: uart_frame split: task_end.splits)

lemma gw_rx_loop_drains:
  assumes "gw_rx_inv (gt_uart g)" "length (gw_rx_items (gt_uart g)) \<le> n" "gw_rx_loop n g = Runs g'"
  shows "gw_rx_inv (gt_uart g') \<and> gw_rx_items (gt_uart g') = []"
  using assms
proof (induction n arbitrary: g)
  case (Suc n)
  show ?case
  proof (cases "gw_rx_items (gt_uart g)")
    case Nil
    then have "gw_uart_read_byte (gt_uart g) = None" using gw_rx.pop_empty Suc.prems(1) by blast
    then show ?thesis using Suc.prems Nil by simp
  next
    case (Cons b bs)
    then obtain u where u: "gw_uart_read_byte (gt_uart g) = Some (b, u)" "gw_rx_items u = bs" "gw_rx_inv u"
      using gw_rx.pop_front Suc.prems(1) by blast
    obtain fs buf where f: "gw_process_rx_byte b (gt_frame_buf g) = (fs, buf)" by (cases "gw_process_rx_byte b (gt_frame_buf g)")
    obtain g1 where g1: "process_frames fs (g\<lparr>gt_uart := u, gt_frame_buf := buf\<rparr>) = Runs g1" "gw_rx_loop n g1 = Runs g'"
      using Suc.prems(3) u f by (auto split: task_end.splits)
    have "gt_uart g1 = u" using uart_frames [OF g1(1)] by simp
    then show ?thesis using Suc.IH [of g1] u g1(2) Suc.prems(2) Cons by simp
  qed
qed simp

text \<open>The ring holds at most 511 bytes, so the 512 turns of a pass are enough.\<close>

lemma gw_rx_loop_512:
  "gw_rx_inv (gt_uart g) \<Longrightarrow> gw_rx_loop 512 g = Runs g' \<Longrightarrow> gw_rx_items (gt_uart g') = []"
  using gw_rx_loop_drains [of g 512 g'] gw_rx.bounded [of "gt_uart g"] by simp

section \<open>What a received frame may change\<close>

lemma with_reports_fields [simp]:
  "gt_home (with_reports f g) = gt_home g" "gt_cfg (with_reports f g) = gt_cfg g" "gt_log_level (with_reports f g) = gt_log_level g"
  "gt_flash (with_reports f g) = gt_flash g" "gt_bkp (with_reports f g) = gt_bkp g"
  "gt_event_queue (with_reports f g) = gt_event_queue g" "gt_force_report (with_reports f g) = gt_force_report g"
  by (simp_all add: with_reports_def)

lemma report_now_fields [simp]:
  "gt_home (report_now g) = gt_home g" "gt_cfg (report_now g) = gt_cfg g" "gt_log_level (report_now g) = gt_log_level g"
  "gt_flash (report_now g) = gt_flash g" "gt_bkp (report_now g) = gt_bkp g"
  by (simp_all add: report_now_def read_tick_def)

lemma command_fields:
  "gw_command ty a p g = (r, g') \<Longrightarrow> gt_flash g' = gt_flash g \<and> gt_bkp g' = gt_bkp g \<and>
     temperature (gt_home g') = temperature (gt_home g) \<and> humidity (gt_home g') = humidity (gt_home g) \<and>
     light (gt_home g') = light (gt_home g) \<and> sensor_valid (gt_home g') = sensor_valid (gt_home g) \<and>
     alarm_on (gt_home g') = alarm_on (gt_home g)"
  by (auto simp: gw_command_def Gateway_RequestImmediateReport_def home_setters Let_def split: if_splits)

lemma command_refused: "gw_command ty a p g = (r, g') \<Longrightarrow> r \<noteq> GW_ACK_OK \<Longrightarrow> g' = g"
  by (auto simp: gw_command_def Let_def split: if_splits)

lemma command_settings:
  "gw_command ty a p g = (r, g') \<Longrightarrow> (gt_home g', gt_cfg g', gt_log_level g') \<noteq> (gt_home g, gt_cfg g, gt_log_level g) \<Longrightarrow>
     ty \<in> {1, 2, 3, 5, 6} \<and> length p \<ge> 5 \<and> r = GW_ACK_OK"
  by (auto simp: gw_command_def Gateway_RequestImmediateReport_def Let_def split: if_splits)

text \<open>A frame that does not reset the device is a command with its answer, or leaves the settings alone.\<close>

lemma frame_cases:
  assumes "gw_process_frame ty p g = Runs g'"
  obtains (same) "gt_flash g' = gt_flash g" "gt_bkp g' = gt_bkp g" "gt_home g' = gt_home g" "gt_cfg g' = gt_cfg g"
      "gt_log_level g' = gt_log_level g"
    | (command) r g1 where "gw_command (p ! 3) (if length p \<ge> 5 then p ! 4 else 0) p g = (r, g1)" "ty = 0x10" "p ! 0 = GW_DEVICE_ID"
      "gt_flash g' = gt_flash g1" "gt_bkp g' = gt_bkp g1" "gt_home g' = gt_home g1" "gt_cfg g' = gt_cfg g1"
      "gt_log_level g' = gt_log_level g1"
proof -
  obtain r g1 where c: "gw_command (p ! 3) (if length p \<ge> 5 then p ! 4 else 0) p g = (r, g1)"
    by (cases "gw_command (p ! 3) (if length p \<ge> 5 then p ! 4 else 0) p g")
  show thesis
  proof (cases "ty = 0x10 \<and> length p \<ge> 4 \<and> p ! 0 = GW_DEVICE_ID \<and> p ! 3 \<noteq> 7")
    case True
    then have "g' = (let g2 = with_reports (gw_send_command_ack (un16 (p ! 1) (p ! 2)) r) g1
        in if r = GW_ACK_OK then with_reports gw_send_device_status (report_now g2) else g2)"
      using assms c by (simp add: gw_process_frame_def gw_handle_command_req_def Let_def)
    then show ?thesis using True by (intro command [OF c]) (simp_all add: Let_def)
  next
    case False
    then have "g' = g \<or> g' = with_reports (gw_process_report_ack p) g"
      using assms by (auto simp: gw_process_frame_def gw_handle_command_req_def Let_def split: if_splits)
    then show ?thesis by (intro same) (elim disjE; simp)+
  qed
qed



end
