(* ===== verification/Home_Tasks.thy ===== *)
theory Home_Tasks
  imports C_Strings Gateway_Task
begin

text \<open>
  The tasks of the home side (\<open>1_App/app_alarm.c\<close>, \<open>app_sensor.c\<close>, \<open>app_key.c\<close>, \<open>app_led.c\<close>,
  \<open>app_display.c\<close>): one pass of the loop of each task on the state of the device, which holds the gateway
  with the shared home state, the notification of the lamp task, the output pins and the locals of the
  tasks. Passes do not interleave in the model; the kernel's critical sections make the single setters
  atomic in the code.
\<close>

section \<open>The state of the device\<close>

datatype gpio_level = GPIO_PIN_RESET | GPIO_PIN_SET

record display_status =
  ds_temperature :: f32
  ds_humidity :: f32
  ds_light :: u16
  ds_led_on :: u8
  ds_alarm_on :: u8
  ds_mode :: u8
  ds_wifi_connected :: u8
  ds_mqtt_connected :: u8
  ds_sensor_valid :: u8
  ds_mqtt_reconnect_fail_count :: u8

record device =
  dv_gw :: gateway
  dv_led_notify :: "u32 option"
  dv_led_pin :: gpio_level
  dv_beep_pin :: gpio_level
  dv_beep_inited :: u8
  dv_prev_alarm :: u8
  dv_fail_count :: u8
  dv_sensor_valid :: u8
  dv_prev_status :: display_status
  dv_has_prev :: u8
  dv_last_show_tick :: u32
  dv_shown :: "display_status list"

abbreviation dv_home :: "device \<Rightarrow> home_state" where "dv_home d \<equiv> gt_home (dv_gw d)"
abbreviation dv_cfg :: "device \<Rightarrow> runtime_cfg" where "dv_cfg d \<equiv> gt_cfg (dv_gw d)"

definition on_gw :: "(gateway \<Rightarrow> gateway) \<Rightarrow> device \<Rightarrow> device" where
  "on_gw f d = d\<lparr>dv_gw := f (dv_gw d)\<rparr>"

definition on_home :: "(home_state \<Rightarrow> home_state) \<Rightarrow> device \<Rightarrow> device" where
  "on_home f = on_gw (\<lambda>g. g\<lparr>gt_home := f (gt_home g)\<rparr>)"

definition kick :: "wd_task \<Rightarrow> u32 \<Rightarrow> device \<Rightarrow> device" where
  "kick t now = on_gw (\<lambda>g. g\<lparr>gt_wd := Watchdog_Kick (wd_index t) now (gt_wd g)\<rparr>)"

definition write_event :: "u8 list \<Rightarrow> device \<Rightarrow> device" where
  "write_event text = on_gw (with_reports (\<lambda>r. r\<lparr>g_storage_queue := snd (Storage_WriteEvent text (g_storage_queue r))\<rparr>))"

definition report_alarm_event :: "u8 \<Rightarrow> device \<Rightarrow> device" where
  "report_alarm_event c = on_gw (\<lambda>g. g\<lparr>gt_event_queue := Gateway_ReportAlarmEvent c (gt_event_queue g)\<rparr>)"

section \<open>Output pins\<close>

text \<open>The lamp is active low, the buzzer active high.\<close>

definition Driver_LED_WriteStatus :: "u8 \<Rightarrow> gpio_level" where
  "Driver_LED_WriteStatus status = (if status \<noteq> 0 then GPIO_PIN_RESET else GPIO_PIN_SET)"

definition Driver_Beep_WriteStatus :: "u8 \<Rightarrow> gpio_level" where
  "Driver_Beep_WriteStatus status = (if status \<noteq> 0 then GPIO_PIN_SET else GPIO_PIN_RESET)"

definition Driver_Beep_Init :: gpio_level where "Driver_Beep_Init = Driver_Beep_WriteStatus 0"

section \<open>The alarm task\<close>

definition alarm_set_buzzer_output :: "u8 \<Rightarrow> device \<Rightarrow> device" where
  "alarm_set_buzzer_output on d =
     (let d1 = (if dv_beep_inited d = 0 then d\<lparr>dv_beep_pin := Driver_Beep_Init, dv_beep_inited := 1\<rparr> else d)
      in d1\<lparr>dv_beep_pin := Driver_Beep_WriteStatus (if on \<noteq> 0 then 1 else 0)\<rparr>)"

definition alarm_level :: "runtime_cfg \<Rightarrow> home_state \<Rightarrow> u8" where
  "alarm_level cfg st =
     (let a0 = 0;
          a1 = (if sensor_valid st = 0 then 1 else a0);
          a2 = (if temperature st \<ge> temperature_high cfg then 1 else a1)
      in if humidity st \<ge> humidity_high cfg then 1 else a2)"

definition alarm_event_text :: "u8 \<Rightarrow> home_state \<Rightarrow> string" where
  "alarm_event_text alarm_now st =
     take 95 (''event='' @ (if alarm_now \<noteq> 0 then ''alarm_enter'' else ''alarm_recover'') @
       '' mode='' @ (if mode st = SMARTHOME_MODE_AUTO then ''auto'' else ''manual'') @
       '' t='' @ one_decimal (temperature st) @ '' h='' @ one_decimal (humidity st) @ '' valid='' @ decimal (unat (sensor_valid st)))"

text \<open>The outputs that the mode asks for, and the lamp and the buzzer set to them where they differ.\<close>

definition desired_output :: "home_state \<Rightarrow> u8 \<Rightarrow> u8 \<Rightarrow> u8" where
  "desired_output state manual alarm_now = (if mode state = SMARTHOME_MODE_AUTO then alarm_now else manual)"

definition alarm_set_led :: "home_state \<Rightarrow> u8 \<Rightarrow> device \<Rightarrow> device" where
  "alarm_set_led state desired_led d =
     (if led_on state \<noteq> desired_led
      then (on_home (SmartHomeState_SetLed desired_led) d)\<lparr>dv_led_notify := Some (ucast desired_led)\<rparr> else d)"

definition alarm_set_buzzer :: "home_state \<Rightarrow> u8 \<Rightarrow> device \<Rightarrow> device" where
  "alarm_set_buzzer state desired_buzzer d =
     (if buzzer_on state \<noteq> desired_buzzer
      then alarm_set_buzzer_output desired_buzzer (on_home (SmartHomeState_SetBuzzer desired_buzzer) d) else d)"

text \<open>A change of the alarm is logged, queued for the gateway and reported.\<close>

definition alarm_changed :: "home_state \<Rightarrow> u8 \<Rightarrow> device \<Rightarrow> device" where
  "alarm_changed state alarm_now d =
     (if alarm_now \<noteq> dv_prev_alarm d
      then (on_gw Gateway_RequestImmediateReport
              (report_alarm_event (if alarm_now \<noteq> 0 then 1 else 2)
                (write_event (text_bytes (alarm_event_text alarm_now state)) d)))\<lparr>dv_prev_alarm := alarm_now\<rparr>
      else d)"

definition AlarmTask_pass :: "u32 \<Rightarrow> device \<Rightarrow> device" where
  "AlarmTask_pass now d =
     (let d0 = kick WD_TASK_ALARM now d;
          state = dv_home d0;
          alarm_now = alarm_level (dv_cfg d0) state;
          d1 = on_home (SmartHomeState_SetAlarm alarm_now) d0;
          d2 = alarm_set_led state (desired_output state (manual_led_on state) alarm_now) d1;
          d3 = alarm_set_buzzer state (desired_output state (manual_buzzer_on state) alarm_now) d2
      in alarm_changed state alarm_now d3)"

section \<open>The sensor task\<close>

definition SENSOR_FAIL_TOLERANCE_COUNT :: u8 where "SENSOR_FAIL_TOLERANCE_COUNT = 3"

definition sensor_fnptr_valid :: "u32 \<Rightarrow> u8" where
  "sensor_fnptr_valid addr =
     (if addr AND 1 = 0 then 0
      else let a = addr AND NOT 1 in if a \<ge> 0x08000000 \<and> a < 0x08100000 then 1 else 0)"

definition sensor_read_ok :: "f32 \<Rightarrow> f32 \<Rightarrow> u16 \<Rightarrow> device \<Rightarrow> device" where
  "sensor_read_ok t h l d =
     (let recovered = dv_sensor_valid d = 0;
          d1 = on_home (SmartHomeState_SetSensor t h l 1) (d\<lparr>dv_fail_count := 0, dv_sensor_valid := 1\<rparr>)
      in if recovered then report_alarm_event 4 (write_event (text_bytes ''event=sensor_recovered'') d1) else d1)"

definition sensor_read_failed :: "u16 \<Rightarrow> device \<Rightarrow> device" where
  "sensor_read_failed light_fallback d =
     (let current_state = dv_home d;
          d1 = (if dv_fail_count d < 0xFF then d\<lparr>dv_fail_count := dv_fail_count d + 1\<rparr> else d);
          reported_valid = (if dv_fail_count d1 \<ge> SENSOR_FAIL_TOLERANCE_COUNT then 0 else sensor_valid current_state);
          d2 = on_home (SmartHomeState_SetSensor (temperature current_state) (humidity current_state) light_fallback reported_valid) d1
      in if dv_fail_count d2 \<ge> SENSOR_FAIL_TOLERANCE_COUNT \<and> dv_sensor_valid d2 \<noteq> 0
         then report_alarm_event 3 (write_event (text_bytes ''event=sensor_invalid'') (d2\<lparr>dv_sensor_valid := 0\<rparr>))
         else d2)"

text \<open>A pass gets the address of the read function, its result, and the value of the light sensor
  that is read when the other sensor fails.\<close>

definition SensorTask_pass :: "u32 \<Rightarrow> u32 \<Rightarrow> (f32 \<times> f32 \<times> u16) option \<Rightarrow> u16 \<Rightarrow> device \<Rightarrow> device" where
  "SensorTask_pass now read_fn data light_fallback d =
     (let d0 = kick WD_TASK_SENSOR now d
      in if sensor_fnptr_valid read_fn = 0 then d0
         else case data of
                Some (t, h, l) \<Rightarrow> sensor_read_ok t h l d0
              | None \<Rightarrow> sensor_read_failed light_fallback d0)"

section \<open>The key task and the lamp task\<close>

definition KEY_MODE_SWITCH_PRESS_MS :: u16 where "KEY_MODE_SWITCH_PRESS_MS = 2000"

text \<open>The time of a key event, when one is there.\<close>

definition KeyTask_pass :: "u32 \<Rightarrow> u16 option \<Rightarrow> device \<Rightarrow> device" where
  "KeyTask_pass now key d =
     (let d0 = kick WD_TASK_KEY now d
      in case key of
           None \<Rightarrow> d0
         | Some time \<Rightarrow>
             if time \<ge> KEY_MODE_SWITCH_PRESS_MS
             then on_gw Gateway_RequestImmediateReport
                    (on_home (SmartHomeState_SetMode (if mode (dv_home d0) = SMARTHOME_MODE_AUTO then SMARTHOME_MODE_MANUAL
                                                      else SMARTHOME_MODE_AUTO)) d0)
             else d0)"

definition LedTask_pass :: "u32 \<Rightarrow> device \<Rightarrow> device" where
  "LedTask_pass now d =
     (let d0 = kick WD_TASK_LED now d
      in case dv_led_notify d0 of
           None \<Rightarrow> d0
         | Some v \<Rightarrow> on_home (SmartHomeState_SetLed (ucast v)) (d0\<lparr>dv_led_notify := None, dv_led_pin := Driver_LED_WriteStatus (ucast v)\<rparr>))"

section \<open>The display task\<close>

definition DISPLAY_HEARTBEAT_MS :: u32 where "DISPLAY_HEARTBEAT_MS = 5000"

definition absf :: "f32 \<Rightarrow> f32" where "absf v = (if v < 0 then - v else v)"

definition display_need_refresh :: "display_status \<Rightarrow> display_status \<Rightarrow> u8" where
  "display_need_refresh prev cur =
     (if ds_led_on cur \<noteq> ds_led_on prev \<or> ds_alarm_on cur \<noteq> ds_alarm_on prev \<or> ds_mode cur \<noteq> ds_mode prev \<or>
         ds_wifi_connected cur \<noteq> ds_wifi_connected prev \<or> ds_mqtt_connected cur \<noteq> ds_mqtt_connected prev \<or>
         ds_sensor_valid cur \<noteq> ds_sensor_valid prev \<or>
         ds_mqtt_reconnect_fail_count cur \<noteq> ds_mqtt_reconnect_fail_count prev then 1
      else if absf (f_sub (ds_temperature cur) (ds_temperature prev)) \<ge> 1 / 2 \<or>
              absf (f_sub (ds_humidity cur) (ds_humidity prev)) \<ge> 1 then 1
      else if (if ds_light cur > ds_light prev then ds_light cur - ds_light prev else ds_light prev - ds_light cur) \<ge> 20 then 1
      else 0)"

definition display_status_of :: "home_state \<Rightarrow> display_status" where
  "display_status_of st =
     \<lparr>ds_temperature = temperature st, ds_humidity = humidity st, ds_light = light st, ds_led_on = led_on st,
      ds_alarm_on = alarm_on st, ds_mode = mode st, ds_wifi_connected = wifi_connected st,
      ds_mqtt_connected = mqtt_connected st, ds_sensor_valid = sensor_valid st,
      ds_mqtt_reconnect_fail_count = mqtt_reconnect_fail_count st\<rparr>"

definition DisplayTask_pass :: "u32 \<Rightarrow> u32 \<Rightarrow> device \<Rightarrow> device" where
  "DisplayTask_pass now now_tick d =
     (let d0 = kick WD_TASK_DISPLAY now d;
          s = display_status_of (dv_home d0)
      in if dv_has_prev d0 = 0 \<or> display_need_refresh (dv_prev_status d0) s \<noteq> 0 \<or>
            now_tick - dv_last_show_tick d0 \<ge> DISPLAY_HEARTBEAT_MS
         then d0\<lparr>dv_shown := dv_shown d0 @ [s], dv_prev_status := s, dv_has_prev := 1, dv_last_show_tick := now_tick\<rparr>
         else d0)"

section \<open>Frames of the tasks\<close>

lemma gw_frames [simp]:
  "dv_gw (on_gw f d) = f (dv_gw d)" "dv_gw (on_home h d) = (dv_gw d)\<lparr>gt_home := h (dv_home d)\<rparr>"
  "dv_home (kick t now d) = dv_home d" "dv_cfg (kick t now d) = dv_cfg d" "dv_home (write_event x d) = dv_home d"
  "dv_home (report_alarm_event c d) = dv_home d" "dv_home (on_gw Gateway_RequestImmediateReport d) = dv_home d"
  "gt_event_queue (dv_gw (kick t now d)) = gt_event_queue (dv_gw d)"
  "gt_event_queue (dv_gw (write_event x d)) = gt_event_queue (dv_gw d)"
  "gt_event_queue (dv_gw (report_alarm_event c d)) = Gateway_ReportAlarmEvent c (gt_event_queue (dv_gw d))"
  "gt_reports (dv_gw (kick t now d)) = gt_reports (dv_gw d)"
  "gt_reports (dv_gw (report_alarm_event c d)) = gt_reports (dv_gw d)"
  "gt_reports (dv_gw (write_event x d)) =
     (gt_reports (dv_gw d))\<lparr>g_storage_queue := snd (Storage_WriteEvent x (g_storage_queue (gt_reports (dv_gw d))))\<rparr>"
  "gt_force_report (dv_gw (kick t now d)) = gt_force_report (dv_gw d)"
  "gt_force_report (dv_gw (write_event x d)) = gt_force_report (dv_gw d)"
  "gt_force_report (dv_gw (report_alarm_event c d)) = gt_force_report (dv_gw d)"
  by (simp_all add: on_gw_def on_home_def kick_def write_event_def report_alarm_event_def with_reports_def
      Gateway_RequestImmediateReport_def)

lemma local_frames [simp]:
  "dv_led_notify (on_gw f d) = dv_led_notify d" "dv_led_pin (on_gw f d) = dv_led_pin d" "dv_beep_pin (on_gw f d) = dv_beep_pin d"
  "dv_prev_alarm (on_gw f d) = dv_prev_alarm d" "dv_fail_count (on_gw f d) = dv_fail_count d"
  "dv_sensor_valid (on_gw f d) = dv_sensor_valid d" "dv_prev_status (on_gw f d) = dv_prev_status d"
  "dv_has_prev (on_gw f d) = dv_has_prev d" "dv_shown (on_gw f d) = dv_shown d" "dv_beep_inited (on_gw f d) = dv_beep_inited d"
  "dv_last_show_tick (on_gw f d) = dv_last_show_tick d"
  by (simp_all add: on_gw_def)

lemmas task_gw = on_home_def kick_def write_event_def report_alarm_event_def

lemma buzzer_output [simp]:
  "dv_gw (alarm_set_buzzer_output x d) = dv_gw d" "dv_led_notify (alarm_set_buzzer_output x d) = dv_led_notify d"
  "dv_led_pin (alarm_set_buzzer_output x d) = dv_led_pin d" "dv_prev_alarm (alarm_set_buzzer_output x d) = dv_prev_alarm d"
  "dv_fail_count (alarm_set_buzzer_output x d) = dv_fail_count d" "dv_sensor_valid (alarm_set_buzzer_output x d) = dv_sensor_valid d"
  "dv_prev_status (alarm_set_buzzer_output x d) = dv_prev_status d" "dv_has_prev (alarm_set_buzzer_output x d) = dv_has_prev d"
  "dv_shown (alarm_set_buzzer_output x d) = dv_shown d"
  "dv_beep_pin (alarm_set_buzzer_output x d) = Driver_Beep_WriteStatus x"
  by (simp_all add: alarm_set_buzzer_output_def Driver_Beep_WriteStatus_def Let_def)

section \<open>The alarm task drives the outputs\<close>

lemma alarm_level_cases:
  "alarm_level cfg st = (if sensor_valid st = 0 \<or> temperature_high cfg \<le> temperature st \<or> humidity_high cfg \<le> humidity st then 1 else 0)"
  by (auto simp: alarm_level_def)

lemma alarm_level_flag [simp]: "flag01 (alarm_level cfg st) = alarm_level cfg st"
  by (simp add: alarm_level_cases flag01_def)

lemma desired_flag: "home_inv st \<Longrightarrow> m \<in> {0, 1} \<Longrightarrow> flag01 (desired_output st m (alarm_level cfg st)) = desired_output st m (alarm_level cfg st)"
  by (auto simp: desired_output_def)

lemma set_led:
  "dv_home (alarm_set_led st x d) = (if led_on st = x then dv_home d else (dv_home d)\<lparr>led_on := flag01 x\<rparr>)"
  "dv_led_notify (alarm_set_led st x d) = (if led_on st = x then dv_led_notify d else Some (ucast x))"
  "dv_led_pin (alarm_set_led st x d) = dv_led_pin d" "dv_beep_pin (alarm_set_led st x d) = dv_beep_pin d"
  "dv_prev_alarm (alarm_set_led st x d) = dv_prev_alarm d"
  by (simp_all add: alarm_set_led_def SmartHomeState_SetLed_def on_home_def)

lemma set_buzzer:
  "dv_home (alarm_set_buzzer st x d) = (if buzzer_on st = x then dv_home d else (dv_home d)\<lparr>buzzer_on := flag01 x\<rparr>)"
  "dv_beep_pin (alarm_set_buzzer st x d) = (if buzzer_on st = x then dv_beep_pin d else Driver_Beep_WriteStatus x)"
  "dv_led_pin (alarm_set_buzzer st x d) = dv_led_pin d" "dv_led_notify (alarm_set_buzzer st x d) = dv_led_notify d"
  "dv_prev_alarm (alarm_set_buzzer st x d) = dv_prev_alarm d"
  by (simp_all add: alarm_set_buzzer_def SmartHomeState_SetBuzzer_def on_home_def)

lemma alarm_changed_frames [simp]:
  "dv_home (alarm_changed st a d) = dv_home d" "dv_led_notify (alarm_changed st a d) = dv_led_notify d"
  "dv_led_pin (alarm_changed st a d) = dv_led_pin d" "dv_beep_pin (alarm_changed st a d) = dv_beep_pin d"
  "dv_prev_alarm (alarm_changed st a d) = a"
  by (simp_all add: alarm_changed_def Gateway_RequestImmediateReport_def task_gw)

lemma alarm_pass_state:
  fixes d :: device and now :: u32
  defines "st \<equiv> dv_home d" and "a \<equiv> alarm_level (dv_cfg d) (dv_home d)"
  assumes "home_inv st"
  shows "dv_home (AlarmTask_pass now d) = st\<lparr>alarm_on := a, led_on := desired_output st (manual_led_on st) a,
      buzzer_on := desired_output st (manual_buzzer_on st) a\<rparr>"
    and "dv_led_notify (AlarmTask_pass now d) =
      (if led_on st = desired_output st (manual_led_on st) a then dv_led_notify d else Some (ucast (desired_output st (manual_led_on st) a)))"
    and "dv_beep_pin (AlarmTask_pass now d) =
      (if buzzer_on st = desired_output st (manual_buzzer_on st) a then dv_beep_pin d
       else Driver_Beep_WriteStatus (desired_output st (manual_buzzer_on st) a))"
    and "dv_led_pin (AlarmTask_pass now d) = dv_led_pin d" "dv_prev_alarm (AlarmTask_pass now d) = a"
proof -
  have f: "flag01 (desired_output st (manual_led_on st) a) = desired_output st (manual_led_on st) a"
    "flag01 (desired_output st (manual_buzzer_on st) a) = desired_output st (manual_buzzer_on st) a"
    using assms(3) unfolding st_def a_def by (auto intro!: desired_flag simp: home_inv_def)
  have l: "dv_led_pin (kick t now d) = dv_led_pin d" "dv_led_notify (kick t now d) = dv_led_notify d"
    "dv_beep_pin (kick t now d) = dv_beep_pin d" for t by (simp_all add: kick_def)
  have k: "dv_home (on_home (SmartHomeState_SetAlarm a) (kick t now d)) = st\<lparr>alarm_on := a\<rparr>" for t
    by (simp add: SmartHomeState_SetAlarm_def a_def st_def)
  have kl: "dv_led_notify (on_home h e) = dv_led_notify e" "dv_beep_pin (on_home h e) = dv_beep_pin e"
    "dv_led_pin (on_home h e) = dv_led_pin e" for h e by (simp_all add: on_home_def)
  have a': "alarm_level (dv_cfg d) st = a" by (simp add: a_def st_def)
  note A = AlarmTask_pass_def Let_def gw_frames(3,4) st_def [symmetric] a'
  show "dv_home (AlarmTask_pass now d) = st\<lparr>alarm_on := a, led_on := desired_output st (manual_led_on st) a,
      buzzer_on := desired_output st (manual_buzzer_on st) a\<rparr>"
    unfolding A alarm_changed_frames set_buzzer(1) set_led(1) k f by (auto intro!: home_state.equality)
  show "dv_led_notify (AlarmTask_pass now d) =
      (if led_on st = desired_output st (manual_led_on st) a then dv_led_notify d else Some (ucast (desired_output st (manual_led_on st) a)))"
    unfolding A alarm_changed_frames set_buzzer(4) set_led(2) kl l ..
  show "dv_beep_pin (AlarmTask_pass now d) =
      (if buzzer_on st = desired_output st (manual_buzzer_on st) a then dv_beep_pin d
       else Driver_Beep_WriteStatus (desired_output st (manual_buzzer_on st) a))"
    unfolding A alarm_changed_frames set_buzzer(2) set_led(4) kl l ..
  show "dv_led_pin (AlarmTask_pass now d) = dv_led_pin d"
    unfolding A alarm_changed_frames set_buzzer(3) set_led(3) kl l ..
  show "dv_prev_alarm (AlarmTask_pass now d) = a"
    unfolding A alarm_changed_frames ..
qed

lemma set_led_gw [simp]:
  "gt_event_queue (dv_gw (alarm_set_led st x d)) = gt_event_queue (dv_gw d)"
  "gt_reports (dv_gw (alarm_set_led st x d)) = gt_reports (dv_gw d)"
  "gt_force_report (dv_gw (alarm_set_led st x d)) = gt_force_report (dv_gw d)"
  "gt_event_queue (dv_gw (alarm_set_buzzer st x d)) = gt_event_queue (dv_gw d)"
  "gt_reports (dv_gw (alarm_set_buzzer st x d)) = gt_reports (dv_gw d)"
  "gt_force_report (dv_gw (alarm_set_buzzer st x d)) = gt_force_report (dv_gw d)"
  by (simp_all add: alarm_set_led_def alarm_set_buzzer_def)

lemma alarm_pass_events:
  fixes d :: device and now :: u32
  defines "a \<equiv> alarm_level (dv_cfg d) (dv_home d)"
  shows "gt_event_queue (dv_gw (AlarmTask_pass now d)) =
      (if a = dv_prev_alarm d then gt_event_queue (dv_gw d)
       else Gateway_ReportAlarmEvent (if a \<noteq> 0 then 1 else 2) (gt_event_queue (dv_gw d)))"
    and "gt_reports (dv_gw (AlarmTask_pass now d)) =
      (if a = dv_prev_alarm d then gt_reports (dv_gw d)
       else (gt_reports (dv_gw d))\<lparr>g_storage_queue := snd (Storage_WriteEvent (text_bytes (alarm_event_text a (dv_home d)))
              (g_storage_queue (gt_reports (dv_gw d))))\<rparr>)"
    and "gt_force_report (dv_gw (AlarmTask_pass now d)) = (if a = dv_prev_alarm d then gt_force_report (dv_gw d) else 1)"
proof -
  have k: "dv_prev_alarm (on_home h (kick t now d)) = dv_prev_alarm d" for h t by (simp add: task_gw)
  have r: "gt_reports (Gateway_RequestImmediateReport g) = gt_reports g" "gt_event_queue (Gateway_RequestImmediateReport g) = gt_event_queue g"
    "gt_force_report (Gateway_RequestImmediateReport g) = 1" for g by (simp_all add: Gateway_RequestImmediateReport_def)
  note A = AlarmTask_pass_def Let_def gw_frames(3,4) a_def [symmetric] alarm_changed_def set_buzzer(5) set_led(5) k
  show "gt_event_queue (dv_gw (AlarmTask_pass now d)) =
      (if a = dv_prev_alarm d then gt_event_queue (dv_gw d)
       else Gateway_ReportAlarmEvent (if a \<noteq> 0 then 1 else 2) (gt_event_queue (dv_gw d)))"
    unfolding A by (simp add: r)
  show "gt_reports (dv_gw (AlarmTask_pass now d)) =
      (if a = dv_prev_alarm d then gt_reports (dv_gw d)
       else (gt_reports (dv_gw d))\<lparr>g_storage_queue := snd (Storage_WriteEvent (text_bytes (alarm_event_text a (dv_home d)))
              (g_storage_queue (gt_reports (dv_gw d))))\<rparr>)"
    unfolding A by (simp add: r)
  show "gt_force_report (dv_gw (AlarmTask_pass now d)) = (if a = dv_prev_alarm d then gt_force_report (dv_gw d) else 1)"
    unfolding A by (simp add: r)
qed

section \<open>A failing sensor\<close>

lemma sensor_ok_state:
  "sensor_fnptr_valid rd \<noteq> 0 \<Longrightarrow> dv_home (SensorTask_pass now rd (Some (t, h, l)) lf d) = SmartHomeState_SetSensor t h l 1 (dv_home d)"
  "sensor_fnptr_valid rd \<noteq> 0 \<Longrightarrow> gt_event_queue (dv_gw (SensorTask_pass now rd (Some (t, h, l)) lf d)) =
     (if dv_sensor_valid d = 0 then Gateway_ReportAlarmEvent 4 (gt_event_queue (dv_gw d)) else gt_event_queue (dv_gw d))"
  "sensor_fnptr_valid rd \<noteq> 0 \<Longrightarrow> dv_sensor_valid (SensorTask_pass now rd (Some (t, h, l)) lf d) = 1 \<and>
     dv_fail_count (SensorTask_pass now rd (Some (t, h, l)) lf d) = 0"
  by (simp_all add: SensorTask_pass_def sensor_read_ok_def Let_def task_gw)

text \<open>The passes of a run of failed reads, each with its tick and the value of the light sensor.\<close>

definition failed_passes :: "u32 \<Rightarrow> (u32 \<times> u16) list \<Rightarrow> device \<Rightarrow> device" where
  "failed_passes rd xs d = foldl (\<lambda>d x. SensorTask_pass (fst x) rd None (snd x) d) d xs"

lemma sensor_failed_state:
  fixes d :: device and now rd :: u32 and lf :: u16
  defines "d' \<equiv> SensorTask_pass now rd None lf d" and "n \<equiv> (if dv_fail_count d < 0xFF then dv_fail_count d + 1 else dv_fail_count d)"
  assumes "sensor_fnptr_valid rd \<noteq> 0"
  shows "dv_home d' = (dv_home d)\<lparr>light := lf, sensor_valid := (if n \<ge> 3 then 0 else sensor_valid (dv_home d))\<rparr>"
    and "dv_fail_count d' = n" "dv_sensor_valid d' = (if n \<ge> 3 then 0 else dv_sensor_valid d)"
    and "gt_event_queue (dv_gw d') = (if n \<ge> 3 \<and> dv_sensor_valid d \<noteq> 0 then Gateway_ReportAlarmEvent 3 (gt_event_queue (dv_gw d))
      else gt_event_queue (dv_gw d))"
  using assms(3)
  by (simp_all add: d'_def n_def SensorTask_pass_def sensor_read_failed_def SmartHomeState_SetSensor_def
      SENSOR_FAIL_TOLERANCE_COUNT_def Let_def task_gw with_reports_def)

lemma failed_passes_state:
  assumes "sensor_fnptr_valid rd \<noteq> 0" "dv_fail_count d = 0" "dv_sensor_valid d = 1" "sensor_valid (dv_home d) = 1"
  shows "unat (dv_fail_count (failed_passes rd xs d)) = min 255 (length xs) \<and>
    dv_home (failed_passes rd xs d) = (dv_home d)\<lparr>light := (if xs = [] then light (dv_home d) else snd (last xs)),
      sensor_valid := (if length xs < 3 then 1 else 0)\<rparr> \<and>
    dv_sensor_valid (failed_passes rd xs d) = (if length xs < 3 then 1 else 0) \<and>
    gt_event_queue (dv_gw (failed_passes rd xs d)) =
      (if length xs < 3 then gt_event_queue (dv_gw d) else Gateway_ReportAlarmEvent 3 (gt_event_queue (dv_gw d)))"
proof (induction xs rule: rev_induct)
  case Nil
  then show ?case using assms by (simp add: failed_passes_def)
next
  case (snoc x xs)
  let ?d = "failed_passes rd xs d"
  have p: "failed_passes rd (xs @ [x]) d = SensorTask_pass (fst x) rd None (snd x) ?d" by (simp add: failed_passes_def)
  note s = sensor_failed_state [OF assms(1), of "fst x" "snd x" ?d]
  have c: "unat (dv_fail_count ?d) = min 255 (length xs)" using snoc.IH by blast
  have lt: "dv_fail_count ?d < 0xFF \<longleftrightarrow> length xs < 255" using c by (simp add: word_less_nat_alt min_def)
  let ?n = "if dv_fail_count ?d < 0xFF then dv_fail_count ?d + 1 else dv_fail_count ?d"
  have n: "unat ?n = min 255 (Suc (length xs))"
    using c lt by (auto simp: unat_word_ariths(1) unsigned_1 min_def)
  then have g: "?n \<ge> 3 \<longleftrightarrow> \<not> length xs < 2" by (auto simp: word_le_nat_alt)
  show ?case unfolding p s g using snoc.IH n by auto
qed

text \<open>C19: the fault filter of the sensor. After a good reading, up to two failed reads in a row change
  nothing but the light value; from the third on, however many follow, the reading is reported
  invalid, with the last good temperature and humidity, and exactly one event 3 is queued. The next good
  reading is taken over at once and queues event 4 exactly when the sensor had been given up.\<close>

theorem sensor_fault_filter:
  assumes "sensor_fnptr_valid rd \<noteq> 0" "d1 = SensorTask_pass now rd (Some (t, h, l)) lf d" "d2 = failed_passes rd xs d1"
    "d3 = SensorTask_pass now' rd (Some (t', h', l')) lf' d2"
  shows "temperature (dv_home d2) = t \<and> humidity (dv_home d2) = h \<and> light (dv_home d2) = (if xs = [] then l else snd (last xs)) \<and>
    sensor_valid (dv_home d2) = (if length xs < 3 then 1 else 0) \<and>
    gt_event_queue (dv_gw d2) =
      (if length xs < 3 then gt_event_queue (dv_gw d1) else Gateway_ReportAlarmEvent 3 (gt_event_queue (dv_gw d1))) \<and>
    dv_home d3 = SmartHomeState_SetSensor t' h' l' 1 (dv_home d2) \<and>
    gt_event_queue (dv_gw d3) =
      (if length xs < 3 then gt_event_queue (dv_gw d2) else Gateway_ReportAlarmEvent 4 (gt_event_queue (dv_gw d2)))"
proof -
  note s1 = sensor_ok_state [OF assms(1), of now t h l lf d, folded assms(2)]
  have h1: "dv_fail_count d1 = 0" "dv_sensor_valid d1 = 1" "sensor_valid (dv_home d1) = 1"
    using s1 by (simp_all add: SmartHomeState_SetSensor_def)
  note s2 = failed_passes_state [OF assms(1) h1, of xs, folded assms(3)]
  note s3 = sensor_ok_state [OF assms(1), of now' t' h' l' lf' d2, folded assms(4)]
  show ?thesis using s1(1) s2 s3(1,2) by (simp add: SmartHomeState_SetSensor_def)
qed

text \<open>The device at its start, around a given gateway: nothing shown, the output registers of the pins
  at their reset value.\<close>

definition device_start :: "gateway \<Rightarrow> device" where
  "device_start g =
     \<lparr>dv_gw = g, dv_led_notify = None, dv_led_pin = GPIO_PIN_RESET, dv_beep_pin = GPIO_PIN_RESET, dv_beep_inited = 0,
      dv_prev_alarm = 0, dv_fail_count = 0, dv_sensor_valid = 0,
      dv_prev_status = display_status_of SmartHomeState_Init, dv_has_prev = 0, dv_last_show_tick = 0, dv_shown = []\<rparr>"

theorem sensor_fault_filter_witness:
  "\<forall>f. let d1 = SensorTask_pass 0 0x08000101 (Some (20, 50, 7)) 0 (device_start (sample_gateway f));
         d2 = failed_passes 0x08000101 (replicate 300 (0, 9)) d1
     in sensor_valid (dv_home d1) = 1 \<and> gt_event_queue (dv_gw d1) = [4] \<and>
        temperature (dv_home d2) = 20 \<and> light (dv_home d2) = 9 \<and> sensor_valid (dv_home d2) = 0 \<and> gt_event_queue (dv_gw d2) = [4, 3]"
proof
  fix f
  have v: "sensor_fnptr_valid 0x08000101 \<noteq> 0" by (simp add: sensor_fnptr_valid_def Let_def)
  let ?d1 = "SensorTask_pass 0 0x08000101 (Some (20, 50, 7)) 0 (device_start (sample_gateway f))"
  have q: "gt_event_queue (dv_gw ?d1) = [4]" "sensor_valid (dv_home ?d1) = 1"
    using sensor_ok_state(1,2) [OF v]
    by (simp_all add: device_start_def sample_gateway_def Gateway_ReportAlarmEvent_def GW_EVENT_QUEUE_LEN_def SmartHomeState_SetSensor_def)
  have "last (replicate 300 (0 :: u32, 9 :: u16)) = (0, 9)" by (rule last_replicate) simp
  then show "let d1 = SensorTask_pass 0 0x08000101 (Some (20, 50, 7)) 0 (device_start (sample_gateway f));
         d2 = failed_passes 0x08000101 (replicate 300 (0, 9)) d1
     in sensor_valid (dv_home d1) = 1 \<and> gt_event_queue (dv_gw d1) = [4] \<and>
        temperature (dv_home d2) = 20 \<and> light (dv_home d2) = 9 \<and> sensor_valid (dv_home d2) = 0 \<and> gt_event_queue (dv_gw d2) = [4, 3]"
    using sensor_fault_filter [OF v refl refl refl, where now = 0 and t = 20 and h = 50 and l = 7 and lf = 0
      and d = "device_start (sample_gateway f)" and xs = "replicate 300 (0, 9)"] q
    by (simp add: Let_def Gateway_ReportAlarmEvent_def GW_EVENT_QUEUE_LEN_def)
qed

end
