(* ===== verification/Key_Driver.thy ===== *)
theory Key_Driver
  imports Driver_Buffer Home_Tasks
begin

text \<open>
  The key driver (\<open>6_ModuleDrives/driver_led_key.c\<close>): the edge interrupt that restarts the debounce time, the
  callback of the millisecond tick that measures a press and queues it, and the read function of the
  key task. The static variables of the file and of the callback form the state; the ticks are the
  arguments. A key event lies in memory as two little-endian 16-bit fields.
\<close>

section \<open>State and operations\<close>

record key_driver =
  KeyBuffer :: ring_buffer
  KeyTrigerTime :: u32
  KeyPending :: u8
  press_time :: u32
  release_time :: u32

definition key_event_bytes :: "u16 \<Rightarrow> u16 \<Rightarrow> u8 list" where
  "key_event_bytes num time = le16 num @ le16 time"

definition Driver_Key_Init :: "u8 list option \<Rightarrow> key_driver \<Rightarrow> key_driver" where
  "Driver_Key_Init malloced k =
     k\<lparr>KeyBuffer := snd (Driver_Buffer_Clean (snd (Driver_Buffer_Init (KeyBuffer k) 64 malloced)))\<rparr>"

definition HAL_GPIO_EXTI_Callback :: "bool \<Rightarrow> u32 \<Rightarrow> key_driver \<Rightarrow> key_driver" where
  "HAL_GPIO_EXTI_Callback is_key_pin tick k = (if \<not> is_key_pin then k else k\<lparr>KeyTrigerTime := tick + 50, KeyPending := 1\<rparr>)"

definition Driver_Key_Read :: "u16 \<Rightarrow> key_driver \<Rightarrow> int \<times> u8 list \<times> key_driver" where
  "Driver_Key_Read len k =
     (if len = 0 \<or> len < 4 \<or> len mod 4 \<noteq> 0 then (-1, [], k)
      else case Driver_Buffer_ReadBytes (KeyBuffer k) (ucast len) of
             (n, ds, b) \<Rightarrow> ((if n \<noteq> 0 then 0 else -1), ds, k\<lparr>KeyBuffer := b\<rparr>))"

text \<open>The event is written whole; when it does not fit, the buffer is emptied first.\<close>

definition key_put :: "u8 list \<Rightarrow> ring_buffer \<Rightarrow> ring_buffer" where
  "key_put ev b =
     (case Driver_Buffer_WriteBytes b (Some ev) 4 of
        (n, b1) \<Rightarrow> if n \<noteq> 4 then snd (Driver_Buffer_WriteBytes (snd (Driver_Buffer_Clean b1)) (Some ev) 4) else b1)"

definition KeyShakeProcess_Callback :: "u32 \<Rightarrow> gpio_level \<Rightarrow> key_driver \<Rightarrow> key_driver" where
  "KeyShakeProcess_Callback tick level k =
     (if KeyPending k \<noteq> 0 \<and> sint (tick - KeyTrigerTime k) \<ge> 0
      then let k1 = k\<lparr>KeyPending := 0\<rparr>;
               k2 = (if level = GPIO_PIN_RESET then k1\<lparr>press_time := tick\<rparr> else k1\<lparr>release_time := tick\<rparr>)
           in if press_time k2 \<noteq> 0 \<and> release_time k2 \<noteq> 0
              then let ev = key_event_bytes 1 (ucast (release_time k2 - press_time k2))
                   in k2\<lparr>release_time := 0, press_time := 0, KeyBuffer := key_put ev (KeyBuffer k2)\<rparr>
              else k2
      else k)"

text \<open>What reaches the driver: edges of the pin, and ticks with the level of the pin.\<close>

datatype key_input = Edge u32 | Tick u32 gpio_level

fun key_step :: "key_driver \<Rightarrow> key_input \<Rightarrow> key_driver" where
  "key_step k (Edge t) = HAL_GPIO_EXTI_Callback True t k"
| "key_step k (Tick t l) = KeyShakeProcess_Callback t l k"

definition key_inputs :: "key_input list \<Rightarrow> key_driver \<Rightarrow> key_driver" where
  "key_inputs xs k = foldl key_step k xs"

section \<open>The buffer of events\<close>

lemma key_event_length [simp]: "length (key_event_bytes n t) = 4"
  by (simp add: key_event_bytes_def)

lemma key_put_spec:
  assumes "db_inv b" "db_cap b \<ge> 4" "length ev = 4"
  shows "db_inv (key_put ev b) \<and> db_cap (key_put ev b) = db_cap b \<and>
    db_items (key_put ev b) = (if length (db_items b) + 4 \<le> db_cap b then db_items b @ ev else ev)"
proof -
  obtain b1 where b1: "Driver_Buffer_WriteBytes b (Some ev) 4 = (int (min 4 (db_cap b - length (db_items b))), b1)"
    "db_inv b1" "db_cap b1 = db_cap b" "db_items b1 = db_items b @ take (db_cap b - length (db_items b)) ev"
    using write_bytes_spec [OF assms(1), of 4 ev] assms(3) by auto
  show ?thesis
  proof (cases "length (db_items b) + 4 \<le> db_cap b")
    case True
    then have "min 4 (db_cap b - length (db_items b)) = 4" by simp
    then show ?thesis using True b1 assms(3) by (simp add: key_put_def)
  next
    case False
    then have m: "min 4 (db_cap b - length (db_items b)) \<noteq> 4" by linarith
    obtain b2 where b2: "Driver_Buffer_Clean b1 = (0, b2)" "db_inv b2" "db_items b2 = []" "db_cap b2 = db_cap b1"
      using db_clean [OF b1(2)] by blast
    obtain b3 where "Driver_Buffer_WriteBytes b2 (Some ev) 4 = (int (min 4 (db_cap b2 - length (db_items b2))), b3)"
      "db_inv b3" "db_cap b3 = db_cap b2" "db_items b3 = db_items b2 @ take (db_cap b2 - length (db_items b2)) ev"
      using write_bytes_spec [OF b2(2), of 4 ev] assms(3) by auto
    then show ?thesis using False m b1 b2 assms(2,3) by (simp add: key_put_def)
  qed
qed

section \<open>Debouncing\<close>

text \<open>A settled state between presses, and the inputs of a bouncing contact: edges, each followed by
  ticks before its debounce time is over.\<close>

definition key_idle :: "key_driver \<Rightarrow> bool" where
  "key_idle k \<longleftrightarrow> KeyPending k = 0 \<and> release_time k = 0"

definition bounces :: "(u32 \<times> (u32 \<times> gpio_level) list) list \<Rightarrow> key_input list" where
  "bounces bs = concat (map (\<lambda>(e, ts). Edge e # map (\<lambda>(t, l). Tick t l) ts) bs)"

definition before_deadline :: "(u32 \<times> (u32 \<times> gpio_level) list) list \<Rightarrow> bool" where
  "before_deadline bs \<longleftrightarrow> (\<forall>(e, ts) \<in> set bs. \<forall>(t, l) \<in> set ts. sint (t - (e + 50)) < 0)"

lemma early_ticks:
  "\<forall>(t, l) \<in> set ts. sint (t - KeyTrigerTime k) < 0 \<Longrightarrow> key_inputs (map (\<lambda>(t, l). Tick t l) ts) k = k"
  by (induction ts arbitrary: k) (auto simp: key_inputs_def KeyShakeProcess_Callback_def)

lemma bounces_state:
  assumes "before_deadline bs" "bs \<noteq> []"
  shows "key_inputs (bounces bs) k = k\<lparr>KeyTrigerTime := fst (last bs) + 50, KeyPending := 1\<rparr>"
  using assms
proof (induction bs arbitrary: k)
  case (Cons x bs)
  obtain e ts where x: "x = (e, ts)" by (cases x)
  let ?k = "k\<lparr>KeyTrigerTime := e + 50, KeyPending := 1\<rparr>"
  have "key_inputs (map (\<lambda>(t, l). Tick t l) ts) ?k = ?k"
    by (rule early_ticks) (use Cons.prems(1) x in \<open>auto simp: before_deadline_def\<close>)
  then have s: "key_inputs (bounces (x # bs)) k = key_inputs (bounces bs) ?k"
    by (simp add: bounces_def x key_inputs_def HAL_GPIO_EXTI_Callback_def)
  show ?case
  proof (cases "bs = []")
    case True
    then show ?thesis using s x by (simp add: bounces_def key_inputs_def)
  next
    case False
    have "before_deadline bs" using Cons.prems(1) by (auto simp: before_deadline_def)
    then show ?thesis using s Cons.IH [OF _ False, of ?k] x False by simp
  qed
qed simp

lemma key_inputs_append: "key_inputs (xs @ ys) k = key_inputs ys (key_inputs xs k)"
  by (simp add: key_inputs_def)


text \<open>A key pressed for two and a half seconds, with bounces on both edges, in an empty driver.\<close>

definition key_start :: key_driver where
  "key_start = Driver_Key_Init (Some (replicate 64 0))
     \<lparr>KeyBuffer = \<lparr>fifo = None, pw = 0, pr = 0, buf_size = 0\<rparr>, KeyTrigerTime = 0, KeyPending = 0, press_time = 0, release_time = 0\<rparr>"

lemma key_start_facts:
  "key_idle key_start" "db_inv (KeyBuffer key_start)" "db_cap (KeyBuffer key_start) = 63" "db_items (KeyBuffer key_start) = []"
  by (simp_all add: key_start_def Driver_Key_Init_def Driver_Buffer_Init_def Driver_Buffer_Clean_def key_idle_def db_inv_def
      db_cap_def db_items_def ring_items_Nil)


text \<open>A release that no press precedes, as after a start with the key held down, leaves its time behind;
  the next press is then reported at once, with a length that has wrapped: ten seconds after the
  release it counts as a long press.\<close>

lemma stray_release_misread:
  "\<exists>k''. Driver_Key_Read 4 (key_inputs [Edge 1000, Tick 1050 GPIO_PIN_SET, Edge 11000, Tick 11050 GPIO_PIN_RESET] key_start) =
     (0, le16 1 @ le16 55536, k'')"
proof -
  let ?k = "key_inputs [Edge 1000, Tick 1050 GPIO_PIN_SET, Edge 11000, Tick 11050 GPIO_PIN_RESET] key_start"
  have z: "KeyPending key_start = 0" "press_time key_start = 0" "release_time key_start = 0"
    by (simp_all add: key_start_def Driver_Key_Init_def)
  have w: "(4294957296 :: u16) = 55536" by (simp add: word_uint_eq_iff)
  have "KeyBuffer ?k = key_put (key_event_bytes 1 55536) (KeyBuffer key_start)"
    by (simp add: w key_inputs_def HAL_GPIO_EXTI_Callback_def KeyShakeProcess_Callback_def z Let_def)
  then have b: "db_inv (KeyBuffer ?k)" "db_items (KeyBuffer ?k) = key_event_bytes 1 55536"
    using key_put_spec [OF key_start_facts(2), of "key_event_bytes 1 55536"] key_start_facts(3,4) by simp_all
  obtain b2 where "Driver_Buffer_ReadBytes (KeyBuffer ?k) 4 = (4, key_event_bytes 1 55536, b2)"
    using read_bytes_spec [OF b(1), of 4] b(2) by auto
  then show ?thesis by (simp add: Driver_Key_Read_def key_event_bytes_def)
qed

end
