(* ===== verification/Home_System.thy ===== *)
theory Home_System
  imports Home_Tasks
begin

text \<open>
  The tasks together: a step of the device is a pass of one task, an interrupt that changes the receive
  state of the gateway's line, or the storage task taking over a message. What the steps keep, and what
  the outside sees when the alarm rises.
\<close>

section \<open>The gateway keeps the readings and the outputs\<close>

definition home_kept :: "gateway \<Rightarrow> gateway \<Rightarrow> bool" where
  "home_kept g g' \<longleftrightarrow> led_on (gt_home g') = led_on (gt_home g) \<and> buzzer_on (gt_home g') = buzzer_on (gt_home g) \<and>
     alarm_on (gt_home g') = alarm_on (gt_home g) \<and> sensor_valid (gt_home g') = sensor_valid (gt_home g) \<and>
     (home_inv (gt_home g) \<longrightarrow> home_inv (gt_home g'))"

lemma home_kept_refl: "gt_home g' = gt_home g \<Longrightarrow> home_kept g g'"
  by (simp add: home_kept_def)

lemma home_kept_trans: "home_kept g g1 \<Longrightarrow> home_kept g1 g2 \<Longrightarrow> home_kept g g2"
  by (simp add: home_kept_def)

lemma home_kept_command:
  assumes "gw_command ty a p g = (r, g')"
  shows "home_kept g g'"
proof -
  consider "gt_home g' = gt_home g" | x where "gt_home g' = SmartHomeState_SetManualLed x (gt_home g)"
    | x where "gt_home g' = SmartHomeState_SetManualBuzzer x (gt_home g)" | x where "gt_home g' = SmartHomeState_SetMode x (gt_home g)"
    using assms by (auto simp: gw_command_def Gateway_RequestImmediateReport_def Let_def split: if_splits)
  then show ?thesis
    by cases (simp_all add: home_kept_def home_inv_setters, simp_all add: home_setters)
qed

lemma home_kept_frame: "gw_process_frame ty p g = Runs g' \<Longrightarrow> home_kept g g'"
proof (erule frame_cases)
  assume "gt_home g' = gt_home g"
  then show "home_kept g g'" by (rule home_kept_refl)
next
  fix r g1
  assume c: "gw_command (p ! 3) (if length p \<ge> 5 then p ! 4 else 0) p g = (r, g1)" and h: "gt_home g' = gt_home g1"
  show "home_kept g g'" using home_kept_command [OF c] h by (simp add: home_kept_def)
qed

lemma home_kept_frames: "process_frames fs g = Runs g' \<Longrightarrow> home_kept g g'"
proof (induction fs g rule: process_frames.induct)
  case (2 ty p fs g)
  then obtain g1 where "gw_process_frame ty p g = Runs g1" "process_frames fs g1 = Runs g'" by (auto split: task_end.splits)
  then show ?case using 2(1) home_kept_frame home_kept_trans by blast
qed (simp add: home_kept_refl)

lemma home_kept_rx_loop: "gw_rx_loop n g = Runs g' \<Longrightarrow> home_kept g g'"
proof (induction n arbitrary: g)
  case (Suc n)
  show ?case
  proof (cases "gw_uart_read_byte (gt_uart g)")
    case (Some x)
    then obtain b u where x: "gw_uart_read_byte (gt_uart g) = Some (b, u)" by (cases x) simp
    obtain fs buf where f: "gw_process_rx_byte b (gt_frame_buf g) = (fs, buf)" by (cases "gw_process_rx_byte b (gt_frame_buf g)")
    let ?g = "g\<lparr>gt_uart := u, gt_frame_buf := buf\<rparr>"
    obtain g1 where g1: "process_frames fs ?g = Runs g1" "gw_rx_loop n g1 = Runs g'"
      using Suc.prems x f by (auto split: task_end.splits)
    have "home_kept g ?g" by (rule home_kept_refl) simp
    then show ?thesis using home_kept_frames [OF g1(1)] Suc.IH [OF g1(2)] home_kept_trans by blast
  qed (use Suc.prems in \<open>simp add: home_kept_refl\<close>)
qed (simp add: home_kept_refl)

lemma send_events_home [simp]: "gt_home (send_events es g) = gt_home g" "gt_event_queue (send_events es g) = []"
  by (induction es g rule: send_events.induct) simp_all

lemma report_now_queue [simp]: "gt_event_queue (report_now g) = gt_event_queue g"
  by (simp add: report_now_def read_tick_def)

lemma read_tick_fields:
  "read_tick g = (t, g') \<Longrightarrow> gt_home g' = gt_home g \<and> gt_event_queue g' = gt_event_queue g \<and> gt_reports g' = gt_reports g"
  by (auto simp: read_tick_def)

lemma pass_parts_home [simp]:
  "gt_home (pass_report g) = gt_home g" "gt_home (pass_heartbeat g) = gt_home g"
  "gt_home (pass_replay g) = gt_home g" "gt_home (pass_diag g) = gt_home g"
  "gt_event_queue (pass_report g) = gt_event_queue g" "gt_event_queue (pass_heartbeat g) = gt_event_queue g"
  "gt_event_queue (pass_replay g) = gt_event_queue g" "gt_event_queue (pass_diag g) = gt_event_queue g"
  by (simp_all add: pass_report_def pass_heartbeat_def pass_replay_def pass_diag_def read_tick_def Let_def)

lemma all_fresh_queue: "gt_event_queue (snd (all_fresh ts g)) = gt_event_queue g"
  by (induction ts g rule: all_fresh.induct) (auto simp: read_tick_def)

lemma can_confirm_frames:
  "gt_home (snd (gw_can_confirm_slot g)) = gt_home g" "gt_event_queue (snd (gw_can_confirm_slot g)) = gt_event_queue g"
  "gt_reports (snd (gw_can_confirm_slot g)) = gt_reports g"
proof -
  let ?ids = "map wd_index [WD_TASK_GATEWAY, WD_TASK_SENSOR, WD_TASK_ALARM, WD_TASK_STORAGE, WD_TASK_DISPLAY, WD_TASK_KEY, WD_TASK_LED]"
  obtain b g2 where a: "all_fresh ?ids g = (b, g2)" by (cases "all_fresh ?ids g")
  have c: "snd (gw_can_confirm_slot g) = g2" using a by (simp add: gw_can_confirm_slot_def)
  show "gt_home (snd (gw_can_confirm_slot g)) = gt_home g" "gt_reports (snd (gw_can_confirm_slot g)) = gt_reports g"
    using all_fresh_spec [OF a] c by simp_all
  show "gt_event_queue (snd (gw_can_confirm_slot g)) = gt_event_queue g" using all_fresh_queue [of ?ids g] a c by simp
qed

lemma pass_confirm_home [simp]: "gt_home (pass_confirm g) = gt_home g" "gt_event_queue (pass_confirm g) = gt_event_queue g"
proof -
  obtain t g1 where r: "read_tick g = (t, g1)" by (cases "read_tick g")
  obtain b g2 where c: "gw_can_confirm_slot g1 = (b, g2)" by (cases "gw_can_confirm_slot g1")
  show "gt_home (pass_confirm g) = gt_home g" "gt_event_queue (pass_confirm g) = gt_event_queue g"
    using can_confirm_frames [of g1] c r read_tick_fields [OF r] by (simp_all add: pass_confirm_def)
qed

lemma pass_keeps_home:
  assumes "GatewayTask_pass g = Runs g'"
  shows "home_kept g g' \<and> gt_event_queue g' = []"
proof -
  obtain now g0 where r: "read_tick g = (now, g0)" by (cases "read_tick g")
  let ?g0 = "g0\<lparr>gt_wd := Watchdog_Kick (wd_index WD_TASK_GATEWAY) now (gt_wd g0)\<rparr>"
  obtain g1 where rx: "gw_rx_loop 512 ?g0 = Runs g1"
    and g': "g' = pass_confirm (pass_diag (pass_replay (pass_heartbeat (pass_report (send_events (gt_event_queue g1) g1)))))"
    using assms r by (auto simp: GatewayTask_pass_def split: task_end.splits)
  have a: "home_kept g ?g0" using read_tick_fields [OF r] by (intro home_kept_refl) simp
  have b: "home_kept g1 g'" unfolding g' by (intro home_kept_refl) simp
  have "home_kept g g'" by (rule home_kept_trans [OF home_kept_trans [OF a home_kept_rx_loop [OF rx]] b])
  then show ?thesis by (simp add: g')
qed

section \<open>The steps of the device\<close>

inductive device_step :: "device \<Rightarrow> device \<Rightarrow> bool" where
  alarm: "device_step d (AlarmTask_pass now d)"
| sensor: "device_step d (SensorTask_pass now rd data lf d)"
| key: "device_step d (KeyTask_pass now k d)"
| lamp: "device_step d (LedTask_pass now d)"
| display: "device_step d (DisplayTask_pass now t d)"
| gateway: "GatewayTask_pass (dv_gw d) = Runs g \<Longrightarrow> device_step d (d\<lparr>dv_gw := g\<rparr>)"
| received: "HAL_UARTEx_RxEventCallback True sz (gt_uart (dv_gw d)) = Some u \<Longrightarrow> device_step d (on_gw (\<lambda>g. g\<lparr>gt_uart := u\<rparr>) d)"
| storage: "StorageTask_step tick (g_storage_queue (gt_reports (dv_gw d))) (fst (g_store (gt_reports (dv_gw d))))
      (snd (g_store (gt_reports (dv_gw d)))) = (q, c, w) \<Longrightarrow>
    device_step d (on_gw (with_reports (\<lambda>r. r\<lparr>g_storage_queue := q, g_store := (c, w)\<rparr>)) d)"

inductive_cases device_step_elim: "device_step d d'"

text \<open>The two outputs and the alarm agree with the home state, the filter with the reported validity, and
  the queue of events keeps its bound.\<close>

definition device_inv :: "device \<Rightarrow> bool" where
  "device_inv d \<longleftrightarrow> home_inv (dv_home d) \<and> (\<forall>v. dv_led_notify d = Some v \<longrightarrow> v = ucast (led_on (dv_home d))) \<and>
     dv_beep_pin d = Driver_Beep_WriteStatus (buzzer_on (dv_home d)) \<and> dv_prev_alarm d = alarm_on (dv_home d) \<and>
     sensor_valid (dv_home d) = dv_sensor_valid d \<and> dv_sensor_valid d \<in> {0, 1} \<and>
     (dv_sensor_valid d = 1 \<longrightarrow> dv_fail_count d < 3) \<and> length (gt_event_queue (dv_gw d)) \<le> GW_EVENT_QUEUE_LEN"

lemma unaffected_inv:
  assumes "device_inv d" "home_kept (dv_gw d) (dv_gw d')"
    and "gt_event_queue (dv_gw d') = gt_event_queue (dv_gw d) \<or> gt_event_queue (dv_gw d') = []"
    and "dv_led_notify d' = dv_led_notify d" "dv_beep_pin d' = dv_beep_pin d" "dv_prev_alarm d' = dv_prev_alarm d"
    "dv_sensor_valid d' = dv_sensor_valid d" "dv_fail_count d' = dv_fail_count d"
  shows "device_inv d'"
  using assms by (auto simp: device_inv_def home_kept_def)

lemma event_bound: "length q \<le> GW_EVENT_QUEUE_LEN \<Longrightarrow> length (Gateway_ReportAlarmEvent c q) \<le> GW_EVENT_QUEUE_LEN"
  by (simp add: Gateway_ReportAlarmEvent_def)

lemma alarm_pass_inv:
  assumes "device_inv d"
  shows "device_inv (AlarmTask_pass now d)"
proof -
  have h: "home_inv (dv_home d)" using assms by (simp add: device_inv_def)
  let ?st = "dv_home d" and ?a = "alarm_level (dv_cfg d) (dv_home d)"
  have a01: "?a \<in> {0, 1}" by (simp add: alarm_level_cases)
  have d01: "desired_output ?st m ?a \<in> {0, 1}" if "m \<in> {0, 1}" for m using that a01 by (auto simp: desired_output_def)
  have m: "manual_led_on ?st \<in> {0, 1}" "manual_buzzer_on ?st \<in> {0, 1}" using h by (auto simp: home_inv_def)
  note s = alarm_pass_state [OF h, of now]
  have "home_inv (dv_home (AlarmTask_pass now d))"
    unfolding s(1) using h a01 d01 [OF m(1)] d01 [OF m(2)] by (simp add: home_inv_def)
  moreover have "dv_fail_count (AlarmTask_pass now d) = dv_fail_count d" "dv_sensor_valid (AlarmTask_pass now d) = dv_sensor_valid d"
    by (simp_all add: AlarmTask_pass_def alarm_changed_def alarm_set_buzzer_def alarm_set_led_def task_gw Let_def)
  moreover have "length (gt_event_queue (dv_gw (AlarmTask_pass now d))) \<le> GW_EVENT_QUEUE_LEN"
    using assms unfolding alarm_pass_events(1) by (auto simp: device_inv_def intro: event_bound)
  moreover have "v = ucast (led_on (dv_home (AlarmTask_pass now d)))" if "dv_led_notify (AlarmTask_pass now d) = Some v" for v
    using that assms unfolding s(1,2) by (simp add: device_inv_def split: if_splits)
  moreover have "dv_beep_pin (AlarmTask_pass now d) = Driver_Beep_WriteStatus (buzzer_on (dv_home (AlarmTask_pass now d)))"
    using assms unfolding s(1,3) by (simp add: device_inv_def)
  moreover have "sensor_valid (dv_home (AlarmTask_pass now d)) = sensor_valid ?st" "alarm_on (dv_home (AlarmTask_pass now d)) = ?a"
    unfolding s(1) by simp_all
  ultimately show ?thesis using assms s(5) unfolding device_inv_def by metis
qed

lemma kick_inv: "device_inv d \<Longrightarrow> device_inv (kick t now d)"
  by (erule unaffected_inv) (simp_all add: home_kept_refl, simp_all add: kick_def device_inv_def)

lemma sensor_pass_inv:
  assumes "device_inv d"
  shows "device_inv (SensorTask_pass now rd data lf d)"
proof (cases "sensor_fnptr_valid rd = 0")
  case True
  then have "SensorTask_pass now rd data lf d = kick WD_TASK_SENSOR now d" by (simp add: SensorTask_pass_def)
  then show ?thesis using kick_inv [OF assms] by simp
next
  case v: False
  have l: "dv_led_notify (SensorTask_pass now rd data lf d) = dv_led_notify d" "dv_beep_pin (SensorTask_pass now rd data lf d) = dv_beep_pin d"
    "dv_prev_alarm (SensorTask_pass now rd data lf d) = dv_prev_alarm d"
    by (simp_all add: SensorTask_pass_def sensor_read_ok_def sensor_read_failed_def task_gw Let_def split: option.split prod.split)
  show ?thesis
  proof (cases data)
    case None
    note s = sensor_failed_state [OF v, of now lf d]
    have n: "dv_sensor_valid d = 0 \<or> dv_sensor_valid d = 1" using assms by (auto simp: device_inv_def)
    let ?n = "if dv_fail_count d < 0xFF then dv_fail_count d + 1 else dv_fail_count d"
    have e: "x < 3" if "\<not> x \<ge> 3" for x :: u8 using that by simp
    show ?thesis
      using assms l n e [of ?n] unfolding None device_inv_def s home_inv_def by (cases "?n \<ge> 3") (simp_all add: event_bound)
  next
    case (Some x)
    obtain t h u where x: "x = (t, h, u)" using prod_cases3 by blast
    note s = sensor_ok_state [OF v, of now t h u lf d]
    show ?thesis using assms l s(3) unfolding Some x device_inv_def s(1,2) home_inv_def SmartHomeState_SetSensor_def
      by (simp add: event_bound)
  qed
qed

lemma home_set_inv:
  assumes "device_inv d" "home_inv (h (dv_home d))" "led_on (h (dv_home d)) = led_on (dv_home d)"
    "buzzer_on (h (dv_home d)) = buzzer_on (dv_home d)" "alarm_on (h (dv_home d)) = alarm_on (dv_home d)"
    "sensor_valid (h (dv_home d)) = sensor_valid (dv_home d)"
  shows "device_inv (on_home h d)"
  by (rule unaffected_inv [OF assms(1)]) (use assms in \<open>simp_all add: home_kept_def on_home_def\<close>)

lemma key_pass_inv:
  assumes "device_inv d"
  shows "device_inv (KeyTask_pass now k d)"
proof -
  let ?d = "kick WD_TASK_KEY now d"
  have k: "device_inv ?d" by (rule kick_inv [OF assms])
  have m: "device_inv (on_home (SmartHomeState_SetMode x) ?d)" for x
    by (rule home_set_inv [OF k home_inv_setters(8)]) (use assms in \<open>simp_all add: device_inv_def SmartHomeState_SetMode_def\<close>)
  have r: "device_inv (on_gw Gateway_RequestImmediateReport e)" if "device_inv e" for e
    by (rule unaffected_inv [OF that]) (simp_all add: home_kept_refl Gateway_RequestImmediateReport_def)
  show ?thesis using k m r by (simp add: KeyTask_pass_def Let_def split: option.split)
qed

text \<open>The lamp task writes what the home state says already.\<close>

lemma lamp_pass:
  assumes "device_inv d"
  shows "dv_home (LedTask_pass now d) = dv_home d" "dv_led_notify (LedTask_pass now d) = None"
    "dv_led_pin (LedTask_pass now d) = (if dv_led_notify d = None then dv_led_pin d else Driver_LED_WriteStatus (led_on (dv_home d)))"
    "device_inv (LedTask_pass now d)"
proof -
  have v: "v = ucast (led_on (dv_home d))" if "dv_led_notify d = Some v" for v using assms that by (simp add: device_inv_def)
  have f: "flag01 (led_on (dv_home d)) = led_on (dv_home d)" using assms by (auto simp: device_inv_def home_inv_def)
  have u: "(ucast (ucast x :: u32) :: u8) = x" for x :: u8 by (rule bit_word_eqI) (simp add: bit_simps)
  have h: "SmartHomeState_SetLed (ucast (ucast (led_on (dv_home d)) :: u32)) (dv_home d) = dv_home d"
    using f u by (simp add: SmartHomeState_SetLed_def)
  have k: "dv_led_notify (kick t now d) = dv_led_notify d" "dv_led_pin (kick t now d) = dv_led_pin d" for t by (simp_all add: kick_def)
  show 1: "dv_home (LedTask_pass now d) = dv_home d"
    using v h u by (cases "dv_led_notify d") (simp_all add: LedTask_pass_def k Let_def on_home_def)
  show 2: "dv_led_notify (LedTask_pass now d) = None"
    by (simp add: LedTask_pass_def Let_def on_home_def split: option.split)
  show "dv_led_pin (LedTask_pass now d) = (if dv_led_notify d = None then dv_led_pin d else Driver_LED_WriteStatus (led_on (dv_home d)))"
    using v u by (cases "dv_led_notify d") (simp_all add: LedTask_pass_def k Let_def on_home_def)
  have "dv_beep_pin (LedTask_pass now d) = dv_beep_pin d" "dv_prev_alarm (LedTask_pass now d) = dv_prev_alarm d"
    "dv_sensor_valid (LedTask_pass now d) = dv_sensor_valid d" "dv_fail_count (LedTask_pass now d) = dv_fail_count d"
    "gt_event_queue (dv_gw (LedTask_pass now d)) = gt_event_queue (dv_gw d)"
    by (simp_all add: LedTask_pass_def Let_def task_gw split: option.split)
  then show "device_inv (LedTask_pass now d)" using assms 1 2 by (simp add: device_inv_def)
qed

lemma display_pass_inv: "device_inv d \<Longrightarrow> device_inv (DisplayTask_pass now t d)"
proof -
  assume "device_inv d"
  then have k: "device_inv (kick WD_TASK_DISPLAY now d)" by (rule kick_inv)
  have "device_inv (e\<lparr>dv_shown := a, dv_prev_status := b, dv_has_prev := c, dv_last_show_tick := u\<rparr>)" if "device_inv e" for e a b c u
    by (rule unaffected_inv [OF that]) (simp_all add: home_kept_refl)
  then show ?thesis using k by (simp add: DisplayTask_pass_def Let_def)
qed

lemma step_inv:
  assumes "device_step d d'" "device_inv d"
  shows "device_inv d'"
  using assms
proof (induction rule: device_step.induct)
  case (gateway d g)
  then show ?case using pass_keeps_home [OF gateway(1)] by (intro unaffected_inv [OF gateway(2)]) simp_all
next
  case (received sz d u)
  show ?case by (rule unaffected_inv [OF received(2)]) (simp_all add: home_kept_refl)
next
  case (storage tick d q c w)
  show ?case by (rule unaffected_inv [OF storage(2)]) (simp_all add: home_kept_refl)
qed (simp_all add: alarm_pass_inv sensor_pass_inv key_pass_inv lamp_pass(4) display_pass_inv)

text \<open>The pin of the lamp: settled, or as it was at the start with the same state.\<close>

definition lamp_agrees :: "device \<Rightarrow> device \<Rightarrow> bool" where
  "lamp_agrees d0 d \<longleftrightarrow> (dv_led_notify d = None \<longrightarrow> dv_led_pin d = Driver_LED_WriteStatus (led_on (dv_home d)) \<or>
     dv_led_pin d = dv_led_pin d0 \<and> led_on (dv_home d) = led_on (dv_home d0))"

lemma lamp_agrees_same:
  "lamp_agrees d0 d \<Longrightarrow> dv_led_notify d' = dv_led_notify d \<Longrightarrow> dv_led_pin d' = dv_led_pin d \<Longrightarrow>
     led_on (dv_home d') = led_on (dv_home d) \<Longrightarrow> lamp_agrees d0 d'"
  by (simp add: lamp_agrees_def)

lemma step_lamp:
  assumes "device_step d d'" "device_inv d" "lamp_agrees d0 d"
  shows "lamp_agrees d0 d'"
  using assms
proof (induction rule: device_step.induct)
  case (alarm d now)
  have h: "home_inv (dv_home d)" using alarm(1) by (simp add: device_inv_def)
  note s = alarm_pass_state [OF h, of now]
  show ?case using alarm(2) unfolding lamp_agrees_def s(1,2,4) by auto
next
  case (sensor d now rd data lf)
  have "dv_led_notify (SensorTask_pass now rd data lf d) = dv_led_notify d" "dv_led_pin (SensorTask_pass now rd data lf d) = dv_led_pin d"
    by (simp_all add: SensorTask_pass_def sensor_read_ok_def sensor_read_failed_def task_gw Let_def split: option.split prod.split)
  moreover have "led_on (dv_home (SensorTask_pass now rd data lf d)) = led_on (dv_home d)"
    by (simp add: SensorTask_pass_def sensor_read_ok_def sensor_read_failed_def SmartHomeState_SetSensor_def Let_def
        split: option.split prod.split)
  ultimately show ?case by (rule lamp_agrees_same [OF sensor(2)])
next
  case (key d now k)
  show ?case by (rule lamp_agrees_same [OF key(2)])
      (simp_all add: KeyTask_pass_def task_gw Let_def SmartHomeState_SetMode_def Gateway_RequestImmediateReport_def split: option.split)
next
  case (lamp d now)
  show ?case using lamp(2) unfolding lamp_agrees_def lamp_pass(1,3) [OF lamp(1)] by simp
next
  case (display d now t)
  show ?case by (rule lamp_agrees_same [OF display(2)]) (simp_all add: DisplayTask_pass_def kick_def Let_def)
next
  case (gateway d g)
  show ?case using pass_keeps_home [OF gateway(1)] by (intro lamp_agrees_same [OF gateway(3)]) (simp_all add: home_kept_def)
qed (erule lamp_agrees_same; simp)+

lemma device_steps:
  assumes "device_step\<^sup>*\<^sup>* d0 d" "device_inv d0" "dv_led_notify d0 = None"
  shows "device_inv d \<and> lamp_agrees d0 d"
  using assms(1)
proof (induction rule: rtranclp_induct)
  case base
  then show ?case using assms(2,3) by (simp add: lamp_agrees_def)
next
  case (step d d')
  then show ?case using step_inv step_lamp by blast
qed

lemma device_start_inv:
  "gt_home g = SmartHomeState_Init \<Longrightarrow> gt_event_queue g = [] \<Longrightarrow> device_inv (device_start g)"
  using home_inv_setters(1)
  by (simp add: device_inv_def device_start_def SmartHomeState_Init_def Driver_Beep_WriteStatus_def)



section \<open>An alarm reaches the other side\<close>

text \<open>The wire only grows, and a line that is ready stays ready.\<close>

definition line_grows :: "gw_line \<Rightarrow> gw_line \<Rightarrow> bool" where
  "line_grows l l' \<longleftrightarrow> tx_polls l' = tx_polls l \<and> (\<exists>xs. tx_wire l' = tx_wire l @ xs)"

lemma line_grows_refl [simp]: "line_grows l l"
  by (simp add: line_grows_def)

lemma line_grows_trans: "line_grows l l1 \<Longrightarrow> line_grows l1 l2 \<Longrightarrow> line_grows l l2"
  by (auto simp: line_grows_def)

lemma tx_bytes_polls: "tx_bytes bs l = (b, l') \<Longrightarrow> tx_polls l' = tx_polls l"
proof (induction bs l arbitrary: b l' rule: tx_bytes.induct)
  case (2 x bs l)
  obtain w l1 where w: "tx_wait USART_SR_TXE l = (w, l1)" by (cases "tx_wait USART_SR_TXE l")
  then have l1: "tx_polls l1 = tx_polls l" by (auto simp: tx_wait_def)
  show ?case
  proof (cases w)
    case True
    then have "tx_bytes bs (l1\<lparr>tx_wire := tx_wire l1 @ [x]\<rparr>) = (b, l')" using 2(2) w by simp
    from 2(1) [OF refl w [symmetric] _ this] True l1 show ?thesis by simp
  next
    case False
    then show ?thesis using 2(2) w l1 by simp
  qed
qed simp

lemma send_bytes_polls:
  assumes "gw_uart_send_bytes data l = (b, l')"
  shows "tx_polls l' = tx_polls l"
proof -
  let ?l = "if tx_hex_dump_count l < GW_TX_HEX_DUMP_MAX_FRAMES then l\<lparr>tx_hex_dump_count := tx_hex_dump_count l + 1\<rparr> else l"
  obtain c l2 where t: "tx_bytes data ?l = (c, l2)" by (cases "tx_bytes data ?l")
  have "tx_polls l2 = tx_polls l" using tx_bytes_polls [OF t] by simp
  moreover have "l' = l \<or> tx_polls l' = tx_polls l2"
    using assms t by (auto simp: gw_uart_send_bytes_def tx_wait_def Let_def split: if_splits)
  ultimately show ?thesis by auto
qed

lemma send_grows: "gw_uart_send_bytes data l = (b, l') \<Longrightarrow> line_grows l l'"
  unfolding line_grows_def using send_bytes_polls send_bytes_wire by blast

lemma on_line_grows: "line_grows (g_line r) (g_line (on_line (gw_transmit_frame ty p) r))"
proof (cases "gw_send_frame ty p")
  case (Tx_bytes bs)
  obtain b l where s: "gw_uart_send_bytes bs (g_line r) = (b, l)" by (cases "gw_uart_send_bytes bs (g_line r)")
  show ?thesis using send_grows [OF s] by (simp add: on_line_def gw_transmit_frame_def Tx_bytes s)
qed (simp_all add: on_line_def gw_transmit_frame_def)

lemma replay_loop_grows: "replay_loop peek ack t n s ps l = (s', ps', l') \<Longrightarrow> line_grows l l'"
proof (induction n arbitrary: s ps l)
  case (Suc n)
  show ?case
  proof (cases "gw_pending_count ps \<ge> GW_PENDING_QUEUE_SIZE")
    case False
    obtain r s1 where p: "peek s = (r, s1)" by (cases "peek s")
    show ?thesis
    proof (cases r)
      case (Some x)
      obtain seq payload where x: "x = (seq, payload)" by (cases x)
      show ?thesis
      proof (cases "gw_pending_find_replay_cache_seq seq ps = None")
        case nf: True
        show ?thesis
        proof (cases "gw_frame_extract_report_seq payload")
          case None
          obtain b s2 where "ack seq s1 = (b, s2)" by (cases "ack seq s1")
          then show ?thesis using Suc.IH [of s2 ps l] Suc.prems False p Some x nf None by simp
        next
          case rs: (Some rs)
          obtain sent l1 where tx: "gw_uart_send_bytes payload l = (sent, l1)" by (cases "gw_uart_send_bytes payload l")
          obtain b ps1 where en: "gw_pending_enqueue 1 seq rs payload t ps = (b, ps1)" by (cases "gw_pending_enqueue 1 seq rs payload t ps")
          have "l' = l1 \<or> replay_loop peek ack t n s1 ps1 l1 = (s', ps', l')"
            using Suc.prems False p Some x nf rs tx en by (simp split: if_splits)
          then show ?thesis using Suc.IH [of s1 ps1 l1] send_grows [OF tx] line_grows_trans by blast
        qed
      qed (use Suc.prems False p Some x in simp)
    qed (use Suc.prems False p in simp)
  qed (use Suc.prems in simp)
qed simp

lemma reports_grow:
  "line_grows (g_line r) (g_line (gw_send_sensor_data st t r))" "line_grows (g_line r) (g_line (gw_try_replay_cache t r))"
  "line_grows (g_line r) (g_line (gw_send_heartbeat r))" "line_grows (g_line r) (g_line (gw_send_alarm_event e r))"
  "line_grows (g_line r) (g_line (gw_send_device_status r))" "line_grows (g_line r) (g_line (gw_send_app_confirm r))"
proof -
  show "line_grows (g_line r) (g_line (gw_send_sensor_data st t r))"
    by (auto simp: gw_send_sensor_data_def Let_def split: prod.split dest: send_grows)
  show "line_grows (g_line r) (g_line (gw_try_replay_cache t r))"
    by (auto simp: gw_try_replay_cache_def Let_def split: prod.split dest: replay_loop_grows)
qed (simp_all add: gw_send_heartbeat_def gw_send_alarm_event_def gw_send_device_status_def gw_send_app_confirm_def on_line_grows)

abbreviation gt_line :: "gateway \<Rightarrow> gw_line" where "gt_line g \<equiv> g_line (gt_reports g)"

lemma with_reports_grows: "line_grows (g_line (gt_reports g)) (g_line (f (gt_reports g))) \<Longrightarrow> line_grows (gt_line g) (gt_line (with_reports f g))"
  by (simp add: with_reports_def)

lemma parts_grow:
  "line_grows (gt_line g) (gt_line (pass_heartbeat g))" "line_grows (gt_line g) (gt_line (pass_replay g))"
  "gt_line (pass_diag g) = gt_line g" "line_grows (gt_line g) (gt_line (pass_confirm g))"
proof -
  have hb: "line_grows (g_line r) (g_line (gw_send_device_status (gw_send_heartbeat r)))" for r
    by (rule line_grows_trans [OF reports_grow(3) reports_grow(5)])
  show "line_grows (gt_line g) (gt_line (pass_heartbeat g))"
    using hb by (simp add: pass_heartbeat_def read_tick_def with_reports_def)
  show "line_grows (gt_line g) (gt_line (pass_replay g))"
    using reports_grow(2) by (simp add: pass_replay_def read_tick_def with_reports_def)
  show "gt_line (pass_diag g) = gt_line g" by (simp add: pass_diag_def read_tick_def)
  obtain b g2 where c: "gw_can_confirm_slot (g\<lparr>gt_tick_no := Suc (gt_tick_no g)\<rparr>) = (b, g2)"
    by (cases "gw_can_confirm_slot (g\<lparr>gt_tick_no := Suc (gt_tick_no g)\<rparr>)")
  have "gt_reports g2 = gt_reports g"
    using can_confirm_frames(3) [of "g\<lparr>gt_tick_no := Suc (gt_tick_no g)\<rparr>"] c by simp
  then show "line_grows (gt_line g) (gt_line (pass_confirm g))"
    using reports_grow(6) [of "gt_reports g"] c by (simp add: pass_confirm_def read_tick_def with_reports_def Let_def)
qed

text \<open>A line whose register always shows both flags sends whole frames.\<close>

definition line_ready :: "gw_line \<Rightarrow> bool" where
  "line_ready l \<longleftrightarrow> (\<forall>k. tx_polls l k = [(0xC0, 0)])"

lemma line_ready_grows: "line_grows l l' \<Longrightarrow> line_ready l \<Longrightarrow> line_ready l'"
  by (simp add: line_grows_def line_ready_def)

lemma ready_sends:
  assumes "line_ready l" "data \<noteq> []" "gw_uart_send_bytes data l = (b, l')"
  shows "b \<and> tx_wire l' = tx_wire l @ data \<and> line_ready l'"
proof -
  have "b" using ready_line_sends [of l data] assms by (simp add: line_ready_def)
  then show ?thesis using send_bytes_wire [OF assms(3)] line_ready_grows [OF send_grows [OF assms(3)] assms(1)] by blast
qed

definition alarm_frame :: "u8 \<Rightarrow> u8 list" where
  "alarm_frame c = [0xAA, 0x55, 3, 2, GW_DEVICE_ID, c] @ le16 (gw_crc16_modbus [3, 2, GW_DEVICE_ID, c])"

lemma send_alarm_frame: "gw_send_frame 2 [GW_DEVICE_ID, c] = Tx_bytes (alarm_frame c)"
  by (simp add: gw_send_frame_def GW_TX_FRAME_MAX_SIZE_def alarm_frame_def Let_def)

lemma alarm_event_sent:
  assumes "line_ready (g_line r)"
  shows "tx_wire (g_line (gw_send_alarm_event c r)) = tx_wire (g_line r) @ alarm_frame c \<and> line_ready (g_line (gw_send_alarm_event c r)) \<and>
    g_report_seq (gw_send_alarm_event c r) = g_report_seq r"
proof -
  obtain b l where s: "gw_uart_send_bytes (alarm_frame c) (g_line r) = (b, l)" by (cases "gw_uart_send_bytes (alarm_frame c) (g_line r)")
  have ne: "alarm_frame c \<noteq> []" by (simp add: alarm_frame_def)
  have "g_line (gw_send_alarm_event c r) = l" "g_report_seq (gw_send_alarm_event c r) = g_report_seq r"
    using s by (simp_all add: gw_send_alarm_event_def on_line_def gw_transmit_frame_def send_alarm_frame)
  then show ?thesis using ready_sends [OF assms ne s] by simp
qed

lemma send_events_sent:
  "line_ready (gt_line g) \<Longrightarrow> tx_wire (gt_line (send_events es g)) = tx_wire (gt_line g) @ concat (map alarm_frame es) \<and>
     line_ready (gt_line (send_events es g)) \<and> g_report_seq (gt_reports (send_events es g)) = g_report_seq (gt_reports g) \<and>
     gt_force_report (send_events es g) = gt_force_report g"
proof (induction es g rule: send_events.induct)
  case (2 e es g)
  have w: "gt_reports (with_reports (gw_send_alarm_event e) g) = gw_send_alarm_event e (gt_reports g)" by (simp add: with_reports_def)
  from 2(1) alarm_event_sent [OF 2(2)] show ?case by (simp add: w)
qed simp

lemma report_sent:
  assumes "line_ready (g_line r)"
  shows "tx_wire (g_line (gw_send_sensor_data st t r)) = tx_wire (g_line r) @ report_frame (report_payload st (g_report_seq r + 1))"
proof -
  let ?f = "report_frame (report_payload st (g_report_seq r + 1))"
  obtain b l where s: "gw_uart_send_bytes ?f (g_line r) = (b, l)" by (cases "gw_uart_send_bytes ?f (g_line r)")
  have "?f \<noteq> []" by (simp add: report_frame_def Let_def)
  from ready_sends [OF assms this s] have "tx_wire l = tx_wire (g_line r) @ ?f" by simp
  then show ?thesis using s by (simp add: gw_send_sensor_data_def Let_def split: prod.split)
qed

lemma forced_report_sent:
  assumes "gt_force_report g \<noteq> 0" "line_ready (gt_line g)"
  shows "tx_wire (gt_line (pass_report g)) =
    tx_wire (gt_line g) @ report_frame (report_payload (gt_home g) (g_report_seq (gt_reports g) + 1))"
  using assms report_sent [OF assms(2)] by (simp add: pass_report_def read_tick_def report_now_def with_reports_def Let_def)

text \<open>A pass with nothing received, when a report is due at once: the queued events and then the report.\<close>

lemma quiet_pass_sends:
  assumes "gw_rx_tail (gt_uart g) = gw_rx_head (gt_uart g)" "gt_force_report g \<noteq> 0" "line_ready (gt_line g)"
  shows "\<exists>g' rest. GatewayTask_pass g = Runs g' \<and> tx_wire (gt_line g') = tx_wire (gt_line g) @ concat (map alarm_frame (gt_event_queue g)) @
    report_frame (report_payload (gt_home g) (g_report_seq (gt_reports g) + 1)) @ rest"
proof -
  let ?g0 = "g\<lparr>gt_tick_no := Suc (gt_tick_no g), gt_wd := Watchdog_Kick 0 (gt_ticks g (gt_tick_no g)) (gt_wd g)\<rparr>"
  let ?g1 = "send_events (gt_event_queue g) ?g0"
  let ?g2 = "pass_report ?g1"
  let ?g' = "pass_confirm (pass_diag (pass_replay (pass_heartbeat ?g2)))"
  have "gw_rx_loop 512 ?g0 = Runs ?g0" by (rule rx_loop_empty) (simp add: assms(1))
  then have p: "GatewayTask_pass g = Runs ?g'" by (simp add: GatewayTask_pass_def read_tick_def)
  have e: "tx_wire (gt_line ?g1) = tx_wire (gt_line g) @ concat (map alarm_frame (gt_event_queue g))" "line_ready (gt_line ?g1)"
    "g_report_seq (gt_reports ?g1) = g_report_seq (gt_reports g)" "gt_force_report ?g1 = gt_force_report g" "gt_home ?g1 = gt_home g"
    using send_events_sent [of ?g0 "gt_event_queue g"] assms(3) by simp_all
  have r: "tx_wire (gt_line ?g2) = tx_wire (gt_line g) @ concat (map alarm_frame (gt_event_queue g)) @
      report_frame (report_payload (gt_home g) (g_report_seq (gt_reports g) + 1))"
    using forced_report_sent [of ?g1] e assms(2) by simp
  have "line_grows (gt_line (pass_heartbeat ?g2)) (gt_line (pass_diag (pass_replay (pass_heartbeat ?g2))))"
    unfolding parts_grow(3) by (rule parts_grow(2))
  then have "line_grows (gt_line ?g2) (gt_line ?g')"
    using parts_grow(1) [of ?g2] parts_grow(4) [of "pass_diag (pass_replay (pass_heartbeat ?g2))"] line_grows_trans by blast
  then obtain rest where "tx_wire (gt_line ?g') = tx_wire (gt_line ?g2) @ rest" by (auto simp: line_grows_def)
  then show ?thesis using p r by auto
qed

text \<open>C11: a rising alarm reaches the other side. When a reading crosses a threshold or is given up, the next
  pass of the alarm task raises the alarm (in automatic mode also the lamp and the buzzer), and the
  pass of the gateway task that follows puts on a ready line the waiting events, then the event of
  this alarm, then a report numbered next that carries the alarm bit.\<close>

theorem alarm_reaches_the_line:
  assumes "device_inv d" "alarm_on (dv_home d) = 0"
    and "sensor_valid (dv_home d) = 0 \<or> temperature_high (dv_cfg d) \<le> temperature (dv_home d) \<or>
      humidity_high (dv_cfg d) \<le> humidity (dv_home d)"
    and "length (gt_event_queue (dv_gw d)) < 8" "gw_rx_tail (gt_uart (dv_gw d)) = gw_rx_head (gt_uart (dv_gw d))"
    and "line_ready (gt_line (dv_gw d))" "d1 = AlarmTask_pass now d"
  shows "alarm_on (dv_home d1) = 1 \<and>
    (mode (dv_home d) = SMARTHOME_MODE_AUTO \<longrightarrow> led_on (dv_home d1) = 1 \<and> buzzer_on (dv_home d1) = 1 \<and> dv_beep_pin d1 = GPIO_PIN_SET) \<and>
    report_status_bits (dv_home d1) AND 2 = 2 \<and>
    (\<exists>g' rest. GatewayTask_pass (dv_gw d1) = Runs g' \<and>
       tx_wire (gt_line g') = tx_wire (gt_line (dv_gw d)) @ concat (map alarm_frame (gt_event_queue (dv_gw d))) @ alarm_frame 1 @
         report_frame (report_payload (dv_home d1) (g_report_seq (gt_reports (dv_gw d)) + 1)) @ rest)"
proof -
  have h: "home_inv (dv_home d)" and pa: "dv_prev_alarm d = 0" using assms(1,2) by (simp_all add: device_inv_def)
  have a: "alarm_level (dv_cfg d) (dv_home d) = 1" using assms(3) by (simp add: alarm_level_cases)
  note s = alarm_pass_state [OF h, of now, unfolded a, folded assms(7)]
  note ev = alarm_pass_events [where d = d and now = now, unfolded a pa, folded assms(7)]
  have on: "alarm_on (dv_home d1) = 1" using s(1) by simp
  have auto: "led_on (dv_home d1) = 1 \<and> buzzer_on (dv_home d1) = 1 \<and> dv_beep_pin d1 = GPIO_PIN_SET"
    if "mode (dv_home d) = SMARTHOME_MODE_AUTO"
    using that s(1,3) assms(1) by (auto simp: desired_output_def device_inv_def Driver_Beep_WriteStatus_def)
  have bits: "report_status_bits (dv_home d1) AND 2 = 2" using on by (simp add: report_status_bits_def)
  have g: "gt_event_queue (dv_gw d1) = gt_event_queue (dv_gw d) @ [1]" "gt_force_report (dv_gw d1) \<noteq> 0"
    "gt_line (dv_gw d1) = gt_line (dv_gw d)" "g_report_seq (gt_reports (dv_gw d1)) = g_report_seq (gt_reports (dv_gw d))"
    using ev assms(4) by (simp_all add: Gateway_ReportAlarmEvent_def GW_EVENT_QUEUE_LEN_def)
  have u: "gt_uart (dv_gw d1) = gt_uart (dv_gw d)"
    unfolding assms(7) AlarmTask_pass_def alarm_changed_def alarm_set_buzzer_def alarm_set_led_def Let_def
    by (simp add: Gateway_RequestImmediateReport_def task_gw with_reports_def)
  show ?thesis
    using quiet_pass_sends [of "dv_gw d1"] on auto bits assms(5,6) unfolding g(1,3,4) u using g(2) by simp
qed

text \<open>Thirty-six degrees in automatic mode, with the threshold at thirty-five.\<close>

definition hot_device :: "flash \<Rightarrow> device" where
  "hot_device f = (device_start (sample_gateway f\<lparr>gt_home := SmartHomeState_Init
     \<lparr>temperature := 36, sensor_valid := 1, mode := SMARTHOME_MODE_AUTO\<rparr>\<rparr>))\<lparr>dv_sensor_valid := 1\<rparr>"

theorem alarm_reaches_the_line_witness:
  "\<forall>f. dv_beep_pin (AlarmTask_pass 0 (hot_device f)) = GPIO_PIN_SET \<and>
     (\<exists>g' rest. GatewayTask_pass (dv_gw (AlarmTask_pass 0 (hot_device f))) = Runs g' \<and>
        tx_wire (gt_line g') = alarm_frame 1 @ report_frame (report_payload (dv_home (AlarmTask_pass 0 (hot_device f))) 1) @ rest)"
proof
  fix f
  have i: "device_inv (hot_device f)"
    by (simp add: device_inv_def hot_device_def device_start_def home_inv_def SmartHomeState_Init_def home_modes
        Driver_Beep_WriteStatus_def sample_gateway_def)
  have t: "temperature_high (dv_cfg (hot_device f)) \<le> temperature (dv_home (hot_device f))" "alarm_on (dv_home (hot_device f)) = 0"
    "mode (dv_home (hot_device f)) = SMARTHOME_MODE_AUTO"
    by (simp_all add: hot_device_def device_start_def sample_gateway_def SmartHomeConfig_Init_def SmartHomeState_Init_def)
  have w: "gt_event_queue (dv_gw (hot_device f)) = []" "gw_rx_tail (gt_uart (dv_gw (hot_device f))) = gw_rx_head (gt_uart (dv_gw (hot_device f)))"
    "line_ready (gt_line (dv_gw (hot_device f)))" "tx_wire (gt_line (dv_gw (hot_device f))) = []"
    "g_report_seq (gt_reports (dv_gw (hot_device f))) = 0"
    by (simp_all add: hot_device_def device_start_def sample_gateway_def line_ready_def sample_reports_def sample_line_def)
  show "dv_beep_pin (AlarmTask_pass 0 (hot_device f)) = GPIO_PIN_SET \<and>
     (\<exists>g' rest. GatewayTask_pass (dv_gw (AlarmTask_pass 0 (hot_device f))) = Runs g' \<and>
        tx_wire (gt_line g') = alarm_frame 1 @ report_frame (report_payload (dv_home (AlarmTask_pass 0 (hot_device f))) 1) @ rest)"
    using alarm_reaches_the_line [OF i t(2) _ _ w(2,3) refl, of 0] t w(1,4,5) by simp
qed

end
