(* ===== verification/Sensor_Drivers.thy ===== *)
theory Sensor_Drivers
  imports Home_System
begin

text \<open>
  The drivers of the two sensors (\<open>6_ModuleDrives/driver_dht11.c\<close>, \<open>driver_light.c\<close>). The temperature and
  humidity sensor sends its bits as lengths of a level on one pin; the driver measures them with the
  cycle counter of the core in busy loops. The environment gives, for each busy loop, the counter at its
  start, what every turn sees of the pin and the counter, and the counter after it; a schedule that
  ends early counts as a time-out. The light sensor is an analogue value read ten times.
\<close>

section \<open>Measuring levels\<close>

record sensor_bus =
  sb_mhz :: u32
  sb_ops :: nat
  sb_start :: "nat \<Rightarrow> u32"
  sb_polls :: "nat \<Rightarrow> (gpio_level \<times> u32) list"
  sb_end :: "nat \<Rightarrow> u32"

fun wait_poll :: "gpio_level \<Rightarrow> u32 \<Rightarrow> u32 \<Rightarrow> (gpio_level \<times> u32) list \<Rightarrow> bool" where
  "wait_poll level start timeout_ticks [] = False"
| "wait_poll level start timeout_ticks ((pin, cyc) # ps) =
     (if pin \<noteq> level then (if cyc - start > timeout_ticks then False else wait_poll level start timeout_ticks ps) else True)"

definition dht22_wait_level :: "gpio_level \<Rightarrow> u32 \<Rightarrow> sensor_bus \<Rightarrow> bool \<times> sensor_bus" where
  "dht22_wait_level level timeout_us b =
     (wait_poll level (sb_start b (sb_ops b)) (sb_mhz b * timeout_us) (sb_polls b (sb_ops b)), b\<lparr>sb_ops := sb_ops b + 1\<rparr>)"

definition dht22_measure_level_us :: "gpio_level \<Rightarrow> u32 \<Rightarrow> sensor_bus \<Rightarrow> u32 \<times> sensor_bus" where
  "dht22_measure_level_us level timeout_us b =
     (let n = sb_ops b; start = sb_start b n; other = (if level = GPIO_PIN_SET then GPIO_PIN_RESET else GPIO_PIN_SET)
      in ((if wait_poll other start (sb_mhz b * timeout_us) (sb_polls b n) then (sb_end b n - start) div sb_mhz b else 0),
          b\<lparr>sb_ops := n + 1\<rparr>))"

section \<open>Reading a frame\<close>

definition DHT22_TIMEOUT_US :: u32 where "DHT22_TIMEOUT_US = 120"
definition DHT22_BIT_ONE_THRESHOLD_US :: u32 where "DHT22_BIT_ONE_THRESHOLD_US = 45"
definition DHT22_MIN_READ_INTERVAL_MS :: u32 where "DHT22_MIN_READ_INTERVAL_MS = 2000"

lemmas dht22_consts = DHT22_TIMEOUT_US_def DHT22_BIT_ONE_THRESHOLD_US_def DHT22_MIN_READ_INTERVAL_MS_def

text \<open>The loop over the bits of one byte, and the loop over the bytes.\<close>

fun dht22_bits :: "nat \<Rightarrow> u8 \<Rightarrow> sensor_bus \<Rightarrow> u8 option \<times> sensor_bus" where
  "dht22_bits 0 data b = (Some data, b)"
| "dht22_bits (Suc n) data b =
     (case dht22_measure_level_us GPIO_PIN_RESET DHT22_TIMEOUT_US b of
        (low_us, b1) \<Rightarrow>
          if low_us = 0 then (None, b1)
          else (case dht22_measure_level_us GPIO_PIN_SET DHT22_TIMEOUT_US b1 of
                  (high_us, b2) \<Rightarrow>
                    if high_us = 0 then (None, b2)
                    else dht22_bits n (if high_us > DHT22_BIT_ONE_THRESHOLD_US then push_bit 1 data OR 1 else push_bit 1 data) b2))"

fun dht22_bytes :: "nat \<Rightarrow> sensor_bus \<Rightarrow> u8 list option \<times> sensor_bus" where
  "dht22_bytes 0 b = (Some [], b)"
| "dht22_bytes (Suc n) b =
     (case dht22_bits 8 0 b of
        (None, b1) \<Rightarrow> (None, b1)
      | (Some x, b1) \<Rightarrow> (case dht22_bytes n b1 of (None, b2) \<Rightarrow> (None, b2) | (Some xs, b2) \<Rightarrow> (Some (x # xs), b2)))"

definition dht22_read_raw :: "sensor_bus \<Rightarrow> u8 list option \<times> sensor_bus" where
  "dht22_read_raw b =
     (case dht22_wait_level GPIO_PIN_RESET DHT22_TIMEOUT_US b of
        (ok, b1) \<Rightarrow>
          if \<not> ok then (None, b1)
          else (case dht22_measure_level_us GPIO_PIN_RESET DHT22_TIMEOUT_US b1 of
                  (t1, b2) \<Rightarrow>
                    if t1 = 0 then (None, b2)
                    else (case dht22_measure_level_us GPIO_PIN_SET DHT22_TIMEOUT_US b2 of
                            (t2, b3) \<Rightarrow>
                              if t2 = 0 then (None, b3)
                              else (case dht22_bytes 5 b3 of
                                      (None, b4) \<Rightarrow> (None, b4)
                                    | (Some ds, b4) \<Rightarrow>
                                        if ds ! 0 + ds ! 1 + ds ! 2 + ds ! 3 \<noteq> ds ! 4 then (None, b4) else (Some ds, b4)))))"

section \<open>The light sensor\<close>

text \<open>The results of the four calls into the hardware layer for one sample.\<close>

type_synonym adc_sample = "hal_status \<times> hal_status \<times> hal_status \<times> u32"

fun light_read_raw_once :: "adc_sample \<Rightarrow> u16" where
  "light_read_raw_once (config, start, poll, value) =
     (if config \<noteq> HAL_OK then 0 else if start \<noteq> HAL_OK then 0 else if poll \<noteq> HAL_OK then 0 else ucast value)"

text \<open>The driver becomes ready once its initialisation has succeeded; a read before that tries it again.\<close>

definition Driver_Light_Init :: "hal_status \<Rightarrow> int \<times> u8" where
  "Driver_Light_Init adc_init = (if adc_init \<noteq> HAL_OK then (-1, 0) else (0, 1))"

fun light_sum :: "adc_sample list \<Rightarrow> u32 \<Rightarrow> u32" where
  "light_sum [] s = s"
| "light_sum (x # xs) s = light_sum xs (s + ucast (light_read_raw_once x))"

definition Driver_Light_Read :: "u8 \<Rightarrow> hal_status \<Rightarrow> adc_sample list \<Rightarrow> u16 \<times> u8" where
  "Driver_Light_Read ready adc_init samples =
     (let (rc, ready1) = (if ready = 0 then Driver_Light_Init adc_init else (0, ready))
      in if rc \<noteq> 0 then (0, ready1)
         else let scaled = light_sum (take 10 samples) 0 div 10 div 40;
                  scaled1 = (if scaled > 100 then 100 else scaled)
              in (ucast (100 - scaled1), ready1))"

section \<open>The reading\<close>

record dht22_driver =
  g_last_read_tick :: u32
  g_has_cache :: u8
  g_cached_data :: "f32 \<times> f32 \<times> u16"

definition Driver_DHT22_Init :: "dht22_driver \<Rightarrow> dht22_driver" where
  "Driver_DHT22_Init v = v\<lparr>g_last_read_tick := 0, g_has_cache := 0\<rparr>"

definition dht22_temperature :: "u16 \<Rightarrow> f32" where
  "dht22_temperature raw =
     (if raw AND 0x8000 \<noteq> 0 then - f_div (of_nat (unat (raw AND 0x7FFF))) 10 else f_div (of_nat (unat raw)) 10)"

text \<open>The light value is an argument: it is read after the frame.\<close>

definition Driver_DHT22_Read :: "u32 \<Rightarrow> u16 \<Rightarrow> sensor_bus \<Rightarrow> dht22_driver \<Rightarrow> (f32 \<times> f32 \<times> u16) option \<times> sensor_bus \<times> dht22_driver" where
  "Driver_DHT22_Read now light_value b v =
     (if g_has_cache v \<noteq> 0 \<and> now - g_last_read_tick v < DHT22_MIN_READ_INTERVAL_MS then (Some (g_cached_data v), b, v)
      else (case dht22_read_raw b of
              (None, b1) \<Rightarrow> (None, b1, v)
            | (Some ds, b1) \<Rightarrow>
                let raw_humidity = un16 (ds ! 1) (ds ! 0);
                    raw_temperature = un16 (ds ! 3) (ds ! 2);
                    out = (dht22_temperature raw_temperature, f_div (of_nat (unat raw_humidity)) 10, light_value)
                in (Some out, b1, v\<lparr>g_cached_data := out, g_has_cache := 1, g_last_read_tick := now\<rparr>)))"

section \<open>What the light sensor can report\<close>

lemma light_range: "fst (Driver_Light_Read ready adc_init samples) \<le> 100"
proof -
  have "(ucast (100 - (if s > 100 then 100 else s)) :: u16) \<le> 100" for s :: u32
  proof (cases "s > 100")
    case False
    then have "unat (100 - s) \<le> 100" by (simp add: unat_sub word_less_nat_alt word_le_nat_alt)
    then show ?thesis using False by (simp add: word_le_nat_alt unsigned_ucast_eq take_bit_nat_eq_self)
  qed simp
  then show ?thesis by (simp add: Driver_Light_Read_def Let_def split: prod.split)
qed

section \<open>A frame of the sensor is read back\<close>

definition measured :: "sensor_bus \<Rightarrow> gpio_level \<Rightarrow> nat \<Rightarrow> u32" where
  "measured b level n = fst (dht22_measure_level_us level DHT22_TIMEOUT_US (b\<lparr>sb_ops := n\<rparr>))"

lemma measure_at:
  "dht22_measure_level_us level DHT22_TIMEOUT_US (b\<lparr>sb_ops := n\<rparr>) = (measured b level n, b\<lparr>sb_ops := n + 1\<rparr>)"
  by (simp add: measured_def dht22_measure_level_us_def Let_def)

text \<open>A bit is a low phase and a high phase, long for a one.\<close>

definition bit_sent :: "sensor_bus \<Rightarrow> nat \<Rightarrow> bool \<Rightarrow> bool" where
  "bit_sent b n c \<longleftrightarrow> measured b GPIO_PIN_RESET n \<noteq> 0 \<and> measured b GPIO_PIN_SET (n + 1) \<noteq> 0 \<and>
     (measured b GPIO_PIN_SET (n + 1) > 45 \<longleftrightarrow> c)"

fun bits_sent :: "sensor_bus \<Rightarrow> nat \<Rightarrow> bool list \<Rightarrow> bool" where
  "bits_sent b n [] = True"
| "bits_sent b n (c # cs) = (bit_sent b n c \<and> bits_sent b (n + 2) cs)"

definition byte_bits :: "u8 \<Rightarrow> bool list" where
  "byte_bits x = map (bit x) [7, 6, 5, 4, 3, 2, 1, 0]"

text \<open>The sensor answers the request and sends five bytes, most significant bit first.\<close>

definition dht22_sends :: "u8 list \<Rightarrow> sensor_bus \<Rightarrow> bool" where
  "dht22_sends ds b \<longleftrightarrow> fst (dht22_wait_level GPIO_PIN_RESET DHT22_TIMEOUT_US b) \<and>
     measured b GPIO_PIN_RESET (sb_ops b + 1) \<noteq> 0 \<and> measured b GPIO_PIN_SET (sb_ops b + 2) \<noteq> 0 \<and>
     bits_sent b (sb_ops b + 3) (concat (map byte_bits ds))"

lemma bits_sent_append: "bits_sent b n (xs @ ys) \<longleftrightarrow> bits_sent b n xs \<and> bits_sent b (n + 2 * length xs) ys"
  by (induction b n xs rule: bits_sent.induct) (auto simp: algebra_simps)

lemma read_bits:
  "bits_sent b n cs \<Longrightarrow> dht22_bits (length cs) d (b\<lparr>sb_ops := n\<rparr>) =
     (Some (foldl (\<lambda>a c. if c then push_bit 1 a OR 1 else push_bit 1 a) d cs), b\<lparr>sb_ops := n + 2 * length cs\<rparr>)"
proof (induction cs arbitrary: n d)
  case (Cons c cs)
  then have "dht22_bits (length cs) d' (b\<lparr>sb_ops := n + 2\<rparr>) =
      (Some (foldl (\<lambda>a c. if c then push_bit 1 a OR 1 else push_bit 1 a) d' cs), b\<lparr>sb_ops := n + 2 + 2 * length cs\<rparr>)" for d'
    by simp
  then show ?case
    using Cons.prems measure_at [where level = GPIO_PIN_SET and b = b and n = "Suc n"] measure_at [where level = GPIO_PIN_RESET and b = b and n = n]
    by (auto simp: bit_sent_def DHT22_BIT_ONE_THRESHOLD_US_def)
qed simp

lemma shift_in_bit:
  "n < 8 \<Longrightarrow> bit (if c then push_bit 1 a OR 1 else push_bit 1 (a :: u8)) n = (if n = 0 then c else bit a (n - 1))"
  using bit_double_iff [of a n] by (cases n) (auto simp: bit_simps mult.commute)

lemma shift_in_bits:
  "n < 8 \<Longrightarrow> bit (foldl (\<lambda>a c. if c then push_bit 1 a OR 1 else push_bit 1 a) (a :: u8) cs) n =
     (if n < length cs then rev cs ! n else bit a (n - length cs))"
proof (induction cs arbitrary: a)
  case (Cons c cs)
  have "bit (if c then push_bit 1 a OR 1 else push_bit 1 a) (n - length cs) = (if n - length cs = 0 then c else bit a (n - length cs - 1))"
    by (rule shift_in_bit) (use Cons.prems in simp)
  then show ?case using Cons.IH [OF Cons.prems, of "if c then push_bit 1 a OR 1 else push_bit 1 a"]
    by (auto simp: nth_append)
qed simp

lemma byte_of_bits: "foldl (\<lambda>a c. if c then push_bit 1 a OR 1 else push_bit 1 a) 0 (byte_bits x) = x"
proof (rule bit_word_eqI)
  fix n assume "n < LENGTH(8)"
  then have n: "n < 8" by simp
  then have "n = 0 \<or> n = 1 \<or> n = 2 \<or> n = 3 \<or> n = 4 \<or> n = 5 \<or> n = 6 \<or> n = 7" by linarith
  then have "rev (byte_bits x) ! n = bit x n" by (elim disjE) (simp_all add: byte_bits_def)
  then show "bit (foldl (\<lambda>a c. if c then push_bit 1 a OR 1 else push_bit 1 a) (0 :: u8) (byte_bits x)) n = bit x n"
    unfolding shift_in_bits [OF n] using n by (simp add: byte_bits_def)
qed

lemma read_bytes:
  "bits_sent b n (concat (map byte_bits ds)) \<Longrightarrow> fst (dht22_bytes (length ds) (b\<lparr>sb_ops := n\<rparr>)) = Some ds"
proof (induction ds arbitrary: n)
  case (Cons x ds)
  have l: "length (byte_bits x) = 8" by (simp add: byte_bits_def)
  have s: "bits_sent b n (byte_bits x)" "bits_sent b (n + 16) (concat (map byte_bits ds))"
    using Cons.prems l by (simp_all add: bits_sent_append)
  have r: "dht22_bits 8 0 (b\<lparr>sb_ops := n\<rparr>) = (Some x, b\<lparr>sb_ops := n + 16\<rparr>)"
    using read_bits [OF s(1), of 0] byte_of_bits [of x] l by simp
  obtain ys b2 where "dht22_bytes (length ds) (b\<lparr>sb_ops := n + 16\<rparr>) = (ys, b2)" by (cases "dht22_bytes (length ds) (b\<lparr>sb_ops := n + 16\<rparr>)")
  then show ?case using Cons.IH [OF s(2)] r by simp
qed simp

lemma read_raw_sent:
  assumes "dht22_sends ds b" "length ds = 5"
  shows "fst (dht22_read_raw b) = (if ds ! 0 + ds ! 1 + ds ! 2 + ds ! 3 = ds ! 4 then Some ds else None)"
proof -
  let ?n = "sb_ops b"
  have b: "b\<lparr>sb_ops := ?n\<rparr> = b" by simp
  obtain ok b1 where w: "dht22_wait_level GPIO_PIN_RESET DHT22_TIMEOUT_US b = (ok, b1)" "ok" "b1 = b\<lparr>sb_ops := ?n + 1\<rparr>"
    using assms(1) by (auto simp: dht22_sends_def dht22_wait_level_def)
  have m: "dht22_measure_level_us GPIO_PIN_RESET DHT22_TIMEOUT_US b1 = (measured b GPIO_PIN_RESET (?n + 1), b\<lparr>sb_ops := ?n + 2\<rparr>)"
    "dht22_measure_level_us GPIO_PIN_SET DHT22_TIMEOUT_US (b\<lparr>sb_ops := ?n + 2\<rparr>) = (measured b GPIO_PIN_SET (?n + 2), b\<lparr>sb_ops := ?n + 3\<rparr>)"
    using measure_at [where level = GPIO_PIN_RESET and b = b and n = "?n + 1"]
      measure_at [where level = GPIO_PIN_SET and b = b and n = "?n + 2"] w(3) by (simp_all add: numeral_3_eq_3)
  obtain x b4 where r: "dht22_bytes 5 (b\<lparr>sb_ops := ?n + 3\<rparr>) = (x, b4)" by (cases "dht22_bytes 5 (b\<lparr>sb_ops := ?n + 3\<rparr>)")
  have "x = Some ds" using read_bytes [of b "?n + 3" ds] assms r by (simp add: dht22_sends_def)
  then show ?thesis using w m r assms(1) by (simp add: dht22_read_raw_def dht22_sends_def)
qed

section \<open>From the sensor to the report\<close>

lemma rnd_zero [simp]: "f32_rnd 0 = 0"
  by (simp add: f32_rnd_def Let_def round_even_def)

lemma tenth_close:
  assumes "n \<le> 32767"
  shows "\<bar>f_div (real n) 10 - real n / 10\<bar> \<le> 1 / 1000"
proof -
  have b: "\<bar>real n / 10\<bar> \<le> 32767 / 10" using assms by simp
  then have "\<bar>f_div (real n) 10 - real n / 10\<bar> \<le> \<bar>real n / 10\<bar> / 2 ^ 24 + 1 / 2 ^ 150" by (intro f_div_close) simp
  moreover have "\<bar>real n / 10\<bar> / 2 ^ 24 \<le> 32767 / 10 / 2 ^ 24" using b by (intro divide_right_mono) simp_all
  moreover have "(32767 / 10 / 2 ^ 24 + 1 / 1000000 :: real) \<le> 1 / 1000" by simp
  ultimately show ?thesis using tiny by linarith
qed

lemma tenths_positive:
  assumes "n \<le> 32767"
  shows "gw_float_to_x10 (f_div (real n) 10) = of_nat n"
proof (cases "n = 0")
  case True
  have "0 \<le> f32_rnd (32767 / 10)" "f32_rnd (- (32768 / 10)) \<le> 0"
    using f32_rnd_close [of "32767 / 10"] f32_rnd_close [of "- (32768 / 10)"] tiny unfolding abs_le_iff by simp_all
  moreover have "f_trunc (f_add (f_mul 0 10) (1 / 2)) = 0"
    using scaled_up [of 0] unfolding f_trunc_def abs_le_iff by (simp add: floor_eq_iff)
  ultimately show ?thesis using True by (simp add: gw_float_to_x10_def f_div_def f_mul_def)
next
  case False
  let ?v = "f_div (real n) 10"
  have n: "1 \<le> real n" "real n \<le> 32767" using False assms by simp_all
  note v = tenth_close [OF assms]
  have vb: "0 < ?v" "?v \<le> 10000" using v n unfolding abs_le_iff by linarith+
  have top: "\<not> ?v > f32_rnd (32767 / 10)"
  proof (cases "n = 32767")
    case False
    then have "real n \<le> 32766" using assms by simp
    moreover have "\<bar>f32_rnd (32767 / 10) - 32767 / 10\<bar> \<le> 1 / 1000" using tenth_close [of 32767] by (simp add: f_div_def)
    ultimately show ?thesis using v unfolding abs_le_iff by linarith
  qed (simp add: f_div_def)
  have bot: "\<not> ?v < f32_rnd (- 32768 / 10)"
    using f32_rnd_close [of "- 32768 / 10"] tiny vb unfolding abs_le_iff by simp
  have x: "\<bar>f_add (f_mul ?v 10) (1 / 2) - (real n + 1 / 2)\<bar> \<le> 1 / 4"
    using scaled_up [of ?v] vb v n unfolding abs_le_iff by simp
  then have y: "real n \<le> f_add (f_mul ?v 10) (1 / 2)" "f_add (f_mul ?v 10) (1 / 2) < real n + 1"
    unfolding abs_le_iff by linarith+
  then have "\<lfloor>f_add (f_mul ?v 10) (1 / 2)\<rfloor> = int n" by (intro floor_unique) simp_all
  moreover have "0 \<le> f_add (f_mul ?v 10) (1 / 2)" using x n unfolding abs_le_iff by linarith
  ultimately have "f_trunc (f_add (f_mul ?v 10) (1 / 2)) = int n" by (simp add: f_trunc_def)
  then show ?thesis using top bot vb(1) by (simp add: gw_float_to_x10_def)
qed

lemma tenths_negative:
  assumes "n \<le> 32767"
  shows "gw_float_to_x10 (- f_div (real n) 10) = - of_nat n"
proof (cases "n = 0")
  case True
  then show ?thesis using tenths_positive [of 0] by (simp add: f_div_def)
next
  case False
  let ?v = "f_div (real n) 10"
  have n: "1 \<le> real n" "real n \<le> 32767" using False assms by simp_all
  note v = tenth_close [OF assms]
  have vb: "0 < ?v" "?v \<le> 10000" using v n unfolding abs_le_iff by linarith+
  have top: "\<not> - ?v > f32_rnd (32767 / 10)"
    using f32_rnd_close [of "32767 / 10"] tiny vb unfolding abs_le_iff by simp
  have bot: "\<not> - ?v < f32_rnd (- 32768 / 10)"
    using f32_rnd_close [of "- 32768 / 10"] tiny v n unfolding abs_le_iff by simp
  have x: "\<bar>f_sub (f_mul (- ?v) 10) (1 / 2) - (- real n - 1 / 2)\<bar> \<le> 1 / 4"
    using scaled_down [of ?v] vb v n unfolding abs_le_iff by simp
  then have y: "- real n - 1 < f_sub (f_mul (- ?v) 10) (1 / 2)" "f_sub (f_mul (- ?v) 10) (1 / 2) \<le> - real n"
    unfolding abs_le_iff by linarith+
  then have "\<lceil>f_sub (f_mul (- ?v) 10) (1 / 2)\<rceil> = - int n" by (intro ceiling_unique) simp_all
  moreover have "\<not> 0 \<le> f_sub (f_mul (- ?v) 10) (1 / 2)" using x n unfolding abs_le_iff by linarith
  ultimately have "f_trunc (f_sub (f_mul (- ?v) 10) (1 / 2)) = - int n" by (simp add: f_trunc_def)
  then show ?thesis using top bot vb(1) by (simp add: gw_float_to_x10_def)
qed

lemma dht22_tenths:
  "gw_float_to_x10 (dht22_temperature raw) = (if bit raw 15 then - (raw AND 0x7FFF) else raw)"
proof -
  have sb: "raw AND 0x8000 \<noteq> 0 \<longleftrightarrow> bit raw 15"
    by (simp add: bit_iff_and_push_bit_not_eq_0 push_bit_of_1)
  have m: "raw AND 0x7FFF = take_bit 15 raw" using take_bit_eq_mask [of 15 raw] by (simp add: mask_eq_exp_minus_1)
  have u: "unat (raw AND 0x7FFF) \<le> 32767"
    using take_bit_nat_less_exp [of 15 "unat raw"] unfolding m by (simp add: unsigned_take_bit_eq)
  show ?thesis
  proof (cases "bit raw 15")
    case True
    then show ?thesis using tenths_negative [OF u] sb by (simp add: dht22_temperature_def)
  next
    case False
    have "raw AND 0x7FFF = raw"
    proof (rule bit_word_eqI)
      fix n assume "n < LENGTH(16)"
      then have "n < 15 \<or> n = 15" by auto
      then show "bit (raw AND 0x7FFF) n = bit raw n" using False unfolding m by (auto simp: bit_simps)
    qed
    then show ?thesis using tenths_positive [OF u] sb False by (simp add: dht22_temperature_def)
  qed
qed


text \<open>A sensor that sends given bytes: every phase shows the next level at the first look, low phases last
  seventy microseconds, high phases seventy for a one and twenty-seven for a zero.\<close>

definition sensor_bus_of :: "u8 list \<Rightarrow> sensor_bus" where
  "sensor_bus_of ds =
     \<lparr>sb_mhz = 168, sb_ops = 0, sb_start = (\<lambda>_. 0),
      sb_polls = (\<lambda>n. [(if even n then GPIO_PIN_RESET else GPIO_PIN_SET, 0)]),
      sb_end = (\<lambda>n. if even n \<and> 4 \<le> n \<and> \<not> concat (map byte_bits ds) ! ((n - 4) div 2) then 168 * 27 else 168 * 70)\<rparr>"

lemma sensor_bus_measured:
  "odd n \<Longrightarrow> measured (sensor_bus_of ds) GPIO_PIN_RESET n = 70"
  "even n \<Longrightarrow> measured (sensor_bus_of ds) GPIO_PIN_SET n =
     (if 4 \<le> n \<and> \<not> concat (map byte_bits ds) ! ((n - 4) div 2) then 27 else 70)"
  by (simp_all add: measured_def dht22_measure_level_us_def sensor_bus_of_def Let_def)

lemma sensor_bus_bits:
  "k \<le> length (concat (map byte_bits ds)) \<Longrightarrow> bits_sent (sensor_bus_of ds) (3 + 2 * k) (drop k (concat (map byte_bits ds)))"
proof (induction "length (concat (map byte_bits ds)) - k" arbitrary: k)
  case (Suc m)
  let ?cs = "concat (map byte_bits ds)"
  have k: "k < length ?cs" using Suc.hyps(2) by simp
  have d: "drop k ?cs = ?cs ! k # drop (Suc k) ?cs" by (rule Cons_nth_drop_Suc [OF k, symmetric])
  have "bits_sent (sensor_bus_of ds) (3 + 2 * Suc k) (drop (Suc k) ?cs)"
    by (rule Suc.hyps(1)) (use Suc.hyps(2) k in simp_all)
  moreover have "bit_sent (sensor_bus_of ds) (3 + 2 * k) (?cs ! k)"
    using sensor_bus_measured(1) [of "3 + 2 * k" ds] sensor_bus_measured(2) [of "4 + 2 * k" ds] by (simp add: bit_sent_def)
  ultimately show ?case unfolding d by simp
qed simp

lemma sensor_bus_sends: "dht22_sends ds (sensor_bus_of ds)"
proof -
  have o: "sb_ops (sensor_bus_of ds) = 0" by (simp add: sensor_bus_of_def)
  have "fst (dht22_wait_level GPIO_PIN_RESET DHT22_TIMEOUT_US (sensor_bus_of ds))"
    by (simp add: dht22_wait_level_def sensor_bus_of_def)
  then show ?thesis
    using sensor_bus_bits [of 0 ds] sensor_bus_measured(1) [of "0 + 1" ds] sensor_bus_measured(2) [of "0 + 2" ds]
    unfolding dht22_sends_def o by simp
qed


end
