(* ===== verification/Net_Driver.thy ===== *)
theory Net_Driver
  imports C_Strings Driver_Buffer
begin

text \<open>
  The driver of the wireless module (\<open>6_ModuleDrives/driver_net.c\<close>, \<open>5_Platform/platform_net.c\<close>): the
  receive interrupt, which queues bytes for the task; the pump, which gives every queued byte to the ring
  of command answers and to the decoder of \<open>+IPD\<close> packets; and the functions that send commands and
  wait for their answers. A waiting loop is run on a schedule, the bytes that arrive before each of its
  turns; the loop is still running (\<open>None\<close>) when the schedule ends first. Every timed wait is a turn
  of the loop. What is sent is appended to \<open>net_line\<close>.
\<close>

section \<open>State\<close>

datatype at_status = INIT_STATUS | LEN_STATUS | DATA_STATUS

text \<open>The statics of the packet decoder and the ring it fills; indices and lengths are never negative.\<close>

record ipd_parser =
  NetDataBuffer :: ring_buffer
  g_DataBuff :: "u8 list"
  g_status :: at_status
  g_DataBuffIndex :: nat
  g_DataLen :: nat

record net_driver =
  CMDRetBuffer :: ring_buffer
  xNetUartRxQueue :: "u8 list option"
  g_net_rx_isr_drop_count :: u32
  ipd :: ipd_parser
  recv_tmp :: nat
  net_line :: "u8 list"

section \<open>Receiving\<close>

definition BOARD_NET_UART_IRQ_HANDLER :: "u8 \<Rightarrow> net_driver \<Rightarrow> net_driver" where
  "BOARD_NET_UART_IRQ_HANDLER rx_data n =
     (case xNetUartRxQueue n of
        None \<Rightarrow> n
      | Some q \<Rightarrow> if length q < 256 then n\<lparr>xNetUartRxQueue := Some (q @ [rx_data])\<rparr>
                  else n\<lparr>g_net_rx_isr_drop_count := g_net_rx_isr_drop_count n + 1\<rparr>)"

definition arrive :: "u8 list \<Rightarrow> net_driver \<Rightarrow> net_driver" where
  "arrive = fold BOARD_NET_UART_IRQ_HANDLER"

definition NetDataProcess_Callback :: "u8 \<Rightarrow> ipd_parser \<Rightarrow> ipd_parser" where
  "NetDataProcess_Callback data p0 =
     (let p = (if g_DataBuffIndex p0 \<ge> 256 then p0\<lparr>g_status := INIT_STATUS, g_DataBuffIndex := 0, g_DataLen := 0\<rparr> else p0);
          i = g_DataBuffIndex p;
          p1 = p\<lparr>g_DataBuff := (g_DataBuff p)[i := data], g_DataBuffIndex := i + 1\<rparr>;
          buf = g_DataBuff p1
      in case g_status p1 of
           INIT_STATUS \<Rightarrow>
             if buf ! 0 \<noteq> 43 then p1\<lparr>g_DataBuffIndex := 0\<rparr>
             else if i = 4 then (if take 5 buf = text_bytes ''+IPD,'' then p1\<lparr>g_status := LEN_STATUS, g_DataBuffIndex := 0\<rparr>
                                 else p1\<lparr>g_DataBuffIndex := 0\<rparr>)
             else p1
         | LEN_STATUS \<Rightarrow>
             if buf ! i = 58
             then (case digits_value (take i buf) 0 of
                     None \<Rightarrow> p1\<lparr>g_status := INIT_STATUS, g_DataBuffIndex := 0, g_DataLen := 0\<rparr>
                   | Some len \<Rightarrow> if len = 0 \<or> len > 256 then p1\<lparr>g_status := INIT_STATUS, g_DataLen := 0, g_DataBuffIndex := 0\<rparr>
                                 else p1\<lparr>g_status := DATA_STATUS, g_DataLen := len, g_DataBuffIndex := 0\<rparr>)
             else if i \<ge> 9 then p1\<lparr>g_status := INIT_STATUS, g_DataBuffIndex := 0\<rparr>
             else p1
         | DATA_STATUS \<Rightarrow>
             if g_DataBuffIndex p1 = g_DataLen p1
             then let p2 = (if g_DataLen p1 > 0 \<and> g_DataLen p1 \<le> 256
                            then p1\<lparr>NetDataBuffer := snd (Driver_Buffer_WriteBytes (NetDataBuffer p1) (Some buf) (of_nat (g_DataLen p1)))\<rparr>
                            else p1)
                  in p2\<lparr>g_status := INIT_STATUS, g_DataBuffIndex := 0, g_DataLen := 0\<rparr>
             else p1)"

definition pump_byte :: "u8 \<Rightarrow> net_driver \<Rightarrow> net_driver" where
  "pump_byte d n =
     n\<lparr>CMDRetBuffer := snd (Driver_Buffer_Write (CMDRetBuffer n) d), ipd := NetDataProcess_Callback d (ipd n)\<rparr>"

definition Driver_Net_PumpRxQueue :: "net_driver \<Rightarrow> net_driver" where
  "Driver_Net_PumpRxQueue n =
     (case xNetUartRxQueue n of None \<Rightarrow> n | Some q \<Rightarrow> fold pump_byte q (n\<lparr>xNetUartRxQueue := Some []\<rparr>))"

text \<open>The buffer of the caller is its cells; the bytes are stored from the position that the calls before
  have reached.\<close>

definition Driver_Net_RecvSocket :: "u8 list option \<Rightarrow> int \<Rightarrow> net_driver \<Rightarrow> int \<times> u8 list option \<times> net_driver" where
  "Driver_Net_RecvSocket buf len n0 =
     (let n = Driver_Net_PumpRxQueue n0
      in case buf of
           None \<Rightarrow> (-1, None, n\<lparr>recv_tmp := 0\<rparr>)
         | Some cells \<Rightarrow>
             if len \<le> 0 then (-1, Some cells, n\<lparr>recv_tmp := 0\<rparr>)
             else let tmp = (if int (recv_tmp n) \<ge> len then 0 else recv_tmp n);
                      request_len = (if nat len - tmp > 255 then 255 else nat len - tmp);
                      (read_len, ds, b) = Driver_Buffer_ReadBytes (NetDataBuffer (ipd n)) (of_nat request_len);
                      n1 = n\<lparr>ipd := (ipd n)\<lparr>NetDataBuffer := b\<rparr>, recv_tmp := tmp\<rparr>
                  in if read_len < 0 then (1, Some cells, n1)
                     else let tmp1 = tmp + nat read_len;
                              cells1 = take tmp cells @ ds @ drop (tmp + length ds) cells
                          in if tmp1 = nat len then (0, Some cells1, n1\<lparr>recv_tmp := 0\<rparr>)
                             else (1, Some cells1, n1\<lparr>recv_tmp := tmp1\<rparr>))"

section \<open>Sending commands\<close>

text \<open>How a wait ends: the code it returns, or a search that runs beyond an answer buffer without a
  terminator.\<close>

datatype at_result = At_code int | At_overread

type_synonym at_run = "at_result option \<times> u8 list list \<times> net_driver"

definition net_transmit :: "u8 list \<Rightarrow> net_driver \<Rightarrow> net_driver" where
  "net_transmit bs n = n\<lparr>net_line := net_line n @ bs\<rparr>"

text \<open>The waiting loop of both sending functions: \<open>buf\<close> collects the answer, \<open>i\<close> is the next cell.\<close>

fun at_wait :: "u8 list \<Rightarrow> u8 list \<Rightarrow> nat \<Rightarrow> int \<Rightarrow> u8 list list \<Rightarrow> net_driver \<Rightarrow> at_run" where
  "at_wait reply buf i timeout [] n = (if timeout = 0 then (Some (At_code (-1)), [], n) else (None, [], n))"
| "at_wait reply buf i timeout (bs # sched) n =
     (if timeout = 0 then (Some (At_code (-1)), bs # sched, n)
      else let n1 = Driver_Net_PumpRxQueue (arrive bs n);
               (rc, v, b) = Driver_Buffer_Read (CMDRetBuffer n1);
               n2 = n1\<lparr>CMDRetBuffer := b\<rparr>
           in if rc = 0
              then let buf1 = (case v of None \<Rightarrow> buf | Some x \<Rightarrow> buf[i := x])
                   in if 0 \<notin> set buf1 then (Some At_overread, sched, n2)
                      else if strstr (cstr buf1) reply \<noteq> None then (Some (At_code 0), sched, n2)
                      else at_wait reply buf1 ((i + 1) mod length buf) timeout sched n2
              else at_wait reply buf i (timeout - 1) sched n2)"

definition CRLF :: "u8 list" where "CRLF = [13, 10]"

definition at_line :: "u8 list \<Rightarrow> u8 list" where
  "at_line cmd = (let buf = snprintf 128 cmd in if strstr buf CRLF = None then buf @ take (128 - length buf - 1) CRLF else buf)"

definition Driver_Net_TransmitCmd :: "u8 list \<Rightarrow> u8 list \<Rightarrow> u16 \<Rightarrow> u8 list list \<Rightarrow> net_driver \<Rightarrow> at_run" where
  "Driver_Net_TransmitCmd cmd reply timeout sched n =
     at_wait reply (replicate 128 0) 0 (uint timeout) sched
       (net_transmit (at_line cmd) (n\<lparr>CMDRetBuffer := snd (Driver_Buffer_Clean (CMDRetBuffer n))\<rparr>))"

definition cipsend_line :: "u16 \<Rightarrow> u8 list" where
  "cipsend_line len = snprintf 16 (text_bytes (''AT+CIPSEND='' @ decimal (unat len)) @ CRLF)"

definition Driver_Net_TransmitSocket :: "u8 list \<Rightarrow> u16 \<Rightarrow> int \<Rightarrow> u8 list list \<Rightarrow> net_driver \<Rightarrow> at_run" where
  "Driver_Net_TransmitSocket socket len timeout sched n =
     (let n1 = net_transmit (cipsend_line len) n;
          n2 = net_transmit (take (unat len) socket) (n1\<lparr>CMDRetBuffer := snd (Driver_Buffer_Clean (CMDRetBuffer n1))\<rparr>)
      in at_wait (text_bytes ''SEND OK'') (replicate 64 0) 0 timeout sched n2)"

definition Driver_Net_ConnectWiFi :: "u8 list \<Rightarrow> u8 list \<Rightarrow> int \<Rightarrow> u8 list list \<Rightarrow> net_driver \<Rightarrow> at_run" where
  "Driver_Net_ConnectWiFi ssid pwd timeout =
     Driver_Net_TransmitCmd (snprintf 128 (text_bytes ''AT+CWJAP_CUR='' @ [34] @ ssid @ [34, 44, 34] @ pwd @ [34]))
       (text_bytes ''GOT IP'' @ CRLF) (word_of_int timeout)"

definition Driver_Net_DisconnectWiFi :: "u8 list list \<Rightarrow> net_driver \<Rightarrow> at_run" where
  "Driver_Net_DisconnectWiFi = Driver_Net_TransmitCmd (text_bytes ''AT+CWQAP'') (text_bytes ''OK'' @ CRLF) 500"

text \<open>The result of a command that is not looked at; a run that has not come back, or has left its buffer,
  does not go on.\<close>

definition at_then :: "at_run \<Rightarrow> (u8 list list \<Rightarrow> net_driver \<Rightarrow> at_run) \<Rightarrow> at_run" where
  "at_then r f = (case r of (Some (At_code _), s, n) \<Rightarrow> f s n | _ \<Rightarrow> r)"

definition Driver_Net_ConnectTCP :: "u8 list \<Rightarrow> u16 \<Rightarrow> int \<Rightarrow> u8 list list \<Rightarrow> net_driver \<Rightarrow> at_run" where
  "Driver_Net_ConnectTCP ip port timeout sched n =
     at_then (Driver_Net_TransmitCmd (text_bytes ''AT+CIPMUX=0'') (text_bytes ''OK'' @ CRLF) 500 sched n)
      (\<lambda>s1 n1. at_then (Driver_Net_TransmitCmd (text_bytes ''AT+CIPMODE=1'') (text_bytes ''OK'' @ CRLF) 500 s1 n1)
      (\<lambda>s2 n2. Driver_Net_TransmitCmd
          (snprintf 128 (text_bytes ''AT+CIPSTART='' @ [34] @ text_bytes ''TCP'' @ [34, 44, 34] @ ip @ [34, 44] @ text_bytes (decimal (unat port))))
          (text_bytes ''OK'' @ CRLF) (word_of_int timeout) s2 n2))"

definition Driver_Net_Disconnect_TCP_UDP :: "u8 list list \<Rightarrow> net_driver \<Rightarrow> at_run" where
  "Driver_Net_Disconnect_TCP_UDP = Driver_Net_TransmitCmd (text_bytes ''AT+CIPCLOSE'') (text_bytes ''OK'' @ CRLF) 500"

text \<open>The start-up: what the hardware layer, the kernel and the allocator answer are arguments.\<close>

definition Driver_Net_Init :: "hal_status \<Rightarrow> bool \<Rightarrow> u8 list option \<Rightarrow> u8 list option \<Rightarrow> u8 list list \<Rightarrow> net_driver \<Rightarrow> at_run" where
  "Driver_Net_Init uart created cells1 cells2 sched n =
     (if uart \<noteq> HAL_OK then (Some (At_code (-1)), sched, n)
      else if xNetUartRxQueue n = None \<and> \<not> created then (Some (At_code (-1)), sched, n)
      else let n1 = (if xNetUartRxQueue n = None then n\<lparr>xNetUartRxQueue := Some []\<rparr> else n);
               (rc1, b1) = Driver_Buffer_Init (CMDRetBuffer n1) 128 cells1;
               n2 = n1\<lparr>CMDRetBuffer := b1\<rparr>
           in if rc1 \<noteq> 0 then (Some (At_code (-1)), sched, n2)
              else let (rc2, b2) = Driver_Buffer_Init (NetDataBuffer (ipd n2)) 1024 cells2;
                       n3 = n2\<lparr>ipd := (ipd n2)\<lparr>NetDataBuffer := b2\<rparr>\<rparr>
                   in if rc2 \<noteq> 0 then (Some (At_code (-1)), sched, n3)
                      else at_then (Driver_Net_TransmitCmd (text_bytes ''AT+RST'') (text_bytes ''OK'' @ CRLF) 10000 sched n3)
                        (\<lambda>s1 n4. at_then (Driver_Net_TransmitCmd (text_bytes ''AT+CWMODE_CUR=1'') (text_bytes ''OK'' @ CRLF) 500 s1 n4)
                        (\<lambda>s2 n5. (Some (At_code 0), s2, n5))))"

text \<open>The layer above: the first byte of the argument chooses the function; a connection of the second kind
  is given half a second, whatever the caller asks for.\<close>

datatype connect_arg = WiFi_ID "u8 list" "u8 list" | UDP_ID | TCP_ID "u8 list" u16

fun platform_net_connect :: "connect_arg \<Rightarrow> int \<Rightarrow> u8 list list \<Rightarrow> net_driver \<Rightarrow> at_run" where
  "platform_net_connect (WiFi_ID ssid pwd) timeout sched n = Driver_Net_ConnectWiFi ssid pwd timeout sched n"
| "platform_net_connect (TCP_ID ip port) timeout sched n = Driver_Net_ConnectTCP ip port 500 sched n"
| "platform_net_connect UDP_ID timeout sched n = (Some (At_code (-1)), sched, n)"

fun platform_net_disconnect :: "connect_arg \<Rightarrow> u8 list list \<Rightarrow> net_driver \<Rightarrow> at_run" where
  "platform_net_disconnect (WiFi_ID ssid pwd) sched n = Driver_Net_DisconnectWiFi sched n"
| "platform_net_disconnect (TCP_ID ip port) sched n = Driver_Net_Disconnect_TCP_UDP sched n"
| "platform_net_disconnect UDP_ID sched n = (Some (At_code (-1)), sched, n)"

definition platform_net_write :: "u8 list \<Rightarrow> u16 \<Rightarrow> int \<Rightarrow> u8 list list \<Rightarrow> net_driver \<Rightarrow> at_run" where
  "platform_net_write buf len timeout sched n =
     (if len = 0 then (Some (At_code (-1)), sched, n) else Driver_Net_TransmitSocket buf len timeout sched n)"

definition platform_net_read :: "u8 list option \<Rightarrow> u16 \<Rightarrow> net_driver \<Rightarrow> int \<times> u8 list option \<times> net_driver" where
  "platform_net_read buf len n = (if buf = None \<or> len = 0 then (-1, buf, n) else Driver_Net_RecvSocket buf (uint len) n)"

section \<open>The decoder of packets\<close>

text \<open>The decoder in a state, with the bytes it has collected there.\<close>

definition ipd_at :: "at_status \<Rightarrow> u8 list \<Rightarrow> ipd_parser \<Rightarrow> bool" where
  "ipd_at s seen p \<longleftrightarrow> g_status p = s \<and> g_DataBuffIndex p = length seen \<and> length (g_DataBuff p) = 256 \<and>
     take (length seen) (g_DataBuff p) = seen"

lemma collected:
  assumes "ipd_at s seen p" "length seen < 256"
  shows "take (Suc (length seen)) ((g_DataBuff p)[length seen := c]) = seen @ [c]"
    "take (length seen) ((g_DataBuff p)[length seen := c]) = seen"
    "(g_DataBuff p)[length seen := c] ! 0 = hd (seen @ [c])"
    "(g_DataBuff p)[length seen := c] ! length seen = c"
proof -
  have l: "length seen < length (g_DataBuff p)" "take (length seen) (g_DataBuff p) = seen"
    using assms by (simp_all add: ipd_at_def)
  show t: "take (Suc (length seen)) ((g_DataBuff p)[length seen := c]) = seen @ [c]"
    using l by (simp add: take_Suc_conv_app_nth)
  show "take (length seen) ((g_DataBuff p)[length seen := c]) = seen" using l by simp
  show "(g_DataBuff p)[length seen := c] ! length seen = c" using l(1) by simp
  show "(g_DataBuff p)[length seen := c] ! 0 = hd (seen @ [c])"
    using arg_cong [OF t, of "\<lambda>xs. xs ! 0"] by (simp add: hd_conv_nth)
qed

lemma ipd_noise:
  assumes "ipd_at INIT_STATUS [] p" "c \<noteq> 43"
  shows "ipd_at INIT_STATUS [] (NetDataProcess_Callback c p) \<and> NetDataBuffer (NetDataProcess_Callback c p) = NetDataBuffer p"
  using assms collected(3) [OF assms(1), of c] by (simp add: ipd_at_def NetDataProcess_Callback_def Let_def)

lemma ipd_init:
  assumes "ipd_at INIT_STATUS xs p" "hd (xs @ [c]) = 43" "length xs < 4"
  shows "ipd_at INIT_STATUS (xs @ [c]) (NetDataProcess_Callback c p) \<and> NetDataBuffer (NetDataProcess_Callback c p) = NetDataBuffer p"
  using assms collected [OF assms(1), of c] by (simp add: ipd_at_def NetDataProcess_Callback_def Let_def)

lemma ipd_tag:
  assumes "ipd_at INIT_STATUS (text_bytes ''+IPD'') p"
  shows "ipd_at LEN_STATUS [] (NetDataProcess_Callback 44 p) \<and> NetDataBuffer (NetDataProcess_Callback 44 p) = NetDataBuffer p"
proof -
  have l: "length (text_bytes ''+IPD'') = 4" by simp
  have t: "text_bytes ''+IPD,'' = text_bytes ''+IPD'' @ [44]" by (simp add: text_bytes_def)
  have "take 5 ((g_DataBuff p)[4 := 44]) = text_bytes ''+IPD,''"
    using collected(1) [OF assms, of 44] unfolding l t by simp
  moreover have "(g_DataBuff p)[4 := 44] ! 0 = 43"
    using collected(3) [OF assms, of 44] unfolding l by (simp add: text_bytes_def)
  ultimately show ?thesis using assms unfolding ipd_at_def l by (simp add: NetDataProcess_Callback_def Let_def)
qed

lemma ipd_digit:
  assumes "ipd_at LEN_STATUS xs p" "c \<noteq> 58" "length xs < 9"
  shows "ipd_at LEN_STATUS (xs @ [c]) (NetDataProcess_Callback c p) \<and> NetDataBuffer (NetDataProcess_Callback c p) = NetDataBuffer p"
  using assms collected [OF assms(1), of c] by (simp add: ipd_at_def NetDataProcess_Callback_def Let_def)

lemma ipd_colon:
  assumes "ipd_at LEN_STATUS xs p" "length xs < 256" "digits_value xs 0 = Some len" "0 < len" "len \<le> 256"
  shows "ipd_at DATA_STATUS [] (NetDataProcess_Callback 58 p) \<and> g_DataLen (NetDataProcess_Callback 58 p) = len \<and>
    NetDataBuffer (NetDataProcess_Callback 58 p) = NetDataBuffer p"
  using assms collected [OF assms(1), of 58] by (simp add: ipd_at_def NetDataProcess_Callback_def Let_def)

lemma ipd_data:
  assumes "ipd_at DATA_STATUS xs p" "Suc (length xs) < g_DataLen p" "g_DataLen p \<le> 256"
  shows "ipd_at DATA_STATUS (xs @ [c]) (NetDataProcess_Callback c p) \<and> g_DataLen (NetDataProcess_Callback c p) = g_DataLen p \<and>
    NetDataBuffer (NetDataProcess_Callback c p) = NetDataBuffer p"
  using assms collected [OF assms(1), of c] by (simp add: ipd_at_def NetDataProcess_Callback_def Let_def)

lemma write_bytes_take:
  "Driver_Buffer_WriteBytes b (Some ds) len = Driver_Buffer_WriteBytes b (Some (take (unat len) ds)) len"
  by (simp add: Driver_Buffer_WriteBytes_def)

lemma ipd_last:
  assumes "ipd_at DATA_STATUS xs p" "Suc (length xs) = g_DataLen p" "g_DataLen p \<le> 256"
  shows "ipd_at INIT_STATUS [] (NetDataProcess_Callback c p) \<and>
    NetDataBuffer (NetDataProcess_Callback c p) =
      snd (Driver_Buffer_WriteBytes (NetDataBuffer p) (Some (xs @ [c])) (of_nat (length (xs @ [c]))))"
proof -
  have c: "take (g_DataLen p) ((g_DataBuff p)[length xs := c]) = xs @ [c]"
    using collected(1) [OF assms(1), of c] assms(2,3) by simp
  have "Driver_Buffer_WriteBytes (NetDataBuffer p) (Some ((g_DataBuff p)[length xs := c])) (of_nat (g_DataLen p)) =
      Driver_Buffer_WriteBytes (NetDataBuffer p) (Some (xs @ [c])) (of_nat (length (xs @ [c])))"
  proof (cases "g_DataLen p = 256")
    case True
    then show ?thesis using assms(2) by (simp add: Driver_Buffer_WriteBytes_def)
  next
    case False
    then have "unat (of_nat (g_DataLen p) :: u8) = g_DataLen p" using assms(3) by (simp add: take_bit_nat_eq_self unsigned_of_nat)
    then show ?thesis using c assms(2) by (subst write_bytes_take) simp
  qed
  then show ?thesis using assms by (simp add: ipd_at_def NetDataProcess_Callback_def Let_def)
qed

section \<open>Streams of packets\<close>

definition ipd_packet :: "u8 list \<Rightarrow> u8 list" where
  "ipd_packet d = text_bytes ''+IPD,'' @ text_bytes (decimal (length d)) @ [58] @ d"

definition ipd_stream :: "(u8 list \<times> u8 list) list \<Rightarrow> u8 list" where
  "ipd_stream ps = concat (map (\<lambda>(noise, d). noise @ ipd_packet d) ps)"

lemma ipd_noises:
  "ipd_at INIT_STATUS [] p \<Longrightarrow> 43 \<notin> set ns \<Longrightarrow>
     ipd_at INIT_STATUS [] (fold NetDataProcess_Callback ns p) \<and> NetDataBuffer (fold NetDataProcess_Callback ns p) = NetDataBuffer p"
  by (induction ns arbitrary: p) (auto dest: ipd_noise)

lemma ipd_inits:
  "ipd_at INIT_STATUS xs p \<Longrightarrow> hd (xs @ cs) = 43 \<Longrightarrow> length xs + length cs \<le> 4 \<Longrightarrow>
     ipd_at INIT_STATUS (xs @ cs) (fold NetDataProcess_Callback cs p) \<and> NetDataBuffer (fold NetDataProcess_Callback cs p) = NetDataBuffer p"
proof (induction cs arbitrary: xs p)
  case (Cons c cs)
  have "hd (xs @ [c]) = 43" using Cons.prems(2) by (cases xs) simp_all
  then have s: "ipd_at INIT_STATUS (xs @ [c]) (NetDataProcess_Callback c p)" "NetDataBuffer (NetDataProcess_Callback c p) = NetDataBuffer p"
    using ipd_init [OF Cons.prems(1)] Cons.prems(3) by simp_all
  show ?case using Cons.IH [OF s(1)] s(2) Cons.prems(2,3) by simp
qed simp

lemma ipd_header:
  assumes "ipd_at INIT_STATUS [] p"
  shows "ipd_at LEN_STATUS [] (fold NetDataProcess_Callback (text_bytes ''+IPD,'') p) \<and>
    NetDataBuffer (fold NetDataProcess_Callback (text_bytes ''+IPD,'') p) = NetDataBuffer p"
proof -
  have t: "text_bytes ''+IPD,'' = text_bytes ''+IPD'' @ [44]" by (simp add: text_bytes_def)
  have "hd ([] @ text_bytes ''+IPD'') = 43" by (simp add: text_bytes_def)
  then show ?thesis using ipd_inits [OF assms] ipd_tag unfolding t by fastforce
qed

lemma ipd_digits:
  "ipd_at LEN_STATUS xs p \<Longrightarrow> 58 \<notin> set ds \<Longrightarrow> length xs + length ds \<le> 9 \<Longrightarrow>
     ipd_at LEN_STATUS (xs @ ds) (fold NetDataProcess_Callback ds p) \<and> NetDataBuffer (fold NetDataProcess_Callback ds p) = NetDataBuffer p"
proof (induction ds arbitrary: xs p)
  case (Cons c ds)
  have s: "ipd_at LEN_STATUS (xs @ [c]) (NetDataProcess_Callback c p)" "NetDataBuffer (NetDataProcess_Callback c p) = NetDataBuffer p"
    using ipd_digit [OF Cons.prems(1), of c] Cons.prems(2,3) by simp_all
  show ?case using Cons.IH [OF s(1)] s(2) Cons.prems(2,3) by simp
qed simp

lemma ipd_payload:
  "ipd_at DATA_STATUS xs p \<Longrightarrow> ds \<noteq> [] \<Longrightarrow> length xs + length ds = g_DataLen p \<Longrightarrow> g_DataLen p \<le> 256 \<Longrightarrow>
     ipd_at INIT_STATUS [] (fold NetDataProcess_Callback ds p) \<and>
     NetDataBuffer (fold NetDataProcess_Callback ds p) =
       snd (Driver_Buffer_WriteBytes (NetDataBuffer p) (Some (xs @ ds)) (of_nat (length (xs @ ds))))"
proof (induction ds arbitrary: xs p)
  case (Cons c ds)
  show ?case
  proof (cases "ds = []")
    case True
    then show ?thesis using ipd_last [OF Cons.prems(1), of c] Cons.prems(3,4) by simp
  next
    case False
    have s: "ipd_at DATA_STATUS (xs @ [c]) (NetDataProcess_Callback c p)" "NetDataBuffer (NetDataProcess_Callback c p) = NetDataBuffer p"
      "g_DataLen (NetDataProcess_Callback c p) = g_DataLen p"
      using ipd_data [OF Cons.prems(1), of c] Cons.prems(3,4) False by (cases ds; simp)+
    show ?thesis using Cons.IH [OF s(1) False] s(2,3) Cons.prems(3,4) by simp
  qed
qed simp

lemma digit_not_colon: "is_digit c \<Longrightarrow> c \<noteq> 58 \<and> c \<noteq> 43"
  by (auto simp: is_digit_def)

lemma ipd_packet_received:
  assumes "ipd_at INIT_STATUS [] p" "d \<noteq> []" "length d \<le> 256"
  shows "ipd_at INIT_STATUS [] (fold NetDataProcess_Callback (ipd_packet d) p) \<and>
    NetDataBuffer (fold NetDataProcess_Callback (ipd_packet d) p) =
      snd (Driver_Buffer_WriteBytes (NetDataBuffer p) (Some d) (of_nat (length d)))"
proof -
  let ?f = "fold NetDataProcess_Callback"
  let ?n = "text_bytes (decimal (length d))"
  have l: "length ?n \<le> 3" using decimal_length [of "length d" 2] assms(3) by simp
  have c: "58 \<notin> set ?n" using decimal_digits digit_not_colon by blast
  obtain p1 where p1: "p1 = ?f (text_bytes ''+IPD,'') p" "ipd_at LEN_STATUS [] p1" "NetDataBuffer p1 = NetDataBuffer p"
    using ipd_header [OF assms(1)] by blast
  obtain p2 where p2: "p2 = ?f ?n p1" "ipd_at LEN_STATUS ?n p2" "NetDataBuffer p2 = NetDataBuffer p"
    using ipd_digits [OF p1(2) c] l p1(3) by simp
  obtain p3 where p3: "p3 = NetDataProcess_Callback 58 p2" "ipd_at DATA_STATUS [] p3" "NetDataBuffer p3 = NetDataBuffer p" "g_DataLen p3 = length d"
    using ipd_colon [OF p2(2) _ decimal_value] l p2(3) assms(2,3) by simp
  have "?f (ipd_packet d) p = ?f d p3" by (simp add: ipd_packet_def p1(1) p2(1) p3(1))
  then show ?thesis using ipd_payload [OF p3(2) assms(2)] p3(3,4) assms(3) by simp
qed

lemma ipd_stream_received:
  assumes "ipd_at INIT_STATUS [] p" "db_inv (NetDataBuffer p)" "\<forall>(noise, d) \<in> set ps. 43 \<notin> set noise \<and> d \<noteq> [] \<and> length d < 256"
    and "length (db_items (NetDataBuffer p)) + length (concat (map snd ps)) \<le> db_cap (NetDataBuffer p)"
  shows "ipd_at INIT_STATUS [] (fold NetDataProcess_Callback (ipd_stream ps) p) \<and>
    (let b = NetDataBuffer (fold NetDataProcess_Callback (ipd_stream ps) p)
     in db_inv b \<and> db_cap b = db_cap (NetDataBuffer p) \<and> db_items b = db_items (NetDataBuffer p) @ concat (map snd ps))"
  using assms
proof (induction ps arbitrary: p)
  case (Cons x ps)
  let ?f = "fold NetDataProcess_Callback"
  obtain noise d where x: "x = (noise, d)" by (cases x)
  have d: "43 \<notin> set noise" "d \<noteq> []" "length d < 256" using Cons.prems(3) x by auto
  obtain p1 where p1: "p1 = ?f noise p" "ipd_at INIT_STATUS [] p1" "NetDataBuffer p1 = NetDataBuffer p"
    using ipd_noises [OF Cons.prems(1) d(1)] by blast
  let ?p2 = "?f (ipd_packet d) p1"
  have p2: "ipd_at INIT_STATUS [] ?p2"
    "NetDataBuffer ?p2 = snd (Driver_Buffer_WriteBytes (NetDataBuffer p) (Some d) (of_nat (length d)))"
    using ipd_packet_received [OF p1(2) d(2)] d(3) p1(3) by simp_all
  have u: "unat (of_nat (length d) :: u8) = length d" using d(3) by (simp add: take_bit_nat_eq_self unsigned_of_nat)
  then have nz: "(of_nat (length d) :: u8) \<noteq> 0" using d(2) by (metis length_0_conv unat_0)
  have room: "length d \<le> db_cap (NetDataBuffer p) - length (db_items (NetDataBuffer p))" using Cons.prems(4) x by simp
  have b: "db_inv (NetDataBuffer ?p2)" "db_cap (NetDataBuffer ?p2) = db_cap (NetDataBuffer p)"
    "db_items (NetDataBuffer ?p2) = db_items (NetDataBuffer p) @ d"
    using write_bytes_spec [OF Cons.prems(2) nz u [symmetric]] room unfolding p2(2) by auto
  have "?f (ipd_stream (x # ps)) p = ?f (ipd_stream ps) ?p2" by (simp add: ipd_stream_def x p1(1))
  then show ?case using Cons.IH [OF p2(1) b(1)] b(2,3) Cons.prems(3,4) x by (simp add: Let_def)
qed (simp add: ipd_stream_def Let_def)

section \<open>Interrupt, pump and reading\<close>

lemma arrive_room:
  "xNetUartRxQueue n = Some q \<Longrightarrow> length q + length bs \<le> 256 \<Longrightarrow> arrive bs n = n\<lparr>xNetUartRxQueue := Some (q @ bs)\<rparr>"
  by (induction bs arbitrary: n q) (simp_all add: arrive_def BOARD_NET_UART_IRQ_HANDLER_def)

lemma pump_bytes:
  "fold pump_byte q n = n\<lparr>CMDRetBuffer := db.pushes q (CMDRetBuffer n), ipd := fold NetDataProcess_Callback q (ipd n)\<rparr>"
  by (induction q arbitrary: n) (simp_all add: pump_byte_def db_push_def)

lemma pump_queue:
  "xNetUartRxQueue n = Some q \<Longrightarrow> Driver_Net_PumpRxQueue n =
     n\<lparr>xNetUartRxQueue := Some [], CMDRetBuffer := db.pushes q (CMDRetBuffer n), ipd := fold NetDataProcess_Callback q (ipd n)\<rparr>"
  by (simp add: Driver_Net_PumpRxQueue_def pump_bytes)

text \<open>One call of the read function, after the pump: what it takes, where it stores it, and when it has ended.\<close>

lemma recv_socket:
  assumes "n1 = Driver_Net_PumpRxQueue n" "db_inv (NetDataBuffer (ipd n1))" "recv_tmp n1 < len"
    and "got = min (min 255 (len - recv_tmp n1)) (length (db_items (NetDataBuffer (ipd n1))))"
    and "cells1 = take (recv_tmp n1) cells @ take got (db_items (NetDataBuffer (ipd n1))) @ drop (recv_tmp n1 + got) cells"
  shows "\<exists>b. Driver_Net_RecvSocket (Some cells) (int len) n =
      ((if recv_tmp n1 + got = len then 0 else 1), Some cells1,
       n1\<lparr>ipd := (ipd n1)\<lparr>NetDataBuffer := b\<rparr>, recv_tmp := (if recv_tmp n1 + got = len then 0 else recv_tmp n1 + got)\<rparr>) \<and>
    db_inv b \<and> db_items b = drop got (db_items (NetDataBuffer (ipd n1)))"
proof -
  let ?b = "NetDataBuffer (ipd n1)"
  let ?req = "min 255 (len - recv_tmp n1)"
  have u: "unat (of_nat ?req :: u8) = ?req" by (simp add: take_bit_nat_eq_self unsigned_of_nat)
  have nz: "(of_nat ?req :: u8) \<noteq> 0"
  proof
    assume "(of_nat ?req :: u8) = 0"
    then have "?req = 0" using u by simp
    then show False using assms(3) by simp
  qed
  obtain b where b: "Driver_Buffer_ReadBytes ?b (of_nat ?req) = (int got, take ?req (db_items ?b), b)"
    "db_inv b" "db_items b = drop ?req (db_items ?b)"
    using read_bytes_spec [OF assms(2) nz] unfolding u assms(4) by blast
  have t: "take ?req (db_items ?b) = take got (db_items ?b)" "drop ?req (db_items ?b) = drop got (db_items ?b)"
    unfolding assms(4) by (simp_all add: min_def)
  have lt: "length (take got (db_items ?b)) = got" unfolding assms(4) by simp
  have "Driver_Net_RecvSocket (Some cells) (int len) n =
      ((if recv_tmp n1 + got = len then 0 else 1), Some cells1,
       n1\<lparr>ipd := (ipd n1)\<lparr>NetDataBuffer := b\<rparr>, recv_tmp := (if recv_tmp n1 + got = len then 0 else recv_tmp n1 + got)\<rparr>)"
  proof (cases "len - recv_tmp n1 > 255")
    case True
    then have r: "?req = 255" by simp
    show ?thesis using True assms(3) b(1) lt t(1) unfolding Driver_Net_RecvSocket_def assms(1) [symmetric] Let_def r
      by (auto simp: assms(5))
  next
    case False
    then have r: "?req = len - recv_tmp n1" by simp
    show ?thesis using False assms(3) b(1) lt t(1) unfolding Driver_Net_RecvSocket_def assms(1) [symmetric] Let_def r
      by (auto simp: assms(5))
  qed
  then show ?thesis using b(2,3) t(2) by auto
qed


text \<open>A driver after its start, and two packets behind a line end.\<close>

definition net_start :: net_driver where
  "net_start =
     \<lparr>CMDRetBuffer = \<lparr>fifo = Some (replicate 128 0), pw = 0, pr = 0, buf_size = 128\<rparr>,
      xNetUartRxQueue = Some [], g_net_rx_isr_drop_count = 0,
      ipd = \<lparr>NetDataBuffer = \<lparr>fifo = Some (replicate 1024 0), pw = 0, pr = 0, buf_size = 1024\<rparr>,
             g_DataBuff = replicate 256 0, g_status = INIT_STATUS, g_DataBuffIndex = 0, g_DataLen = 0\<rparr>,
      recv_tmp = 0, net_line = []\<rparr>"

lemma net_start_facts:
  "xNetUartRxQueue net_start = Some []" "recv_tmp net_start = 0" "ipd_at INIT_STATUS [] (ipd net_start)"
  "db_inv (NetDataBuffer (ipd net_start))" "db_items (NetDataBuffer (ipd net_start)) = []" "db_cap (NetDataBuffer (ipd net_start)) = 1023"
  "db_inv (CMDRetBuffer net_start)" "db_items (CMDRetBuffer net_start) = []" "db_cap (CMDRetBuffer net_start) = 127"
  by (simp_all add: net_start_def ipd_at_def db_inv_def db_items_def db_cap_def ring_items_Nil)


text \<open>Two packets that are lost: one of exactly 256 bytes, because the ring takes the length in eight bits,
  and one that follows a start mark which begins no packet.\<close>

lemma packet_of_256_lost:
  assumes "ipd_at INIT_STATUS [] p" "length d = 256"
  shows "ipd_at INIT_STATUS [] (fold NetDataProcess_Callback (ipd_packet d) p) \<and>
    NetDataBuffer (fold NetDataProcess_Callback (ipd_packet d) p) = NetDataBuffer p"
proof -
  have "d \<noteq> []" using assms(2) by auto
  then show ?thesis
    using ipd_packet_received [OF assms(1)] assms(2) by (simp add: Driver_Buffer_WriteBytes_def)
qed

lemma ipd_not_tag:
  assumes "ipd_at INIT_STATUS xs p" "length xs = 4" "hd xs = 43" "xs @ [c] \<noteq> text_bytes ''+IPD,''"
  shows "ipd_at INIT_STATUS [] (NetDataProcess_Callback c p) \<and> NetDataBuffer (NetDataProcess_Callback c p) = NetDataBuffer p"
  using assms collected [OF assms(1), of c] by (cases xs) (auto simp add: ipd_at_def NetDataProcess_Callback_def Let_def)

lemma packet_after_mark_lost:
  assumes "ipd_at INIT_STATUS [] p" "43 \<notin> set d"
  shows "ipd_at INIT_STATUS [] (fold NetDataProcess_Callback ([43] @ ipd_packet d) p) \<and>
    NetDataBuffer (fold NetDataProcess_Callback ([43] @ ipd_packet d) p) = NetDataBuffer p"
proof -
  let ?f = "fold NetDataProcess_Callback"
  obtain p1 where p1: "p1 = ?f [43, 43, 73, 80] p" "ipd_at INIT_STATUS [43, 43, 73, 80] p1" "NetDataBuffer p1 = NetDataBuffer p"
    using ipd_inits [OF assms(1), of "[43, 43, 73, 80]"] by auto
  obtain p2 where p2: "p2 = NetDataProcess_Callback 68 p1" "ipd_at INIT_STATUS [] p2" "NetDataBuffer p2 = NetDataBuffer p"
    using ipd_not_tag [OF p1(2), of 68] p1(3) by (auto simp: text_bytes_def)
  let ?rest = "[44] @ text_bytes (decimal (length d)) @ [58] @ d"
  have "43 \<notin> set ?rest" using assms(2) decimal_digits digit_not_colon by auto
  note r = ipd_noises [OF p2(2) this]
  have "[43] @ ipd_packet d = [43, 43, 73, 80] @ [68] @ ?rest" by (simp add: ipd_packet_def text_bytes_def)
  then have "?f ([43] @ ipd_packet d) p = ?f ?rest p2" by (simp only: fold_append comp_apply p1(1) p2(1)) simp
  then show ?thesis using r p2(3) by simp
qed

section \<open>Waiting for an answer\<close>

lemma arrive_queue:
  "xNetUartRxQueue n = Some q \<Longrightarrow> \<exists>ds. xNetUartRxQueue (arrive bs n) = Some (q @ ds) \<and> length ds \<le> length bs \<and>
     CMDRetBuffer (arrive bs n) = CMDRetBuffer n \<and> net_line (arrive bs n) = net_line n"
proof (induction bs arbitrary: n q)
  case (Cons b bs)
  let ?n = "BOARD_NET_UART_IRQ_HANDLER b n"
  have n: "CMDRetBuffer ?n = CMDRetBuffer n" "net_line ?n = net_line n"
    by (simp_all add: BOARD_NET_UART_IRQ_HANDLER_def split: option.split)
  have a: "arrive (b # bs) n = arrive bs ?n" by (simp add: arrive_def)
  show ?case
  proof (cases "length q < 256")
    case True
    then have "xNetUartRxQueue ?n = Some (q @ [b])" using Cons.prems by (simp add: BOARD_NET_UART_IRQ_HANDLER_def)
    then show ?thesis unfolding a using Cons.IH [of ?n] n by fastforce
  next
    case False
    then have "xNetUartRxQueue ?n = Some q" using Cons.prems by (simp add: BOARD_NET_UART_IRQ_HANDLER_def)
    then show ?thesis unfolding a using Cons.IH [of ?n] n by fastforce
  qed
qed (simp add: arrive_def)

text \<open>One turn: what arrived is pumped, and a byte of the answer is taken when there is one.\<close>

lemma at_turn:
  assumes "xNetUartRxQueue n = Some q" "db_inv (CMDRetBuffer n)" "n1 = Driver_Net_PumpRxQueue (arrive bs n)"
  shows "xNetUartRxQueue n1 = Some [] \<and> db_inv (CMDRetBuffer n1) \<and> db_cap (CMDRetBuffer n1) = db_cap (CMDRetBuffer n) \<and>
    net_line n1 = net_line n \<and>
    length (db_items (CMDRetBuffer n1)) \<le> length (db_items (CMDRetBuffer n)) + length q + length bs \<and>
    (length (db_items (CMDRetBuffer n) @ q @ bs) \<le> db_cap (CMDRetBuffer n) \<longrightarrow> length q + length bs \<le> 256 \<longrightarrow>
       db_items (CMDRetBuffer n1) = db_items (CMDRetBuffer n) @ q @ bs)"
proof -
  obtain ds where ds: "xNetUartRxQueue (arrive bs n) = Some (q @ ds)" "length ds \<le> length bs"
    "CMDRetBuffer (arrive bs n) = CMDRetBuffer n" "net_line (arrive bs n) = net_line n"
    using arrive_queue [OF assms(1)] by blast
  have n1: "xNetUartRxQueue n1 = Some []" "CMDRetBuffer n1 = db.pushes (q @ ds) (CMDRetBuffer n)" "net_line n1 = net_line n"
    unfolding assms(3) pump_queue [OF ds(1)] using ds(3,4) by simp_all
  have all: "length q + length bs \<le> 256 \<Longrightarrow> ds = bs" using arrive_room [OF assms(1)] ds(1) by auto
  have it: "db_items (CMDRetBuffer n1) = take (db_cap (CMDRetBuffer n)) (db_items (CMDRetBuffer n) @ q @ ds)"
    using db.pushes_keep_oldest [OF assms(2), of "q @ ds"] n1(2) by simp
  have "length (db_items (CMDRetBuffer n1)) \<le> length (db_items (CMDRetBuffer n) @ q @ ds)" unfolding it by (simp only: length_take)
  moreover have "db_items (CMDRetBuffer n1) = db_items (CMDRetBuffer n) @ q @ bs"
    if "length (db_items (CMDRetBuffer n) @ q @ bs) \<le> db_cap (CMDRetBuffer n)" "length q + length bs \<le> 256"
    unfolding it all [OF that(2)] using that(1) by (rule take_all)
  ultimately show ?thesis
    using n1 db.pushes_invar [OF assms(2), of "q @ ds"] ds(2) by auto
qed

lemma db_read_cases:
  assumes "db_inv b"
  shows "(db_items b = [] \<and> Driver_Buffer_Read b = (-1, None, b)) \<or>
    (\<exists>x xs b'. db_items b = x # xs \<and> Driver_Buffer_Read b = (0, Some x, b') \<and> db_inv b' \<and> db_items b' = xs \<and> db_cap b' = db_cap b)"
  using db_read_empty [OF assms] db_read_front [OF assms] by (cases "db_items b") (fastforce simp: db_cap_def)+

lemma at_wait_returns:
  "xNetUartRxQueue n = Some q \<Longrightarrow> db_inv (CMDRetBuffer n) \<Longrightarrow> 0 \<le> timeout \<Longrightarrow>
     nat timeout + length (db_items (CMDRetBuffer n)) + length q + length (concat sched) \<le> length sched \<Longrightarrow>
     fst (at_wait reply buf i timeout sched n) \<noteq> None"
proof (induction sched arbitrary: n q buf i timeout)
  case (Cons bs sched)
  show ?case
  proof (cases "timeout = 0")
    case False
    let ?n1 = "Driver_Net_PumpRxQueue (arrive bs n)"
    note t = at_turn [OF Cons.prems(1,2) refl, of bs]
    have i: "db_inv (CMDRetBuffer ?n1)" using t by blast
    from db_read_cases [OF i] show ?thesis
    proof (elim disjE conjE exE)
      assume "db_items (CMDRetBuffer ?n1) = []" "Driver_Buffer_Read (CMDRetBuffer ?n1) = (-1, None, CMDRetBuffer ?n1)"
      then show ?thesis using False t Cons.prems by (simp add: Let_def Cons.IH)
    next
      fix x xs b' assume b: "db_items (CMDRetBuffer ?n1) = x # xs" "Driver_Buffer_Read (CMDRetBuffer ?n1) = (0, Some x, b')"
        "db_inv b'" "db_items b' = xs"
      have "fst (at_wait reply buf' i' timeout sched (?n1\<lparr>CMDRetBuffer := b'\<rparr>)) \<noteq> None" for buf' i'
        by (rule Cons.IH [where q = "[]"]) (use t Cons.prems b in simp_all)
      then show ?thesis using False b by (simp add: Let_def)
    qed
  qed simp
qed simp

lemma cstr_filled: "0 \<notin> set seen \<Longrightarrow> 0 < k \<Longrightarrow> cstr (seen @ replicate k 0) = seen"
  by (cases k) (auto simp: cstr_def takeWhile_append)

lemma strstr_found: "prefix (a @ reply) s \<Longrightarrow> strstr s reply \<noteq> None"
  unfolding strstr_sublist sublist_def prefix_def by auto

lemma at_wait_byte:
  assumes "timeout \<noteq> 0" "n1 = Driver_Net_PumpRxQueue (arrive bs n)" "Driver_Buffer_Read (CMDRetBuffer n1) = (0, Some x, b)"
    and "buf[i := x] = buf1" "0 \<in> set buf1" "(i + 1) mod length buf = j"
  shows "at_wait reply buf i timeout (bs # sched) n =
    (if strstr (cstr buf1) reply \<noteq> None then (Some (At_code 0), sched, n1\<lparr>CMDRetBuffer := b\<rparr>)
     else at_wait reply buf1 j timeout sched (n1\<lparr>CMDRetBuffer := b\<rparr>))"
  using assms by (auto simp: Let_def)

text \<open>The answer is collected byte by byte; \<open>seen\<close> is what the buffer holds, \<open>k\<close> the turns by which the
  reply has arrived.\<close>

lemma at_wait_recognises:
  assumes "xNetUartRxQueue n = Some q" "db_inv (CMDRetBuffer n)" "reply \<noteq> []"
    and "length (seen @ db_items (CMDRetBuffer n) @ q @ concat sched) < sz" "sz \<le> 128" "db_cap (CMDRetBuffer n) = 127"
    and "0 \<notin> set (seen @ db_items (CMDRetBuffer n) @ q @ concat sched)" "strstr seen reply = None"
    and "prefix (a @ reply) (seen @ db_items (CMDRetBuffer n) @ q @ concat (take k sched))"
    and "int k < timeout" "k + length (a @ reply) \<le> length sched + length seen"
  shows "\<exists>s n'. at_wait reply (seen @ replicate (sz - length seen) 0) (length seen) timeout sched n = (Some (At_code 0), s, n') \<and>
    net_line n' = net_line n"
  using assms
proof (induction sched arbitrary: n q seen k timeout)
  case Nil
  have "prefix (a @ reply) (seen @ db_items (CMDRetBuffer n) @ q)" "length (a @ reply) \<le> length seen"
    using Nil.prems(9,11) by simp_all
  then have "prefix (a @ reply) seen" by (rule prefix_length_prefix [OF _ prefixI [OF refl]])
  then show ?case using strstr_found Nil.prems(8) by blast
next
  case (Cons bs sched)
  let ?it = "db_items (CMDRetBuffer n)"
  let ?n1 = "Driver_Net_PumpRxQueue (arrive bs n)"
  let ?buf = "seen @ replicate (sz - length seen) 0"
  have len: "length ?buf = sz" "length seen < sz" using Cons.prems(4) by simp_all
  have n1: "xNetUartRxQueue ?n1 = Some []" "db_inv (CMDRetBuffer ?n1)" "db_cap (CMDRetBuffer ?n1) = 127" "net_line ?n1 = net_line n"
    "db_items (CMDRetBuffer ?n1) = ?it @ q @ bs"
    using at_turn [OF Cons.prems(1,2) refl, of bs] Cons.prems(4,5,6) by simp_all
  have pre: "prefix (a @ reply) (seen @ (?it @ q @ bs) @ concat (take (k - 1) sched))"
  proof (cases k)
    case 0
    then have "prefix (a @ reply) (seen @ ?it @ q)" using Cons.prems(9) by simp
    then show ?thesis using prefix_prefix [of "a @ reply" "seen @ ?it @ q" "bs @ concat (take (k - 1) sched)"] by simp
  next
    case (Suc k')
    then show ?thesis using Cons.prems(9) by simp
  qed
  have kk: "int (k - 1) < timeout" using Cons.prems(10) by simp
  have t0: "timeout \<noteq> 0" using Cons.prems(10) by simp
  from db_read_cases [OF n1(2)] show ?case
  proof (elim disjE conjE exE)
    assume e: "db_items (CMDRetBuffer ?n1) = []" "Driver_Buffer_Read (CMDRetBuffer ?n1) = (-1, None, CMDRetBuffer ?n1)"
    then have nil: "?it = []" "q = []" "bs = []" using n1(5) by simp_all
    have "k \<noteq> 0"
    proof
      assume "k = 0"
      then have "prefix (a @ reply) seen" using Cons.prems(9) nil by simp
      then show False using strstr_found Cons.prems(8) by blast
    qed
    then have "int (k - 1) < timeout - 1" "k - 1 + length (a @ reply) \<le> length sched + length seen"
      using Cons.prems(10,11) by simp_all
    then obtain s n' where "at_wait reply ?buf (length seen) (timeout - 1) sched ?n1 = (Some (At_code 0), s, n')" "net_line n' = net_line ?n1"
      using Cons.IH [OF n1(1,2) assms(3) _ Cons.prems(5) n1(3) _ Cons.prems(8), of "k - 1" "timeout - 1"] Cons.prems(4,7) pre n1(5) nil by auto
    then show ?thesis using e t0 n1(4) by (simp add: Let_def)
  next
    fix x xs b assume b: "db_items (CMDRetBuffer ?n1) = x # xs" "Driver_Buffer_Read (CMDRetBuffer ?n1) = (0, Some x, b)"
      "db_inv b" "db_items b = xs" "db_cap b = db_cap (CMDRetBuffer ?n1)"
    let ?n2 = "?n1\<lparr>CMDRetBuffer := b\<rparr>"
    have xs: "?it @ q @ bs = x # xs" using b(1) n1(5) by simp
    have l: "length (seen @ x # xs @ concat sched) < sz" using Cons.prems(4) arg_cong [OF xs, of length] by simp
    have z: "0 \<notin> set (seen @ x # xs @ concat sched)" using Cons.prems(7) arg_cong [OF xs, of set] by auto
    have buf1: "?buf[length seen := x] = (seen @ [x]) @ replicate (sz - length (seen @ [x])) 0"
      using len(2) by (simp add: list_update_append Suc_diff_Suc [symmetric])
    have l1: "0 < sz - length (seen @ [x])" using l by simp
    let ?buf1 = "(seen @ [x]) @ replicate (sz - length (seen @ [x])) 0"
    have c: "cstr ?buf1 = seen @ [x]" by (rule cstr_filled [OF _ l1]) (use z in auto)
    have c0: "0 \<in> set ?buf1" using l1 by simp
    have m: "(length seen + 1) mod length ?buf = length (seen @ [x])" unfolding len(1) using l by simp
    note step = at_wait_byte [OF t0 refl b(2) buf1 c0 m, of reply sched, unfolded c]
    show ?thesis
    proof (cases "strstr (seen @ [x]) reply = None")
      case False
      then show ?thesis unfolding step using n1(4) by simp
    next
      case True
      have "k - 1 + length (a @ reply) \<le> length sched + length (seen @ [x])" using Cons.prems(11) by simp
      then obtain s n' where "at_wait reply ((seen @ [x]) @ replicate (sz - length (seen @ [x])) 0) (length (seen @ [x])) timeout sched ?n2 =
          (Some (At_code 0), s, n')" "net_line n' = net_line ?n2"
        using Cons.IH [of ?n2 "[]" "seen @ [x]" "k - 1" timeout] n1(1,3) b(3,4,5) assms(3) l z Cons.prems(5) True pre kk xs by auto
      then show ?thesis unfolding step using True n1(4) by simp
    qed
  qed
qed

text \<open>C36: an answer of the module is recognised. A command is sent as one line, and when the answer, of at
  most 127 bytes without a zero and counting what still waits in the queue, contains the reply by
  the turn \<open>k\<close>, before the time is over, the wait ends with success.\<close>

theorem reply_recognised:
  assumes "xNetUartRxQueue n = Some q" "db_inv (CMDRetBuffer n)" "db_cap (CMDRetBuffer n) = 127" "reply \<noteq> []"
    and "length (q @ concat sched) \<le> 127" "0 \<notin> set (q @ concat sched)"
    and "prefix (a @ reply) (q @ concat (take k sched))" "k < unat timeout" "k + length (a @ reply) \<le> length sched"
  shows "\<exists>s n'. Driver_Net_TransmitCmd cmd reply timeout sched n = (Some (At_code 0), s, n') \<and> net_line n' = net_line n @ at_line cmd"
proof -
  obtain b where b: "Driver_Buffer_Clean (CMDRetBuffer n) = (0, b)" "db_inv b" "db_items b = []" "db_cap b = 127"
    using db_clean [OF assms(2)] assms(3) by auto
  let ?n = "net_transmit (at_line cmd) (n\<lparr>CMDRetBuffer := b\<rparr>)"
  have f: "xNetUartRxQueue ?n = Some q" "db_inv (CMDRetBuffer ?n)" "db_items (CMDRetBuffer ?n) = []" "db_cap (CMDRetBuffer ?n) = 127"
    "net_line ?n = net_line n @ at_line cmd"
    using assms(1) b by (simp_all add: net_transmit_def)
  have none: "strstr [] reply = None" using assms(4) by simp
  have k: "int k < uint timeout" unfolding uint_nat using assms(8) by (simp only: of_nat_less_iff)
  have p: "length ([] @ db_items (CMDRetBuffer ?n) @ q @ concat sched) < 128" "0 \<notin> set ([] @ db_items (CMDRetBuffer ?n) @ q @ concat sched)"
    "prefix (a @ reply) ([] @ db_items (CMDRetBuffer ?n) @ q @ concat (take k sched))"
    unfolding f(3) append_Nil using assms(5-7) by simp_all
  have "k + length (a @ reply) \<le> length sched + length ([] :: u8 list)" "(128 :: nat) \<le> 128" using assms(9) by simp_all
  note r = at_wait_recognises [OF f(1,2) assms(4) p(1) this(2) f(4) p(2) none p(3) k this(1)]
  show ?thesis
    using r unfolding Driver_Net_TransmitCmd_def b(1) snd_conv f(5) append_Nil list.size(3) diff_zero .
qed

text \<open>A module that is asked for its mode and answers after three silent turns, in two pieces.\<close>

theorem reply_recognised_witness:
  "\<exists>s n'. Driver_Net_TransmitCmd (text_bytes ''AT'') (text_bytes ''OK'' @ CRLF) 500
     ([[], [], [], text_bytes ''AT'' @ CRLF @ text_bytes ''O'', text_bytes ''K'' @ CRLF] @ replicate 20 []) net_start =
       (Some (At_code 0), s, n') \<and> net_line n' = text_bytes ''AT'' @ CRLF"
proof -
  have l: "at_line (text_bytes ''AT'') = text_bytes ''AT'' @ CRLF"
    by (simp add: at_line_def snprintf_def CRLF_def text_bytes_def)
  have "net_line net_start = []" by (simp add: net_start_def)
  moreover have "prefix ((text_bytes ''AT'' @ CRLF) @ (text_bytes ''OK'' @ CRLF))
      ([] @ concat (take 5 ([[], [], [], text_bytes ''AT'' @ CRLF @ text_bytes ''O'', text_bytes ''K'' @ CRLF] @ replicate 20 [])))"
    by (simp add: text_bytes_def CRLF_def)
  ultimately show ?thesis
    using reply_recognised [OF net_start_facts(1,7,9), of "text_bytes ''OK'' @ CRLF"
        "[[], [], [], text_bytes ''AT'' @ CRLF @ text_bytes ''O'', text_bytes ''K'' @ CRLF] @ replicate 20 []"
        "text_bytes ''AT'' @ CRLF" 5 500 "text_bytes ''AT''"]
    unfolding l by (simp add: text_bytes_def CRLF_def)
qed

text \<open>Every command comes back. Whatever arrives, and whatever answer is expected, the wait has ended
  after as many turns as its time allows and bytes have arrived.\<close>

theorem command_returns:
  assumes "xNetUartRxQueue n = Some q" "db_inv (CMDRetBuffer n)" "unat timeout + length q + length (concat sched) \<le> length sched"
  shows "fst (Driver_Net_TransmitCmd cmd reply timeout sched n) \<noteq> None"
proof -
  obtain b where b: "Driver_Buffer_Clean (CMDRetBuffer n) = (0, b)" "db_inv b" "db_items b = []"
    using db_clean [OF assms(2)] by auto
  show ?thesis
    unfolding Driver_Net_TransmitCmd_def
    by (rule at_wait_returns [where q = q]) (use assms b in \<open>simp_all add: net_transmit_def\<close>)
qed

theorem command_returns_witness:
  "fst (Driver_Net_TransmitCmd (text_bytes ''AT+CWQAP'') (text_bytes ''OK'' @ CRLF) 3 [[1], [], [2], [], [], []] net_start) \<noteq> None"
  by (rule command_returns [OF net_start_facts(1,7)]) simp

text \<open>An answer that fills the buffer without the reply and without a zero is searched beyond its end.\<close>

lemma long_answer_overreads:
  assumes "xNetUartRxQueue n = Some q" "db_inv (CMDRetBuffer n)" "db_items (CMDRetBuffer n) = x # xs" "x \<noteq> 0" "0 \<notin> set seen" "timeout \<noteq> 0"
    and "length (db_items (CMDRetBuffer n) @ q) \<le> db_cap (CMDRetBuffer n)" "length q \<le> 256"
  shows "fst (at_wait reply (seen @ [0]) (length seen) timeout ([] # sched) n) = Some At_overread"
proof -
  let ?n1 = "Driver_Net_PumpRxQueue (arrive [] n)"
  have t: "db_inv (CMDRetBuffer ?n1)" "db_items (CMDRetBuffer ?n1) = x # xs @ q"
    using at_turn [OF assms(1,2) refl, of "[]"] assms(3,7,8) by simp_all
  obtain b where "Driver_Buffer_Read (CMDRetBuffer ?n1) = (0, Some x, b)" using db_read_front [OF t] by blast
  moreover have "0 \<notin> set ((seen @ [0])[length seen := x])" using assms(4,5) by (simp add: list_update_append)
  ultimately show ?thesis using assms(6) by (simp add: Let_def)
qed

text \<open>The line that announces a block of a hundred bytes or more is cut: its end mark is lost.\<close>

lemma cipsend_cut:
  assumes "100 \<le> unat len"
  shows "\<not> suffix CRLF (cipsend_line len)"
proof
  let ?d = "text_bytes (decimal (unat len))"
  let ?t = "text_bytes ''AT+CIPSEND='' @ ?d"
  assume "suffix CRLF (cipsend_line len)"
  then have l: "last (cipsend_line len) = 10" by (auto simp: suffix_def CRLF_def)
  have "length (decimal (unat len)) \<ge> 3"
    using assms by (simp add: decimal.simps [of "unat len"] decimal.simps [of "unat len div 10"] Suc_le_eq)
  then have d: "length ?d \<ge> 3" by simp
  have c: "cipsend_line len = take 15 (?t @ CRLF)"
    unfolding text_bytes_append [symmetric] by (simp only: cipsend_line_def snprintf_def) simp
  show False
  proof (cases "length ?d = 3")
    case True
    then show False using l unfolding c by (simp add: CRLF_def)
  next
    case False
    then have k: "length ?d > 3" using d by simp
    then have "?d \<noteq> []" by (metis list.size(3) not_less_zero)
    then have "last (take 15 (?t @ CRLF)) = ?d ! 3" using k by (simp add: last_append last_conv_nth)
    moreover have "is_digit (?d ! 3)" using decimal_digits nth_mem [OF k] by blast
    ultimately show False using l unfolding c by (simp add: is_digit_def)
  qed
qed

section \<open>Reading while more arrives\<close>

text \<open>Whatever byte comes next, the decoder only adds to the bytes that wait.\<close>

definition ipd_ok :: "ipd_parser \<Rightarrow> bool" where
  "ipd_ok p \<longleftrightarrow> db_inv (NetDataBuffer p) \<and> length (g_DataBuff p) = 256"

lemma write_bytes_extends:
  assumes "db_inv b" "unat len \<le> length ds"
  shows "db_inv (snd (Driver_Buffer_WriteBytes b (Some ds) len)) \<and>
    prefix (db_items b) (db_items (snd (Driver_Buffer_WriteBytes b (Some ds) len)))"
proof (cases "len = 0")
  case False
  have "length (take (unat len) ds) = unat len" using assms(2) by simp
  then obtain b1 where "Driver_Buffer_WriteBytes b (Some (take (unat len) ds)) len = b1" "db_inv (snd b1)" "prefix (db_items b) (db_items (snd b1))"
    using write_bytes_spec [OF assms(1) False, of "take (unat len) ds"] by auto
  then show ?thesis by (subst (1 2) write_bytes_take) simp
qed (use assms(1) in \<open>simp add: Driver_Buffer_WriteBytes_def\<close>)

lemma ipd_extends:
  assumes "ipd_ok p"
  shows "ipd_ok (NetDataProcess_Callback c p) \<and> prefix (db_items (NetDataBuffer p)) (db_items (NetDataBuffer (NetDataProcess_Callback c p)))"
proof -
  have u: "unat (of_nat n :: u8) \<le> 256" for n using unsigned_less [of "of_nat n :: u8", where ?'a = nat] by simp
  show ?thesis
    using assms write_bytes_extends [of "NetDataBuffer p"] u
    by (auto simp: ipd_ok_def NetDataProcess_Callback_def Let_def split: at_status.splits option.splits)
qed

lemma ipd_fold_extends:
  "ipd_ok p \<Longrightarrow> ipd_ok (fold NetDataProcess_Callback cs p) \<and>
     prefix (db_items (NetDataBuffer p)) (db_items (NetDataBuffer (fold NetDataProcess_Callback cs p)))"
proof (induction cs arbitrary: p)
  case (Cons c cs)
  then show ?case using ipd_extends [OF Cons.prems, of c] Cons.IH [of "NetDataProcess_Callback c p"] by (auto intro: prefix_order.trans)
qed simp

lemma arrive_keeps:
  "xNetUartRxQueue n \<noteq> None \<Longrightarrow> ipd (arrive bs n) = ipd n \<and> recv_tmp (arrive bs n) = recv_tmp n \<and> xNetUartRxQueue (arrive bs n) \<noteq> None"
  unfolding arrive_def
  by (induction bs arbitrary: n) (auto simp: BOARD_NET_UART_IRQ_HANDLER_def split: option.splits)

text \<open>A read of fewer than 256 bytes that wait, at the start of a read, whatever arrives meanwhile.\<close>

definition net_ready :: "net_driver \<Rightarrow> bool" where
  "net_ready n \<longleftrightarrow> ipd_ok (ipd n) \<and> recv_tmp n = 0 \<and> xNetUartRxQueue n \<noteq> None"

definition net_waiting :: "net_driver \<Rightarrow> u8 list" where
  "net_waiting n = db_items (NetDataBuffer (ipd n))"

lemma recv_waiting:
  assumes "net_ready n" "0 < k" "k < 256" "k \<le> length (net_waiting n)" "length cells = k"
  shows "\<exists>n1 more. Driver_Net_RecvSocket (Some cells) (int k) (arrive bs n) = (0, Some (take k (net_waiting n)), n1) \<and>
    net_ready n1 \<and> net_waiting n1 = drop k (net_waiting n) @ more"
proof -
  let ?n = "arrive bs n"
  let ?n1 = "Driver_Net_PumpRxQueue ?n"
  have a: "ipd ?n = ipd n" "recv_tmp ?n = 0" "xNetUartRxQueue ?n \<noteq> None"
    using arrive_keeps [of n bs] assms(1) by (auto simp: net_ready_def)
  then obtain q where q: "xNetUartRxQueue ?n = Some q" by blast
  have p: "ipd_ok (ipd ?n1)" "prefix (net_waiting n) (db_items (NetDataBuffer (ipd ?n1)))" "recv_tmp ?n1 = 0" "xNetUartRxQueue ?n1 \<noteq> None"
    using ipd_fold_extends [of "ipd n" q] assms(1) a(1,2) unfolding pump_queue [OF q] by (simp_all add: net_ready_def net_waiting_def)
  then obtain more where m: "db_items (NetDataBuffer (ipd ?n1)) = net_waiting n @ more" by (auto simp: prefix_def)
  have g: "k = min (min 255 (k - recv_tmp ?n1)) (length (db_items (NetDataBuffer (ipd ?n1))))" using assms(3,4) p(3) m by simp
  have inv: "db_inv (NetDataBuffer (ipd ?n1))" using p(1) by (simp add: ipd_ok_def)
  obtain b where b: "Driver_Net_RecvSocket (Some cells) (int k) ?n =
      (0, Some (take k (net_waiting n)), ?n1\<lparr>ipd := (ipd ?n1)\<lparr>NetDataBuffer := b\<rparr>, recv_tmp := 0\<rparr>)"
      "db_inv b" "db_items b = drop k (net_waiting n) @ more"
    using recv_socket [OF refl inv _ g refl, of cells] p(3) assms(2,4,5) m by auto
  then show ?thesis using p(1,4) by (auto simp: net_ready_def net_waiting_def ipd_ok_def)
qed

end
