(* ===== verification/Fault_Diag.thy ===== *)
theory Fault_Diag
  imports C_Strings Checksum Storage_Log Watchdog
begin

text \<open>
  The recorder of crashes (\<open>8_Core/fault_diag.c\<close>): the hard fault handler stores what the processor has
  stacked and its fault registers in memory that the start-up code leaves alone, protects them with
  a CRC, marks the fault in the backup registers and resets; the next start reports it to the storage
  task. The stack frame and the fault registers are arguments, and so is what the retained memory
  holds at the start.
\<close>

section \<open>State\<close>

record fault_snapshot =
  fs_magic :: u32
  stacked_r0 :: u32
  stacked_r1 :: u32
  stacked_r2 :: u32
  stacked_r3 :: u32
  stacked_r12 :: u32
  stacked_lr :: u32
  stacked_pc :: u32
  stacked_xpsr :: u32
  fs_exc_lr :: u32
  fs_cfsr :: u32
  fs_hfsr :: u32
  fs_dfsr :: u32
  fs_afsr :: u32
  fs_mmfar :: u32
  fs_bfar :: u32
  fs_tick :: u32
  fs_crc32 :: u32

text \<open>The words of the structure as they lie in memory.\<close>

definition snapshot_words :: "fault_snapshot \<Rightarrow> u32 list" where
  "snapshot_words s =
     [fs_magic s, stacked_r0 s, stacked_r1 s, stacked_r2 s, stacked_r3 s, stacked_r12 s, stacked_lr s, stacked_pc s,
      stacked_xpsr s, fs_exc_lr s, fs_cfsr s, fs_hfsr s, fs_dfsr s, fs_afsr s, fs_mmfar s, fs_bfar s, fs_tick s, fs_crc32 s]"

definition snapshot_bytes :: "fault_snapshot \<Rightarrow> u8 list" where
  "snapshot_bytes s = concat (map le32 (snapshot_words s))"

text \<open>The fault registers of the system control block.\<close>

record scb_regs =
  CFSR :: u32
  HFSR :: u32
  DFSR :: u32
  AFSR :: u32
  MMFAR :: u32
  BFAR :: u32

definition FAULT_MAGIC :: u32 where "FAULT_MAGIC = 0x464C5448"

definition BKP_IDX_BOOT_COUNT :: nat where "BKP_IDX_BOOT_COUNT = 1"
definition BKP_IDX_LAST_RESET :: nat where "BKP_IDX_LAST_RESET = 2"
definition BKP_IDX_FAULT_PENDING :: nat where "BKP_IDX_FAULT_PENDING = 3"
definition BKP_IDX_LAST_FAULT_CODE :: nat where "BKP_IDX_LAST_FAULT_CODE = 4"
definition BKP_IDX_FAULT_PC :: nat where "BKP_IDX_FAULT_PC = 7"
definition BKP_IDX_FAULT_LR :: nat where "BKP_IDX_FAULT_LR = 8"
definition BKP_IDX_FAULT_CFSR :: nat where "BKP_IDX_FAULT_CFSR = 9"
definition BKP_IDX_FAULT_HFSR :: nat where "BKP_IDX_FAULT_HFSR = 10"

lemmas bkp_idx = BKP_IDX_BOOT_COUNT_def BKP_IDX_LAST_RESET_def BKP_IDX_FAULT_PENDING_def BKP_IDX_LAST_FAULT_CODE_def
  BKP_IDX_LAST_DEAD_TASK_def BKP_IDX_SW_RESET_SRC_def BKP_IDX_FAULT_PC_def BKP_IDX_FAULT_LR_def BKP_IDX_FAULT_CFSR_def
  BKP_IDX_FAULT_HFSR_def

section \<open>Capturing a fault\<close>

text \<open>Eight digits, the upper four bits first; the same digits as \<open>%08lX\<close>.\<close>

definition hex_digits :: "u32 \<Rightarrow> string" where
  "hex_digits v = map (\<lambda>i. ''0123456789ABCDEF'' ! unat (drop_bit (4 * i) v AND 15)) [7, 6, 5, 4, 3, 2, 1, 0]"

definition fault_uart_hex32 :: "u32 \<Rightarrow> u8 list" where
  "fault_uart_hex32 v = text_bytes ''0x'' @ text_bytes (hex_digits v)"

definition panic_line :: "fault_snapshot \<Rightarrow> u8 list" where
  "panic_line s = [13, 10] @ text_bytes ''[FAULT][PANIC] hardfault pc='' @ fault_uart_hex32 (stacked_pc s) @
     text_bytes '' lr='' @ fault_uart_hex32 (stacked_lr s) @ text_bytes '' cfsr='' @ fault_uart_hex32 (fs_cfsr s) @
     text_bytes '' hfsr='' @ fault_uart_hex32 (fs_hfsr s) @ [13, 10]"

text \<open>The results are the snapshot, the backup registers and what is sent on the line; then the device
  resets. The wait for the line before each character is bounded and its outcome does not matter.\<close>

definition FaultDiag_HardFaultCapture :: "u32 list \<Rightarrow> u32 \<Rightarrow> scb_regs \<Rightarrow> u32 list \<Rightarrow> fault_snapshot \<times> u32 list \<times> u8 list" where
  "FaultDiag_HardFaultCapture stack exc_lr scb regs =
     (let s0 = \<lparr>fs_magic = FAULT_MAGIC, stacked_r0 = stack ! 0, stacked_r1 = stack ! 1, stacked_r2 = stack ! 2,
                stacked_r3 = stack ! 3, stacked_r12 = stack ! 4, stacked_lr = stack ! 5, stacked_pc = stack ! 6,
                stacked_xpsr = stack ! 7, fs_exc_lr = exc_lr, fs_cfsr = CFSR scb, fs_hfsr = HFSR scb, fs_dfsr = DFSR scb,
                fs_afsr = AFSR scb, fs_mmfar = MMFAR scb, fs_bfar = BFAR scb, fs_tick = 0, fs_crc32 = 0\<rparr>;
          s = s0\<lparr>fs_crc32 := fault_crc32 (snapshot_bytes s0)\<rparr>;
          r1 = PlatformBackup_Write BKP_IDX_FAULT_PENDING 1 regs;
          r2 = PlatformBackup_Write BKP_IDX_LAST_FAULT_CODE (fs_cfsr s) r1;
          r3 = PlatformBackup_Write BKP_IDX_FAULT_PC (stacked_pc s) r2;
          r4 = PlatformBackup_Write BKP_IDX_FAULT_LR (stacked_lr s) r3;
          r5 = PlatformBackup_Write BKP_IDX_FAULT_CFSR (fs_cfsr s) r4;
          r6 = PlatformBackup_Write BKP_IDX_FAULT_HFSR (fs_hfsr s) r5;
          r7 = PlatformBackup_Write BKP_IDX_SW_RESET_SRC 2 r6
      in (s, r7, panic_line s))"

section \<open>Reporting at the next start\<close>

definition dead_task_name :: "u32 \<Rightarrow> string" where
  "dead_task_name i =
     (if i = 0 then ''gateway'' else if i = 1 then ''sensor'' else if i = 2 then ''alarm'' else if i = 3 then ''storage''
      else if i = 4 then ''display'' else if i = 5 then ''key'' else if i = 6 then ''led'' else ''unknown'')"

definition fault_text :: "fault_snapshot \<Rightarrow> string" where
  "fault_text s = ''fault type=hardfault pc=0x'' @ hex_digits (stacked_pc s) @ '' lr=0x'' @ hex_digits (stacked_lr s) @
     '' cfsr=0x'' @ hex_digits (fs_cfsr s)"

definition snapshot_valid :: "fault_snapshot \<Rightarrow> bool" where
  "snapshot_valid s \<longleftrightarrow> fs_magic s = FAULT_MAGIC \<and> fs_crc32 s = fault_crc32 (snapshot_bytes (s\<lparr>fs_crc32 := 0\<rparr>))"

definition FaultDiag_InitAtBoot :: "u32 \<Rightarrow> fault_snapshot \<Rightarrow> u32 list \<Rightarrow> storage_msg list \<Rightarrow> u32 list \<times> storage_msg list" where
  "FaultDiag_InitAtBoot csr snap regs q =
     (let reason = PlatformBackup_DetectAndClearResetReason csr;
          boot_count = PlatformBackup_Read BKP_IDX_BOOT_COUNT regs + 1;
          r1 = PlatformBackup_Write BKP_IDX_BOOT_COUNT boot_count regs;
          r2 = PlatformBackup_Write BKP_IDX_LAST_RESET (boot_reason_code reason) r1;
          dead_task = PlatformBackup_Read BKP_IDX_LAST_DEAD_TASK r2;
          r3 = (if reason = BOOT_REASON_SOFTWARE then PlatformBackup_Write BKP_IDX_SW_RESET_SRC 0 r2 else r2);
          q1 = (if reason = BOOT_REASON_IWDG
                then snd (Storage_WriteEvent (snprintf 128 (text_bytes (''event=wdg_reset dead_task='' @ dead_task_name dead_task))) q)
                else q)
      in if PlatformBackup_Read BKP_IDX_FAULT_PENDING r3 \<noteq> 0
         then (PlatformBackup_Write BKP_IDX_FAULT_PENDING 0 r3,
               if snapshot_valid snap then snd (Storage_WriteFault (snprintf 128 (text_bytes (fault_text snap))) q1) else q1)
         else (r3, q1))"

lemma hex_digits_length [simp]: "length (hex_digits v) = 8"
  by (simp add: hex_digits_def)

lemma fault_text_length: "length (fault_text s) = 64"
  by (simp add: fault_text_def)

lemma boot_quiet:
  assumes "length regs = 20" "PlatformBackup_Read BKP_IDX_FAULT_PENDING regs = 0" "\<not> bit csr 29"
  shows "snd (FaultDiag_InitAtBoot csr snap regs q) = q"
  using assms by (simp add: FaultDiag_InitAtBoot_def Let_def bkp_idx bkp_reg_ptr_def PlatformBackup_DetectAndClearResetReason_def)



section \<open>A damaged snapshot\<close>

lemma words_split:
  "snapshot_words (s\<lparr>fs_crc32 := v\<rparr>) = take 17 (snapshot_words s) @ [v]" "fs_crc32 s = snapshot_words s ! 17" "length (snapshot_words s) = 18"
  by (simp_all add: snapshot_words_def)

lemma valid_words:
  "snapshot_valid s \<Longrightarrow> snapshot_words s ! 17 = fault_crc32 (concat (map le32 (take 17 (snapshot_words s) @ [0])))"
  by (simp add: snapshot_valid_def snapshot_bytes_def words_split(1) flip: words_split(2))

lemma damaged_invalid:
  assumes "snapshot_valid s" "snapshot_words s' = (snapshot_words s)[i := w]" "i < 18" "w \<noteq> snapshot_words s ! i"
  shows "\<not> snapshot_valid s'"
proof
  let ?w = "take 17 (snapshot_words s)"
  let ?crc = "\<lambda>ws. fault_crc32 (concat (map le32 (ws @ [0])))"
  assume "snapshot_valid s'"
  then have v: "(snapshot_words s)[i := w] ! 17 = ?crc (?w[i := w])"
    using valid_words [of s'] unfolding assms(2) by (simp add: take_update_swap)
  have l: "length ?w = 17" by (simp add: words_split)
  show False
  proof (cases "i = 17")
    case True
    then show False using v assms(4) valid_words [OF assms(1)] by (simp add: words_split l list_update_beyond)
  next
    case False
    then have i: "i < 17" using assms(3) by simp
    have w: "?w = take i ?w @ ?w ! i # drop (Suc i) ?w" using i l by (intro id_take_nth_drop) simp
    have ne: "w \<noteq> ?w ! i" using assms(4) i by simp
    let ?xs = "concat (map le32 (take i ?w))" and ?ys = "concat (map le32 (drop (Suc i) ?w @ [0]))"
    have u: "?w[i := w] = take i ?w @ w # drop (Suc i) ?w" using i l by (intro upd_conv_take_nth_drop) simp
    have a: "?crc (?w[i := w]) = fault_crc32 (?xs @ le32 w @ ?ys)" unfolding u by simp
    have b: "?crc ?w = fault_crc32 (?xs @ le32 (?w ! i) @ ?ys)" by (subst w) simp
    have "?crc (?w[i := w]) \<noteq> ?crc ?w" unfolding a b by (rule fault_crc32_word [OF ne])
    then show False using v valid_words [OF assms(1)] False by simp
  qed
qed

text \<open>Damaged crash data is never reported. When any one word of the retained snapshot has changed since
  it was captured, in any number of bits, the next start queues nothing and clears the mark.\<close>

theorem damaged_snapshot_ignored:
  assumes "FaultDiag_HardFaultCapture stack exc_lr scb regs = (snap, regs1, line)" "length regs = 20" "\<not> bit csr 29"
    and "snapshot_words snap' = (snapshot_words snap)[i := w]" "i < 18" "w \<noteq> snapshot_words snap ! i"
  shows "snd (FaultDiag_InitAtBoot csr snap' regs1 q) = q \<and>
    PlatformBackup_Read BKP_IDX_FAULT_PENDING (fst (FaultDiag_InitAtBoot csr snap' regs1 q)) = 0"
proof -
  have "snapshot_valid snap"
    using assms(1) by (auto simp: FaultDiag_HardFaultCapture_def Let_def snapshot_valid_def snapshot_bytes_def snapshot_words_def)
  then have "\<not> snapshot_valid snap'" by (rule damaged_invalid [OF _ assms(4-6)])
  moreover have "length regs1 = 20" "PlatformBackup_Read BKP_IDX_FAULT_PENDING regs1 = 1"
    using assms(1,2) by (auto simp: FaultDiag_HardFaultCapture_def Let_def bkp_idx bkp_reg_ptr_def)
  moreover have "PlatformBackup_DetectAndClearResetReason csr \<noteq> BOOT_REASON_IWDG"
    using assms(3) by (simp add: PlatformBackup_DetectAndClearResetReason_def)
  ultimately show ?thesis by (simp add: FaultDiag_InitAtBoot_def Let_def bkp_idx bkp_reg_ptr_def)
qed

text \<open>A snapshot whose program counter was overwritten by zero, for instance by the stack of the start-up code.\<close>

theorem damaged_snapshot_ignored_witness:
  "let scb = \<lparr>CFSR = 0x8200, HFSR = 0x40000000, DFSR = 0, AFSR = 0, MMFAR = 0, BFAR = 4\<rparr>;
     (snap, regs1, line) = FaultDiag_HardFaultCapture [0, 0x10, 0x20, 0x30, 0x40, 0x50, 0x60, 0x70] 0xFFFFFFF9 scb (replicate 20 0)
   in snd (FaultDiag_InitAtBoot 0x14000000 (snap\<lparr>stacked_pc := 0\<rparr>) regs1 []) = []"
proof -
  let ?scb = "\<lparr>CFSR = 0x8200, HFSR = 0x40000000, DFSR = 0, AFSR = 0, MMFAR = 0, BFAR = 4\<rparr>"
  let ?stack = "[0, 0x10, 0x20, 0x30, 0x40, 0x50, 0x60, 0x70] :: u32 list"
  obtain snap regs1 line where c: "FaultDiag_HardFaultCapture ?stack 0xFFFFFFF9 ?scb (replicate 20 0) = (snap, regs1, line)" by (metis surj_pair)
  have "stacked_pc snap = 0x60" using c by (auto simp: FaultDiag_HardFaultCapture_def Let_def)
  then have "snapshot_words (snap\<lparr>stacked_pc := 0\<rparr>) = (snapshot_words snap)[7 := 0]" "0 \<noteq> snapshot_words snap ! 7"
    by (simp_all add: snapshot_words_def)
  then show ?thesis using damaged_snapshot_ignored [OF c, where csr = "0x14000000" and i = 7 and w = 0] c by simp
qed

end
