(* ===== verification/Mqtt_Packet.thy ===== *)
theory Mqtt_Packet
  imports C_Strings
begin

text \<open>
  The packets of the MQTT protocol, as the client uses them (\<open>3_Protocol/MQTTPacket/src\<close>): the coding of
  the remaining length, strings, and the building and reading of the packets. A serializer returns the
  length, or a negative code, with the bytes that it writes from the start of its buffer. A
  deserializer reads the whole receive buffer; its pointers are positions in it, and a
  pointer that it returns is the rest of the buffer from there. Lengths are natural numbers where the
  source keeps them in an \<open>int\<close> that is not negative; the packets of the server side, the
  non-blocking reader and the text formatter are not used by the firmware and left out.
\<close>

section \<open>The remaining length\<close>

function MQTTPacket_encode :: "nat \<Rightarrow> u8 list" where
  "MQTTPacket_encode n =
     (let d = (of_nat (n mod 128) :: u8); n1 = n div 128
      in if n1 > 0 then (d OR 0x80) # MQTTPacket_encode n1 else [d])"
  by pat_completeness auto
termination by (relation "measure id") auto

declare MQTTPacket_encode.simps [simp del]

text \<open>The decoder over a function that delivers the next byte, or nothing. The first result counts the
  attempts, five for bad data.\<close>

function MQTTPacket_decode_from :: "('s \<Rightarrow> u8 option \<times> 's) \<Rightarrow> nat \<Rightarrow> nat \<Rightarrow> nat \<Rightarrow> 's \<Rightarrow> nat \<times> nat \<times> 's" where
  "MQTTPacket_decode_from getc len multiplier val s =
     (let len1 = len + 1
      in if len1 > 4 then (len1, val, s)
         else case getc s of
                (None, s1) \<Rightarrow> (len1, val, s1)
              | (Some c, s1) \<Rightarrow>
                  let val1 = val + unat (c AND 127) * multiplier
                  in if c AND 128 \<noteq> 0 then MQTTPacket_decode_from getc len1 (multiplier * 128) val1 s1
                     else (len1, val1, s1))"
  by pat_completeness auto
termination by (relation "measure (\<lambda>(getc, len, m, v, s). 4 - len)") auto

declare MQTTPacket_decode_from.simps [simp del]

definition MQTTPacket_decode :: "('s \<Rightarrow> u8 option \<times> 's) \<Rightarrow> 's \<Rightarrow> nat \<times> nat \<times> 's" where
  "MQTTPacket_decode getc s = MQTTPacket_decode_from getc 0 1 0 s"

fun bufchar :: "u8 list \<Rightarrow> u8 option \<times> u8 list" where
  "bufchar [] = (None, [])"
| "bufchar (c # cs) = (Some c, cs)"

definition MQTTPacket_decodeBuf :: "u8 list \<Rightarrow> nat \<times> nat" where
  "MQTTPacket_decodeBuf buf = (case MQTTPacket_decode bufchar buf of (len, val, _) \<Rightarrow> (len, val))"

definition MQTTPacket_len :: "nat \<Rightarrow> nat" where
  "MQTTPacket_len rem_len0 =
     (let rem_len = rem_len0 + 1
      in if rem_len < 128 then rem_len + 1 else if rem_len < 16384 then rem_len + 2
         else if rem_len < 2097151 then rem_len + 3 else rem_len + 4)"

section \<open>Numbers, strings and the header\<close>

definition writeInt :: "nat \<Rightarrow> u8 list" where
  "writeInt n = [of_nat (n div 256), of_nat (n mod 256)]"

definition readInt :: "u8 list \<Rightarrow> nat \<Rightarrow> nat" where
  "readInt buf p = 256 * unat (buf ! p) + unat (buf ! (p + 1))"

record mqtt_string =
  cstring :: "u8 list option"
  lenstring :: "u8 list"

abbreviation c_string :: "u8 list \<Rightarrow> mqtt_string" where
  "c_string s \<equiv> \<lparr>cstring = Some s, lenstring = []\<rparr>"

definition MQTTstrlen :: "mqtt_string \<Rightarrow> nat" where
  "MQTTstrlen s = (case cstring s of Some c \<Rightarrow> length c | None \<Rightarrow> length (lenstring s))"

definition writeMQTTString :: "mqtt_string \<Rightarrow> u8 list" where
  "writeMQTTString s =
     (if length (lenstring s) > 0 then writeInt (length (lenstring s)) @ lenstring s
      else case cstring s of Some c \<Rightarrow> writeInt (length c) @ c | None \<Rightarrow> writeInt 0)"

text \<open>A string read between two positions: its bytes and the position behind it, when the length and
  the bytes fit.\<close>

definition readMQTTLenString :: "u8 list \<Rightarrow> nat \<Rightarrow> nat \<Rightarrow> (u8 list \<times> nat) option" where
  "readMQTTLenString buf p enddata =
     (if enddata - p > 1
      then let len = readInt buf p
           in if p + 2 + len \<le> enddata then Some (take len (drop (p + 2) buf), p + 2 + len) else None
      else None)"

definition MQTTPacket_equals :: "u8 list \<Rightarrow> u8 list \<Rightarrow> bool" where
  "MQTTPacket_equals a b \<longleftrightarrow> length a = length b \<and> a = b"

datatype msg_type = CONNECT | CONNACK | PUBLISH | PUBACK | PUBREC | PUBREL | PUBCOMP | SUBSCRIBE | SUBACK
  | UNSUBSCRIBE | UNSUBACK | PINGREQ | PINGRESP | DISCONNECT

fun msg_code :: "msg_type \<Rightarrow> u8" where
  "msg_code CONNECT = 1" | "msg_code CONNACK = 2" | "msg_code PUBLISH = 3" | "msg_code PUBACK = 4"
| "msg_code PUBREC = 5" | "msg_code PUBREL = 6" | "msg_code PUBCOMP = 7" | "msg_code SUBSCRIBE = 8"
| "msg_code SUBACK = 9" | "msg_code UNSUBSCRIBE = 10" | "msg_code UNSUBACK = 11" | "msg_code PINGREQ = 12"
| "msg_code PINGRESP = 13" | "msg_code DISCONNECT = 14"

text \<open>The bit fields of the header byte.\<close>

definition header_byte :: "u8 \<Rightarrow> u8 \<Rightarrow> u8 \<Rightarrow> u8 \<Rightarrow> u8" where
  "header_byte type dup qos retain =
     push_bit 4 (type AND 15) OR push_bit 3 (dup AND 1) OR push_bit 1 (qos AND 3) OR (retain AND 1)"

definition header_type :: "u8 \<Rightarrow> u8" where "header_type h = drop_bit 4 h AND 15"
definition header_dup :: "u8 \<Rightarrow> u8" where "header_dup h = drop_bit 3 h AND 1"
definition header_qos :: "u8 \<Rightarrow> u8" where "header_qos h = drop_bit 1 h AND 3"
definition header_retain :: "u8 \<Rightarrow> u8" where "header_retain h = h AND 1"

section \<open>Building packets\<close>

definition BUFFER_TOO_SHORT :: int where "BUFFER_TOO_SHORT = -2"

definition MQTTSerialize_publishLength :: "u8 \<Rightarrow> mqtt_string \<Rightarrow> nat \<Rightarrow> nat" where
  "MQTTSerialize_publishLength qos topicName payloadlen =
     2 + MQTTstrlen topicName + payloadlen + (if qos > 0 then 2 else 0)"

definition MQTTSerialize_publish ::
  "nat \<Rightarrow> u8 \<Rightarrow> u8 \<Rightarrow> u8 \<Rightarrow> u16 \<Rightarrow> mqtt_string \<Rightarrow> u8 list \<Rightarrow> int \<times> u8 list" where
  "MQTTSerialize_publish buflen dup qos retained packetid topicName payload =
     (let rem_len = MQTTSerialize_publishLength qos topicName (length payload)
      in if MQTTPacket_len rem_len > buflen then (BUFFER_TOO_SHORT, [])
         else let bs = [header_byte (msg_code PUBLISH) dup qos retained] @ MQTTPacket_encode rem_len @ writeMQTTString topicName @
                       (if qos > 0 then writeInt (unat packetid) else []) @ payload
              in (int (length bs), bs))"

definition MQTTSerialize_ack :: "nat \<Rightarrow> u8 \<Rightarrow> u8 \<Rightarrow> u16 \<Rightarrow> int \<times> u8 list" where
  "MQTTSerialize_ack buflen packettype dup packetid =
     (if buflen < 4 then (BUFFER_TOO_SHORT, [])
      else let bs = [header_byte packettype dup (if packettype = msg_code PUBREL then 1 else 0) 0] @
                    MQTTPacket_encode 2 @ writeInt (unat packetid)
           in (int (length bs), bs))"

definition MQTTSerialize_zero :: "nat \<Rightarrow> u8 \<Rightarrow> int \<times> u8 list" where
  "MQTTSerialize_zero buflen packettype =
     (if buflen < 2 then (BUFFER_TOO_SHORT, [])
      else let bs = [header_byte packettype 0 0 0] @ MQTTPacket_encode 0 in (int (length bs), bs))"

definition MQTTSerialize_pingreq :: "nat \<Rightarrow> int \<times> u8 list" where
  "MQTTSerialize_pingreq buflen = MQTTSerialize_zero buflen (msg_code PINGREQ)"

definition MQTTSerialize_disconnect :: "nat \<Rightarrow> int \<times> u8 list" where
  "MQTTSerialize_disconnect buflen = MQTTSerialize_zero buflen (msg_code DISCONNECT)"

definition MQTTSerialize_subscribeLength :: "mqtt_string list \<Rightarrow> nat" where
  "MQTTSerialize_subscribeLength topics = 2 + sum_list (map (\<lambda>t. 2 + MQTTstrlen t + 1) topics)"

definition MQTTSerialize_subscribe :: "nat \<Rightarrow> u8 \<Rightarrow> u16 \<Rightarrow> (mqtt_string \<times> u8) list \<Rightarrow> int \<times> u8 list" where
  "MQTTSerialize_subscribe buflen dup packetid topics =
     (let rem_len = MQTTSerialize_subscribeLength (map fst topics)
      in if MQTTPacket_len rem_len > buflen then (BUFFER_TOO_SHORT, [])
         else let bs = [header_byte (msg_code SUBSCRIBE) dup 1 0] @ MQTTPacket_encode rem_len @ writeInt (unat packetid) @
                       concat (map (\<lambda>(t, q). writeMQTTString t @ [q]) topics)
              in (int (length bs), bs))"

definition MQTTSerialize_unsubscribeLength :: "mqtt_string list \<Rightarrow> nat" where
  "MQTTSerialize_unsubscribeLength topics = 2 + sum_list (map (\<lambda>t. 2 + MQTTstrlen t) topics)"

definition MQTTSerialize_unsubscribe :: "nat \<Rightarrow> u8 \<Rightarrow> u16 \<Rightarrow> mqtt_string list \<Rightarrow> int \<times> u8 list" where
  "MQTTSerialize_unsubscribe buflen dup packetid topics =
     (let rem_len = MQTTSerialize_unsubscribeLength topics
      in if MQTTPacket_len rem_len > buflen then (BUFFER_TOO_SHORT, [])
         else let bs = [header_byte (msg_code UNSUBSCRIBE) dup 1 0] @ MQTTPacket_encode rem_len @ writeInt (unat packetid) @
                       concat (map writeMQTTString topics)
              in (int (length bs), bs))"

text \<open>The options of a connection. A user name or password is present when one of its two pointers is set.\<close>

record connect_data =
  MQTTVersion :: u8
  clientID :: mqtt_string
  cd_keepAliveInterval :: u16
  cd_cleansession :: u8
  willFlag :: u8
  will_topicName :: mqtt_string
  will_message :: mqtt_string
  will_retained :: u8
  will_qos :: u8
  username :: mqtt_string
  password :: mqtt_string

definition given :: "mqtt_string \<Rightarrow> bool" where
  "given s \<longleftrightarrow> cstring s \<noteq> None \<or> lenstring s \<noteq> []"

definition MQTTSerialize_connectLength :: "connect_data \<Rightarrow> nat" where
  "MQTTSerialize_connectLength o1 =
     (if MQTTVersion o1 = 3 then 12 else if MQTTVersion o1 = 4 then 10 else 0) + MQTTstrlen (clientID o1) + 2 +
     (if willFlag o1 \<noteq> 0 then MQTTstrlen (will_topicName o1) + 2 + MQTTstrlen (will_message o1) + 2 else 0) +
     (if given (username o1) then MQTTstrlen (username o1) + 2 else 0) +
     (if given (password o1) then MQTTstrlen (password o1) + 2 else 0)"

definition connect_flags :: "connect_data \<Rightarrow> u8" where
  "connect_flags o1 =
     push_bit 1 (cd_cleansession o1 AND 1) OR (if willFlag o1 \<noteq> 0 then 4 else 0) OR
     (if willFlag o1 \<noteq> 0 then push_bit 3 (will_qos o1 AND 3) OR push_bit 5 (will_retained o1 AND 1) else 0) OR
     (if given (password o1) then 64 else 0) OR (if given (username o1) then 128 else 0)"

definition MQTTSerialize_connect :: "nat \<Rightarrow> connect_data \<Rightarrow> int \<times> u8 list" where
  "MQTTSerialize_connect buflen o1 =
     (let len = MQTTSerialize_connectLength o1
      in if MQTTPacket_len len > buflen then (BUFFER_TOO_SHORT, [])
         else let bs = [header_byte (msg_code CONNECT) 0 0 0] @ MQTTPacket_encode len @
                       (if MQTTVersion o1 = 4 then writeInt 4 @ text_bytes ''MQTT'' @ [4]
                        else writeInt 6 @ text_bytes ''MQIsdp'' @ [3]) @
                       [connect_flags o1] @ writeInt (unat (cd_keepAliveInterval o1)) @ writeMQTTString (clientID o1) @
                       (if willFlag o1 \<noteq> 0 then writeMQTTString (will_topicName o1) @ writeMQTTString (will_message o1) else []) @
                       (if given (username o1) then writeMQTTString (username o1) else []) @
                       (if given (password o1) then writeMQTTString (password o1) else [])
              in (int (length bs), bs))"

section \<open>Reading packets\<close>

text \<open>Where the body of a packet in the buffer begins and ends by its remaining length.\<close>

definition body_of :: "u8 list \<Rightarrow> nat \<times> nat" where
  "body_of buf = (case MQTTPacket_decodeBuf (tl buf) of (n, mylen) \<Rightarrow> (1 + n, 1 + n + mylen))"

text \<open>The length of the payload is a difference of positions that the source does not check for its sign.\<close>

record publish =
  pub_dup :: u8
  pub_qos :: u8
  pub_retained :: u8
  pub_id :: u16
  pub_topic :: "u8 list"
  pub_payload :: "u8 list"
  pub_payloadlen :: int

text \<open>The packet identifier is the caller's variable, which keeps its value for the lowest quality of service.\<close>

definition MQTTDeserialize_publish :: "u16 \<Rightarrow> u8 list \<Rightarrow> publish option" where
  "MQTTDeserialize_publish id0 buf =
     (let h = buf ! 0
      in if header_type h \<noteq> msg_code PUBLISH then None
         else case body_of buf of
                (curdata, enddata) \<Rightarrow>
                  (case readMQTTLenString buf curdata enddata of
                     None \<Rightarrow> None
                   | Some (topic, p) \<Rightarrow>
                       let p1 = (if header_qos h > 0 then p + 2 else p)
                       in Some \<lparr>pub_dup = header_dup h, pub_qos = header_qos h, pub_retained = header_retain h,
                                pub_id = (if header_qos h > 0 then of_nat (readInt buf p) else id0),
                                pub_topic = topic, pub_payload = drop p1 buf, pub_payloadlen = int enddata - int p1\<rparr>))"

definition MQTTDeserialize_ack :: "u8 list \<Rightarrow> (u8 \<times> u8 \<times> u16) option" where
  "MQTTDeserialize_ack buf =
     (case body_of buf of
        (curdata, enddata) \<Rightarrow>
          if enddata - curdata < 2 then None
          else Some (header_type (buf ! 0), header_dup (buf ! 0), of_nat (readInt buf curdata)))"

definition MQTTDeserialize_connack :: "u8 list \<Rightarrow> (u8 \<times> u8) option" where
  "MQTTDeserialize_connack buf =
     (if header_type (buf ! 0) \<noteq> msg_code CONNACK then None
      else case body_of buf of
             (curdata, enddata) \<Rightarrow>
               if enddata - curdata < 2 then None else Some (buf ! curdata AND 1, buf ! (curdata + 1)))"

text \<open>The granted qualities of service are written to the array of the caller, one by one; the result is the list
  of those written, and whether the reader accepts the packet.\<close>

fun granted_loop :: "nat \<Rightarrow> u8 list \<Rightarrow> u8 list \<Rightarrow> bool \<times> u8 list" where
  "granted_loop maxcount granted [] = (True, granted)"
| "granted_loop maxcount granted (c # cs) =
     (if length granted > maxcount then (False, granted) else granted_loop maxcount (granted @ [c]) cs)"

definition MQTTDeserialize_suback :: "nat \<Rightarrow> u8 list \<Rightarrow> (bool \<times> u16 \<times> u8 list) option" where
  "MQTTDeserialize_suback maxcount buf =
     (if header_type (buf ! 0) \<noteq> msg_code SUBACK then None
      else case body_of buf of
             (curdata, enddata) \<Rightarrow>
               if enddata - curdata < 2 then None
               else case granted_loop maxcount [] (take (enddata - (curdata + 2)) (drop (curdata + 2) buf)) of
                      (ok, granted) \<Rightarrow> Some (ok, of_nat (readInt buf curdata), granted))"

text \<open>The type is compared after the reading, so that a packet too short for its identifier passes as well.\<close>

definition MQTTDeserialize_unsuback :: "u8 list \<Rightarrow> bool" where
  "MQTTDeserialize_unsuback buf \<longleftrightarrow> MQTTDeserialize_ack buf \<noteq> None \<or> header_type (buf ! 0) = msg_code UNSUBACK"

section \<open>The coding of lengths\<close>

lemma encode_step:
  "n < 128 \<Longrightarrow> MQTTPacket_encode n = [of_nat n]"
  "128 \<le> n \<Longrightarrow> MQTTPacket_encode n = (of_nat (n mod 128) OR 0x80) # MQTTPacket_encode (n div 128)"
  by (subst MQTTPacket_encode.simps, simp add: Let_def)+

lemma length_encode:
  "length (MQTTPacket_encode n) = (if n < 128 then 1 else if n < 16384 then 2 else if n < 2097152 then 3 else 1 + length (MQTTPacket_encode (n div 128)))"
  by (simp add: encode_step)

lemma seven_bits: "w AND 127 = w" if "w < 128" for w :: u8
proof -
  have "w AND 127 = take_bit 7 w" by (simp add: take_bit_eq_mask mask_eq_exp_minus_1)
  also have "\<dots> = w" using that by (simp add: take_bit_eq_mod mod_word_less)
  finally show ?thesis .
qed

lemma length_byte:
  assumes "m < 128"
  shows "unat ((of_nat m :: u8) AND 127) = m" "(of_nat m :: u8) AND 128 = 0"
    "unat (((of_nat m :: u8) OR 0x80) AND 127) = m" "((of_nat m :: u8) OR 0x80) AND 128 \<noteq> 0"
proof -
  have u: "unat (of_nat m :: u8) = m" using assms by (simp add: unsigned_of_nat take_bit_nat_eq_self)
  have s: "(of_nat m :: u8) AND 127 = of_nat m" by (rule seven_bits) (simp add: word_less_nat_alt u assms)
  then show "unat ((of_nat m :: u8) AND 127) = m" using u by simp
  have "(of_nat m :: u8) AND 128 = (of_nat m AND 127) AND 128" by (simp only: s)
  also have "\<dots> = of_nat m AND (127 AND 128)" by (simp only: and.assoc)
  finally show "(of_nat m :: u8) AND 128 = 0" by simp
  show "unat (((of_nat m :: u8) OR 0x80) AND 127) = m" "((of_nat m :: u8) OR 0x80) AND 128 \<noteq> 0"
    using s u by (simp_all add: bit.conj_disj_distrib2)
qed

text \<open>Anything that delivers waiting bytes one by one; more may arrive behind them meanwhile.\<close>

locale byte_source =
  fixes getc :: "'s \<Rightarrow> u8 option \<times> 's" and items :: "'s \<Rightarrow> u8 list" and ready :: "'s \<Rightarrow> bool"
  assumes next_byte: "ready s \<Longrightarrow> items s = c # cs \<Longrightarrow> \<exists>s1 more. getc s = (Some c, s1) \<and> ready s1 \<and> items s1 = cs @ more"
begin

lemma decode_byte:
  "getc s = (Some c, s1) \<Longrightarrow> len < 4 \<Longrightarrow> MQTTPacket_decode_from getc len multiplier val s =
     (if c AND 128 \<noteq> 0 then MQTTPacket_decode_from getc (len + 1) (multiplier * 128) (val + unat (c AND 127) * multiplier) s1
      else (len + 1, val + unat (c AND 127) * multiplier, s1))"
  by (subst MQTTPacket_decode_from.simps) (simp add: Let_def)

lemma decode_from_encode:
  "len + length (MQTTPacket_encode n) \<le> 4 \<Longrightarrow> ready s \<Longrightarrow> items s = MQTTPacket_encode n @ rest \<Longrightarrow>
   \<exists>s1 more. MQTTPacket_decode_from getc len multiplier val s = (len + length (MQTTPacket_encode n), val + n * multiplier, s1) \<and>
     ready s1 \<and> items s1 = rest @ more"
proof (induction n arbitrary: len multiplier val s rest rule: less_induct)
  case (less n)
  show ?case
  proof (cases "n < 128")
    case True
    note e = encode_step(1) [OF True]
    have "len < 4" using less.prems(1) unfolding e by simp
    then show ?thesis using next_byte [OF less.prems(2), of "of_nat n" rest] less.prems(3) unfolding e
      by (auto simp: decode_byte length_byte [OF True])
  next
    case False
    then have e: "MQTTPacket_encode n = (of_nat (n mod 128) OR 0x80) # MQTTPacket_encode (n div 128)" "n div 128 < n"
      using encode_step(2) [of n] by simp_all
    have m: "n mod 128 < 128" by simp
    have "n mod 128 * multiplier + n div 128 * (multiplier * 128) = (n mod 128 + n div 128 * 128) * multiplier"
      by (simp only: add_mult_distrib mult.assoc mult.commute [of multiplier])
    then have v: "val + n mod 128 * multiplier + n div 128 * (multiplier * 128) = val + n * multiplier"
      unfolding mod_div_mult_eq add.assoc by (rule arg_cong)
    have l: "len < 4" "len + 1 + length (MQTTPacket_encode (n div 128)) \<le> 4" using less.prems(1) unfolding e(1) by simp_all
    obtain s1 more where s1: "getc s = (Some (of_nat (n mod 128) OR 0x80), s1)" "ready s1"
        "items s1 = MQTTPacket_encode (n div 128) @ rest @ more"
      using next_byte [OF less.prems(2), of "of_nat (n mod 128) OR 0x80"] less.prems(3) unfolding e(1) by auto
    have "MQTTPacket_decode_from getc len multiplier val s =
        MQTTPacket_decode_from getc (len + 1) (multiplier * 128) (val + n mod 128 * multiplier) s1"
      unfolding decode_byte [OF s1(1) l(1)] using length_byte(3,4) [OF m] by simp
    then show ?thesis
      using less.IH [OF e(2) l(2) s1(2,3), of "multiplier * 128" "val + n mod 128 * multiplier"] unfolding v e(1) by auto
  qed
qed

lemma decode_encode:
  assumes "length (MQTTPacket_encode n) \<le> 4" "ready s" "items s = MQTTPacket_encode n @ rest"
  shows "\<exists>s1 more. MQTTPacket_decode getc s = (length (MQTTPacket_encode n), n, s1) \<and> ready s1 \<and> items s1 = rest @ more"
  using decode_from_encode [of 0 n s rest 1 0] assms by (simp add: MQTTPacket_decode_def)

end

interpretation buffered: byte_source bufchar "\<lambda>buf. buf" "\<lambda>_. True"
  by unfold_locales auto

lemma encode_length:
  "n < 128 \<Longrightarrow> length (MQTTPacket_encode n) = 1"
  "128 \<le> n \<Longrightarrow> length (MQTTPacket_encode n) = Suc (length (MQTTPacket_encode (n div 128)))"
  by (simp_all add: encode_step)

lemma encode_bound: "n < 128 ^ k \<Longrightarrow> 0 < k \<Longrightarrow> length (MQTTPacket_encode n) \<le> k"
proof (induction k arbitrary: n)
  case (Suc k)
  show ?case
  proof (cases "n < 128")
    case False
    then have k: "0 < k" using Suc.prems(1) by (cases k) auto
    have "n div 128 < 128 ^ k" using Suc.prems(1) by (simp add: less_mult_imp_div_less mult.commute)
    then show ?thesis using Suc.IH k False by (simp add: encode_length(2))
  qed (simp add: encode_length(1))
qed simp

text \<open>The reserved length of a packet is never too small.\<close>

lemma packet_len_enough:
  assumes "n < 2 ^ 28"
  shows "1 + length (MQTTPacket_encode n) + n \<le> MQTTPacket_len n"
proof -
  have b: "length (MQTTPacket_encode n) \<le> k" if "n < 128 ^ k" "0 < k" for k using that by (rule encode_bound)
  show ?thesis using b [of 1] b [of 2] b [of 3] b [of 4] assms by (simp add: MQTTPacket_len_def Let_def)
qed

section \<open>The fields of the header\<close>

lemma masks: "(15 :: u8) = mask 4" "(3 :: u8) = mask 2" "(1 :: u8) = mask 1" by (simp_all add: mask_eq_exp_minus_1)

lemma bit_header:
  "bit (header_byte t d q r) n \<longleftrightarrow> 4 \<le> n \<and> n < 8 \<and> bit t (n - 4) \<or> n = 3 \<and> bit d 0 \<or> 1 \<le> n \<and> n < 3 \<and> bit q (n - 1) \<or> n = 0 \<and> bit r 0"
proof -
  consider "n = 0" | "n = 1" | "n = 2" | "n = 3" | "4 \<le> n" "n < 8" | "8 \<le> n" by linarith
  then show ?thesis
    unfolding header_byte_def masks bit_or_iff bit_and_iff bit_push_bit_iff bit_mask_iff possible_bit_word
    by cases auto
qed

lemma header_fields:
  "header_type (header_byte t d q r) = t AND 15" "header_dup (header_byte t d q r) = d AND 1"
  "header_qos (header_byte t d q r) = q AND 3" "header_retain (header_byte t d q r) = r AND 1"
  unfolding header_type_def header_dup_def header_qos_def header_retain_def masks
  by (rule bit_word_eqI, simp only: bit_and_iff bit_drop_bit_eq comp_apply bit_mask_iff bit_header possible_bit_word, force)+

lemma fields_small: "d < 2 \<Longrightarrow> d AND 1 = d" "q < 4 \<Longrightarrow> q AND 3 = q" for d q :: u8
  unfolding masks take_bit_eq_mask [symmetric] by (simp_all add: take_bit_eq_mod mod_word_less)

section \<open>Building and reading agree\<close>

lemma decodeBuf_encode:
  "n < 2 ^ 28 \<Longrightarrow> MQTTPacket_decodeBuf (MQTTPacket_encode n @ rest) = (length (MQTTPacket_encode n), n)"
  using buffered.decode_encode [of n _ rest] encode_bound [of n 4] by (fastforce simp: MQTTPacket_decodeBuf_def)

lemma body_of_packet:
  "n < 2 ^ 28 \<Longrightarrow> body_of (h # MQTTPacket_encode n @ rest) =
     (1 + length (MQTTPacket_encode n), 1 + length (MQTTPacket_encode n) + n)"
  by (simp add: body_of_def decodeBuf_encode)

lemma read_write_int:
  assumes "n < 65536"
  shows "readInt (a @ writeInt n @ b) (length a) = n"
proof -
  have "unat (of_nat (n div 256) :: u8) = n div 256" "unat (of_nat (n mod 256) :: u8) = n mod 256"
    using assms by (simp_all add: unsigned_of_nat take_bit_nat_eq_self)
  then show ?thesis by (simp add: readInt_def writeInt_def nth_append)
qed

lemma id_small: "unat (w :: u16) < 65536"
  by (rule order_less_le_trans [OF unsigned_less]) simp

lemma length_writeInt [simp]: "length (writeInt n) = 2"
  by (simp add: writeInt_def)

lemma read_written_string:
  assumes "length t < 65536" "length a + 2 + length t \<le> e"
  shows "readMQTTLenString (a @ writeInt (length t) @ t @ b) (length a) e = Some (t, length a + 2 + length t)"
  using assms read_write_int [OF assms(1), of a "t @ b"] by (simp add: readMQTTLenString_def Let_def)

lemma length_write_c_string [simp]: "length (writeMQTTString (c_string t)) = 2 + MQTTstrlen (c_string t)"
  by (simp add: writeMQTTString_def MQTTstrlen_def)

lemma publish_read_back:
  assumes "MQTTSerialize_publish buflen dup qos retained packetid (c_string topic) payload = (rc, bs)" "rc \<ge> 0" "buflen \<le> 2 ^ 28"
    and "dup < 2" "qos < 4" "retained < 2" "length topic < 65536"
  shows "rc = int (length bs)" "length bs \<le> buflen"
    and "MQTTDeserialize_publish id0 (bs @ rest) = Some \<lparr>pub_dup = dup, pub_qos = qos, pub_retained = retained,
      pub_id = (if qos > 0 then packetid else id0), pub_topic = topic, pub_payload = payload @ rest, pub_payloadlen = int (length payload)\<rparr>"
proof -
  let ?n = "MQTTSerialize_publishLength qos (c_string topic) (length payload)"
  let ?h = "header_byte (msg_code PUBLISH) dup qos retained"
  let ?a = "?h # MQTTPacket_encode ?n"
  let ?id = "if qos > 0 then writeInt (unat packetid) else []"
  have fit: "MQTTPacket_len ?n \<le> buflen" using assms(1,2) by (auto simp: MQTTSerialize_publish_def Let_def BUFFER_TOO_SHORT_def split: if_splits)
  then have bs: "bs = ?a @ writeInt (length topic) @ topic @ ?id @ payload" and rc: "rc = int (length bs)"
    using assms(1) by (auto simp: MQTTSerialize_publish_def Let_def writeMQTTString_def)
  have "?n \<le> MQTTPacket_len ?n" by (simp add: MQTTPacket_len_def Let_def)
  then have n: "?n < 2 ^ 28" using fit assms(3) by (simp add: MQTTPacket_len_def Let_def split: if_splits)
  have ln: "?n = 2 + length topic + length ?id + length payload"
    by (simp add: MQTTSerialize_publishLength_def MQTTstrlen_def)
  show "rc = int (length bs)" by (rule rc)
  show "length bs \<le> buflen" using packet_len_enough [OF n] fit ln unfolding bs by simp
  let ?e = "1 + length (MQTTPacket_encode ?n) + ?n"
  have b: "body_of (bs @ rest) = (length ?a, ?e)" using body_of_packet [OF n] unfolding bs by simp
  define p where "p = length ?a + 2 + length topic"
  have t: "readMQTTLenString (bs @ rest) (length ?a) ?e = Some (topic, p)"
    using read_written_string [OF assms(7), of ?a ?e "?id @ payload @ rest"] ln unfolding bs p_def by simp
  have i: "qos > 0 \<Longrightarrow> readInt (bs @ rest) p = unat packetid"
    using read_write_int [OF id_small, of "?a @ writeInt (length topic) @ topic" packetid "payload @ rest"]
    unfolding bs p_def by simp
  have p1: "(if qos > 0 then p + 2 else p) = length (?a @ writeInt (length topic) @ topic @ ?id)" unfolding p_def by simp
  have d: "drop (if qos > 0 then p + 2 else p) (bs @ rest) = payload @ rest" unfolding bs p1 by simp
  have l: "int ?e - int (if qos > 0 then p + 2 else p) = int (length payload)" unfolding p1 by (subst (2) ln) simp
  have h: "header_type ?h = msg_code PUBLISH" "header_dup ?h = dup" "header_qos ?h = qos" "header_retain ?h = retained"
    using assms(4-6) by (simp_all add: header_fields fields_small)
  have h0: "(bs @ rest) ! 0 = ?h" unfolding bs by simp
  show "MQTTDeserialize_publish id0 (bs @ rest) = Some \<lparr>pub_dup = dup, pub_qos = qos, pub_retained = retained,
      pub_id = (if qos > 0 then packetid else id0), pub_topic = topic, pub_payload = payload @ rest, pub_payloadlen = int (length payload)\<rparr>"
    using i unfolding MQTTDeserialize_publish_def h0 h b prod.case t option.case Let_def d l by simp
qed

section \<open>Serializers stay in their buffer\<close>

definition in_buffer :: "nat \<Rightarrow> int \<times> u8 list \<Rightarrow> bool" where
  "in_buffer buflen out \<longleftrightarrow> out = (BUFFER_TOO_SHORT, []) \<or> fst out = int (length (snd out)) \<and> length (snd out) \<le> buflen"

text \<open>A string of one kind, so that the length that is reserved is the one that is written.\<close>

definition one_kind :: "mqtt_string \<Rightarrow> bool" where
  "one_kind s \<longleftrightarrow> cstring s = None \<or> lenstring s = []"

lemma one_kind_length: "one_kind s \<Longrightarrow> length (writeMQTTString s) = 2 + MQTTstrlen s"
  by (auto simp: one_kind_def writeMQTTString_def MQTTstrlen_def split: option.split)

lemma packet_in_buffer:
  assumes "buflen \<le> 2 ^ 28" "length body = n"
  shows "in_buffer buflen (if MQTTPacket_len n > buflen then (BUFFER_TOO_SHORT, [])
    else (int (length ([h] @ MQTTPacket_encode n @ body)), [h] @ MQTTPacket_encode n @ body))"
proof (cases "MQTTPacket_len n > buflen")
  case False
  then have "n < 2 ^ 28" using assms(1) by (simp add: MQTTPacket_len_def Let_def split: if_splits)
  then show ?thesis using packet_len_enough [of n] False assms(2) by (simp add: in_buffer_def)
qed (simp add: in_buffer_def)

lemma strings_length:
  "\<forall>t \<in> set ts. one_kind t \<Longrightarrow> length (concat (map writeMQTTString ts)) = sum_list (map (\<lambda>t. 2 + MQTTstrlen t) ts)"
  by (induction ts) (auto simp: one_kind_length)

lemma requests_length:
  "\<forall>t \<in> set (map fst us). one_kind t \<Longrightarrow>
     length (concat (map (\<lambda>(t, q). writeMQTTString t @ [q]) us)) = sum_list (map (\<lambda>t. 2 + MQTTstrlen t + 1) (map fst us))"
  by (induction us) (auto simp: one_kind_length)

lemma publish_in_buffer:
  "buflen \<le> 2 ^ 28 \<Longrightarrow> one_kind topic \<Longrightarrow> in_buffer buflen (MQTTSerialize_publish buflen dup qos retained packetid topic payload)"
  unfolding MQTTSerialize_publish_def Let_def
  by (rule packet_in_buffer) (simp_all add: MQTTSerialize_publishLength_def one_kind_length)

lemma subscribe_in_buffer:
  "buflen \<le> 2 ^ 28 \<Longrightarrow> \<forall>t \<in> set (map fst us). one_kind t \<Longrightarrow> in_buffer buflen (MQTTSerialize_subscribe buflen dup packetid us)"
  unfolding MQTTSerialize_subscribe_def MQTTSerialize_subscribeLength_def Let_def
  by (rule packet_in_buffer, assumption) (simp only: length_append requests_length length_writeInt)

lemma unsubscribe_in_buffer:
  "buflen \<le> 2 ^ 28 \<Longrightarrow> \<forall>t \<in> set ts. one_kind t \<Longrightarrow> in_buffer buflen (MQTTSerialize_unsubscribe buflen dup packetid ts)"
  unfolding MQTTSerialize_unsubscribe_def MQTTSerialize_unsubscribeLength_def Let_def
  by (rule packet_in_buffer) (simp_all add: strings_length)

lemma connect_in_buffer:
  assumes "buflen \<le> 2 ^ 28" "MQTTVersion o1 \<in> {3, 4}"
    and "\<forall>t \<in> {clientID o1, will_topicName o1, will_message o1, username o1, password o1}. one_kind t"
  shows "in_buffer buflen (MQTTSerialize_connect buflen o1)"
  unfolding MQTTSerialize_connect_def Let_def
  by (rule packet_in_buffer [OF assms(1)]) (use assms(2,3) in \<open>auto simp: MQTTSerialize_connectLength_def one_kind_length\<close>)

lemma short_in_buffer:
  "in_buffer buflen (MQTTSerialize_ack buflen type dup packetid)" "in_buffer buflen (MQTTSerialize_zero buflen type)"
  by (simp_all add: in_buffer_def MQTTSerialize_ack_def MQTTSerialize_zero_def Let_def encode_step(1))

lemma ack_read_back:
  assumes "MQTTSerialize_ack buflen type dup packetid = (rc, bs)" "rc \<ge> 0" "type < 16" "dup < 2"
  shows "MQTTDeserialize_ack (bs @ rest) = Some (type, dup, packetid)"
proof -
  let ?h = "header_byte type dup (if type = msg_code PUBREL then 1 else 0) 0"
  have bs: "bs = ?h # MQTTPacket_encode 2 @ writeInt (unat packetid)"
    using assms(1,2) by (auto simp: MQTTSerialize_ack_def Let_def BUFFER_TOO_SHORT_def split: if_splits)
  have e: "MQTTPacket_encode 2 = [2]" by (simp add: encode_step(1))
  have b: "body_of (bs @ rest) = (2, 4)" using body_of_packet [of 2 ?h "writeInt (unat packetid) @ rest"] unfolding bs e by simp
  have i: "readInt (bs @ rest) 2 = unat packetid"
    using read_write_int [OF id_small, of "[?h, 2]" packetid rest] unfolding bs e by (simp add: numeral_2_eq_2)
  have t: "type AND 15 = type" using assms(3) unfolding masks take_bit_eq_mask [symmetric] by (simp add: take_bit_eq_mod mod_word_less)
  show ?thesis unfolding MQTTDeserialize_ack_def b using i by (simp add: bs header_fields t fields_small assms(4))
qed

section \<open>Malformed packets\<close>

text \<open>A PUBLISH of a higher quality of service that ends behind its topic: the missing identifier is read
  all the same and makes the length of the payload negative.\<close>

lemma publish_without_id:
  "\<exists>p. MQTTDeserialize_publish 0 (([header_byte (msg_code PUBLISH) 0 1 0] @ [3] @ [0, 1, 116]) @ replicate 507 0) = Some p \<and>
     pub_payloadlen p = -2"
  by (simp add: MQTTDeserialize_publish_def Let_def body_of_def MQTTPacket_decodeBuf_def MQTTPacket_decode_def buffered.decode_byte
      readMQTTLenString_def readInt_def header_fields msg_code.simps)

text \<open>A SUBACK that grants two topics writes two results although the caller has room for one.\<close>

lemma suback_overflows:
  "MQTTDeserialize_suback 1 ([header_byte (msg_code SUBACK) 0 0 0, 4, 0, 1, 0, 0] @ replicate 506 0) = Some (True, 1, [0, 0])"
  by (simp add: MQTTDeserialize_suback_def body_of_def MQTTPacket_decodeBuf_def MQTTPacket_decode_def buffered.decode_byte
      header_fields readInt_def)

end
