(* ===== verification/Mqtt_Task.thy ===== *)
theory Mqtt_Task
  imports C_Strings Home_State
begin

text \<open>
  The cloud task (\<open>1_App/app_mqtt.c\<close>), which the present configuration leaves out of the build: the
  reading of JSON commands, the handler of a message, the texts it publishes, and one pass of its loop.
  The MQTT client and the network are parameters: their results, and the messages that a yield
  delivers, are inputs of the pass, and so is every reading of the kernel's tick. What is published
  is appended to a list. Log output is not modelled.
\<close>

section \<open>Reading numbers and strings of JSON\<close>

definition is_space :: "u8 \<Rightarrow> bool" where
  "is_space c \<longleftrightarrow> c = 32 \<or> (9 \<le> c \<and> c \<le> 13)"

definition scan_sign :: "u8 list \<Rightarrow> bool \<times> u8 list" where
  "scan_sign s = (case dropWhile is_space s of
     c # r \<Rightarrow> if c = 45 then (True, r) else if c = 43 then (False, r) else (False, c # r)
   | [] \<Rightarrow> (False, []))"

definition run_value :: "u8 list \<Rightarrow> nat" where
  "run_value ds = the (digits_value ds 0)"

text \<open>The conversion \<open>%d\<close>, on values that an \<open>int\<close> holds.\<close>

definition scan_int :: "u8 list \<Rightarrow> int option" where
  "scan_int s =
     (let (neg, r) = scan_sign s; ds = takeWhile is_digit r
      in if ds = [] then None else Some (if neg then - int (run_value ds) else int (run_value ds)))"

text \<open>The conversion \<open>%f\<close> of decimal numbers with an optional fraction and exponent, rounded once. The words
  for infinity and not-a-number and hexadecimal numbers are left out.\<close>

definition scan_exponent :: "u8 list \<Rightarrow> int" where
  "scan_exponent s = (case s of
     c # r \<Rightarrow> if c = 101 \<or> c = 69
               then let (neg, r1) = (case r of [] \<Rightarrow> (False, []) | d # r2 \<Rightarrow> if d = 45 then (True, r2) else if d = 43 then (False, r2) else (False, r));
                        ds = takeWhile is_digit r1
                    in if ds = [] then 0 else if neg then - int (run_value ds) else int (run_value ds)
               else 0
   | [] \<Rightarrow> 0)"

definition scan_float :: "u8 list \<Rightarrow> f32 option" where
  "scan_float s =
     (let (neg, r) = scan_sign s;
          ip = takeWhile is_digit r;
          r1 = dropWhile is_digit r;
          fp = (case r1 of c # r2 \<Rightarrow> if c = 46 then takeWhile is_digit r2 else [] | [] \<Rightarrow> []);
          r3 = (case r1 of c # r2 \<Rightarrow> if c = 46 then dropWhile is_digit r2 else r1 | [] \<Rightarrow> []);
          v = f32_rnd (real (run_value (ip @ fp)) * 10 powi (scan_exponent r3 - int (length fp)))
      in if ip @ fp = [] then None else Some (if neg then - v else v))"

text \<open>The text behind the colon of a key: the first place where the quoted key stands, then the next colon.\<close>

definition quoted :: "u8 list \<Rightarrow> u8 list" where
  "quoted s = [34] @ s @ [34]"

definition json_after_colon :: "u8 list \<Rightarrow> u8 list \<Rightarrow> u8 list option" where
  "json_after_colon payload key =
     (case strstr payload (snprintf 40 (quoted key)) of
        None \<Rightarrow> None
      | Some pos \<Rightarrow> (case strchr pos 58 of None \<Rightarrow> None | Some colon \<Rightarrow> Some (tl colon)))"

definition json_get_int :: "u8 list \<Rightarrow> u8 list \<Rightarrow> int option" where
  "json_get_int payload key = (case json_after_colon payload key of None \<Rightarrow> None | Some r \<Rightarrow> scan_int r)"

definition json_get_float :: "u8 list \<Rightarrow> u8 list \<Rightarrow> f32 option" where
  "json_get_float payload key = (case json_after_colon payload key of None \<Rightarrow> None | Some r \<Rightarrow> scan_float r)"

definition json_get_string :: "u8 list \<Rightarrow> u8 list \<Rightarrow> u16 \<Rightarrow> u8 list option" where
  "json_get_string payload key out_len =
     (if out_len < 2 then None
      else case json_after_colon payload key of
             None \<Rightarrow> None
           | Some r \<Rightarrow>
               (case dropWhile (\<lambda>c. c = 32 \<or> c = 9) r of
                  [] \<Rightarrow> None
                | c # start \<Rightarrow>
                    if c \<noteq> 34 then None
                    else (case strchr start 34 of
                            None \<Rightarrow> None
                          | Some end_ \<Rightarrow>
                              let len = of_nat (length start - length end_) :: u16;
                                  len1 = (if len \<ge> out_len then out_len - 1 else len)
                              in Some (take (unat len1) start))))"

definition to_lower :: "u8 \<Rightarrow> u8" where
  "to_lower c = (if 65 \<le> c \<and> c \<le> 90 then c - 65 + 97 else c)"

fun str_ieq :: "u8 list \<Rightarrow> u8 list \<Rightarrow> bool" where
  "str_ieq (a # as) (b # bs) = (if to_lower a \<noteq> to_lower b then False else str_ieq as bs)"
| "str_ieq as bs = (as = [] \<and> bs = [])"

definition json_has_cmd :: "u8 list \<Rightarrow> u8 list \<Rightarrow> bool" where
  "json_has_cmd payload cmd =
     (if strstr payload (snprintf 64 (quoted (text_bytes ''cmd'') @ [58] @ quoted cmd)) \<noteq> None then True
      else strstr payload (snprintf 64 (quoted (text_bytes ''cmd'') @ [32, 58, 32] @ quoted cmd)) \<noteq> None)"

section \<open>Commands\<close>

record mqtt_ctx =
  mq_home :: home_state
  mq_cfg :: runtime_cfg
  mq_log_level :: u8
  g_force_report :: u8
  mq_published :: "(u8 list \<times> u8 list) list"

definition SH_TOPIC_CMD :: "u8 list" where "SH_TOPIC_CMD = text_bytes ''/ipioqFsPt70/MiniBoard/user/getledCmd''"
definition SH_TOPIC_STATUS :: "u8 list" where "SH_TOPIC_STATUS = text_bytes ''/ipioqFsPt70/MiniBoard/user/status''"
definition SH_TOPIC_KEY_EVENT :: "u8 list" where "SH_TOPIC_KEY_EVENT = text_bytes ''/ipioqFsPt70/MiniBoard/user/keyInfo''"
definition SH_TOPIC_ALARM :: "u8 list" where "SH_TOPIC_ALARM = text_bytes ''/ipioqFsPt70/MiniBoard/user/alarm''"

definition on_mq_home :: "(home_state \<Rightarrow> home_state) \<Rightarrow> mqtt_ctx \<Rightarrow> mqtt_ctx" where
  "on_mq_home f m = m\<lparr>mq_home := f (mq_home m)\<rparr>"

definition Mqtt_RequestImmediateReport :: "mqtt_ctx \<Rightarrow> mqtt_ctx" where
  "Mqtt_RequestImmediateReport m = m\<lparr>g_force_report := 1\<rparr>"

definition truth :: "int \<Rightarrow> u8" where
  "truth value = (if value \<noteq> 0 then 1 else 0)"

text \<open>The branches of the handler; a result \<open>None\<close> stands for a command that was not handled.\<close>

definition mqtt_set_mode :: "u8 list \<Rightarrow> mqtt_ctx \<Rightarrow> mqtt_ctx option" where
  "mqtt_set_mode payload m =
     (case json_get_int payload (text_bytes ''value'') of
        Some v \<Rightarrow> Some (on_mq_home (SmartHomeState_SetMode (if v \<noteq> 0 then SMARTHOME_MODE_AUTO else SMARTHOME_MODE_MANUAL)) m)
      | None \<Rightarrow>
          if strstr payload (text_bytes ''manual'') \<noteq> None then Some (on_mq_home (SmartHomeState_SetMode SMARTHOME_MODE_MANUAL) m)
          else if strstr payload (text_bytes ''auto'') \<noteq> None then Some (on_mq_home (SmartHomeState_SetMode SMARTHOME_MODE_AUTO) m)
          else None)"

definition mqtt_set_threshold :: "u8 list \<Rightarrow> mqtt_ctx \<Rightarrow> mqtt_ctx option" where
  "mqtt_set_threshold payload m =
     (let read = (\<lambda>k1 k2. case json_get_float payload (text_bytes k1) of
                            Some v \<Rightarrow> v
                          | None \<Rightarrow> (case json_get_float payload (text_bytes k2) of Some v \<Rightarrow> v | None \<Rightarrow> 0));
          temp_high = read ''temperature_high'' ''temp'';
          humi_high = read ''humidity_high'' ''humi''
      in if temp_high > 0 \<and> humi_high > 0 then Some (m\<lparr>mq_cfg := SmartHomeConfig_SetThreshold temp_high humi_high (mq_cfg m)\<rparr>)
         else None)"

definition mqtt_set_log_level :: "u8 list \<Rightarrow> mqtt_ctx \<Rightarrow> mqtt_ctx option" where
  "mqtt_set_log_level payload m =
     (let num = (case json_get_int payload (text_bytes ''value'') of Some v \<Rightarrow> Some v | None \<Rightarrow> json_get_int payload (text_bytes ''level''));
          name = (case json_get_string payload (text_bytes ''value'') 16 of Some s \<Rightarrow> Some s | None \<Rightarrow> json_get_string payload (text_bytes ''level'') 16)
      in case num of
           Some v \<Rightarrow>
             let v1 = (if v < 0 then 0 else v); v2 = (if v1 > 2 then 2 else v1)
             in Some (m\<lparr>mq_log_level := Log_SetLevel (word_of_int v2)\<rparr>)
         | None \<Rightarrow>
             (case name of
                None \<Rightarrow> None
              | Some s \<Rightarrow>
                  if str_ieq s (text_bytes ''error'') then Some (m\<lparr>mq_log_level := Log_SetLevel 0\<rparr>)
                  else if str_ieq s (text_bytes ''warn'') \<or> str_ieq s (text_bytes ''warning'') then Some (m\<lparr>mq_log_level := Log_SetLevel 1\<rparr>)
                  else if str_ieq s (text_bytes ''info'') then Some (m\<lparr>mq_log_level := Log_SetLevel 2\<rparr>)
                  else None))"

definition mqtt_command :: "u8 list \<Rightarrow> mqtt_ctx \<Rightarrow> mqtt_ctx option" where
  "mqtt_command payload m =
     (let value = json_get_int payload (text_bytes ''value'')
      in if json_has_cmd payload (text_bytes ''set_led'')
         then map_option (\<lambda>v. on_mq_home (SmartHomeState_SetManualLed (truth v)) m) value
         else if json_has_cmd payload (text_bytes ''set_buzzer'')
         then map_option (\<lambda>v. on_mq_home (SmartHomeState_SetManualBuzzer (truth v)) m) value
         else if json_has_cmd payload (text_bytes ''set_mode'') then mqtt_set_mode payload m
         else if json_has_cmd payload (text_bytes ''set_threshold'') then mqtt_set_threshold payload m
         else if json_has_cmd payload (text_bytes ''get_status'') then Some m
         else if json_has_cmd payload (text_bytes ''set_log_level'') then mqtt_set_log_level payload m
         else None)"

definition handle_mqtt_command :: "u8 list \<Rightarrow> u8 list \<Rightarrow> mqtt_ctx \<Rightarrow> mqtt_ctx" where
  "handle_mqtt_command topic payload m =
     (if topic \<noteq> SH_TOPIC_CMD then m
      else if strstr payload (text_bytes ''led on'') \<noteq> None
      then Mqtt_RequestImmediateReport (on_mq_home (SmartHomeState_SetManualLed 1) m)
      else if strstr payload (text_bytes ''led off'') \<noteq> None
      then Mqtt_RequestImmediateReport (on_mq_home (SmartHomeState_SetManualLed 0) m)
      else case mqtt_command payload m of None \<Rightarrow> m | Some m1 \<Rightarrow> Mqtt_RequestImmediateReport m1)"

text \<open>The callback of the client cuts topic and payload to its buffers.\<close>

definition messageArrived :: "u8 list \<times> u8 list \<Rightarrow> mqtt_ctx \<Rightarrow> mqtt_ctx" where
  "messageArrived msg m = handle_mqtt_command (cstr (take 127 (fst msg))) (cstr (take 255 (snd msg))) m"

section \<open>Publishing\<close>

text \<open>The result of the client is only logged.\<close>

definition mqtt_publish_text :: "u8 list \<Rightarrow> u8 list \<Rightarrow> mqtt_ctx \<Rightarrow> mqtt_ctx" where
  "mqtt_publish_text topic payload m = m\<lparr>mq_published := mq_published m @ [(topic, payload)]\<rparr>"

definition Log_LevelToString :: "u8 \<Rightarrow> string" where
  "Log_LevelToString level = (if level = 0 then ''error'' else if level = 1 then ''warn'' else if level = 2 then ''info'' else ''unknown'')"

definition json_field :: "string \<Rightarrow> u8 list \<Rightarrow> u8 list" where
  "json_field key val = quoted (text_bytes key) @ [58] @ val"

fun json_fields :: "u8 list list \<Rightarrow> u8 list" where
  "json_fields [] = []"
| "json_fields [f] = f"
| "json_fields (f # fs) = f @ [44] @ json_fields fs"

definition json_object :: "u8 list list \<Rightarrow> u8 list" where
  "json_object fs = [123] @ json_fields fs @ [125]"

definition json_u8 :: "u8 \<Rightarrow> u8 list" where
  "json_u8 v = text_bytes (decimal (unat v))"

definition status_payload :: "home_state \<Rightarrow> u8 \<Rightarrow> u8 list" where
  "status_payload st level = snprintf 256 (json_object
     [json_field ''temperature'' (text_bytes (one_decimal (temperature st))),
      json_field ''humidity'' (text_bytes (one_decimal (humidity st))),
      json_field ''led_on'' (json_u8 (led_on st)), json_field ''alarm_on'' (json_u8 (alarm_on st)),
      json_field ''mode'' (quoted (text_bytes (if mode st = SMARTHOME_MODE_AUTO then ''auto'' else ''manual''))),
      json_field ''wifi_connected'' (json_u8 (wifi_connected st)), json_field ''mqtt_connected'' (json_u8 (mqtt_connected st)),
      json_field ''mqtt_reconnect_fail_count'' (json_u8 (mqtt_reconnect_fail_count st)),
      json_field ''log_level'' (quoted (text_bytes (Log_LevelToString level)))])"

definition mqtt_publish_status :: "mqtt_ctx \<Rightarrow> mqtt_ctx" where
  "mqtt_publish_status m = mqtt_publish_text SH_TOPIC_STATUS (status_payload (mq_home m) (mq_log_level m)) m"

definition key_payload :: "u16 \<Rightarrow> u16 \<Rightarrow> u8 list" where
  "key_payload num time = snprintf 96 (json_object
     [json_field ''event'' (quoted (text_bytes ''key'')), json_field ''num'' (text_bytes (decimal (unat num))),
      json_field ''press_ms'' (text_bytes (decimal (unat time)))])"

definition alarm_payload :: "home_state \<Rightarrow> u8 list" where
  "alarm_payload st = snprintf 96 (json_object
     [json_field ''alarm_on'' (json_u8 (alarm_on st)), json_field ''temperature'' (text_bytes (one_decimal (temperature st))),
      json_field ''humidity'' (text_bytes (one_decimal (humidity st)))])"

section \<open>The task\<close>

text \<open>The results of the network connection, the MQTT connection and the subscription; later calls are made
  only when the earlier ones succeed.\<close>

definition mqtt_connect_and_subscribe :: "int \<Rightarrow> int \<Rightarrow> int \<Rightarrow> mqtt_ctx \<Rightarrow> bool \<times> mqtt_ctx" where
  "mqtt_connect_and_subscribe net conn sub m =
     (if net \<noteq> 0 then (False, on_mq_home (SmartHomeState_SetMQTTConnected 0 \<circ> SmartHomeState_SetWiFiConnected 0) m)
      else let m1 = on_mq_home (SmartHomeState_SetWiFiConnected 1) m
           in if conn \<noteq> 0 then (False, on_mq_home (SmartHomeState_SetMQTTConnected 0) m1)
              else if sub \<noteq> 0 then (False, on_mq_home (SmartHomeState_SetMQTTConnected 0) m1)
              else (True, on_mq_home (SmartHomeState_SetMQTTConnected 1) m1))"

definition mqtt_next_backoff_ms :: "u32 \<Rightarrow> u8 \<Rightarrow> u32" where
  "mqtt_next_backoff_ms base_ms fail_count =
     (let b0 = (if base_ms < 500 then 500 else base_ms);
          b = (push_bit 1 ^^ min (unat fail_count) 5) b0
      in if b > 30000 then 30000 else b)"

text \<open>The locals of the task; the last field counts the initialisations of the network.\<close>

record mqtt_task =
  mt_ctx :: mqtt_ctx
  last_report_tick :: u32
  last_reconnect_try_tick :: u32
  last_wifi_reinit_tick :: u32
  last_alarm_state :: u8
  reconnect_fail_count :: u8
  network_inits :: nat

text \<open>The inputs of a pass: a key event, the readings of the tick in the order of the code, the messages and
  the result of the yield, and the three results of a connection.\<close>

record mqtt_in =
  in_key :: "(u16 \<times> u16) option"
  in_tick :: "nat \<Rightarrow> u32"
  in_messages :: "(u8 list \<times> u8 list) list"
  in_yield :: int
  in_net :: int
  in_conn :: int
  in_sub :: int

definition on_ctx :: "(mqtt_ctx \<Rightarrow> mqtt_ctx) \<Rightarrow> mqtt_task \<Rightarrow> mqtt_task" where
  "on_ctx f t = t\<lparr>mt_ctx := f (mt_ctx t)\<rparr>"

definition mqtt_report :: "mqtt_in \<Rightarrow> mqtt_task \<Rightarrow> mqtt_task" where
  "mqtt_report i t =
     (if g_force_report (mt_ctx t) \<noteq> 0 \<or> in_tick i 0 - last_report_tick t \<ge> ucast (mqtt_report_period_ms (mq_cfg (mt_ctx t)))
      then (on_ctx (\<lambda>m. (mqtt_publish_status m)\<lparr>g_force_report := 0\<rparr>) t)\<lparr>last_report_tick := in_tick i 1\<rparr> else t)"

definition mqtt_alarm :: "mqtt_task \<Rightarrow> mqtt_task" where
  "mqtt_alarm t =
     (let st = mq_home (mt_ctx t)
      in if alarm_on st \<noteq> last_alarm_state t
         then (on_ctx (mqtt_publish_text SH_TOPIC_ALARM (alarm_payload st)) t)\<lparr>last_alarm_state := alarm_on st\<rparr> else t)"

definition mqtt_yield :: "mqtt_in \<Rightarrow> mqtt_task \<Rightarrow> mqtt_task" where
  "mqtt_yield i t =
     (if mqtt_connected (mq_home (mt_ctx t)) \<noteq> 0
      then let t1 = on_ctx (fold messageArrived (in_messages i)) t
           in if in_yield i \<noteq> 0 then on_ctx (on_mq_home (SmartHomeState_SetMQTTConnected 0)) t1 else t1
      else t)"

definition set_fail_count :: "u8 \<Rightarrow> mqtt_task \<Rightarrow> mqtt_task" where
  "set_fail_count n t = (on_ctx (on_mq_home (SmartHomeState_SetMQTTReconnectFailCount n)) t)\<lparr>reconnect_fail_count := n\<rparr>"

definition mqtt_attempt :: "mqtt_in \<Rightarrow> mqtt_task \<Rightarrow> mqtt_task" where
  "mqtt_attempt i t =
     (let now = in_tick i 3;
          t1 = t\<lparr>last_reconnect_try_tick := in_tick i 4\<rparr>;
          t2 = (if now - last_wifi_reinit_tick t1 \<ge> ucast (wifi_reconnect_period_ms (mq_cfg (mt_ctx t1)))
                then t1\<lparr>last_wifi_reinit_tick := now, network_inits := network_inits t1 + 1\<rparr> else t1);
          (ok, m) = mqtt_connect_and_subscribe (in_net i) (in_conn i) (in_sub i) (mt_ctx t2);
          t3 = t2\<lparr>mt_ctx := m\<rparr>
      in if ok then on_ctx Mqtt_RequestImmediateReport (set_fail_count 0 t3)
         else if reconnect_fail_count t3 < 0xFF then set_fail_count (reconnect_fail_count t3 + 1) t3
         else t3)"

definition mqtt_reconnect :: "mqtt_in \<Rightarrow> mqtt_task \<Rightarrow> mqtt_task" where
  "mqtt_reconnect i t =
     (if mqtt_connected (mq_home (mt_ctx t)) = 0 \<and>
         in_tick i 2 - last_reconnect_try_tick t \<ge>
           mqtt_next_backoff_ms (ucast (mqtt_reconnect_period_ms (mq_cfg (mt_ctx t)))) (reconnect_fail_count t)
      then mqtt_attempt i t
      else if mqtt_connected (mq_home (mt_ctx t)) \<noteq> 0 then set_fail_count 0 t
      else t)"

definition mqtt_key :: "mqtt_in \<Rightarrow> mqtt_task \<Rightarrow> mqtt_task" where
  "mqtt_key i t =
     (case in_key i of None \<Rightarrow> t | Some (num, time) \<Rightarrow> on_ctx (mqtt_publish_text SH_TOPIC_KEY_EVENT (key_payload num time)) t)"

definition prvMQTTEchoTask_pass :: "mqtt_in \<Rightarrow> mqtt_task \<Rightarrow> mqtt_task" where
  "prvMQTTEchoTask_pass i t = mqtt_reconnect i (mqtt_yield i (mqtt_alarm (mqtt_report i (mqtt_key i t))))"

text \<open>What comes before the loop: the flags are cleared and a first connection is tried.\<close>

definition prvMQTTEchoTask_start :: "mqtt_in \<Rightarrow> mqtt_ctx \<Rightarrow> mqtt_task" where
  "prvMQTTEchoTask_start i m =
     (let m1 = on_mq_home (SmartHomeState_SetMQTTReconnectFailCount 0 \<circ> SmartHomeState_SetMQTTConnected 0 \<circ> SmartHomeState_SetWiFiConnected 0) m;
          m2 = Mqtt_RequestImmediateReport (snd (mqtt_connect_and_subscribe (in_net i) (in_conn i) (in_sub i) m1))
      in \<lparr>mt_ctx = m2, last_report_tick = in_tick i 0, last_reconnect_try_tick = in_tick i 1, last_wifi_reinit_tick = in_tick i 2,
          last_alarm_state = alarm_on (mq_home m2), reconnect_fail_count = 0, network_inits = 1\<rparr>)"

section \<open>A command is executed\<close>

lemma decimal_first: "\<exists>d ds. text_bytes (decimal n) = d # ds \<and> is_digit d"
proof -
  obtain d ds where "text_bytes (decimal n) = d # ds" by (cases "text_bytes (decimal n)") (auto simp: text_bytes_def)
  then show ?thesis using decimal_digits [of n] by auto
qed

lemma digit_no_sign: "is_digit c \<Longrightarrow> \<not> is_space c \<and> c \<noteq> 45 \<and> c \<noteq> 43 \<and> c \<noteq> 0"
  by (auto simp: is_digit_bounds is_space_def word_le_nat_alt)

lemma scan_decimal:
  assumes "\<not> is_digit c"
  shows "scan_int (text_bytes (signed_decimal n) @ c # r) = Some n"
proof (cases "n < 0")
  case True
  have "text_bytes (signed_decimal n) = 45 # text_bytes (decimal (nat (- n)))"
    using True by (simp add: signed_decimal_def) (simp add: text_bytes_def)
  then show ?thesis
    using True takeWhile_decimal [OF assms, of "nat (- n)" r] decimal_value [of "nat (- n)"]
    by (simp add: scan_int_def scan_sign_def is_space_def run_value_def text_bytes_def)
next
  case False
  obtain d ds where d: "text_bytes (decimal (nat n)) = d # ds" "is_digit d" using decimal_first by blast
  then have "scan_sign (text_bytes (decimal (nat n)) @ c # r) = (False, text_bytes (decimal (nat n)) @ c # r)"
    using digit_no_sign by (simp add: scan_sign_def)
  then show ?thesis
    using False takeWhile_decimal [OF assms, of "nat n" r] decimal_value [of "nat n"] d(1)
    by (simp add: scan_int_def signed_decimal_def run_value_def)
qed

text \<open>The command as a sender writes it.\<close>

definition json_command :: "string \<Rightarrow> int \<Rightarrow> u8 list" where
  "json_command c n = json_object [json_field ''cmd'' (quoted (text_bytes c)), json_field ''value'' (text_bytes (signed_decimal n))]"

definition number_tail :: "int \<Rightarrow> u8 list" where
  "number_tail n = text_bytes (signed_decimal n) @ [125]"

lemma number_tail_bytes: "c \<in> set (number_tail n) \<Longrightarrow> is_digit c \<or> c = 45 \<or> c = 125"
  using signed_decimal_bytes by (auto simp: number_tail_def)

lemma number_tail_absent: "\<not> is_digit p \<Longrightarrow> p \<noteq> 45 \<Longrightarrow> p \<noteq> 125 \<Longrightarrow> strstr (number_tail n) (p # ps) = None"
  by (rule strstr_absent) (use number_tail_bytes in blast)

lemma scan_tail: "scan_int (number_tail n) = Some n"
  using scan_decimal [of 125 n "[]"] by (simp add: number_tail_def is_digit_def)

lemma command_bytes:
  "json_command c n = [123, 34, 99, 109, 100, 34, 58, 34] @ text_bytes c @ [34, 44, 34, 118, 97, 108, 117, 101, 34, 58] @ number_tail n"
  by (simp add: json_command_def json_object_def json_field_def quoted_def number_tail_def text_bytes_def)

lemmas json_search = strstr_hd number_tail_absent is_digit_def json_has_cmd_def json_get_int_def json_after_colon_def
  quoted_def snprintf_def text_bytes_def scan_tail

lemma set_led_found:
  "strstr (json_command ''set_led'' n) (text_bytes ''led on'') = None"
  "strstr (json_command ''set_led'' n) (text_bytes ''led off'') = None"
  "json_get_int (json_command ''set_led'' n) (text_bytes ''value'') = Some n"
  "json_has_cmd (json_command ''set_led'' n) (text_bytes ''set_led'')"
  "\<not> json_has_cmd (json_command ''set_led'' n) (text_bytes ''set_buzzer'')"
  "\<not> json_has_cmd (json_command ''set_led'' n) (text_bytes ''set_mode'')"
  unfolding command_bytes by (simp_all add: json_search del: strstr.simps)

lemma set_buzzer_found:
  "strstr (json_command ''set_buzzer'' n) (text_bytes ''led on'') = None"
  "strstr (json_command ''set_buzzer'' n) (text_bytes ''led off'') = None"
  "json_get_int (json_command ''set_buzzer'' n) (text_bytes ''value'') = Some n"
  "\<not> json_has_cmd (json_command ''set_buzzer'' n) (text_bytes ''set_led'')"
  "json_has_cmd (json_command ''set_buzzer'' n) (text_bytes ''set_buzzer'')"
  "\<not> json_has_cmd (json_command ''set_buzzer'' n) (text_bytes ''set_mode'')"
  unfolding command_bytes by (simp_all add: json_search del: strstr.simps)

lemma set_mode_found:
  "strstr (json_command ''set_mode'' n) (text_bytes ''led on'') = None"
  "strstr (json_command ''set_mode'' n) (text_bytes ''led off'') = None"
  "json_get_int (json_command ''set_mode'' n) (text_bytes ''value'') = Some n"
  "\<not> json_has_cmd (json_command ''set_mode'' n) (text_bytes ''set_led'')"
  "\<not> json_has_cmd (json_command ''set_mode'' n) (text_bytes ''set_buzzer'')"
  "json_has_cmd (json_command ''set_mode'' n) (text_bytes ''set_mode'')"
  unfolding command_bytes by (simp_all add: json_search del: strstr.simps)

lemmas commands_found = set_led_found set_buzzer_found set_mode_found

lemma command_length:
  assumes "\<bar>n\<bar> < 2 ^ 31" "c \<in> {''set_led'', ''set_buzzer'', ''set_mode''}"
  shows "length (json_command c n) \<le> 64"
proof -
  have "length (decimal (nat \<bar>n\<bar>)) \<le> 10" using decimal_length [of "nat \<bar>n\<bar>" 9] assms(1) by simp
  then have "length (signed_decimal n) \<le> 11" by (auto simp: signed_decimal_def)
  then show ?thesis using assms(2) unfolding command_bytes by (auto simp: number_tail_def)
qed

lemma command_fits:
  assumes "\<bar>n\<bar> < 2 ^ 31" "c \<in> {''set_led'', ''set_buzzer'', ''set_mode''}"
  shows "cstr (take 255 (json_command c n)) = json_command c n"
proof -
  have "0 \<notin> set (number_tail n)" using number_tail_bytes [of 0 n] by (auto simp: is_digit_def)
  then have "0 \<notin> set (json_command c n)" using assms(2) unfolding command_bytes by (auto simp: text_bytes_def)
  then show ?thesis using command_length [OF assms] by (auto simp: cstr_def takeWhile_eq_all_conv)
qed

lemma topic_fits: "cstr (take 127 SH_TOPIC_CMD) = SH_TOPIC_CMD"
  by (simp add: SH_TOPIC_CMD_def cstr_def text_bytes_def)

lemma command_taken:
  assumes "\<bar>n\<bar> < 2 ^ 31"
    and "(c, f) \<in> {(''set_led'', SmartHomeState_SetManualLed (if n \<noteq> 0 then 1 else 0)),
      (''set_buzzer'', SmartHomeState_SetManualBuzzer (if n \<noteq> 0 then 1 else 0)),
      (''set_mode'', SmartHomeState_SetMode (if n \<noteq> 0 then SMARTHOME_MODE_AUTO else SMARTHOME_MODE_MANUAL))}"
  shows "messageArrived (SH_TOPIC_CMD, json_command c n) m = Mqtt_RequestImmediateReport (on_mq_home f m)"
proof -
  have c: "c \<in> {''set_led'', ''set_buzzer'', ''set_mode''}" using assms(2) by auto
  have "mqtt_command (json_command c n) m = Some (on_mq_home f m)"
    using assms(2) by (auto simp: mqtt_command_def mqtt_set_mode_def commands_found truth_def)
  moreover have "strstr (json_command c n) (text_bytes ''led on'') = None" "strstr (json_command c n) (text_bytes ''led off'') = None"
    using c by (auto simp: commands_found)
  ultimately show ?thesis by (simp add: messageArrived_def handle_mqtt_command_def topic_fits command_fits [OF assms(1) c])
qed

text \<open>C21: a command of the cloud is executed. A JSON object with one of the three setting commands and any
  value that an \<open>int\<close> holds, sent to the command topic, sets exactly the setting it names and asks for a
  report; the value counts as on when it is not zero. On any other topic it changes nothing.\<close>

theorem mqtt_command_executed:
  assumes "\<bar>n\<bar> < 2 ^ 31"
    and "(c, f) \<in> {(''set_led'', SmartHomeState_SetManualLed (if n \<noteq> 0 then 1 else 0)),
      (''set_buzzer'', SmartHomeState_SetManualBuzzer (if n \<noteq> 0 then 1 else 0)),
      (''set_mode'', SmartHomeState_SetMode (if n \<noteq> 0 then SMARTHOME_MODE_AUTO else SMARTHOME_MODE_MANUAL))}"
  shows "messageArrived (SH_TOPIC_CMD, json_command c n) m = Mqtt_RequestImmediateReport (on_mq_home f m) \<and>
    (cstr (take 127 topic) \<noteq> SH_TOPIC_CMD \<longrightarrow> messageArrived (topic, json_command c n) m = m)"
proof -
  show ?thesis using command_taken [OF assms] by (simp add: messageArrived_def handle_mqtt_command_def)
qed

definition mqtt_sample :: mqtt_ctx where
  "mqtt_sample = \<lparr>mq_home = SmartHomeState_Init, mq_cfg = SmartHomeConfig_Init, mq_log_level = 2, g_force_report = 0, mq_published = []\<rparr>"

theorem mqtt_command_executed_witness:
  "manual_led_on (mq_home (messageArrived (SH_TOPIC_CMD, json_command ''set_led'' (- 1)) mqtt_sample)) = 1"
  using mqtt_command_executed [of "- 1" "''set_led''" "SmartHomeState_SetManualLed 1" mqtt_sample "[]"]
  by (simp add: Mqtt_RequestImmediateReport_def on_mq_home_def SmartHomeState_SetManualLed_def flag01_def)

text \<open>The same command with a space only behind the colons, as many writers of JSON put it, is not
  recognised, although the function that logs the message reads it.\<close>

definition spaced_command :: "int \<Rightarrow> u8 list" where
  "spaced_command n = [123, 34, 99, 109, 100, 34, 58, 32, 34] @ text_bytes ''set_led'' @ [34, 44, 32, 34, 118, 97, 108, 117, 101, 34, 58, 32] @ number_tail n"

lemma spaced_command_ignored:
  "mqtt_command (spaced_command n) m = None" "json_get_string (spaced_command n) (text_bytes ''cmd'') 32 = Some (text_bytes ''set_led'')"
  by (simp_all add: mqtt_command_def spaced_command_def json_search json_get_string_def del: strstr.simps)

section \<open>The connection\<close>

text \<open>The wait between two attempts to connect doubles with every failure, from the configured period (at
  least half a second) up to thirty seconds; five doublings at most, and no overflow for any
  configured period.\<close>

theorem backoff_bounded:
  "unat (mqtt_next_backoff_ms (ucast (period :: u16)) fails) = min 30000 (max 500 (unat period) * 2 ^ min (unat fails) 5)"
proof -
  let ?k = "min (unat fails) 5"
  obtain b :: u32 where b: "b = (if (ucast period :: u32) < 500 then 500 else ucast period)" by blast
  have lt: "unat period < 65536" by (rule order_less_le_trans [OF unsigned_less]) simp
  have p: "unat (ucast period :: u32) = unat period" using lt by (simp add: unsigned_ucast_eq take_bit_nat_eq_self)
  have ub: "unat b = max 500 (unat period)" using p by (simp add: b word_less_nat_alt)
  have sh: "(push_bit 1 ^^ k) x = push_bit k x" for k and x :: u32
    by (induction k) (simp_all add: push_bit_eq_mult mult.assoc)
  have "(2 :: nat) ^ ?k \<le> 2 ^ 5" by (rule power_increasing) simp_all
  then have k: "(2 :: nat) ^ ?k \<le> 32" by simp
  have pm: "max 500 (unat period) \<le> 65535" using lt by simp
  have "max 500 (unat period) * 2 ^ ?k \<le> 65535 * 32" using mult_le_mono [OF pm k] by simp
  then have u: "unat (push_bit ?k b) = max 500 (unat period) * 2 ^ ?k"
    unfolding unsigned_push_bit_eq ub by (simp add: push_bit_eq_mult take_bit_nat_eq_self)
  have "(30000 :: u32) < push_bit ?k b \<longleftrightarrow> 30000 < max 500 (unat period) * 2 ^ ?k"
    unfolding word_less_nat_alt u by simp
  then show ?thesis unfolding mqtt_next_backoff_ms_def Let_def sh b [symmetric] using u by (cases "push_bit ?k b > 30000") simp_all
qed

text \<open>What can happen to the task: its own passes, and the other tasks, which change the readings, the alarm,
  the outputs and the settings but not the three fields of the connection, and may ask for a report.\<close>

inductive mqtt_step :: "mqtt_task \<Rightarrow> mqtt_task \<Rightarrow> bool" where
  pass: "mqtt_step t (prvMQTTEchoTask_pass i t)"
| others: "wifi_connected h = wifi_connected (mq_home (mt_ctx t)) \<Longrightarrow> mqtt_connected h = mqtt_connected (mq_home (mt_ctx t)) \<Longrightarrow>
    mqtt_reconnect_fail_count h = mqtt_reconnect_fail_count (mq_home (mt_ctx t)) \<Longrightarrow> mqtt_step t (on_ctx (on_mq_home (\<lambda>_. h)) t)"
| report: "mqtt_step t (on_ctx Mqtt_RequestImmediateReport t)"

definition link_ok :: "home_state \<Rightarrow> bool" where
  "link_ok h \<longleftrightarrow> (mqtt_connected h = 0 \<or> mqtt_connected h = 1 \<and> wifi_connected h = 1) \<and> wifi_connected h \<in> {0, 1} \<and>
     (mqtt_connected h = 1 \<longrightarrow> mqtt_reconnect_fail_count h = 0)"

definition mqtt_inv :: "mqtt_task \<Rightarrow> bool" where
  "mqtt_inv t \<longleftrightarrow> link_ok (mq_home (mt_ctx t)) \<and> mqtt_reconnect_fail_count (mq_home (mt_ctx t)) = reconnect_fail_count t \<and>
     (\<forall>(topic, payload) \<in> set (mq_published (mt_ctx t)). topic \<in> {SH_TOPIC_STATUS, SH_TOPIC_KEY_EVENT, SH_TOPIC_ALARM} \<and> length payload < 256)"

text \<open>A handler of a message leaves the connection and what was published alone.\<close>

definition link_kept :: "mqtt_ctx \<Rightarrow> mqtt_ctx \<Rightarrow> bool" where
  "link_kept m m' \<longleftrightarrow> wifi_connected (mq_home m') = wifi_connected (mq_home m) \<and> mqtt_connected (mq_home m') = mqtt_connected (mq_home m) \<and>
     mqtt_reconnect_fail_count (mq_home m') = mqtt_reconnect_fail_count (mq_home m) \<and> mq_published m' = mq_published m"

lemma link_kept_refl [simp]: "link_kept m m"
  by (simp add: link_kept_def)

lemma link_kept_trans: "link_kept a b \<Longrightarrow> link_kept b c \<Longrightarrow> link_kept a c"
  by (simp add: link_kept_def)

lemma link_kept_setters [simp]:
  "link_kept m (on_mq_home (SmartHomeState_SetManualLed v) m)" "link_kept m (on_mq_home (SmartHomeState_SetManualBuzzer v) m)"
  "link_kept m (on_mq_home (SmartHomeState_SetMode v) m)" "link_kept m (m\<lparr>mq_cfg := c\<rparr>)" "link_kept m (m\<lparr>mq_log_level := l\<rparr>)"
  "link_kept m (Mqtt_RequestImmediateReport m') \<longleftrightarrow> link_kept m m'"
  by (simp_all add: link_kept_def on_mq_home_def home_setters Mqtt_RequestImmediateReport_def)

lemma command_keeps_link: "mqtt_command payload m = Some m' \<Longrightarrow> link_kept m m'"
  by (auto simp: mqtt_command_def mqtt_set_mode_def mqtt_set_threshold_def mqtt_set_log_level_def Let_def split: if_splits option.splits)

lemma message_keeps_link: "link_kept m (messageArrived msg m)"
  by (auto simp: messageArrived_def handle_mqtt_command_def command_keeps_link split: option.split)

lemma messages_keep_link: "link_kept m (fold messageArrived msgs m)"
proof (induction msgs arbitrary: m)
  case (Cons msg msgs)
  then show ?case using link_kept_trans [OF message_keeps_link [of m msg]] by simp
qed simp

lemma link_kept_inv: "link_kept (mt_ctx t) (mt_ctx t') \<Longrightarrow> reconnect_fail_count t' = reconnect_fail_count t \<Longrightarrow> mqtt_inv t \<Longrightarrow> mqtt_inv t'"
  by (auto simp: mqtt_inv_def link_ok_def link_kept_def)

lemma publish_inv:
  assumes "mqtt_inv t" "topic \<in> {SH_TOPIC_STATUS, SH_TOPIC_KEY_EVENT, SH_TOPIC_ALARM}" "length payload < 256"
  shows "mqtt_inv (on_ctx (mqtt_publish_text topic payload) t)"
  using assms by (auto simp: mqtt_inv_def on_ctx_def mqtt_publish_text_def)

lemma payload_lengths: "length (status_payload st l) < 256" "length (key_payload n x) < 256" "length (alarm_payload st) < 256"
  by (simp_all add: status_payload_def key_payload_def alarm_payload_def snprintf_def)

lemma stages_inv:
  assumes "mqtt_inv t"
  shows "mqtt_inv (mqtt_key i t)" "mqtt_inv (mqtt_report i t)" "mqtt_inv (mqtt_alarm t)" "mqtt_inv (mqtt_yield i t)"
proof -
  show "mqtt_inv (mqtt_key i t)"
    using assms publish_inv payload_lengths by (simp add: mqtt_key_def split: option.split)
  have "mqtt_inv (on_ctx (mqtt_publish_text SH_TOPIC_STATUS (status_payload (mq_home (mt_ctx t)) (mq_log_level (mt_ctx t)))) t)"
    using assms publish_inv payload_lengths by simp
  then show "mqtt_inv (mqtt_report i t)"
    using assms by (simp add: mqtt_report_def mqtt_publish_status_def mqtt_inv_def on_ctx_def)
  have "mqtt_inv (on_ctx (mqtt_publish_text SH_TOPIC_ALARM (alarm_payload (mq_home (mt_ctx t)))) t)"
    using assms publish_inv payload_lengths by simp
  then show "mqtt_inv (mqtt_alarm t)" using assms by (simp add: mqtt_alarm_def mqtt_inv_def on_ctx_def Let_def)
  have m: "mqtt_inv (on_ctx (fold messageArrived (in_messages i)) t)"
    by (rule link_kept_inv [OF _ _ assms]) (simp_all add: on_ctx_def messages_keep_link)
  then have "mqtt_inv (on_ctx (on_mq_home (SmartHomeState_SetMQTTConnected 0)) (on_ctx (fold messageArrived (in_messages i)) t))"
    by (simp add: mqtt_inv_def link_ok_def on_ctx_def on_mq_home_def SmartHomeState_SetMQTTConnected_def flag01_def)
  then show "mqtt_inv (mqtt_yield i t)" using assms m by (simp add: mqtt_yield_def Let_def)
qed

text \<open>A connection attempt on every branch.\<close>

lemma connect_result:
  assumes "mqtt_connect_and_subscribe net conn sub m = (ok, m')"
  shows "ok \<longleftrightarrow> net = 0 \<and> conn = 0 \<and> sub = 0" "mqtt_connected (mq_home m') = (if ok then 1 else 0)"
    "wifi_connected (mq_home m') = (if net = 0 then 1 else 0)" "mqtt_reconnect_fail_count (mq_home m') = mqtt_reconnect_fail_count (mq_home m)"
    "mq_published m' = mq_published m"
  using assms by (auto simp: mqtt_connect_and_subscribe_def on_mq_home_def home_setters flag01_def Let_def split: if_splits)

lemma attempt_result:
  assumes "mqtt_inv t" "t' = mqtt_attempt i t" "ok \<longleftrightarrow> in_net i = 0 \<and> in_conn i = 0 \<and> in_sub i = 0"
  shows "mqtt_inv t'" "last_reconnect_try_tick t' = in_tick i 4" "mqtt_connected (mq_home (mt_ctx t')) = (if ok then 1 else 0)"
    "wifi_connected (mq_home (mt_ctx t')) = (if in_net i = 0 then 1 else 0)"
    "unat (reconnect_fail_count t') = (if ok then 0 else min 255 (unat (reconnect_fail_count t) + 1))"
proof -
  obtain b m where c: "mqtt_connect_and_subscribe (in_net i) (in_conn i) (in_sub i) (mt_ctx t) = (b, m)" by fastforce
  note r = connect_result [OF c]
  have b: "b = ok" using r(1) assms(3) by simp
  let ?n = "reconnect_fail_count t"
  have u: "unat (?n + 1) = unat ?n + 1" if "?n < 255"
    using that by (simp add: word_less_nat_alt unat_word_ariths)
  have "unat ?n < 256" by (rule order_less_le_trans [OF unsigned_less]) simp
  then have f: "unat ?n = 255" if "\<not> ?n < 255" using that by (simp add: word_less_nat_alt)
  have t': "mt_ctx t' = (if ok then Mqtt_RequestImmediateReport (on_mq_home (SmartHomeState_SetMQTTReconnectFailCount 0) m)
      else if ?n < 255 then on_mq_home (SmartHomeState_SetMQTTReconnectFailCount (?n + 1)) m else m)"
    "reconnect_fail_count t' = (if ok then 0 else if ?n < 255 then ?n + 1 else ?n)"
    unfolding assms(2) using c b by (simp_all add: mqtt_attempt_def Let_def on_ctx_def set_fail_count_def)
  show "last_reconnect_try_tick t' = in_tick i 4"
    unfolding assms(2) using c by (simp add: mqtt_attempt_def Let_def on_ctx_def set_fail_count_def)
  show "mqtt_connected (mq_home (mt_ctx t')) = (if ok then 1 else 0)" "wifi_connected (mq_home (mt_ctx t')) = (if in_net i = 0 then 1 else 0)"
    using r b unfolding t' by (simp_all add: on_mq_home_def home_setters Mqtt_RequestImmediateReport_def)
  show "unat (reconnect_fail_count t') = (if ok then 0 else min 255 (unat ?n + 1))"
    using u f unfolding t' by (auto simp: word_less_nat_alt)
  show "mqtt_inv t'"
    using assms(1) r b assms(3) unfolding mqtt_inv_def link_ok_def t'
    by (auto simp: on_mq_home_def home_setters Mqtt_RequestImmediateReport_def)
qed

text \<open>The last stage of a pass: an attempt exactly when the connection is down and the wait is over.\<close>

lemma reconnect_result:
  assumes "mqtt_inv t" "t' = mqtt_reconnect i t" "h = mq_home (mt_ctx t)" "h' = mq_home (mt_ctx t')"
    and "due \<longleftrightarrow> in_tick i 2 - last_reconnect_try_tick t \<ge>
      mqtt_next_backoff_ms (ucast (mqtt_reconnect_period_ms (mq_cfg (mt_ctx t)))) (reconnect_fail_count t)"
    and "ok \<longleftrightarrow> in_net i = 0 \<and> in_conn i = 0 \<and> in_sub i = 0"
  shows "mqtt_inv t' \<and>
    (if mqtt_connected h = 0 \<and> due
     then last_reconnect_try_tick t' = in_tick i 4 \<and> mqtt_connected h' = (if ok then 1 else 0) \<and>
       wifi_connected h' = (if in_net i = 0 then 1 else 0) \<and>
       unat (reconnect_fail_count t') = (if ok then 0 else min 255 (unat (reconnect_fail_count t) + 1))
     else last_reconnect_try_tick t' = last_reconnect_try_tick t \<and> mqtt_connected h' = mqtt_connected h \<and>
       wifi_connected h' = wifi_connected h \<and> reconnect_fail_count t' = reconnect_fail_count t)"
proof (cases "mqtt_connected h = 0 \<and> due")
  case True
  then have "t' = mqtt_attempt i t" using assms(2,3,5) by (simp add: mqtt_reconnect_def)
  then show ?thesis using True attempt_result [OF assms(1) _ assms(6)] assms(4) by simp
next
  case False
  then have t': "t' = (if mqtt_connected h \<noteq> 0 then set_fail_count 0 t else t)" using assms(2,3,5) by (auto simp: mqtt_reconnect_def)
  have z: "reconnect_fail_count t = 0" if "mqtt_connected h \<noteq> 0"
    using that assms(1,3) by (auto simp: mqtt_inv_def link_ok_def)
  show ?thesis using False assms(1,3,4) z unfolding t'
    by (auto simp: set_fail_count_def on_ctx_def on_mq_home_def home_setters mqtt_inv_def link_ok_def)
qed

lemma mqtt_start_inv: "mq_published m = [] \<Longrightarrow> mqtt_inv (prvMQTTEchoTask_start i m)"
  by (auto simp: prvMQTTEchoTask_start_def Let_def mqtt_inv_def link_ok_def mqtt_connect_and_subscribe_def on_mq_home_def
      home_setters Mqtt_RequestImmediateReport_def flag01_def)

lemma mqtt_step_inv: "mqtt_step t t' \<Longrightarrow> mqtt_inv t \<Longrightarrow> mqtt_inv t'"
proof (induction rule: mqtt_step.induct)
  case (pass t i)
  have "mqtt_inv (mqtt_yield i (mqtt_alarm (mqtt_report i (mqtt_key i t))))" using stages_inv pass by blast
  then show ?case using reconnect_result unfolding prvMQTTEchoTask_pass_def by blast
next
  case (others h t)
  then show ?case by (auto simp: mqtt_inv_def link_ok_def on_ctx_def on_mq_home_def)
next
  case (report t)
  then show ?case by (simp add: mqtt_inv_def on_ctx_def Mqtt_RequestImmediateReport_def)
qed

lemma mqtt_steps_inv: "mqtt_step\<^sup>*\<^sup>* t t' \<Longrightarrow> mqtt_inv t \<Longrightarrow> mqtt_inv t'"
  by (induction rule: rtranclp_induct) (auto dest: mqtt_step_inv)

text \<open>C24: the state of the cloud link is consistent. However passes of the task, of the other tasks and
  requests for a report are ordered, whatever messages arrive and however connections and yields end: the
  failure count that the home state shows is the one that the back-off uses, a connection to the broker
  implies a connection to the network and no failures, and everything published goes to one of three
  topics and fits its buffer.\<close>

theorem mqtt_link_consistent:
  assumes "mqtt_step\<^sup>*\<^sup>* (prvMQTTEchoTask_start i m) t" "mq_published m = []"
  shows "mqtt_reconnect_fail_count (mq_home (mt_ctx t)) = reconnect_fail_count t \<and>
    (mqtt_connected (mq_home (mt_ctx t)) = 0 \<or> mqtt_connected (mq_home (mt_ctx t)) = 1 \<and>
       wifi_connected (mq_home (mt_ctx t)) = 1 \<and> reconnect_fail_count t = 0) \<and>
    (\<forall>(topic, payload) \<in> set (mq_published (mt_ctx t)). topic \<in> {SH_TOPIC_STATUS, SH_TOPIC_KEY_EVENT, SH_TOPIC_ALARM} \<and> length payload < 256)"
  using mqtt_steps_inv [OF assms(1) mqtt_start_inv [OF assms(2)]] by (auto simp: mqtt_inv_def link_ok_def)

text \<open>A start without network, and one more attempt that fails after the first wait.\<close>

definition mqtt_down :: mqtt_in where
  "mqtt_down = \<lparr>in_key = None, in_tick = (\<lambda>_. 5000), in_messages = [], in_yield = 0, in_net = -1, in_conn = 0, in_sub = 0\<rparr>"

theorem mqtt_link_consistent_witness:
  "let t = prvMQTTEchoTask_pass mqtt_down (prvMQTTEchoTask_start (mqtt_down\<lparr>in_tick := \<lambda>_. 0\<rparr>) mqtt_sample)
   in reconnect_fail_count t = 1 \<and> mqtt_reconnect_fail_count (mq_home (mt_ctx t)) = 1"
proof -
  let ?s = "prvMQTTEchoTask_start (mqtt_down\<lparr>in_tick := \<lambda>_. 0\<rparr>) mqtt_sample"
  let ?t = "prvMQTTEchoTask_pass mqtt_down ?s"
  have "mqtt_step\<^sup>*\<^sup>* ?s ?t" by (rule r_into_rtranclp [where r = mqtt_step], rule mqtt_step.pass)
  then have "mqtt_reconnect_fail_count (mq_home (mt_ctx ?t)) = reconnect_fail_count ?t"
    using mqtt_link_consistent [of "mqtt_down\<lparr>in_tick := \<lambda>_. 0\<rparr>" mqtt_sample ?t] by (simp add: mqtt_sample_def)
  moreover have "reconnect_fail_count ?t = 1"
    by (simp add: prvMQTTEchoTask_pass_def prvMQTTEchoTask_start_def mqtt_down_def mqtt_sample_def mqtt_key_def mqtt_report_def mqtt_alarm_def
        mqtt_yield_def mqtt_reconnect_def mqtt_attempt_def mqtt_connect_and_subscribe_def mqtt_next_backoff_ms_def Let_def
        on_ctx_def on_mq_home_def home_setters Mqtt_RequestImmediateReport_def set_fail_count_def flag01_def
        SmartHomeState_Init_def SmartHomeConfig_Init_def mqtt_publish_status_def mqtt_publish_text_def)
  ultimately show ?thesis by simp
qed

end
