(* ===== verification/Mqtt_Client.thy ===== *)
theory Mqtt_Client
  imports Mqtt_Packet Mqtt_Task Net_Driver
begin

text \<open>
  The MQTT client (\<open>3_Protocol/MQTTClient-C/src/MQTTClient.c\<close>) over its network and timers, and the
  port to this device (\<open>FreeRTOS/MQTTFreeRTOS.c\<close>) over the driver of the wireless module. The
  client is a record of its structure; the send buffer is passed along, the receive buffer is kept with all
  its bytes. The handlers of messages are only named: what is delivered to which handler is
  appended to a list. The build without the separate task (\<open>MQTT_TASK\<close> undefined) is modelled.
\<close>

section \<open>Network and client\<close>

text \<open>
  The functions the client calls, over a state of the outside. A read delivers all bytes it was asked for or
  none, and a write sends all or nothing, as the functions of the port do. A timer is asked whether it has
  run out: the timer of a command, and the timers of the last packet sent and received (one answer for
  both).
\<close>

record 's network =
  mqttread :: "nat \<Rightarrow> 's \<Rightarrow> u8 list option \<times> 's"
  mqttwrite :: "u8 list \<Rightarrow> 's \<Rightarrow> bool \<times> 's"
  timer_expired :: "'s \<Rightarrow> bool \<times> 's"
  alive_expired :: "'s \<Rightarrow> bool \<times> 's"

record 'h mqtt_client =
  next_packetid :: u32
  cl_buf_size :: nat
  readbuf :: "u8 list"
  cl_keepAlive :: u32
  ping_outstanding :: bool
  isconnected :: bool
  cl_cleansession :: u8
  messageHandlers :: "(u8 list \<times> 'h) option list"
  defaultMessageHandler :: "'h option"
  cl_delivered :: "('h \<times> publish) list"

definition MAX_MESSAGE_HANDLERS :: nat where "MAX_MESSAGE_HANDLERS = 5"
definition MAX_PACKET_ID :: u32 where "MAX_PACKET_ID = 65535"
definition BUFFER_OVERFLOW :: int where "BUFFER_OVERFLOW = -2"
definition FAILURE :: int where "FAILURE = -1"

definition MQTTClientInit :: "nat \<Rightarrow> u8 list \<Rightarrow> 'h mqtt_client \<Rightarrow> 'h mqtt_client" where
  "MQTTClientInit sendbuf_size buf c =
     c\<lparr>next_packetid := 1, cl_buf_size := sendbuf_size, readbuf := buf, ping_outstanding := False, isconnected := False,
       cl_cleansession := 0, messageHandlers := replicate MAX_MESSAGE_HANDLERS None, defaultMessageHandler := None\<rparr>"

definition getNextPacketId :: "'h mqtt_client \<Rightarrow> u32 \<times> 'h mqtt_client" where
  "getNextPacketId c =
     (let v = (if next_packetid c = MAX_PACKET_ID then 1 else next_packetid c + 1) in (v, c\<lparr>next_packetid := v\<rparr>))"

section \<open>Packets out and in\<close>

text \<open>The sending loop: a write that sends nothing is tried again until the timer runs out. It is \<open>None\<close> when
  it never ends. The timer of the last packet sent is restarted in the outside.\<close>

partial_function (option) sendPacket :: "'s network \<Rightarrow> u8 list \<Rightarrow> 's \<Rightarrow> (bool \<times> 's) option" where
  "sendPacket net bs s =
     (case timer_expired net s of (e, s1) \<Rightarrow>
        if e then Some (False, s1)
        else case mqttwrite net bs s1 of (ok, s2) \<Rightarrow> if ok then Some (True, s2) else sendPacket net bs s2)"

definition read_byte :: "'s network \<Rightarrow> 's \<Rightarrow> u8 option \<times> 's" where
  "read_byte net s = (case mqttread net 1 s of (None, s1) \<Rightarrow> (None, s1) | (Some bs, s1) \<Rightarrow> (Some (hd bs), s1))"

definition decodePacket :: "'s network \<Rightarrow> 's \<Rightarrow> nat \<times> 's" where
  "decodePacket net s = (case MQTTPacket_decode (read_byte net) s of (len, val, s1) \<Rightarrow> (val, s1))"

definition store_at :: "nat \<Rightarrow> u8 list \<Rightarrow> u8 list \<Rightarrow> u8 list" where
  "store_at k bs buf = take k buf @ bs @ drop (k + length bs) buf"

definition put_read :: "nat \<Rightarrow> u8 list \<Rightarrow> 'h mqtt_client \<Rightarrow> 'h mqtt_client" where
  "put_read k bs c = c\<lparr>readbuf := store_at k bs (readbuf c)\<rparr>"

text \<open>The type of the packet read, 0 after a time-out, or the code for a packet that does not fit.\<close>

definition readPacket :: "'s network \<Rightarrow> 'h mqtt_client \<Rightarrow> 's \<Rightarrow> int \<times> 'h mqtt_client \<times> 's" where
  "readPacket net c s =
     (case mqttread net 1 s of
        (None, s1) \<Rightarrow> (0, c, s1)
      | (Some h, s1) \<Rightarrow>
          (case decodePacket net s1 of
             (rem_len, s2) \<Rightarrow>
               let enc = MQTTPacket_encode rem_len; len = 1 + length enc;
                   c1 = put_read 1 enc (put_read 0 h c)
               in if rem_len > length (readbuf c) - len then (BUFFER_OVERFLOW, c1, s2)
                  else if rem_len > 0
                  then (case mqttread net rem_len s2 of
                          (None, s3) \<Rightarrow> (0, c1, s3)
                        | (Some body, s3) \<Rightarrow> (uint (header_type (readbuf c1 ! 0)), put_read len body c1, s3))
                  else (uint (header_type (readbuf c1 ! 0)), c1, s2)))"

section \<open>Delivering a message\<close>

text \<open>The filter of a subscription against the name of a topic: a plus sign stands for one level and the
  number sign for the rest.\<close>

fun isTopicMatched :: "u8 list \<Rightarrow> u8 list \<Rightarrow> bool" where
  "isTopicMatched (f # fs) (n # ns) =
     (if n = 47 \<and> f \<noteq> 47 then False
      else if f \<noteq> 43 \<and> f \<noteq> 35 \<and> f \<noteq> n then False
      else isTopicMatched fs (if f = 43 then dropWhile (\<lambda>x. x \<noteq> 47) ns else if f = 35 then [] else ns))"
| "isTopicMatched fs ns \<longleftrightarrow> ns = [] \<and> fs = []"

definition takes_topic :: "u8 list \<Rightarrow> u8 list \<times> 'h \<Rightarrow> bool" where
  "takes_topic topic slot \<longleftrightarrow> MQTTPacket_equals topic (fst slot) \<or> isTopicMatched (fst slot) topic"

definition slots_for :: "u8 list \<Rightarrow> 'h mqtt_client \<Rightarrow> (u8 list \<times> 'h) list" where
  "slots_for topic c = [slot. Some slot \<leftarrow> messageHandlers c, takes_topic topic slot]"

definition deliverMessage :: "publish \<Rightarrow> 'h mqtt_client \<Rightarrow> int \<times> 'h mqtt_client" where
  "deliverMessage msg c =
     (let hs = map snd (slots_for (pub_topic msg) c)
      in if hs \<noteq> [] then (0, c\<lparr>cl_delivered := cl_delivered c @ map (\<lambda>h. (h, msg)) hs\<rparr>)
         else case defaultMessageHandler c of
                Some h \<Rightarrow> (0, c\<lparr>cl_delivered := cl_delivered c @ [(h, msg)]\<rparr>)
              | None \<Rightarrow> (FAILURE, c))"

definition MQTTCleanSession :: "'h mqtt_client \<Rightarrow> 'h mqtt_client" where
  "MQTTCleanSession c = c\<lparr>messageHandlers := map (\<lambda>_. None) (messageHandlers c)\<rparr>"

definition MQTTCloseSession :: "'h mqtt_client \<Rightarrow> 'h mqtt_client" where
  "MQTTCloseSession c =
     (let c1 = c\<lparr>ping_outstanding := False, isconnected := False\<rparr>
      in if cl_cleansession c1 \<noteq> 0 then MQTTCleanSession c1 else c1)"

section \<open>The work of one packet\<close>

definition is_type :: "int \<Rightarrow> msg_type set \<Rightarrow> bool" where
  "is_type ptype ts \<longleftrightarrow> (\<exists>t \<in> ts. ptype = uint (msg_code t))"

definition keepalive :: "'s network \<Rightarrow> 'h mqtt_client \<Rightarrow> 's \<Rightarrow> (bool \<times> 'h mqtt_client \<times> 's) option" where
  "keepalive net c s =
     (if cl_keepAlive c = 0 then Some (True, c, s)
      else case alive_expired net s of
             (e, s1) \<Rightarrow>
               if \<not> e then Some (True, c, s1)
               else if ping_outstanding c then Some (False, c, s1)
               else case MQTTSerialize_pingreq (cl_buf_size c) of
                      (len, bs) \<Rightarrow>
                        if len > 0
                        then Option.bind (sendPacket net bs s1)
                               (\<lambda>(ok, s2). Some (ok, if ok then c\<lparr>ping_outstanding := True\<rparr> else c, s2))
                        else Some (True, c, s1))"

text \<open>The answer to a packet: whether the rest of the cycle is left out, and the result so far.\<close>

definition answer :: "'s network \<Rightarrow> int \<times> u8 list \<Rightarrow> 'h mqtt_client \<Rightarrow> 's \<Rightarrow> (bool \<times> int \<times> 'h mqtt_client \<times> 's) option" where
  "answer net out c s =
     (case out of (len, bs) \<Rightarrow>
        if len \<le> 0 then Some (True, FAILURE, c, s)
        else Option.bind (sendPacket net bs s) (\<lambda>(ok, s1). Some (\<not> ok, if ok then 0 else FAILURE, c, s1)))"

definition packet_work :: "'s network \<Rightarrow> int \<Rightarrow> 'h mqtt_client \<Rightarrow> 's \<Rightarrow> (bool \<times> int \<times> 'h mqtt_client \<times> 's) option" where
  "packet_work net ptype c s =
     (if ptype = 0 \<or> is_type ptype {CONNACK, PUBACK, SUBACK, UNSUBACK, PUBCOMP} then Some (False, 0, c, s)
      else if is_type ptype {PUBLISH}
      then (case MQTTDeserialize_publish 0 (readbuf c) of
              None \<Rightarrow> Some (True, 0, c, s)
            | Some msg \<Rightarrow>
                let c1 = snd (deliverMessage msg c)
                in if pub_qos msg = 0 then Some (False, 0, c1, s)
                   else answer net (if pub_qos msg = 1 then MQTTSerialize_ack (cl_buf_size c1) (msg_code PUBACK) 0 (pub_id msg)
                                    else if pub_qos msg = 2 then MQTTSerialize_ack (cl_buf_size c1) (msg_code PUBREC) 0 (pub_id msg)
                                    else (0, [])) c1 s)
      else if is_type ptype {PUBREC, PUBREL}
      then (case MQTTDeserialize_ack (readbuf c) of
              None \<Rightarrow> Some (True, FAILURE, c, s)
            | Some (type, dup, pid) \<Rightarrow>
                answer net (MQTTSerialize_ack (cl_buf_size c) (msg_code (if is_type ptype {PUBREC} then PUBREL else PUBCOMP)) 0 pid) c s)
      else if is_type ptype {PINGRESP} then Some (False, 0, c\<lparr>ping_outstanding := False\<rparr>, s)
      else Some (True, ptype, c, s))"

definition end_of_cycle :: "int \<Rightarrow> int \<Rightarrow> 'h mqtt_client \<Rightarrow> 's \<Rightarrow> (int \<times> 'h mqtt_client \<times> 's) option" where
  "end_of_cycle ptype rc c s =
     (if rc = 0 then Some (ptype, c, s) else Some (rc, if isconnected c then MQTTCloseSession c else c, s))"

definition cycle :: "'s network \<Rightarrow> 'h mqtt_client \<Rightarrow> 's \<Rightarrow> (int \<times> 'h mqtt_client \<times> 's) option" where
  "cycle net c s =
     (case readPacket net c s of
        (ptype, c1, s1) \<Rightarrow>
          Option.bind (packet_work net ptype c1 s1)
            (\<lambda>(leave, rc, c2, s2).
               if leave then end_of_cycle ptype rc c2 s2
               else Option.bind (keepalive net c2 s2)
                      (\<lambda>(ok, c3, s3). end_of_cycle ptype (if ok then rc else FAILURE) c3 s3)))"

partial_function (option) MQTTYield :: "'s network \<Rightarrow> 'h mqtt_client \<Rightarrow> 's \<Rightarrow> (int \<times> 'h mqtt_client \<times> 's) option" where
  "MQTTYield net c s =
     Option.bind (cycle net c s)
       (\<lambda>(rc, c1, s1).
          if rc < 0 then Some (FAILURE, c1, s1)
          else case timer_expired net s1 of (e, s2) \<Rightarrow> if e then Some (0, c1, s2) else MQTTYield net c1 s2)"

partial_function (option) waitfor_from :: "'s network \<Rightarrow> int \<Rightarrow> int \<Rightarrow> 'h mqtt_client \<Rightarrow> 's \<Rightarrow> (int \<times> 'h mqtt_client \<times> 's) option" where
  "waitfor_from net ptype rc c s =
     (case timer_expired net s of (e, s1) \<Rightarrow>
        if e then Some (rc, c, s1)
        else Option.bind (cycle net c s1)
               (\<lambda>(rc1, c1, s2). if rc1 \<noteq> ptype \<and> rc1 \<ge> 0 then waitfor_from net ptype rc1 c1 s2 else Some (rc1, c1, s2)))"

definition waitfor :: "'s network \<Rightarrow> msg_type \<Rightarrow> 'h mqtt_client \<Rightarrow> 's \<Rightarrow> (int \<times> 'h mqtt_client \<times> 's) option" where
  "waitfor net t c s = waitfor_from net (uint (msg_code t)) FAILURE c s"

section \<open>The operations of the client\<close>

text \<open>A packet is sent, and when it has been sent, an answer of a type is waited for; the last function reads it.\<close>

definition request :: "'s network \<Rightarrow> int \<times> u8 list \<Rightarrow> msg_type \<Rightarrow> ('h mqtt_client \<Rightarrow> int \<times> 'h mqtt_client) \<Rightarrow>
    'h mqtt_client \<Rightarrow> 's \<Rightarrow> (int \<times> 'h mqtt_client \<times> 's) option" where
  "request net out t f c s =
     (case out of (len, bs) \<Rightarrow>
        if len \<le> 0 then Some (FAILURE, c, s)
        else Option.bind (sendPacket net bs s)
               (\<lambda>(ok, s1). if \<not> ok then Some (FAILURE, c, s1)
                  else Option.bind (waitfor net t c s1)
                         (\<lambda>(rc, c1, s2). if rc = uint (msg_code t) then (case f c1 of (rc1, c2) \<Rightarrow> Some (rc1, c2, s2))
                                         else Some (FAILURE, c1, s2))))"

text \<open>What the operations other than the connection do with a failure.\<close>

definition close_on_failure :: "(int \<times> 'h mqtt_client \<times> 's) option \<Rightarrow> (int \<times> 'h mqtt_client \<times> 's) option" where
  "close_on_failure r = map_option (\<lambda>(rc, c, s). (rc, if rc = FAILURE then MQTTCloseSession c else c, s)) r"

definition MQTTConnect :: "'s network \<Rightarrow> connect_data \<Rightarrow> 'h mqtt_client \<Rightarrow> 's \<Rightarrow> (int \<times> 'h mqtt_client \<times> 's) option" where
  "MQTTConnect net o1 c s =
     (if isconnected c then Some (FAILURE, c, s)
      else let c1 = c\<lparr>cl_keepAlive := ucast (cd_keepAliveInterval o1), cl_cleansession := cd_cleansession o1\<rparr>
           in map_option (\<lambda>(rc, c2, s2). (rc, if rc = 0 then c2\<lparr>isconnected := True, ping_outstanding := False\<rparr> else c2, s2))
                (request net (MQTTSerialize_connect (cl_buf_size c1) o1) CONNACK
                   (\<lambda>c2. (case MQTTDeserialize_connack (readbuf c2) of Some (present, code) \<Rightarrow> uint code | None \<Rightarrow> FAILURE, c2)) c1 s))"

definition slot_index :: "('a \<Rightarrow> bool) \<Rightarrow> 'a list \<Rightarrow> nat" where
  "slot_index P xs = length (takeWhile (\<lambda>x. \<not> P x) xs)"

definition MQTTSetMessageHandler :: "u8 list \<Rightarrow> 'h option \<Rightarrow> 'h mqtt_client \<Rightarrow> int \<times> 'h mqtt_client" where
  "MQTTSetMessageHandler topicFilter handler c =
     (let slots = messageHandlers c;
          i = slot_index (\<lambda>slot. case slot of Some (f, h) \<Rightarrow> f = topicFilter | None \<Rightarrow> False) slots;
          found = i < length slots
      in case handler of
           None \<Rightarrow> if found then (0, c\<lparr>messageHandlers := slots[i := None]\<rparr>) else (FAILURE, c)
         | Some h \<Rightarrow>
             let j = (if found then i else slot_index (\<lambda>slot. slot = None) slots)
             in (if j < length slots then 0 else FAILURE,
                 if j < length slots then c\<lparr>messageHandlers := slots[j := Some (topicFilter, h)]\<rparr> else c))"

definition MQTTSubscribe :: "'s network \<Rightarrow> u8 list \<Rightarrow> u8 \<Rightarrow> 'h \<Rightarrow> 'h mqtt_client \<Rightarrow> 's \<Rightarrow> (int \<times> 'h mqtt_client \<times> 's) option" where
  "MQTTSubscribe net topicFilter qos h c s =
     close_on_failure
       (if \<not> isconnected c then Some (FAILURE, c, s)
        else case getNextPacketId c of
               (pid, c1) \<Rightarrow>
                 request net (MQTTSerialize_subscribe (cl_buf_size c1) 0 (ucast pid) [(c_string topicFilter, qos)]) SUBACK
                   (\<lambda>c2. case MQTTDeserialize_suback 1 (readbuf c2) of
                            Some (True, pid2, granted) \<Rightarrow>
                              if (case granted of [] \<Rightarrow> 0 | g # gs \<Rightarrow> g) \<noteq> 0x80 then MQTTSetMessageHandler topicFilter (Some h) c2 else (0, c2)
                          | _ \<Rightarrow> (0, c2)) c1 s)"

definition MQTTUnsubscribe :: "'s network \<Rightarrow> u8 list \<Rightarrow> 'h mqtt_client \<Rightarrow> 's \<Rightarrow> (int \<times> 'h mqtt_client \<times> 's) option" where
  "MQTTUnsubscribe net topicFilter c s =
     close_on_failure
       (if \<not> isconnected c then Some (FAILURE, c, s)
        else case getNextPacketId c of
               (pid, c1) \<Rightarrow>
                 request net (MQTTSerialize_unsubscribe (cl_buf_size c1) 0 (ucast pid) [c_string topicFilter]) UNSUBACK
                   (\<lambda>c2. (0, if MQTTDeserialize_unsuback (readbuf c2) then snd (MQTTSetMessageHandler topicFilter None c2) else c2)) c1 s)"

record mqtt_message =
  msg_qos :: u8
  msg_retained :: u8
  msg_id :: u16
  msg_payload :: "u8 list"

definition MQTTPublish :: "'s network \<Rightarrow> u8 list \<Rightarrow> mqtt_message \<Rightarrow> 'h mqtt_client \<Rightarrow> 's \<Rightarrow> (int \<times> 'h mqtt_client \<times> 's) option" where
  "MQTTPublish net topicName msg c s =
     close_on_failure
       (if \<not> isconnected c then Some (FAILURE, c, s)
        else case (if msg_qos msg = 1 \<or> msg_qos msg = 2 then getNextPacketId c else (ucast (msg_id msg), c)) of
               (pid, c1) \<Rightarrow>
                 let out = MQTTSerialize_publish (cl_buf_size c1) 0 (msg_qos msg) (msg_retained msg) (ucast pid) (c_string topicName) (msg_payload msg);
                     read_ack = (\<lambda>c2. (if MQTTDeserialize_ack (readbuf c2) = None then FAILURE else 0, c2))
                 in if msg_qos msg = 1 then request net out PUBACK read_ack c1 s
                    else if msg_qos msg = 2 then request net out PUBCOMP read_ack c1 s
                    else if fst out \<le> 0 then Some (FAILURE, c1, s)
                    else Option.bind (sendPacket net (snd out) s) (\<lambda>(ok, s1). Some (if ok then 0 else FAILURE, c1, s1)))"

definition MQTTDisconnect :: "'s network \<Rightarrow> 'h mqtt_client \<Rightarrow> 's \<Rightarrow> (int \<times> 'h mqtt_client \<times> 's) option" where
  "MQTTDisconnect net c s =
     map_option (\<lambda>(rc, c1, s1). (rc, MQTTCloseSession c1, s1))
       (case MQTTSerialize_disconnect (cl_buf_size c) of
          (len, bs) \<Rightarrow> if len > 0 then Option.bind (sendPacket net bs s) (\<lambda>(ok, s1). Some (if ok then 0 else FAILURE, c, s1))
                      else Some (FAILURE, c, s))"

section \<open>The port to this device\<close>

text \<open>
  The driver with what happens while the client waits: for each turn of a reading loop the bytes that arrive
  before it, or nothing when the time of the read has run out; the answers of the two kinds of timers; and
  the time that is left for a write. A read of more than one byte follows a read of single
  bytes, which resets the position of the driver, so the cells it starts with do not matter.
\<close>

record net_env =
  ne_driver :: net_driver
  ne_turns :: "u8 list option list"
  ne_timers :: "bool list"
  ne_alive :: "bool list"
  ne_left :: int

fun read_turns :: "u8 list \<Rightarrow> u8 list option list \<Rightarrow> net_driver \<Rightarrow> u8 list option \<times> u8 list option list \<times> net_driver" where
  "read_turns cells [] n =
     (case platform_net_read (Some cells) (of_nat (length cells)) n of
        (rc, cells1, n1) \<Rightarrow> (if rc = 0 then cells1 else None, [], n1))"
| "read_turns cells (None # ts) n =
     (case platform_net_read (Some cells) (of_nat (length cells)) n of
        (rc, cells1, n1) \<Rightarrow> (if rc = 0 then cells1 else None, ts, n1))"
| "read_turns cells (Some bs # ts) n =
     (case platform_net_read (Some cells) (of_nat (length cells)) (arrive bs n) of
        (rc, cells1, n1) \<Rightarrow> if rc = 0 then (cells1, ts, n1) else read_turns (the cells1) ts n1)"

definition FreeRTOS_read :: "nat \<Rightarrow> net_env \<Rightarrow> u8 list option \<times> net_env" where
  "FreeRTOS_read len e =
     (case read_turns (replicate len 0) (ne_turns e) (ne_driver e) of
        (r, ts, n) \<Rightarrow> (r, e\<lparr>ne_turns := ts, ne_driver := n\<rparr>))"

text \<open>A write waits for the module's confirmation while the turns go on; a wait that outlasts them, or reads
  beyond its buffer, counts as failed.\<close>

definition turn_bytes :: "u8 list option \<Rightarrow> u8 list" where
  "turn_bytes t = (case t of Some bs \<Rightarrow> bs | None \<Rightarrow> [])"

definition FreeRTOS_write :: "u8 list \<Rightarrow> net_env \<Rightarrow> bool \<times> net_env" where
  "FreeRTOS_write bs e =
     (case platform_net_write bs (of_nat (length bs)) (ne_left e)
             (map turn_bytes (ne_turns e)) (ne_driver e) of
        (r, ts, n) \<Rightarrow>
          (r = Some (At_code 0), e\<lparr>ne_turns := drop (length (ne_turns e) - length ts) (ne_turns e), ne_driver := n\<rparr>))"

definition TimerIsExpired :: "net_env \<Rightarrow> bool \<times> net_env" where
  "TimerIsExpired e = (case ne_timers e of [] \<Rightarrow> (True, e) | t # ts \<Rightarrow> (t, e\<lparr>ne_timers := ts\<rparr>))"

definition alive_timers :: "net_env \<Rightarrow> bool \<times> net_env" where
  "alive_timers e = (case ne_alive e of [] \<Rightarrow> (False, e) | t # ts \<Rightarrow> (t, e\<lparr>ne_alive := ts\<rparr>))"

definition freertos_network :: "net_env network" where
  "freertos_network = \<lparr>mqttread = FreeRTOS_read, mqttwrite = FreeRTOS_write, timer_expired = TimerIsExpired, alive_expired = alive_timers\<rparr>"

definition NetworkConnect :: "u8 list \<Rightarrow> u16 \<Rightarrow> u8 list list \<Rightarrow> net_driver \<Rightarrow> at_run" where
  "NetworkConnect addr port sched n = platform_net_connect (TCP_ID addr port) 500 sched n"

text \<open>The initialisation of the network: whether the functions of the structure have been set. What the hardware
  layer, the kernel and the allocator answer are arguments.\<close>

definition NetworkInit :: "hal_status \<Rightarrow> bool \<Rightarrow> u8 list option \<Rightarrow> u8 list option \<Rightarrow> u8 list \<Rightarrow> u8 list \<Rightarrow> u8 list list \<Rightarrow> net_driver \<Rightarrow>
    bool option \<times> u8 list list \<times> net_driver" where
  "NetworkInit uart created cells1 cells2 ssid pwd sched n =
     (case Driver_Net_Init uart created cells1 cells2 sched n of
        (None, sched1, n1) \<Rightarrow> (None, sched1, n1)
      | (Some r1, sched1, n1) \<Rightarrow>
          if r1 \<noteq> At_code 0 then (Some False, sched1, n1)
          else case platform_net_connect (WiFi_ID ssid pwd) 5000 sched1 n1 of
                 (r2, sched2, n2) \<Rightarrow> (map_option (\<lambda>r. r = At_code 0) r2, sched2, n2))"

definition FreeRTOS_disconnect :: "u8 list list \<Rightarrow> net_driver \<Rightarrow> at_run" where
  "FreeRTOS_disconnect sched n = platform_net_disconnect (TCP_ID [] 0) sched n"

section \<open>Reading a packet\<close>

text \<open>What the client needs of its network: the bytes that wait are read in order, and others are only added
  behind them. A network is ready as long as no timer of the keep-alive has run out.\<close>

locale byte_transport =
  fixes net :: "'s network" and items :: "'s \<Rightarrow> u8 list" and ready :: "'s \<Rightarrow> bool"
  assumes read_waiting: "ready s \<Longrightarrow> 0 < k \<Longrightarrow> k < 256 \<Longrightarrow> k \<le> length (items s) \<Longrightarrow>
      \<exists>s1 more. mqttread net k s = (Some (take k (items s)), s1) \<and> ready s1 \<and> items s1 = drop k (items s) @ more"
    and timers_keep: "ready s \<Longrightarrow> ready (snd (timer_expired net s)) \<and> items (snd (timer_expired net s)) = items s"
    "ready s \<Longrightarrow> \<exists>s1. alive_expired net s = (False, s1) \<and> ready s1 \<and> items s1 = items s"
begin

lemma read_byte_waiting:
  "ready s \<Longrightarrow> items s = c # cs \<Longrightarrow> \<exists>s1 more. read_byte net s = (Some c, s1) \<and> ready s1 \<and> items s1 = cs @ more"
  using read_waiting [of s 1] by (auto simp: read_byte_def)

end

sublocale byte_transport \<subseteq> bytes: byte_source "read_byte net" items ready
  by unfold_locales (rule read_byte_waiting)

text \<open>The receive buffer after a packet, and the result of reading one that waits.\<close>

definition packet_stored :: "u8 \<Rightarrow> u8 list \<Rightarrow> 'h mqtt_client \<Rightarrow> 'h mqtt_client" where
  "packet_stored h body c =
     (let p = h # MQTTPacket_encode (length body) @ body in c\<lparr>readbuf := p @ drop (length p) (readbuf c)\<rparr>)"

lemma store_at_next:
  "length a = k \<Longrightarrow> k + length bs \<le> length buf \<Longrightarrow> store_at k bs (a @ drop k buf) = (a @ bs) @ drop (k + length bs) buf"
  by (simp add: store_at_def add.commute)

context byte_transport begin

lemma readPacket_waiting:
  assumes "ready s" "items s = h # MQTTPacket_encode (length body) @ body @ rest" "length body < 256"
    and "1 + length (MQTTPacket_encode (length body)) + length body \<le> length (readbuf c)"
  shows "\<exists>s1 more. readPacket net c s = (uint (header_type h), packet_stored h body c, s1) \<and> ready s1 \<and> items s1 = rest @ more"
proof -
  let ?enc = "MQTTPacket_encode (length body)"
  let ?buf = "readbuf c"
  obtain s1 m1 where s1: "mqttread net 1 s = (Some [h], s1)" "ready s1" "items s1 = ?enc @ body @ rest @ m1"
    using read_waiting [OF assms(1), of 1] assms(2) by auto
  have e4: "length ?enc \<le> 4" using encode_bound [of "length body" 4] assms(3) by simp
  obtain s2 m2 where s2: "decodePacket net s1 = (length body, s2)" "ready s2" "items s2 = body @ rest @ m1 @ m2"
    using bytes.decode_encode [OF e4 s1(2,3)] by (auto simp: decodePacket_def)
  have b1: "store_at 0 [h] ?buf = [h] @ drop 1 ?buf" by (simp add: store_at_def)
  have b2: "store_at 1 ?enc ([h] @ drop 1 ?buf) = ([h] @ ?enc) @ drop (1 + length ?enc) ?buf"
    by (rule store_at_next) (use assms(4) in simp_all)
  have b3: "store_at (1 + length ?enc) body (([h] @ ?enc) @ drop (1 + length ?enc) ?buf) =
      (([h] @ ?enc) @ body) @ drop (1 + length ?enc + length body) ?buf"
    by (rule store_at_next) (use assms(4) in simp_all)
  let ?c1 = "put_read 1 ?enc (put_read 0 [h] c)"
  have c1: "readbuf ?c1 = ([h] @ ?enc) @ drop (1 + length ?enc) ?buf" unfolding put_read_def using b1 b2 by simp
  have c2: "put_read (1 + length ?enc) body ?c1 = packet_stored h body c"
    unfolding packet_stored_def Let_def put_read_def [of "1 + length ?enc"] c1 b3 by (simp add: put_read_def)
  have fits: "\<not> length body > length ?buf - (1 + length ?enc)" using assms(4) by simp
  show ?thesis
  proof (cases "body = []")
    case True
    then have "?c1 = packet_stored h body c" using c1 by (simp add: packet_stored_def put_read_def)
    then show ?thesis using True s1(1) s2 fits by (auto simp: readPacket_def Let_def packet_stored_def)
  next
    case False
    then obtain s3 m3 where "mqttread net (length body) s2 = (Some body, s3)" "ready s3" "items s3 = rest @ m1 @ m2 @ m3"
      using read_waiting [OF s2(2), of "length body"] assms(3) s2(3) by auto
    moreover have "readbuf ?c1 ! 0 = h" using c1 by simp
    ultimately show ?thesis using False s1(1) s2(1) fits c2 by (auto simp: readPacket_def Let_def)
  qed
qed

end

lemma platform_read_waiting:
  assumes "net_ready n" "0 < k" "k < 256" "k \<le> length (net_waiting n)" "length cells = k"
  shows "\<exists>n1 more. platform_net_read (Some cells) (of_nat k) (arrive bs n) = (0, Some (take k (net_waiting n)), n1) \<and>
    net_ready n1 \<and> net_waiting n1 = drop k (net_waiting n) @ more"
proof -
  have u: "unat (of_nat k :: u16) = k" using assms(3) by (simp add: unsigned_of_nat take_bit_nat_eq_self)
  then have z: "(of_nat k :: u16) \<noteq> 0" "uint (of_nat k :: u16) = int k" using assms(2) by (auto simp: uint_nat)
  show ?thesis using recv_waiting [OF assms, of bs] z by (simp add: platform_net_read_def)
qed

interpretation freertos: byte_transport freertos_network "\<lambda>e. net_waiting (ne_driver e)" "\<lambda>e. net_ready (ne_driver e) \<and> ne_alive e = []"
proof
  fix e :: net_env and k :: nat
  let ?n = "ne_driver e"
  assume q: "net_ready ?n \<and> ne_alive e = []" and b: "0 < k" "k < 256" "k \<le> length (net_waiting ?n)"
  have a: "net_ready ?n" using q by simp
  note r = platform_read_waiting [OF a b, of "replicate k 0"]
  have "arrive [] ?n = ?n" by (simp add: arrive_def)
  then have "\<exists>ts n1 more. read_turns (replicate k 0) (ne_turns e) ?n = (Some (take k (net_waiting ?n)), ts, n1) \<and>
      net_ready n1 \<and> net_waiting n1 = drop k (net_waiting ?n) @ more"
  proof (cases "ne_turns e")
    case Nil
    then show ?thesis using r [of "[]"] \<open>arrive [] ?n = ?n\<close> by auto
  next
    case (Cons t ts)
    then show ?thesis using r [of "case t of None \<Rightarrow> [] | Some bs \<Rightarrow> bs"] \<open>arrive [] ?n = ?n\<close> by (cases t) auto
  qed
  then show "\<exists>s1 more. mqttread freertos_network k e = (Some (take k (net_waiting ?n)), s1) \<and>
      (net_ready (ne_driver s1) \<and> ne_alive s1 = []) \<and> net_waiting (ne_driver s1) = drop k (net_waiting ?n) @ more"
    using q by (auto simp: freertos_network_def FreeRTOS_read_def)
qed (auto simp: freertos_network_def TimerIsExpired_def alive_timers_def split: list.split)

end
