(* ===== verification/Mqtt_Delivery.thy ===== *)
theory Mqtt_Delivery
  imports Mqtt_Client
begin

text \<open>
  The cloud connection from end to end: what the client delivers to the handler of the cloud task when a
  PUBLISH packet arrives over the wireless module, what it leaves on the line when it publishes, and that
  each of its operations returns. The lemmas on packets are proved over the interface of a network whose
  bytes are read in order (\<open>byte_transport\<close>), which the port to the module's driver fulfils.
\<close>

section \<open>A message reaches its handler\<close>

context byte_transport begin

lemma publish_delivered:
  assumes "ready s" "items s = bs @ rest" "MQTTSerialize_publish buflen dup 0 retained pid (c_string topic) payload = (rc, bs)" "rc \<ge> 0"
    and "dup < 2" "retained < 2" "length topic + length payload < 254" "length bs \<le> length (readbuf c)"
    and "slots_for topic c = [(f, h)]"
  shows "\<exists>c1 s1 msg more. cycle net c s = Some (3, c1, s1) \<and> cl_delivered c1 = cl_delivered c @ [(h, msg)] \<and>
    pub_topic msg = topic \<and> pub_payloadlen msg = int (length payload) \<and> take (length payload) (pub_payload msg) = payload \<and>
    messageHandlers c1 = messageHandlers c \<and> isconnected c1 = isconnected c \<and> ready s1 \<and> items s1 = rest @ more"
proof -
  let ?body = "writeInt (length topic) @ topic @ payload"
  let ?h = "header_byte (msg_code PUBLISH) dup 0 retained"
  have fit: "\<not> MQTTPacket_len (length ?body) > buflen"
    using assms(3,4) by (auto simp: MQTTSerialize_publish_def MQTTSerialize_publishLength_def MQTTstrlen_def Let_def BUFFER_TOO_SHORT_def split: if_splits)
  then have bs: "bs = ?h # MQTTPacket_encode (length ?body) @ ?body"
    using assms(3) by (simp add: MQTTSerialize_publish_def MQTTSerialize_publishLength_def MQTTstrlen_def writeMQTTString_def Let_def)
  have l: "length ?body < 256" using assms(7) by simp
  let ?buf = "bs @ drop (length bs) (readbuf c)"
  have st: "packet_stored ?h ?body c = c\<lparr>readbuf := ?buf\<rparr>" unfolding packet_stored_def Let_def bs by simp
  have ht: "uint (header_type ?h) = 3" by (simp add: header_fields)
  obtain s1 m1 where s1: "readPacket net c s = (3, c\<lparr>readbuf := ?buf\<rparr>, s1)" "ready s1" "items s1 = rest @ m1"
    using readPacket_waiting [OF assms(1) _ l, of ?h rest c] assms(2,8) unfolding st ht by (auto simp: bs)
  have small: "length topic < 65536" "(0 :: u8) < 4" using assms(7) by simp_all
  have wide: "MQTTSerialize_publish 512 dup 0 retained pid (c_string topic) payload = (int (length bs), bs)"
    using assms(7) encode_bound [of "length ?body" 2] unfolding bs
    by (simp add: MQTTSerialize_publish_def MQTTSerialize_publishLength_def MQTTstrlen_def writeMQTTString_def MQTTPacket_len_def Let_def)
  obtain msg where msg: "MQTTDeserialize_publish 0 ?buf = Some msg" "pub_qos msg = 0" "pub_topic msg = topic"
    "pub_payloadlen msg = int (length payload)" "take (length payload) (pub_payload msg) = payload"
    using publish_read_back(3) [OF wide _ _ assms(5) small(2) assms(6) small(1), of 0 "drop (length bs) (readbuf c)"] by auto
  let ?c2 = "c\<lparr>readbuf := ?buf, cl_delivered := cl_delivered c @ [(h, msg)]\<rparr>"
  have dv: "snd (deliverMessage msg (c\<lparr>readbuf := ?buf\<rparr>)) = ?c2"
    using assms(9) msg(3) by (simp add: deliverMessage_def slots_for_def Let_def)
  have w: "packet_work net 3 (c\<lparr>readbuf := ?buf\<rparr>) s1 = Some (False, 0, ?c2, s1)"
    using msg(1,2) dv by (simp add: packet_work_def is_type_def Let_def)
  have "\<exists>s2. keepalive net ?c2 s1 = Some (True, ?c2, s2) \<and> ready s2 \<and> items s2 = items s1"
    using timers_keep(2) [OF s1(2)] s1(2) by (auto simp: keepalive_def)
  then show ?thesis using w msg(3-5) s1 by (auto simp: cycle_def end_of_cycle_def)
qed

end

section \<open>A command, from the wire to the lamp\<close>

text \<open>The messages that the handler of the cloud task is called with.\<close>

definition app_messages :: "('h \<times> publish) list \<Rightarrow> (u8 list \<times> u8 list) list" where
  "app_messages = map (\<lambda>(h, p). (pub_topic p, take (nat (pub_payloadlen p)) (pub_payload p)))"

lemma pumped_stream:
  assumes "xNetUartRxQueue n = Some []" "recv_tmp n = 0" "ipd_at INIT_STATUS [] (ipd n)" "db_inv (NetDataBuffer (ipd n))"
    and "db_items (NetDataBuffer (ipd n)) = []" "\<forall>(noise, d) \<in> set ps. 43 \<notin> set noise \<and> d \<noteq> [] \<and> length d < 256"
    and "length (ipd_stream ps) \<le> 256" "length (concat (map snd ps)) \<le> db_cap (NetDataBuffer (ipd n))"
  shows "net_ready (Driver_Net_PumpRxQueue (arrive (ipd_stream ps) n))"
    "net_waiting (Driver_Net_PumpRxQueue (arrive (ipd_stream ps) n)) = concat (map snd ps)"
proof -
  have n1: "Driver_Net_PumpRxQueue (arrive (ipd_stream ps) n) = n\<lparr>xNetUartRxQueue := Some [],
      CMDRetBuffer := db.pushes (ipd_stream ps) (CMDRetBuffer n), ipd := fold NetDataProcess_Callback (ipd_stream ps) (ipd n)\<rparr>"
    using arrive_room [OF assms(1), of "ipd_stream ps"] assms(7) by (simp add: pump_queue)
  show "net_ready (Driver_Net_PumpRxQueue (arrive (ipd_stream ps) n))"
    "net_waiting (Driver_Net_PumpRxQueue (arrive (ipd_stream ps) n)) = concat (map snd ps)"
    using ipd_stream_received [OF assms(3,4,6)] assms(2,5,8) unfolding n1
    by (simp_all add: net_ready_def net_waiting_def ipd_ok_def ipd_at_def Let_def)
qed


text \<open>A client that has subscribed to the command topic, and a driver that has taken up one packet.\<close>

definition sample_client :: "nat mqtt_client" where
  "sample_client =
     \<lparr>next_packetid = 2, cl_buf_size = 512, readbuf = replicate 512 0, cl_keepAlive = 60, ping_outstanding = False,
      isconnected = True, cl_cleansession = 1, messageHandlers = Some (SH_TOPIC_CMD, 0) # replicate 4 None,
      defaultMessageHandler = None, cl_delivered = []\<rparr>"

definition env_of :: "net_driver \<Rightarrow> net_env" where
  "env_of n = \<lparr>ne_driver = n, ne_turns = [], ne_timers = [False, False], ne_alive = [], ne_left = 30000\<rparr>"

definition led_packet :: "u8 list" where
  "led_packet = snd (MQTTSerialize_publish 512 0 0 0 0 (c_string SH_TOPIC_CMD) (json_command ''set_led'' 1))"

lemma led_packet_length:
  "MQTTSerialize_publish 512 0 0 0 0 (c_string SH_TOPIC_CMD) (json_command ''set_led'' 1) = (68, led_packet)" "length led_packet = 68"
proof -
  have d: "signed_decimal 1 = ''1''" by (simp add: signed_decimal_def decimal.simps char_of_def bit_0)
  have j: "length (json_command ''set_led'' 1) = 27" unfolding command_bytes number_tail_def d by simp
  have t: "length SH_TOPIC_CMD = 37" by (simp add: SH_TOPIC_CMD_def)
  show "MQTTSerialize_publish 512 0 0 0 0 (c_string SH_TOPIC_CMD) (json_command ''set_led'' 1) = (68, led_packet)"
    "length led_packet = 68"
    by (simp_all add: led_packet_def MQTTSerialize_publish_def MQTTSerialize_publishLength_def MQTTstrlen_def writeMQTTString_def
        MQTTPacket_len_def Let_def t j encode_step(1))
qed


section \<open>Every operation returns\<close>

definition time_left :: "net_env \<Rightarrow> nat" where
  "time_left e = length (ne_timers e)"

text \<open>An operation that returns, with no more answers of the timer left than before.\<close>

definition comes_back :: "('x \<Rightarrow> net_env) \<Rightarrow> nat \<Rightarrow> 'x option \<Rightarrow> bool" where
  "comes_back env k r \<longleftrightarrow> (\<exists>x. r = Some x \<and> time_left (env x) \<le> k)"

lemma back_Some [simp]: "comes_back env k (Some x) \<longleftrightarrow> time_left (env x) \<le> k"
  by (simp add: comes_back_def)

lemma back_bind:
  "comes_back env k r \<Longrightarrow> (\<And>x. time_left (env x) \<le> k \<Longrightarrow> comes_back out k (f x)) \<Longrightarrow> comes_back out k (Option.bind r f)"
  by (auto simp: comes_back_def)

lemma back_map: "comes_back env k r \<Longrightarrow> (\<And>x. out (f x) = env x) \<Longrightarrow> comes_back out k (map_option f r)"
  by (auto simp: comes_back_def)

lemma back_mono: "comes_back env k r \<Longrightarrow> k \<le> l \<Longrightarrow> comes_back env l r"
  by (auto simp: comes_back_def)

abbreviation env2 :: "'a \<times> net_env \<Rightarrow> net_env" where "env2 \<equiv> snd"
abbreviation env3 :: "'a \<times> 'b \<times> net_env \<Rightarrow> net_env" where "env3 x \<equiv> snd (snd x)"
abbreviation env4 :: "'a \<times> 'b \<times> 'c \<times> net_env \<Rightarrow> net_env" where "env4 x \<equiv> snd (snd (snd x))"

lemma read_keeps: "ne_timers (snd (FreeRTOS_read k e)) = ne_timers e"
  by (simp add: FreeRTOS_read_def split: prod.split)

lemma write_keeps: "ne_timers (snd (FreeRTOS_write bs e)) = ne_timers e"
  by (simp add: FreeRTOS_write_def split: prod.split)

lemma network_keeps:
  "mqttread freertos_network k e = (r, e1) \<Longrightarrow> time_left e1 = time_left e"
  "mqttwrite freertos_network bs e = (ok, e1) \<Longrightarrow> time_left e1 = time_left e"
  "alive_expired freertos_network e = (b, e1) \<Longrightarrow> time_left e1 = time_left e"
  using read_keeps [of k e] write_keeps [of bs e]
  by (auto simp: freertos_network_def time_left_def alive_timers_def split: list.splits)

lemma timer_runs:
  "timer_expired freertos_network e = (False, e1) \<Longrightarrow> time_left e1 < time_left e"
  "timer_expired freertos_network e = (b, e1) \<Longrightarrow> time_left e1 \<le> time_left e"
  by (auto simp: freertos_network_def time_left_def TimerIsExpired_def split: list.splits)

lemma send_returns: "comes_back env2 (time_left e) (sendPacket freertos_network bs e)"
proof (induction "time_left e" arbitrary: e rule: less_induct)
  case less
  obtain b e1 where t: "timer_expired freertos_network e = (b, e1)" by (cases "timer_expired freertos_network e")
  obtain ok e2 where w: "mqttwrite freertos_network bs e1 = (ok, e2)" by (cases "mqttwrite freertos_network bs e1")
  show ?case
  proof (cases "b \<or> ok")
    case True
    then show ?thesis using t w timer_runs [of e] network_keeps(2) [OF w]
      by (subst sendPacket.simps) (auto split: if_splits)
  next
    case False
    then have "time_left e2 < time_left e" using t timer_runs(1) network_keeps(2) [OF w] by simp
    then show ?thesis using less [of e2] False t w by (subst sendPacket.simps) (auto intro: back_mono)
  qed
qed

lemma decode_keeps:
  "(\<And>s. P s \<Longrightarrow> P (snd (getc s))) \<Longrightarrow> P s \<Longrightarrow> P (snd (snd (MQTTPacket_decode_from getc len multiplier val s)))"
proof (induction getc len multiplier val s rule: MQTTPacket_decode_from.induct)
  case (1 getc len multiplier val s)
  obtain r s1 where g: "getc s = (r, s1)" by (cases "getc s")
  then have p1: "P s1" using "1.prems"(1) [OF "1.prems"(2)] by simp
  show ?case
  proof (cases "len + 1 > 4 \<or> r = None")
    case True
    then show ?thesis using "1.prems"(2) p1 g by (subst MQTTPacket_decode_from.simps) auto
  next
    case False
    then obtain c where c: "r = Some c" by blast
    show ?thesis using False p1 g c "1.IH" [OF refl _ g [symmetric] c refl _ "1.prems"(1) p1]
      by (subst MQTTPacket_decode_from.simps) (auto simp: Let_def)
  qed
qed

lemma packet_keeps: "readPacket freertos_network c e = (t, c1, e1) \<Longrightarrow> time_left e1 = time_left e"
proof -
  have b: "time_left (snd (read_byte freertos_network s)) = time_left s" for s
    using network_keeps(1) [of 1 s] by (auto simp: read_byte_def split: prod.splits option.splits)
  have d: "time_left (snd (decodePacket freertos_network s)) = time_left s" for s
    using decode_keeps [of "\<lambda>x. time_left x = time_left s" "read_byte freertos_network" s] b
    by (auto simp: decodePacket_def MQTTPacket_decode_def split: prod.splits) (metis snd_conv)
  show "readPacket freertos_network c e = (t, c1, e1) \<Longrightarrow> time_left e1 = time_left e"
    using d network_keeps(1) unfolding readPacket_def
    by (auto simp: Let_def split: prod.splits option.splits if_splits) (metis snd_conv)+
qed

lemma send_back: "time_left e \<le> k \<Longrightarrow> comes_back env2 k (sendPacket freertos_network bs e)"
  using send_returns back_mono by blast

lemma keepalive_back: "time_left e \<le> k \<Longrightarrow> comes_back env3 k (keepalive freertos_network c e)"
  by (auto simp: keepalive_def network_keeps(3) intro!: back_bind [OF send_back] split: prod.split)

lemma answer_back: "time_left e \<le> k \<Longrightarrow> comes_back env4 k (answer freertos_network out c e)"
  by (auto simp: answer_def intro!: back_bind [OF send_back] split: prod.split)

lemma work_back: "time_left e \<le> k \<Longrightarrow> comes_back env4 k (packet_work freertos_network ptype c e)"
  by (auto simp: packet_work_def Let_def intro!: answer_back split: option.split)

lemma end_back: "time_left e \<le> k \<Longrightarrow> comes_back env3 k (end_of_cycle ptype rc c e)"
  by (simp add: end_of_cycle_def)

lemma cycle_back:
  assumes "time_left e \<le> k"
  shows "comes_back env3 k (cycle freertos_network c e)"
proof -
  obtain ptype c1 e1 where r: "readPacket freertos_network c e = (ptype, c1, e1)" by (cases "readPacket freertos_network c e") auto
  then have "time_left e1 \<le> k" using packet_keeps [OF r] assms by simp
  then show ?thesis unfolding cycle_def r
    by (auto intro!: back_bind [OF work_back] back_bind [OF keepalive_back] end_back)
qed

lemma yield_back: "time_left e \<le> k \<Longrightarrow> comes_back env3 k (MQTTYield freertos_network c e)"
proof (induction k arbitrary: c e rule: less_induct)
  case (less k)
  have "comes_back env3 k (Option.bind (cycle freertos_network c e)
      (\<lambda>(rc, c1, s1). if rc < 0 then Some (FAILURE, c1, s1)
         else case timer_expired freertos_network s1 of (e, s2) \<Rightarrow> if e then Some (0, c1, s2) else MQTTYield freertos_network c1 s2))"
  proof (rule back_bind [OF cycle_back [OF less.prems]])
    fix x :: "int \<times> 'a mqtt_client \<times> net_env"
    assume k: "time_left (env3 x) \<le> k"
    obtain rc c1 e1 where x: "x = (rc, c1, e1)" by (cases x)
    obtain b e2 where t: "timer_expired freertos_network e1 = (b, e2)" by (cases "timer_expired freertos_network e1")
    have "\<not> b \<Longrightarrow> comes_back env3 k (MQTTYield freertos_network c1 e2)"
      using timer_runs(1) [of e1 e2] t k less.IH [of "time_left e2" e2 c1] by (auto simp: x intro: back_mono)
    then show "comes_back env3 k (case x of (rc, c1, s1) \<Rightarrow> if rc < 0 then Some (FAILURE, c1, s1)
         else case timer_expired freertos_network s1 of (e, s2) \<Rightarrow> if e then Some (0, c1, s2) else MQTTYield freertos_network c1 s2)"
      using k timer_runs(2) [OF t] t by (auto simp: x)
  qed
  then show ?case by (subst MQTTYield.simps)
qed

lemma wait_back: "time_left e \<le> k \<Longrightarrow> comes_back env3 k (waitfor_from freertos_network ptype rc c e)"
proof (induction k arbitrary: rc c e rule: less_induct)
  case (less k)
  obtain b e1 where t: "timer_expired freertos_network e = (b, e1)" by (cases "timer_expired freertos_network e")
  show ?case
  proof (cases b)
    case True
    then show ?thesis using t timer_runs(2) [OF t] less.prems by (subst waitfor_from.simps) simp
  next
    case False
    then have l: "time_left e1 < k" using t timer_runs(1) less.prems by fastforce
    have "comes_back env3 (time_left e1) (Option.bind (cycle freertos_network c e1)
        (\<lambda>(rc1, c1, s2). if rc1 \<noteq> ptype \<and> rc1 \<ge> 0 then waitfor_from freertos_network ptype rc1 c1 s2 else Some (rc1, c1, s2)))"
      by (rule back_bind [OF cycle_back [OF order.refl]]) (auto intro: less.IH [OF l])
    then show ?thesis using False t l by (subst waitfor_from.simps) (auto intro: back_mono)
  qed
qed

lemma request_back: "time_left e \<le> k \<Longrightarrow> comes_back env3 k (request freertos_network out t f c e)"
  unfolding request_def waitfor_def
  by (auto intro!: back_bind [OF send_back] back_bind [OF wait_back] split: prod.split)

lemma close_back: "comes_back env3 k r \<Longrightarrow> comes_back env3 k (close_on_failure r)"
  unfolding close_on_failure_def by (erule back_map) auto


section \<open>A published message is on the line\<close>

lemma pump_line: "net_line (Driver_Net_PumpRxQueue (arrive bs n)) = net_line n"
proof -
  have "net_line (arrive bs n) = net_line n" for n
    unfolding arrive_def by (induction bs arbitrary: n) (simp_all add: BOARD_NET_UART_IRQ_HANDLER_def split: option.split)
  moreover have "net_line (Driver_Net_PumpRxQueue n) = net_line n" for n
    by (cases "xNetUartRxQueue n") (simp_all add: pump_queue, simp add: Driver_Net_PumpRxQueue_def)
  ultimately show ?thesis by simp
qed

lemma wait_line: "net_line (snd (snd (at_wait reply buf i timeout sched n))) = net_line n"
  by (induction reply buf i timeout sched n rule: at_wait.induct) (simp_all add: Let_def pump_line split: prod.split)

lemma write_line:
  assumes "mqttwrite freertos_network bs e = (True, e1)" "length bs < 65536"
  shows "suffix bs (net_line (ne_driver e1))"
proof -
  have u: "unat (of_nat (length bs) :: u16) = length bs" using assms(2) by (simp add: unsigned_of_nat take_bit_nat_eq_self)
  obtain r ts n where r: "platform_net_write bs (of_nat (length bs)) (ne_left e)
      (map turn_bytes (ne_turns e)) (ne_driver e) = (r, ts, n)"
    by (cases rule: prod_cases3)
  then have e1: "r = Some (At_code 0)" "ne_driver e1 = n"
    using assms(1) by (auto simp: freertos_network_def FreeRTOS_write_def)
  let ?n1 = "net_transmit (cipsend_line (of_nat (length bs))) (ne_driver e)"
  let ?n2 = "net_transmit bs (?n1\<lparr>CMDRetBuffer := snd (Driver_Buffer_Clean (CMDRetBuffer ?n1))\<rparr>)"
  have "at_wait (text_bytes ''SEND OK'') (replicate 64 0) 0 (ne_left e) (map turn_bytes (ne_turns e)) ?n2 = (r, ts, n)"
    using r e1(1) u by (auto simp: platform_net_write_def Driver_Net_TransmitSocket_def Let_def split: if_splits)
  then have "net_line n = net_line ?n2"
    using wait_line [of "text_bytes ''SEND OK''" "replicate 64 0" 0 "ne_left e" "map turn_bytes (ne_turns e)" ?n2] by simp
  then have "net_line n = net_line (ne_driver e) @ cipsend_line (of_nat (length bs)) @ bs" by (simp add: net_transmit_def)
  then show ?thesis unfolding e1(2) suffix_def by (metis append.assoc)
qed

lemma send_line:
  "sendPacket freertos_network bs e = Some (ok, e1) \<Longrightarrow> ok \<Longrightarrow> length bs < 65536 \<Longrightarrow> suffix bs (net_line (ne_driver e1))"
proof (induction "time_left e" arbitrary: e rule: less_induct)
  case less
  obtain b e2 where t: "timer_expired freertos_network e = (b, e2)" by (cases "timer_expired freertos_network e")
  obtain w e3 where w: "mqttwrite freertos_network bs e2 = (w, e3)" by (cases "mqttwrite freertos_network bs e2")
  have s: "(if b then Some (False, e2) else if w then Some (True, e3) else sendPacket freertos_network bs e3) = Some (ok, e1)"
    using less.prems(1) unfolding sendPacket.simps [of _ bs e] t prod.case w .
  show ?case
  proof (cases w)
    case True
    then show ?thesis using s w write_line less.prems(2,3) by (auto split: if_splits)
  next
    case False
    then have nb: "\<not> b" using s less.prems(2) by auto
    then have "time_left e3 < time_left e" using t timer_runs(1) network_keeps(2) [OF w] by simp
    then show ?thesis using less.hyps [of e3] less.prems(2,3) s False nb by simp
  qed
qed

text \<open>C23: what the client publishes reaches the line. When a publication of the lowest quality of service
  succeeds, the last bytes handed to the module are one packet that fits the send buffer, and any
  receiver that reads packets as the client does gets the topic and the payload back.\<close>

theorem published_on_line:
  assumes "MQTTPublish freertos_network topic \<lparr>msg_qos = 0, msg_retained = retained, msg_id = pid, msg_payload = payload\<rparr> c e = Some (0, c1, e1)"
    and "cl_buf_size c < 65536" "retained < 2" "length topic < 65536"
  shows "\<exists>bs. suffix bs (net_line (ne_driver e1)) \<and> length bs \<le> cl_buf_size c \<and>
    (\<forall>rest. MQTTDeserialize_publish id0 (bs @ rest) = Some \<lparr>pub_dup = 0, pub_qos = 0, pub_retained = retained, pub_id = id0,
       pub_topic = topic, pub_payload = payload @ rest, pub_payloadlen = int (length payload)\<rparr>)"
proof -
  obtain rc bs where o1: "MQTTSerialize_publish (cl_buf_size c) 0 0 retained pid (c_string topic) payload = (rc, bs)"
    by (cases "MQTTSerialize_publish (cl_buf_size c) 0 0 retained pid (c_string topic) payload")
  have "ucast (ucast pid :: u32) = pid" by (rule ucast_up_ucast_id) (simp add: is_up)
  then have i: "isconnected c" and p: "\<not> rc \<le> 0" and s: "sendPacket freertos_network bs e = Some (True, e1)"
    using assms(1) o1 unfolding MQTTPublish_def close_on_failure_def
    by (auto simp: Let_def FAILURE_def split: if_splits Option.bind_splits)+
  have b: "cl_buf_size c \<le> 2 ^ 28" "rc \<ge> 0" "(0 :: u8) < 2" "(0 :: u8) < 4" using assms(2) p by simp_all
  note r = publish_read_back [OF o1 b(2,1,3,4) assms(3,4)]
  have "suffix bs (net_line (ne_driver e1))" using send_line [OF s] r(2) assms(2) by simp
  then show ?thesis using r(2) r(3) [of id0] by auto
qed

text \<open>A module that confirms what is written at once.\<close>

definition answering :: net_env where
  "answering = (env_of net_start)\<lparr>ne_turns := Some (text_bytes ''SEND OK'') # replicate 10 (Some [])\<rparr>"

lemma answering_writes:
  assumes "bs \<noteq> []" "length bs < 65536"
  shows "\<exists>e1. mqttwrite freertos_network bs (answering\<lparr>ne_timers := ts\<rparr>) = (True, e1)"
proof -
  let ?n1 = "net_transmit (cipsend_line (of_nat (length bs))) net_start"
  let ?n2 = "net_transmit bs (?n1\<lparr>CMDRetBuffer := snd (Driver_Buffer_Clean (CMDRetBuffer ?n1))\<rparr>)"
  let ?reply = "text_bytes ''SEND OK''"
  let ?sched = "?reply # replicate 10 []"
  have u: "unat (of_nat (length bs) :: u16) = length bs" using assms(2) by (simp add: unsigned_of_nat take_bit_nat_eq_self)
  have z: "(of_nat (length bs) :: u16) \<noteq> 0"
  proof
    assume "(of_nat (length bs) :: u16) = 0"
    then show False using u assms(1) by simp
  qed
  obtain b where b: "Driver_Buffer_Clean (CMDRetBuffer net_start) = (0, b)" "db_inv b" "db_items b = []" "db_cap b = 127"
    using db_clean [OF net_start_facts(7)] net_start_facts(9) by auto
  have n2: "xNetUartRxQueue ?n2 = Some []" "db_inv (CMDRetBuffer ?n2)" "db_cap (CMDRetBuffer ?n2) = 127" "db_items (CMDRetBuffer ?n2) = []"
    using net_start_facts(1) b by (simp_all add: net_transmit_def)
  have r: "length ?reply = 7" "?reply \<noteq> []" "0 \<notin> set ?reply" "strstr [] ?reply = None"
    by (simp_all add: text_bytes_def)
  have "\<exists>s n1. at_wait ?reply ([] @ replicate (64 - length ([] :: u8 list)) 0) (length ([] :: u8 list)) 30000 ?sched ?n2 = (Some (At_code 0), s, n1) \<and>
      net_line n1 = net_line ?n2"
    by (rule at_wait_recognises [OF n2(1,2) r(2), where a = "[]" and k = 1]) (simp_all add: n2(3,4) r)
  then show ?thesis using u z
    by (auto simp: freertos_network_def FreeRTOS_write_def platform_net_write_def Driver_Net_TransmitSocket_def Let_def
        answering_def env_of_def turn_bytes_def)
qed

theorem published_on_line_witness:
  "\<exists>c1 e1 bs. MQTTPublish freertos_network [116] \<lparr>msg_qos = 0, msg_retained = 0, msg_id = 0, msg_payload = [104, 105]\<rparr> sample_client answering =
     Some (0, c1, e1) \<and> suffix bs (net_line (ne_driver e1)) \<and>
     map_option pub_topic (MQTTDeserialize_publish 0 bs) = Some [116]"
proof -
  let ?m = "\<lparr>msg_qos = 0, msg_retained = 0, msg_id = 0, msg_payload = [104, 105]\<rparr>"
  let ?out = "MQTTSerialize_publish 512 0 0 0 0 (c_string [116]) [104, 105]"
  have o1: "fst ?out = 7" "length (snd ?out) = 7"
    by (simp_all add: MQTTSerialize_publish_def MQTTSerialize_publishLength_def MQTTstrlen_def writeMQTTString_def MQTTPacket_len_def
        Let_def encode_step(1))
  have t: "timer_expired freertos_network answering = (False, answering\<lparr>ne_timers := [False]\<rparr>)"
    by (simp add: freertos_network_def TimerIsExpired_def answering_def env_of_def)
  have "snd ?out \<noteq> []" "length (snd ?out) < 65536" using o1(2) by auto
  then obtain e1 where w: "mqttwrite freertos_network (snd ?out) (answering\<lparr>ne_timers := [False]\<rparr>) = (True, e1)"
    using answering_writes by blast
  have "sendPacket freertos_network (snd ?out) answering = Some (True, e1)"
    by (subst sendPacket.simps) (simp add: t w)
  then have p: "MQTTPublish freertos_network [116] ?m sample_client answering = Some (0, sample_client, e1)"
    using o1(1) by (simp add: MQTTPublish_def close_on_failure_def sample_client_def Let_def FAILURE_def)
  obtain bs where "suffix bs (net_line (ne_driver e1))" "map_option pub_topic (MQTTDeserialize_publish 0 (bs @ [])) = Some [116]"
    using published_on_line [OF p, of 0] by (fastforce simp: sample_client_def)
  then show ?thesis using p by auto
qed

section \<open>A closed session\<close>

text \<open>Without wildcards a subscription takes its own topic only.\<close>

lemma plain_topic: "43 \<notin> set fs \<Longrightarrow> 35 \<notin> set fs \<Longrightarrow> isTopicMatched fs ns \<longleftrightarrow> fs = ns"
  by (induction fs ns rule: isTopicMatched.induct) auto

text \<open>A publication that fails closes the session, and with it the subscriptions; the cloud task only logs the
  failure. From then on each publication fails, while a quiet network makes every yield succeed, so that the
  task keeps its flag of the connection and never connects again.\<close>

lemma closed_session_unnoticed:
  assumes "\<not> isconnected c" "cl_keepAlive c \<noteq> 0" "mqttread net 1 s = (None, s1)" "alive_expired net s1 = (False, s2)" "timer_expired net s2 = (True, s3)"
  shows "MQTTPublish net topic msg c s = Some (FAILURE, MQTTCloseSession c, s)"
    and "MQTTYield net c s = Some (0, c, s3)"
    and "cl_cleansession c \<noteq> 0 \<Longrightarrow> slots_for topic (MQTTCloseSession c) = []"
proof -
  show "MQTTPublish net topic msg c s = Some (FAILURE, MQTTCloseSession c, s)"
    using assms(1) by (simp add: MQTTPublish_def close_on_failure_def)
  have r: "readPacket net c s = (0, c, s1)" using assms(3) by (simp add: readPacket_def)
  have w: "packet_work net 0 c s1 = Some (False, 0, c, s1)" by (simp add: packet_work_def)
  have "cycle net c s = Some (0, c, s2)" using r w assms(2,4) by (simp add: cycle_def keepalive_def end_of_cycle_def)
  then show "MQTTYield net c s = Some (0, c, s3)" using assms(5) by (subst MQTTYield.simps) simp
  show "cl_cleansession c \<noteq> 0 \<Longrightarrow> slots_for topic (MQTTCloseSession c) = []"
    by (simp add: slots_for_def MQTTCloseSession_def MQTTCleanSession_def Let_def comp_def)
qed

end
