(* ===== verification/Display_Driver.thy ===== *)
theory Display_Driver
  imports C_Strings Home_Tasks
begin

text \<open>
  The display: the driver of the graphic panel (\<open>6_ModuleDrives/driver_oled_ssd1306.c\<close>), the layer above
  (\<open>driver_display.c\<close>) and the transfer function of the bus (\<open>driver_i2c.c\<close>). The state is the frame
  buffer, the ready flags and the list of transfers handed to the bus; whether a transfer succeeds
  is a parameter, by its number. The text that is printed on the debug port is not modelled.
\<close>

section \<open>State and the bus\<close>

record oled =
  g_oled_ready :: u8
  g_oled_available :: u8
  g_framebuffer :: "u8 list"
  i2c_sent :: "u8 list list"
  i2c_ok :: "nat \<Rightarrow> bool"

definition Driver_I2C_Write :: "u8 list \<Rightarrow> oled \<Rightarrow> int \<times> oled" where
  "Driver_I2C_Write data d =
     (if data = [] then (-1, d)
      else ((if i2c_ok d (length (i2c_sent d)) then 0 else -1), d\<lparr>i2c_sent := i2c_sent d @ [data]\<rparr>))"

definition OLED_CMD :: u8 where "OLED_CMD = 0x00"
definition OLED_DATA :: u8 where "OLED_DATA = 0x40"

text \<open>A block is sent in pieces of at most sixteen bytes, each behind the control byte.\<close>

function oled_write :: "u8 \<Rightarrow> u8 list \<Rightarrow> oled \<Rightarrow> int \<times> oled" where
  "oled_write control data d =
     (if data = [] then (0, d)
      else let chunk = (if length data > 16 then 16 else length data);
               (rc, d1) = Driver_I2C_Write (control # take chunk data) d
           in if rc \<noteq> 0 then (-1, d1) else oled_write control (drop chunk data) d1)"
  by pat_completeness auto
termination by (relation "measure (\<lambda>(control, data, d). length data)") auto

declare oled_write.simps [simp del]

definition oled_cmd :: "u8 \<Rightarrow> oled \<Rightarrow> int \<times> oled" where
  "oled_cmd cmd d = oled_write OLED_CMD [cmd] d"

section \<open>Drawing\<close>

text \<open>The characters from the space to \<open>Z\<close>.\<close>

definition g_font5x7 :: "u8 list list" where
  "g_font5x7 =
    [
     [0x00, 0x00, 0x00, 0x00, 0x00], [0x00, 0x00, 0x5F, 0x00, 0x00], [0x00, 0x07, 0x00, 0x07, 0x00], [0x14, 0x7F, 0x14, 0x7F, 0x14],
     [0x24, 0x2A, 0x7F, 0x2A, 0x12], [0x23, 0x13, 0x08, 0x64, 0x62], [0x36, 0x49, 0x55, 0x22, 0x50], [0x00, 0x05, 0x03, 0x00, 0x00],
     [0x00, 0x1C, 0x22, 0x41, 0x00], [0x00, 0x41, 0x22, 0x1C, 0x00], [0x14, 0x08, 0x3E, 0x08, 0x14], [0x08, 0x08, 0x3E, 0x08, 0x08],
     [0x00, 0x50, 0x30, 0x00, 0x00], [0x08, 0x08, 0x08, 0x08, 0x08], [0x00, 0x60, 0x60, 0x00, 0x00], [0x20, 0x10, 0x08, 0x04, 0x02],
     [0x3E, 0x51, 0x49, 0x45, 0x3E], [0x00, 0x42, 0x7F, 0x40, 0x00], [0x42, 0x61, 0x51, 0x49, 0x46], [0x21, 0x41, 0x45, 0x4B, 0x31],
     [0x18, 0x14, 0x12, 0x7F, 0x10], [0x27, 0x45, 0x45, 0x45, 0x39], [0x3C, 0x4A, 0x49, 0x49, 0x30], [0x01, 0x71, 0x09, 0x05, 0x03],
     [0x36, 0x49, 0x49, 0x49, 0x36], [0x06, 0x49, 0x49, 0x29, 0x1E], [0x00, 0x36, 0x36, 0x00, 0x00], [0x00, 0x56, 0x36, 0x00, 0x00],
     [0x08, 0x14, 0x22, 0x41, 0x00], [0x14, 0x14, 0x14, 0x14, 0x14], [0x00, 0x41, 0x22, 0x14, 0x08], [0x02, 0x01, 0x51, 0x09, 0x06],
     [0x32, 0x49, 0x79, 0x41, 0x3E], [0x7E, 0x11, 0x11, 0x11, 0x7E], [0x7F, 0x49, 0x49, 0x49, 0x36], [0x3E, 0x41, 0x41, 0x41, 0x22],
     [0x7F, 0x41, 0x41, 0x22, 0x1C], [0x7F, 0x49, 0x49, 0x49, 0x41], [0x7F, 0x09, 0x09, 0x09, 0x01], [0x3E, 0x41, 0x49, 0x49, 0x7A],
     [0x7F, 0x08, 0x08, 0x08, 0x7F], [0x00, 0x41, 0x7F, 0x41, 0x00], [0x20, 0x40, 0x41, 0x3F, 0x01], [0x7F, 0x08, 0x14, 0x22, 0x41],
     [0x7F, 0x40, 0x40, 0x40, 0x40], [0x7F, 0x02, 0x0C, 0x02, 0x7F], [0x7F, 0x04, 0x08, 0x10, 0x7F], [0x3E, 0x41, 0x41, 0x41, 0x3E],
     [0x7F, 0x09, 0x09, 0x09, 0x06], [0x3E, 0x41, 0x51, 0x21, 0x5E], [0x7F, 0x09, 0x19, 0x29, 0x46], [0x46, 0x49, 0x49, 0x49, 0x31],
     [0x01, 0x01, 0x7F, 0x01, 0x01], [0x3F, 0x40, 0x40, 0x40, 0x3F], [0x1F, 0x20, 0x40, 0x20, 0x1F], [0x3F, 0x40, 0x38, 0x40, 0x3F],
     [0x63, 0x14, 0x08, 0x14, 0x63], [0x07, 0x08, 0x70, 0x08, 0x07], [0x61, 0x51, 0x49, 0x45, 0x43]
    ]"

definition oled_clear_buffer :: "oled \<Rightarrow> oled" where
  "oled_clear_buffer d = d\<lparr>g_framebuffer := replicate 1024 0\<rparr>"

definition glyph_of :: "u8 \<Rightarrow> u8 list" where
  "glyph_of ch = g_font5x7 ! unat ((if ch < 32 \<or> ch > 90 then 32 else ch) - 32)"

fun put_bytes :: "nat \<Rightarrow> u8 list \<Rightarrow> u8 list \<Rightarrow> u8 list" where
  "put_bytes a [] fb = fb"
| "put_bytes a (b # bs) fb = put_bytes (a + 1) bs (fb[a := b])"

definition oled_draw_char :: "nat \<Rightarrow> nat \<Rightarrow> u8 \<Rightarrow> u8 list \<Rightarrow> u8 list" where
  "oled_draw_char x page ch fb =
     (if page \<ge> 8 \<or> x \<ge> 128 - 5 then fb
      else let fb1 = put_bytes (page * 128 + x) (glyph_of ch) fb
           in if x + 5 < 128 then fb1[page * 128 + x + 5 := 0] else fb1)"

fun oled_draw_text :: "nat \<Rightarrow> nat \<Rightarrow> u8 list \<Rightarrow> u8 list \<Rightarrow> u8 list" where
  "oled_draw_text x page [] fb = fb"
| "oled_draw_text x page (c # cs) fb =
     (if x < 128 - 5 then oled_draw_text ((x + 6) mod 256) page cs (oled_draw_char x page c fb) else fb)"

section \<open>Sending the frame\<close>

text \<open>Commands one after the other, up to the first that fails.\<close>

fun oled_cmds :: "u8 list \<Rightarrow> oled \<Rightarrow> int \<times> oled" where
  "oled_cmds [] d = (0, d)"
| "oled_cmds (c # cs) d = (case oled_cmd c d of (rc, d1) \<Rightarrow> if rc \<noteq> 0 then (-1, d1) else oled_cmds cs d1)"

definition oled_page :: "nat \<Rightarrow> oled \<Rightarrow> int \<times> oled" where
  "oled_page page d =
     (case oled_cmds [0xB0 + of_nat page, 0x00, 0x10] d of
        (rc, d1) \<Rightarrow> if rc \<noteq> 0 then (-1, d1) else oled_write OLED_DATA (take 128 (drop (page * 128) (g_framebuffer d1))) d1)"

fun oled_pages :: "nat list \<Rightarrow> oled \<Rightarrow> int \<times> oled" where
  "oled_pages [] d = (0, d)"
| "oled_pages (p # ps) d = (case oled_page p d of (rc, d1) \<Rightarrow> if rc \<noteq> 0 then (-1, d1) else oled_pages ps d1)"

definition oled_flush :: "oled \<Rightarrow> int \<times> oled" where
  "oled_flush d =
     (case oled_cmds [0xAF, 0xA4] d of (rc, d1) \<Rightarrow> if rc \<noteq> 0 then (-1, d1) else oled_pages [0 ..< 8] d1)"

definition oled_self_test_blink :: "oled \<Rightarrow> int \<times> oled" where
  "oled_self_test_blink d =
     (let saved = g_framebuffer d;
          (rc1, d1) = oled_flush (d\<lparr>g_framebuffer := replicate 1024 0xFF\<rparr>)
      in if rc1 \<noteq> 0 then (-1, d1)
         else let (rc2, d2) = oled_flush (d1\<lparr>g_framebuffer := replicate 1024 0\<rparr>)
              in if rc2 \<noteq> 0 then (-1, d2) else oled_flush (d2\<lparr>g_framebuffer := saved\<rparr>))"

definition init_cmds :: "u8 list" where
  "init_cmds =
    [0xAE, 0x20, 0x00, 0xB0, 0xC8, 0x00, 0x10, 0x40, 0x81, 0x7F, 0xA1, 0xA6, 0xA8, 0x3F, 0xA4, 0xD3,
     0x00, 0xD5, 0x80, 0xD9, 0xF1, 0xDA, 0x12, 0xDB, 0x40, 0x8D, 0x14, 0xAF]"

text \<open>The result of the set-up of the bus is an argument.\<close>

definition Driver_OLED_Init :: "int \<Rightarrow> oled \<Rightarrow> int \<times> oled" where
  "Driver_OLED_Init i2c_init d =
     (if i2c_init \<noteq> 0 then (-1, d\<lparr>g_oled_ready := 0\<rparr>)
      else case oled_cmds init_cmds d of
             (rc1, d1) \<Rightarrow>
               if rc1 \<noteq> 0 then (-1, d1\<lparr>g_oled_ready := 0\<rparr>)
               else (case oled_flush (oled_clear_buffer d1) of
                       (rc2, d2) \<Rightarrow>
                         if rc2 \<noteq> 0 then (-1, d2\<lparr>g_oled_ready := 0\<rparr>)
                         else (case oled_self_test_blink d2 of
                                 (rc3, d3) \<Rightarrow> if rc3 \<noteq> 0 then (-1, d3\<lparr>g_oled_ready := 0\<rparr>) else (0, d3\<lparr>g_oled_ready := 1\<rparr>))))"

section \<open>The status\<close>

text \<open>The conversion \<open>%4.1f\<close>.\<close>

definition four_wide :: "f32 \<Rightarrow> string" where
  "four_wide x = replicate (4 - length (one_decimal x)) CHR '' '' @ one_decimal x"

definition status_lines :: "display_status \<Rightarrow> u8 list list" where
  "status_lines st = map (\<lambda>s. snprintf 24 (text_bytes s))
     [''T:'' @ four_wide (ds_temperature st) @ ''C H:'' @ four_wide (ds_humidity st),
      ''L:'' @ decimal (unat (ds_light st)) @ '' LED:'' @ (if ds_led_on st \<noteq> 0 then ''ON'' else ''OFF''),
      ''ALM:'' @ (if ds_alarm_on st \<noteq> 0 then ''ON'' else ''OFF'') @ '' MODE:'' @ (if ds_mode st = 1 then ''AUTO'' else ''MAN''),
      ''S:'' @ (if ds_sensor_valid st \<noteq> 0 then ''OK'' else ''BAD'') @ '' GW:'' @ (if ds_wifi_connected st \<noteq> 0 then ''UP'' else ''DN'')]"

definition Driver_OLED_ShowStatus :: "display_status \<Rightarrow> oled \<Rightarrow> int \<times> oled" where
  "Driver_OLED_ShowStatus st d =
     (if g_oled_ready d = 0 then (-1, d)
      else let d1 = oled_clear_buffer d;
               ls = status_lines st;
               fb = oled_draw_text 0 6 (ls ! 3) (oled_draw_text 0 4 (ls ! 2) (oled_draw_text 0 2 (ls ! 1) (oled_draw_text 0 0 (ls ! 0) (g_framebuffer d1))))
           in oled_flush (d1\<lparr>g_framebuffer := fb\<rparr>))"

definition Driver_Display_Init :: "int \<Rightarrow> oled \<Rightarrow> int \<times> oled" where
  "Driver_Display_Init i2c_init d =
     (case Driver_OLED_Init i2c_init d of (rc, d1) \<Rightarrow> (0, d1\<lparr>g_oled_available := (if rc = 0 then 1 else 0)\<rparr>))"

definition Driver_Display_Show :: "display_status \<Rightarrow> oled \<Rightarrow> int \<times> oled" where
  "Driver_Display_Show st d =
     (if g_oled_available d \<noteq> 0
      then (case Driver_OLED_ShowStatus st d of (rc, d1) \<Rightarrow> if rc \<noteq> 0 then (-1, d1\<lparr>g_oled_available := 0\<rparr>) else (0, d1))
      else (0, d))"

section \<open>What a transfer list says\<close>

text \<open>The bytes that reach the memory of the panel.\<close>

definition panel_data :: "u8 list list \<Rightarrow> u8 list" where
  "panel_data ts = concat (map tl (filter (\<lambda>t. hd t = OLED_DATA) ts))"

definition transfer_ok :: "u8 list \<Rightarrow> bool" where
  "transfer_ok t \<longleftrightarrow> 2 \<le> length t \<and> length t \<le> 17 \<and> (hd t = OLED_CMD \<or> hd t = OLED_DATA)"

text \<open>A step of the driver that only sends: the frame buffer and the flags stay.\<close>

definition sends :: "oled \<Rightarrow> oled \<Rightarrow> u8 list list \<Rightarrow> bool" where
  "sends d d' ts \<longleftrightarrow> d' = d\<lparr>i2c_sent := i2c_sent d @ ts\<rparr> \<and> (\<forall>t \<in> set ts. transfer_ok t)"

lemma sends_Nil [simp]: "sends d d []"
  by (simp add: sends_def)

lemma sends_trans: "sends a b ts \<Longrightarrow> sends b c us \<Longrightarrow> sends a c (ts @ us)"
  by (auto simp: sends_def)

lemma panel_data_append [simp]: "panel_data (a @ b) = panel_data a @ panel_data b"
  by (simp add: panel_data_def)

lemma panel_data_simps [simp]: "panel_data [] = []" "panel_data (t # ts) = (if hd t = OLED_DATA then tl t else []) @ panel_data ts"
  by (simp_all add: panel_data_def)

lemma oled_write_sends:
  "control = OLED_CMD \<or> control = OLED_DATA \<Longrightarrow> oled_write control data d = (rc, d') \<Longrightarrow>
     \<exists>ts. sends d d' ts \<and> (rc = 0 \<longrightarrow> panel_data ts = (if control = OLED_DATA then data else []))"
proof (induction control data d arbitrary: rc d' rule: oled_write.induct)
  case (1 control data d)
  show ?case
  proof (cases "data = []")
    case True
    then have "rc = 0 \<and> d' = d" using "1.prems"(2) by (subst (asm) oled_write.simps) simp
    then show ?thesis using True by (intro exI [of _ "[]"]) simp
  next
    case False
    let ?n = "if length data > 16 then 16 else length data"
    let ?t = "control # take ?n data"
    let ?d1 = "d\<lparr>i2c_sent := i2c_sent d @ [?t]\<rparr>"
    have n: "1 \<le> ?n" "?n \<le> 16" "?n \<le> length data" using False by (simp_all add: Suc_le_eq)
    have t: "sends d ?d1 [?t]" using n "1.prems"(1) by (simp add: sends_def transfer_ok_def)
    obtain r where w: "Driver_I2C_Write ?t d = (r, ?d1)" by (simp add: Driver_I2C_Write_def)
    have e: "oled_write control data d = (if r \<noteq> 0 then (-1, ?d1) else oled_write control (drop ?n data) ?d1)"
      using False w by (subst oled_write.simps) (simp add: Let_def)
    show ?thesis
    proof (cases "r = 0")
      case True
      then have "oled_write control (drop ?n data) ?d1 = (rc, d')" using e "1.prems"(2) by simp
      then obtain us where us: "sends ?d1 d' us" "rc = 0 \<longrightarrow> panel_data us = (if control = OLED_DATA then drop ?n data else [])"
        using "1.IH" [OF False refl refl w [symmetric] _ "1.prems"(1), of rc d'] True by auto
      show ?thesis
        by (rule exI [of _ "[?t] @ us"]) (use sends_trans [OF t us(1)] us(2) in \<open>simp\<close>)
    next
      case False
      then have "rc = -1 \<and> d' = ?d1" using e "1.prems"(2) by simp
      then show ?thesis using t by (intro exI [of _ "[?t]"]) simp
    qed
  qed
qed

lemma oled_cmds_sends:
  "oled_cmds cs d = (rc, d') \<Longrightarrow> \<exists>ts. sends d d' ts \<and> (rc = 0 \<longrightarrow> panel_data ts = [])"
proof (induction cs arbitrary: d)
  case (Cons c cs)
  obtain r d1 where c: "oled_cmd c d = (r, d1)" by fastforce
  then obtain ts where ts: "sends d d1 ts" "r = 0 \<longrightarrow> panel_data ts = []"
    using oled_write_sends [of OLED_CMD "[c]" d r d1] by (auto simp: oled_cmd_def OLED_CMD_def OLED_DATA_def)
  show ?case
  proof (cases "r = 0")
    case True
    then obtain us where "sends d1 d' us" "rc = 0 \<longrightarrow> panel_data us = []" using Cons.IH [of d1] Cons.prems c by auto
    then show ?thesis using sends_trans [OF ts(1)] ts(2) True by (intro exI [of _ "ts @ us"]) simp
  next
    case False
    then show ?thesis using Cons.prems c ts(1) by auto
  qed
next
  case Nil
  then show ?case by (intro exI [of _ "[]"]) simp
qed

lemma oled_page_sends:
  assumes "oled_page p d = (rc, d')"
  shows "\<exists>ts. sends d d' ts \<and> (rc = 0 \<longrightarrow> panel_data ts = take 128 (drop (p * 128) (g_framebuffer d)))"
proof -
  obtain r d1 where c: "oled_cmds [0xB0 + of_nat p, 0x00, 0x10] d = (r, d1)" by fastforce
  obtain ts where ts: "sends d d1 ts" "r = 0 \<longrightarrow> panel_data ts = []" using oled_cmds_sends [OF c] by blast
  have fb: "g_framebuffer d1 = g_framebuffer d" using ts(1) by (simp add: sends_def)
  show ?thesis
  proof (cases "r = 0")
    case True
    then have "oled_write OLED_DATA (take 128 (drop (p * 128) (g_framebuffer d))) d1 = (rc, d')"
      using assms c fb by (simp add: oled_page_def)
    then obtain us where "sends d1 d' us" "rc = 0 \<longrightarrow> panel_data us = take 128 (drop (p * 128) (g_framebuffer d))"
      using oled_write_sends by force
    then show ?thesis using sends_trans [OF ts(1)] ts(2) True by (intro exI [of _ "ts @ us"]) simp
  next
    case False
    then show ?thesis using assms c ts(1) by (auto simp: oled_page_def)
  qed
qed

lemma oled_pages_sends:
  "oled_pages ps d = (rc, d') \<Longrightarrow>
     \<exists>ts. sends d d' ts \<and> (rc = 0 \<longrightarrow> panel_data ts = concat (map (\<lambda>p. take 128 (drop (p * 128) (g_framebuffer d))) ps))"
proof (induction ps arbitrary: d)
  case (Cons p ps)
  obtain r d1 where c: "oled_page p d = (r, d1)" by fastforce
  obtain ts where ts: "sends d d1 ts" "r = 0 \<longrightarrow> panel_data ts = take 128 (drop (p * 128) (g_framebuffer d))"
    using oled_page_sends [OF c] by blast
  have fb: "g_framebuffer d1 = g_framebuffer d" using ts(1) by (simp add: sends_def)
  show ?case
  proof (cases "r = 0")
    case True
    then obtain us where "sends d1 d' us" "rc = 0 \<longrightarrow> panel_data us = concat (map (\<lambda>p. take 128 (drop (p * 128) (g_framebuffer d))) ps)"
      using Cons.IH [of d1] Cons.prems c fb by auto
    then show ?thesis using sends_trans [OF ts(1)] ts(2) True by (intro exI [of _ "ts @ us"]) simp
  next
    case False
    then show ?thesis using Cons.prems c ts(1) by auto
  qed
next
  case Nil
  then show ?case by (intro exI [of _ "[]"]) simp
qed

lemma pages_cover:
  "length fb = n * 128 \<Longrightarrow> concat (map (\<lambda>p. take 128 (drop (p * 128) fb)) [0 ..< n]) = (fb :: u8 list)"
proof (induction n arbitrary: fb)
  case (Suc n)
  have "concat (map (\<lambda>p. take 128 (drop (p * 128) fb)) [0 ..< n]) =
      concat (map (\<lambda>p. take 128 (drop (p * 128) (take (n * 128) fb))) [0 ..< n])"
  proof (intro arg_cong [where f = concat] map_cong refl)
    fix p assume "p \<in> set [0 ..< n]"
    then have "p + 1 \<le> n" by simp
    then have "(p + 1) * 128 \<le> n * 128" by (rule mult_le_mono1)
    then show "take 128 (drop (p * 128) fb) = take 128 (drop (p * 128) (take (n * 128) fb))"
      by (simp add: drop_take min_def)
  qed
  also have "\<dots> = take (n * 128) fb" by (rule Suc.IH) (use Suc.prems in simp)
  finally have "concat (map (\<lambda>p. take 128 (drop (p * 128) fb)) [0 ..< Suc n]) = take (n * 128) fb @ take 128 (drop (n * 128) fb)"
    by simp
  also have "\<dots> = fb" using Suc.prems by simp
  finally show ?case .
qed simp

lemma oled_flush_sends:
  assumes "oled_flush d = (rc, d')" "length (g_framebuffer d) = 1024"
  shows "\<exists>ts. sends d d' ts \<and> (rc = 0 \<longrightarrow> panel_data ts = g_framebuffer d)"
proof -
  obtain r d1 where c: "oled_cmds [0xAF, 0xA4] d = (r, d1)" by fastforce
  obtain ts where ts: "sends d d1 ts" "r = 0 \<longrightarrow> panel_data ts = []" using oled_cmds_sends [OF c] by blast
  have fb: "g_framebuffer d1 = g_framebuffer d" using ts(1) by (simp add: sends_def)
  show ?thesis
  proof (cases "r = 0")
    case True
    then have "oled_pages [0 ..< 8] d1 = (rc, d')" using assms(1) c by (simp add: oled_flush_def)
    then obtain us where "sends d1 d' us" "rc = 0 \<longrightarrow> panel_data us = g_framebuffer d"
      using oled_pages_sends pages_cover [of "g_framebuffer d" 8] assms(2) fb by fastforce
    then show ?thesis using sends_trans [OF ts(1)] ts(2) True by (intro exI [of _ "ts @ us"]) simp
  next
    case False
    then show ?thesis using assms(1) c ts(1) by (auto simp: oled_flush_def)
  qed
qed

section \<open>The picture\<close>

text \<open>The specification: text line \<open>k\<close> stands on page \<open>2 * k\<close>; character \<open>j\<close> of it, up to the twenty-first,
  in the columns from \<open>6 * j\<close>, five columns wide, with an empty column behind it.\<close>

definition screen_cell :: "u8 list list \<Rightarrow> nat \<Rightarrow> nat \<Rightarrow> u8" where
  "screen_cell ls page col =
     (if even page \<and> col < 126 \<and> col div 6 < length (ls ! (page div 2)) \<and> col mod 6 < 5
      then glyph_of (ls ! (page div 2) ! (col div 6)) ! (col mod 6) else 0)"

definition screen :: "u8 list list \<Rightarrow> u8 list" where
  "screen ls = map (\<lambda>i. screen_cell ls (i div 128) (i mod 128)) [0 ..< 1024]"

lemma font_shape: "length g_font5x7 = 59" "\<forall>g \<in> set g_font5x7. length g = 5"
  by (simp_all add: g_font5x7_def)

lemma glyph_length [simp]: "length (glyph_of ch) = 5"
proof -
  have "unat ((if ch < 32 \<or> ch > 90 then 32 else ch) - 32) < 59"
  proof (cases "ch < 32 \<or> ch > 90")
    case False
    then have "32 \<le> ch" "ch \<le> 90" by auto
    then show ?thesis using False by (simp add: unat_sub word_le_nat_alt)
  qed simp
  then have "g_font5x7 ! unat ((if ch < 32 \<or> ch > 90 then 32 else ch) - 32) \<in> set g_font5x7"
    using font_shape(1) by (intro nth_mem) simp
  then show ?thesis using font_shape(2) unfolding glyph_of_def by blast
qed

lemma put_bytes_length [simp]: "length (put_bytes a bs fb) = length fb"
  by (induction bs arbitrary: a fb) auto

lemma put_bytes_nth:
  "a + length bs \<le> length fb \<Longrightarrow> put_bytes a bs fb ! j = (if a \<le> j \<and> j < a + length bs then bs ! (j - a) else fb ! j)"
proof (induction bs arbitrary: a fb)
  case (Cons b bs)
  then show ?case by (auto simp: nth_list_update nth_Cons' Suc_le_eq)
qed auto

lemma draw_char_length [simp]: "length (oled_draw_char x page ch fb) = length fb"
  by (simp add: oled_draw_char_def Let_def)

lemma draw_char_nth:
  assumes "length fb = 1024" "page < 8" "x < 123" "p < 8" "c < 128"
  shows "oled_draw_char x page ch fb ! (p * 128 + c) =
    (if p = page \<and> x \<le> c \<and> c \<le> x + 5 then (if c = x + 5 then 0 else glyph_of ch ! (c - x)) else fb ! (p * 128 + c))"
proof -
  have l: "page * 128 + x + 5 < 1024" using assms(2,3) by simp
  have e: "oled_draw_char x page ch fb = (put_bytes (page * 128 + x) (glyph_of ch) fb)[page * 128 + x + 5 := 0]"
    using assms(2,3) by (simp add: oled_draw_char_def Let_def)
  have n: "put_bytes (page * 128 + x) (glyph_of ch) fb ! (p * 128 + c) =
      (if page * 128 + x \<le> p * 128 + c \<and> p * 128 + c < page * 128 + x + 5 then glyph_of ch ! (p * 128 + c - (page * 128 + x)) else fb ! (p * 128 + c))"
    using put_bytes_nth [of "page * 128 + x" "glyph_of ch" fb "p * 128 + c"] l assms(1) by simp
  consider "p < page" | "p = page" | "page < p" by linarith
  then show ?thesis
  proof cases
    case 1
    then have "p * 128 + 128 \<le> page * 128" by simp
    then show ?thesis using 1 assms(5) n l assms(1) unfolding e by simp
  next
    case 2
    then show ?thesis using n l assms(1) unfolding e by (auto simp: nth_list_update)
  next
    case 3
    then have "page * 128 + 128 \<le> p * 128" by simp
    then show ?thesis using 3 assms(3) n l assms(1) unfolding e by simp
  qed
qed

lemma draw_text_length [simp]: "length (oled_draw_text x page cs fb) = length fb"
  by (induction x page cs fb rule: oled_draw_text.induct) auto

lemma draw_text_nth:
  assumes "length fb = 1024" "page < 8" "k \<le> 21" "p < 8" "c < 128"
  shows "oled_draw_text (6 * k) page cs fb ! (p * 128 + c) =
    (if p = page \<and> 6 * k \<le> c \<and> c < 126 \<and> c div 6 < k + length cs
     then (if c mod 6 < 5 then glyph_of (cs ! (c div 6 - k)) ! (c mod 6) else 0) else fb ! (p * 128 + c))"
  using assms(1,3)
proof (induction cs arbitrary: k fb)
  case Nil
  have "\<not> (6 * k \<le> c \<and> c div 6 < k)" by (auto simp: div_less_iff_less_mult)
  then show ?case by auto
next
  case (Cons ch cs)
  show ?case
  proof (cases "k < 21")
    case False
    then have "k = 21" using Cons.prems(2) by simp
    then show ?thesis by auto
  next
    case True
    then have m: "(6 * k + 6) mod 256 = 6 * Suc k" by simp
    have ih: "oled_draw_text (6 * k) page (ch # cs) fb ! (p * 128 + c) =
        (if p = page \<and> 6 * Suc k \<le> c \<and> c < 126 \<and> c div 6 < Suc k + length cs
         then (if c mod 6 < 5 then glyph_of (cs ! (c div 6 - Suc k)) ! (c mod 6) else 0)
         else oled_draw_char (6 * k) page ch fb ! (p * 128 + c))"
    proof -
      have "oled_draw_text (6 * k) page (ch # cs) fb = oled_draw_text (6 * Suc k) page cs (oled_draw_char (6 * k) page ch fb)"
        unfolding m [symmetric] using True by simp
      then show ?thesis using Cons.IH [of "oled_draw_char (6 * k) page ch fb" "Suc k"] Cons.prems True by simp
    qed
    have dc: "oled_draw_char (6 * k) page ch fb ! (p * 128 + c) =
        (if p = page \<and> 6 * k \<le> c \<and> c \<le> 6 * k + 5 then (if c = 6 * k + 5 then 0 else glyph_of ch ! (c - 6 * k)) else fb ! (p * 128 + c))"
      by (rule draw_char_nth) (use Cons.prems(1) assms(2,4,5) True in simp_all)
    show ?thesis
    proof (cases "6 * k \<le> c \<and> c \<le> 6 * k + 5")
      case True
      then have "c div 6 = k" "c mod 6 = c - 6 * k" by (auto simp: div_nat_eqI modulo_nat_def intro!: div_nat_eqI)
      moreover have "c < 126" using True \<open>k < 21\<close> by linarith
      ultimately show ?thesis unfolding ih dc using True by auto
    next
      case False
      then consider "c < 6 * k" | "6 * Suc k \<le> c" by fastforce
      then show ?thesis
      proof cases
        case 1
        then show ?thesis unfolding ih dc by simp
      next
        case 2
        then have "Suc k \<le> c div 6" by (simp add: less_eq_div_iff_mult_less_eq)
        then have "c div 6 - k = Suc (c div 6 - Suc k)" by simp
        then show ?thesis unfolding ih dc using 2 by simp
      qed
    qed
  qed
qed

definition drawn :: "u8 list list \<Rightarrow> u8 list" where
  "drawn ls = oled_draw_text 0 6 (ls ! 3) (oled_draw_text 0 4 (ls ! 2) (oled_draw_text 0 2 (ls ! 1) (oled_draw_text 0 0 (ls ! 0) (replicate 1024 0))))"

lemma drawn_screen: "drawn ls = screen ls"
proof (rule nth_equalityI)
  show "length (drawn ls) = length (screen ls)" by (simp add: drawn_def screen_def)
  fix i assume "i < length (drawn ls)"
  then have i: "i < 1024" by (simp add: drawn_def)
  obtain p c where pc: "p = i div 128" "c = i mod 128" by blast
  have p: "p < 8" "c < 128" "i = p * 128 + c" using i unfolding pc by (simp_all add: less_mult_imp_div_less)
  have "p = 0 \<or> p = 1 \<or> p = 2 \<or> p = 3 \<or> p = 4 \<or> p = 5 \<or> p = 6 \<or> p = 7" using p(1) by linarith
  moreover have "screen ls ! i = screen_cell ls p c" using i by (simp add: screen_def pc)
  moreover have r: "replicate 1024 0 ! i = (0 :: u8)" using i by simp
  have t: "oled_draw_text 0 page cs fb ! i = (if p = page \<and> c < 126 \<and> c div 6 < length cs
      then (if c mod 6 < 5 then glyph_of (cs ! (c div 6)) ! (c mod 6) else 0) else fb ! i)" if "length fb = 1024" "page < 8" for page cs fb
    using draw_text_nth [OF that, of 0 p c cs] p by simp
  have "drawn ls ! i = screen_cell ls p c"
    unfolding drawn_def screen_cell_def using calculation(1) by (elim disjE) (simp_all add: t r)
  ultimately show "drawn ls ! i = screen ls ! i" by simp
qed


text \<open>A panel on a bus that always answers, showing 21.5 degrees at 40 percent.\<close>

definition sample_oled :: oled where
  "sample_oled = \<lparr>g_oled_ready = 1, g_oled_available = 1, g_framebuffer = replicate 1024 0, i2c_sent = [], i2c_ok = (\<lambda>_. True)\<rparr>"

definition sample_status :: display_status where
  "sample_status = \<lparr>ds_temperature = 43 / 2, ds_humidity = 40, ds_light = 7, ds_led_on = 1, ds_alarm_on = 0, ds_mode = 1,
     ds_wifi_connected = 1, ds_mqtt_connected = 0, ds_sensor_valid = 1, ds_mqtt_reconnect_fail_count = 0\<rparr>"

lemma bus_answers:
  "(\<And>k. i2c_ok d k) \<Longrightarrow> fst (oled_write control data d) = 0 \<and> i2c_ok (snd (oled_write control data d)) = i2c_ok d"
proof (induction control data d rule: oled_write.induct)
  case (1 control data d)
  show ?case
  proof (cases "data = []")
    case True
    then show ?thesis by (subst oled_write.simps, subst (2) oled_write.simps) simp
  next
    case False
    let ?n = "if length data > 16 then 16 else length data"
    let ?d1 = "d\<lparr>i2c_sent := i2c_sent d @ [control # take ?n data]\<rparr>"
    have w: "Driver_I2C_Write (control # take ?n data) d = (0, ?d1)" using "1.prems" by (simp add: Driver_I2C_Write_def)
    then have "oled_write control data d = oled_write control (drop ?n data) ?d1"
      using False by (subst oled_write.simps) (simp add: Let_def)
    then show ?thesis using "1.IH" [OF False refl refl w [symmetric]] "1.prems" by simp
  qed
qed

lemma cmds_answer:
  "(\<And>k. i2c_ok d k) \<Longrightarrow> fst (oled_cmds cs d) = 0 \<and> i2c_ok (snd (oled_cmds cs d)) = i2c_ok d"
proof (induction cs arbitrary: d)
  case (Cons c cs)
  obtain r d1 where c: "oled_cmd c d = (r, d1)" by fastforce
  then have "r = 0" "i2c_ok d1 = i2c_ok d" using bus_answers [OF Cons.prems, of OLED_CMD "[c]"] by (simp_all add: oled_cmd_def)
  then show ?case using c Cons.IH [of d1] Cons.prems by simp
qed simp

lemma pages_answer:
  "(\<And>k. i2c_ok d k) \<Longrightarrow> fst (oled_pages ps d) = 0 \<and> i2c_ok (snd (oled_pages ps d)) = i2c_ok d"
proof (induction ps arbitrary: d)
  case (Cons p ps)
  obtain r d1 where c: "oled_cmds [0xB0 + of_nat p, 0x00, 0x10] d = (r, d1)" by fastforce
  then have c1: "r = 0" "i2c_ok d1 = i2c_ok d" using cmds_answer [OF Cons.prems, of "[0xB0 + of_nat p, 0x00, 0x10]"] by simp_all
  obtain r2 d2 where w: "oled_write OLED_DATA (take 128 (drop (p * 128) (g_framebuffer d1))) d1 = (r2, d2)" by fastforce
  then have "r2 = 0" "i2c_ok d2 = i2c_ok d"
    using bus_answers [of d1 OLED_DATA "take 128 (drop (p * 128) (g_framebuffer d1))"] Cons.prems c1(2) by simp_all
  then show ?case using c c1 w Cons.IH [of d2] Cons.prems by (simp add: oled_page_def)
qed simp

lemma flush_answers: "(\<And>k. i2c_ok d k) \<Longrightarrow> fst (oled_flush d) = 0"
proof -
  assume a: "\<And>k. i2c_ok d k"
  obtain r d1 where c: "oled_cmds [0xAF, 0xA4] d = (r, d1)" by fastforce
  then have "r = 0" "i2c_ok d1 = i2c_ok d" using cmds_answer [OF a, of "[0xAF, 0xA4]"] by simp_all
  then show ?thesis using c pages_answer [of d1 "[0 ..< 8]"] a by (simp add: oled_flush_def)
qed


section \<open>The shape of the state\<close>

definition oled_wf :: "oled \<Rightarrow> bool" where
  "oled_wf d \<longleftrightarrow> length (g_framebuffer d) = 1024 \<and> (\<forall>t \<in> set (i2c_sent d). transfer_ok t) \<and>
     g_oled_ready d \<in> {0, 1} \<and> g_oled_available d \<in> {0, 1}"

lemma sends_wf: "sends d d' ts \<Longrightarrow> oled_wf d \<Longrightarrow> oled_wf d'"
  by (auto simp: sends_def oled_wf_def)

lemma cmds_wf: "oled_wf d \<Longrightarrow> oled_wf (snd (oled_cmds cs d))"
  using oled_cmds_sends [of cs d "fst (oled_cmds cs d)" "snd (oled_cmds cs d)"] sends_wf by auto

lemma flush_wf: "oled_wf d \<Longrightarrow> oled_wf (snd (oled_flush d))"
  using oled_flush_sends [of d "fst (oled_flush d)" "snd (oled_flush d)"] sends_wf [of d] by (auto simp: oled_wf_def [of d])

lemma frame_wf: "oled_wf d \<Longrightarrow> length fb = 1024 \<Longrightarrow> oled_wf (d\<lparr>g_framebuffer := fb\<rparr>)"
  by (simp add: oled_wf_def)

lemma flags_wf: "oled_wf d \<Longrightarrow> v \<in> {0, 1} \<Longrightarrow> oled_wf (d\<lparr>g_oled_ready := v\<rparr>) \<and> oled_wf (d\<lparr>g_oled_available := v\<rparr>)"
  by (simp add: oled_wf_def)

lemma blink_wf:
  assumes "oled_wf d"
  shows "oled_wf (snd (oled_self_test_blink d))"
proof -
  obtain r1 d1 where f1: "oled_flush (d\<lparr>g_framebuffer := replicate 1024 0xFF\<rparr>) = (r1, d1)" by fastforce
  have w1: "oled_wf d1" using flush_wf [OF frame_wf [OF assms], of "replicate 1024 0xFF"] f1 by simp
  obtain r2 d2 where f2: "oled_flush (d1\<lparr>g_framebuffer := replicate 1024 0\<rparr>) = (r2, d2)" by fastforce
  have w2: "oled_wf d2" using flush_wf [OF frame_wf [OF w1], of "replicate 1024 0"] f2 by simp
  have "oled_wf (snd (oled_flush (d2\<lparr>g_framebuffer := g_framebuffer d\<rparr>)))"
    using assms by (intro flush_wf frame_wf [OF w2]) (simp add: oled_wf_def)
  then show ?thesis using f1 f2 w1 w2 by (simp add: oled_self_test_blink_def Let_def)
qed

lemma init_wf:
  assumes "oled_wf d"
  shows "oled_wf (snd (Driver_OLED_Init i2c_init d))"
proof -
  obtain r1 d1 where f1: "oled_cmds init_cmds d = (r1, d1)" by fastforce
  have w1: "oled_wf d1" using cmds_wf [OF assms, of init_cmds] f1 by simp
  obtain r2 d2 where f2: "oled_flush (oled_clear_buffer d1) = (r2, d2)" by fastforce
  have w2: "oled_wf d2" using flush_wf [of "oled_clear_buffer d1"] frame_wf [OF w1] f2 by (simp add: oled_clear_buffer_def)
  obtain r3 d3 where f3: "oled_self_test_blink d2 = (r3, d3)" by fastforce
  have w3: "oled_wf d3" using blink_wf [OF w2] f3 by simp
  show ?thesis using assms f1 f2 f3 flags_wf w1 w2 w3 by (simp add: Driver_OLED_Init_def)
qed

lemma show_wf:
  assumes "oled_wf d"
  shows "oled_wf (snd (Driver_OLED_ShowStatus st d))"
proof -
  have "Driver_OLED_ShowStatus st d = (if g_oled_ready d = 0 then (-1, d) else oled_flush (d\<lparr>g_framebuffer := drawn (status_lines st)\<rparr>))"
    by (simp add: Driver_OLED_ShowStatus_def oled_clear_buffer_def drawn_def Let_def)
  then show ?thesis using assms flush_wf [OF frame_wf [OF assms]] by (simp add: drawn_def)
qed

text \<open>The two operations the display task uses, in any order.\<close>

datatype display_op = Display_init int | Display_show display_status

fun display_run :: "display_op \<Rightarrow> oled \<Rightarrow> oled" where
  "display_run (Display_init i2c_init) d = snd (Driver_Display_Init i2c_init d)"
| "display_run (Display_show st) d = snd (Driver_Display_Show st d)"

lemma display_run_wf: "oled_wf d \<Longrightarrow> oled_wf (display_run x d)"
proof (cases x)
  case (Display_init i2c_init)
  obtain r d1 where "Driver_OLED_Init i2c_init d = (r, d1)" by fastforce
  moreover assume "oled_wf d"
  ultimately show ?thesis using Display_init init_wf [of d i2c_init] flags_wf [of d1] by (simp add: Driver_Display_Init_def)
next
  case (Display_show st)
  obtain r d1 where "Driver_OLED_ShowStatus st d = (r, d1)" by fastforce
  moreover assume "oled_wf d"
  ultimately show ?thesis using Display_show show_wf [of d st] flags_wf [of d1 0] by (simp add: Driver_Display_Show_def)
qed

text \<open>C36: the display driver keeps its shape. After any calls of its two functions, whatever the bus answers,
  the frame buffer has its 1024 bytes, the flags are zero or one, and every transfer that was started is
  a command or data byte with one to sixteen bytes, which fits the buffer of the sending function.\<close>

theorem display_shape_kept:
  assumes "length (g_framebuffer d) = 1024" "i2c_sent d = []" "g_oled_ready d = 0" "g_oled_available d = 0" "d' = fold display_run xs d"
  shows "length (g_framebuffer d') = 1024 \<and> g_oled_ready d' \<in> {0, 1} \<and> g_oled_available d' \<in> {0, 1} \<and>
    (\<forall>t \<in> set (i2c_sent d'). 2 \<le> length t \<and> length t \<le> 17 \<and> hd t \<in> {OLED_CMD, OLED_DATA})"
proof -
  have f: "oled_wf d \<Longrightarrow> oled_wf (fold display_run xs d)" for d
    by (induction xs arbitrary: d) (auto simp: display_run_wf)
  have "oled_wf d" using assms(1-4) by (simp add: oled_wf_def)
  then have "oled_wf d'" unfolding assms(5) by (rule f)
  then show ?thesis unfolding oled_wf_def transfer_ok_def by blast
qed

theorem display_shape_kept_witness:
  "length (g_framebuffer (fold display_run [Display_init 0, Display_show sample_status]
     (sample_oled\<lparr>g_oled_ready := 0, g_oled_available := 0, i2c_ok := \<lambda>n. n < 100\<rparr>))) = 1024"
  by (rule display_shape_kept [OF _ _ _ _ refl, THEN conjunct1]) (simp_all add: sample_oled_def)

text \<open>A display that has failed once is not used again before the next initialisation.\<close>

lemma failed_display_is_off:
  "g_oled_available d = 0 \<Longrightarrow> Driver_Display_Show st d = (0, d)"
  by (simp add: Driver_Display_Show_def)

end
