(* ===== verification/Host_Ota.thy ===== *)
theory Host_Ota
  imports Boot_Frame C_Strings "HOL-Library.Signed_Division"
begin

text \<open>
  The sender of an update: \<open>Stm32OtaAdapter\<close> of the serial gateway
  (\<open>serial-gateway/src/ota/stm32_ota_adapter.cpp\<close>), which runs on the Linux host. It sends PREPARE,
  the image in chunks, VERIFY and COMMIT, and repeats each request until it is acknowledged. Everything
  outside the program (the two transports, the clock, the socket calls, the callbacks) is a record of
  functions on a world; the loops that run until the clock passes a deadline have no bound of
  their own. The locale \<open>frame_transport\<close> says what the adapter needs of the line that carries whole frames, and
  what its waiting for an answer does over such a line.
\<close>

section \<open>Frames\<close>

fun sg_crc16_modbus_loop :: "u16 \<Rightarrow> u8 list \<Rightarrow> u16" where
  "sg_crc16_modbus_loop crc [] = crc"
| "sg_crc16_modbus_loop crc (d # ds) = sg_crc16_modbus_loop ((crc16_shift ^^ 8) (crc XOR ucast d)) ds"

definition sg_crc16_modbus :: "u8 list \<Rightarrow> u16" where
  "sg_crc16_modbus data = sg_crc16_modbus_loop 0xFFFF data"

definition pushU16 :: "u16 \<Rightarrow> u8 list" where
  "pushU16 v = [ucast (v AND 0xFF), ucast (drop_bit 8 v AND 0xFF)]"

definition pushU32 :: "u32 \<Rightarrow> u8 list" where
  "pushU32 v = [ucast (v AND 0xFF), ucast (drop_bit 8 v AND 0xFF),
                ucast (drop_bit 16 v AND 0xFF), ucast (drop_bit 24 v AND 0xFF)]"

definition readU16 :: "u8 list \<Rightarrow> nat \<Rightarrow> u16" where
  "readU16 p i = ucast (p ! i) OR push_bit 8 (ucast (p ! (i + 1)))"

definition buildFrame :: "u8 \<Rightarrow> u8 list \<Rightarrow> u8 list" where
  "buildFrame type payload =
     (let buf = [0xAA, 0x55, of_nat (length payload + 1), type] @ payload;
          crc = sg_crc16_modbus (take (1 + length payload + 1) (drop 2 buf))
      in buf @ [ucast (crc AND 0xFF), ucast (drop_bit 8 crc AND 0xFF)])"

definition frameType :: "u8 list \<Rightarrow> u8" where
  "frameType frame = (if length frame < 4 then 0xFF else frame ! 3)"

text \<open>The text of a refusal.\<close>

definition nack_text :: "u8 list \<Rightarrow> nat \<Rightarrow> nat \<Rightarrow> string" where
  "nack_text bytes payload_len pos =
     (if payload_len \<ge> 4 then ''received nack code='' @ decimal (unat (readU16 bytes pos)) else ''received nack'')"

text \<open>The two readers of an answer. The first returns whether the frame is well formed or the
  acknowledgement expected, whether it decides about the request, and the error text.\<close>

definition parseAckFrame :: "u8 list \<Rightarrow> u16 \<Rightarrow> string \<Rightarrow> bool \<times> bool \<times> string" where
  "parseAckFrame frame seq err =
     (if length frame < 6 \<or> frame ! 0 \<noteq> 0xAA \<or> frame ! 1 \<noteq> 0x55 then (False, False, err)
      else
        let len = unat (frame ! 2); total = 2 + 1 + len + 2
        in if length frame \<noteq> total \<or> len < 1 then (False, False, err)
           else
             let type = frame ! 3; payload_len = len - 1;
                 wire_crc = readU16 frame (total - 2);
                 calc_crc = sg_crc16_modbus (take (1 + len) (drop 2 frame))
             in if wire_crc \<noteq> calc_crc then (False, False, err)
                else if type \<noteq> 0x22 \<and> type \<noteq> 0x23 then (True, False, err)
                else if payload_len < 2 then (False, False, err)
                else if readU16 frame 4 \<noteq> seq then (True, False, err)
                else if type = 0x22 then (True, True, err)
                else (False, True, nack_text frame payload_len 6))"

record ack_event =
  ev_valid :: bool
  ev_is_ack :: bool
  ev_seq :: u16
  ev_err :: string

definition no_event :: ack_event where
  "no_event = \<lparr>ev_valid = False, ev_is_ack = False, ev_seq = 0, ev_err = []\<rparr>"

definition parseAckEvent :: "u8 list \<Rightarrow> ack_event" where
  "parseAckEvent frame =
     (if length frame < 6 \<or> frame ! 0 \<noteq> 0xAA \<or> frame ! 1 \<noteq> 0x55 then no_event
      else
        let len = unat (frame ! 2); total = 2 + 1 + len + 2
        in if length frame \<noteq> total \<or> len < 1 then no_event
           else
             let type = frame ! 3; payload_len = len - 1
             in if type \<noteq> 0x22 \<and> type \<noteq> 0x23 then no_event
                else if payload_len < 2 then no_event
                else
                  let wire_crc = readU16 frame (total - 2);
                      calc_crc = sg_crc16_modbus (take (1 + len) (drop 2 frame))
                  in if wire_crc \<noteq> calc_crc then no_event
                     else \<lparr>ev_valid = True, ev_is_ack = (type = 0x22), ev_seq = readU16 frame 4,
                            ev_err = (if type = 0x22 then [] else nack_text frame payload_len 6)\<rparr>)"

section \<open>The outside\<close>

text \<open>The clock is read in nanoseconds, waits are in milliseconds. Receiving gives a frame or an
  error text. A socket call returns what the C call does; receiving on a socket gives the bytes that came.\<close>

record 'w ota_env =
  send_raw_frame :: "u8 list \<Rightarrow> string \<Rightarrow> 'w \<Rightarrow> bool \<times> string \<times> 'w"
  recv_raw_frame :: "int \<Rightarrow> 'w \<Rightarrow> (u8 list + string) \<times> 'w"
  steady_now :: "'w \<Rightarrow> int \<times> 'w"
  sleep_for :: "int \<Rightarrow> 'w \<Rightarrow> 'w"
  should_stop :: "'w \<Rightarrow> bool \<times> 'w"
  progress_cb :: "int \<Rightarrow> 'w \<Rightarrow> 'w"
  sock_create :: "'w \<Rightarrow> int \<times> 'w"
  sock_pton :: "string \<Rightarrow> bool"
  sock_connect :: "int \<Rightarrow> string \<Rightarrow> u16 \<Rightarrow> 'w \<Rightarrow> int \<times> 'w"
  sock_close :: "int \<Rightarrow> 'w \<Rightarrow> 'w"
  sock_send :: "int \<Rightarrow> u8 list \<Rightarrow> 'w \<Rightarrow> int \<times> 'w"
  sock_select :: "int \<Rightarrow> int \<Rightarrow> int \<Rightarrow> 'w \<Rightarrow> int \<times> 'w"
  sock_recv :: "int \<Rightarrow> nat \<Rightarrow> 'w \<Rightarrow> u8 list \<times> 'w"

record ota_options =
  opt_host :: string
  opt_port :: int
  opt_chunk_size :: nat
  opt_max_retries :: int
  opt_wait_boot_hello :: bool
  opt_hello_timeout_ms :: int
  opt_prepare_ack_timeout_ms :: int
  opt_data_ack_timeout_ms :: int
  opt_verify_ack_timeout_ms :: int
  opt_commit_ack_timeout_ms :: int
  opt_inter_chunk_delay_ms :: int
  opt_target_base :: u32
  opt_image_version :: u32
  opt_custom_transport :: bool

text \<open>The cache of answers is a static variable of the program: it outlives a run.\<close>

record 'w host =
  ack_cache :: "u16 \<Rightarrow> string option"
  world :: 'w

definition ms_between :: "int \<Rightarrow> int \<Rightarrow> int" where
  "ms_between t deadline = (deadline - t) sdiv 1000000"

section \<open>One exchange over whole frames\<close>

definition consumeCachedAck :: "u16 \<Rightarrow> string \<Rightarrow> 'w host \<Rightarrow> int \<times> string \<times> 'w host" where
  "consumeCachedAck seq err h =
     (case ack_cache h seq of
        None \<Rightarrow> (0, err, h)
      | Some cached_err \<Rightarrow>
          (let h1 = h\<lparr>ack_cache := (ack_cache h)(seq := None)\<rparr>
           in if cached_err = [] then (1, [], h1) else (-1, cached_err, h1)))"

definition cache_event :: "ack_event \<Rightarrow> 'w host \<Rightarrow> 'w host" where
  "cache_event ev h =
     h\<lparr>ack_cache := (ack_cache h)(ev_seq ev \<mapsto> (if ev_is_ack ev then [] else ev_err ev))\<rparr>"

datatype wait_end = Decided bool | Deadline

partial_function (option) wait_ack ::
  "'w ota_env \<Rightarrow> u16 \<Rightarrow> int \<Rightarrow> string \<Rightarrow> 'w host \<Rightarrow> (wait_end \<times> string \<times> 'w host) option" where
  "wait_ack e seq deadline err h =
     (case steady_now e (world h) of (t, w) \<Rightarrow>
        if t < deadline
        then case steady_now e w of (t1, w1) \<Rightarrow>
               (case recv_raw_frame e (ms_between t1 deadline) w1 of
                  (Inr local_err, w2) \<Rightarrow>
                    Some (Decided False, if local_err = [] then ''ack timeout'' else local_err, h\<lparr>world := w2\<rparr>)
                | (Inl rx_frame, w2) \<Rightarrow>
                    if ev_valid (parseAckEvent rx_frame)
                    then case consumeCachedAck seq err (cache_event (parseAckEvent rx_frame) (h\<lparr>world := w2\<rparr>)) of
                           (cached, err1, h1) \<Rightarrow>
                             if cached = 1 then Some (Decided True, err1, h1)
                             else if cached = -1 then Some (Decided False, err1, h1)
                             else wait_ack e seq deadline err1 h1
                    else case parseAckFrame rx_frame seq err of
                           (ok, decided, err1) \<Rightarrow>
                             if decided then Some (Decided ok, err1, h\<lparr>world := w2\<rparr>)
                             else wait_ack e seq deadline err1 (h\<lparr>world := w2\<rparr>))
        else Some (Deadline, err, h\<lparr>world := w\<rparr>))"

text \<open>One more frame is taken when the deadline passed while answers to other requests came in.\<close>

definition grace_ack :: "'w ota_env \<Rightarrow> u16 \<Rightarrow> string \<Rightarrow> 'w host \<Rightarrow> bool \<times> string \<times> 'w host" where
  "grace_ack e seq err h =
     (case recv_raw_frame e 1500 (world h) of
        (Inr local_err, w) \<Rightarrow> (False, ''ack timeout'', h\<lparr>world := w\<rparr>)
      | (Inl rx_frame, w) \<Rightarrow>
          (let h0 = h\<lparr>world := w\<rparr>; ev = parseAckEvent rx_frame;
               (cached, err1, h1) =
                 (if ev_valid ev then consumeCachedAck seq err (cache_event ev h0) else (0, err, h0))
           in if cached = 1 then (True, err1, h1)
              else if cached = -1 then (False, err1, h1)
              else let (ok, decided, err2) = parseAckFrame rx_frame seq err1
                   in if decided then (ok, err2, h1) else (False, ''ack timeout'', h1)))"

definition exchange_frames ::
  "'w ota_env \<Rightarrow> u8 \<Rightarrow> u8 list \<Rightarrow> u16 \<Rightarrow> int \<Rightarrow> string \<Rightarrow> 'w host \<Rightarrow> (bool \<times> string \<times> 'w host) option" where
  "exchange_frames e type payload expect_seq phase_timeout_ms err h =
     (let frame = buildFrame type payload; (tx_data_ts, w0) = steady_now e (world h)
      in case send_raw_frame e frame err w0 of
           (False, err1, w1) \<Rightarrow> Some (False, err1, h\<lparr>world := w1\<rparr>)
         | (True, err1, w1) \<Rightarrow>
             (let (cached, err2, h2) = consumeCachedAck expect_seq err1 (h\<lparr>world := w1\<rparr>)
              in if cached = 1 then Some (True, err2, h2)
                 else if cached = -1 then Some (False, err2, h2)
                 else
                   let (t, w2) = steady_now e (world h2)
                   in case wait_ack e expect_seq (t + phase_timeout_ms * 1000000) err2 (h2\<lparr>world := w2\<rparr>) of
                        None \<Rightarrow> None
                      | Some (Decided ok, err3, h3) \<Rightarrow> Some (ok, err3, h3)
                      | Some (Deadline, err3, h3) \<Rightarrow> Some (grace_ack e expect_seq err3 h3)))"

section \<open>One exchange over a socket\<close>

definition sendFrame :: "'w ota_env \<Rightarrow> int \<Rightarrow> u8 \<Rightarrow> u8 list \<Rightarrow> string \<Rightarrow> 'w \<Rightarrow> bool \<times> string \<times> 'w" where
  "sendFrame e fd type payload err w =
     (let buf = buildFrame type payload; (n, w1) = sock_send e fd buf w
      in if n \<noteq> int (length buf) then (False, ''send frame failed'', w1) else (True, err, w1))"

partial_function (option) recvAck_loop ::
  "'w ota_env \<Rightarrow> int \<Rightarrow> u16 \<Rightarrow> int \<Rightarrow> string \<Rightarrow> 'w \<Rightarrow> (bool \<times> string \<times> 'w) option" where
  "recvAck_loop e fd seq deadline err w =
     (case steady_now e w of (t, w0) \<Rightarrow>
        if t < deadline
        then case steady_now e w0 of (t1, w1) \<Rightarrow>
             (case sock_select e (fd + 1) (ms_between t1 deadline sdiv 1000)
                     ((ms_between t1 deadline smod 1000) * 1000) w1 of (rc, w2) \<Rightarrow>
              if rc \<le> 0 then Some (False, ''ack timeout'', w2)
              else case sock_recv e fd 4 w2 of (hdr, w3) \<Rightarrow>
              if length hdr \<noteq> 4 then Some (False, ''ack read failed'', w3)
              else if hdr ! 0 \<noteq> 0xAA \<or> hdr ! 1 \<noteq> 0x55 then recvAck_loop e fd seq deadline err w3
              else if hdr ! 2 < 1 then recvAck_loop e fd seq deadline err w3
              else case sock_recv e fd (unat (hdr ! 2) - 1 + 2) w3 of (payload, w4) \<Rightarrow>
              if length payload \<noteq> unat (hdr ! 2) - 1 + 2 then Some (False, ''ack payload read failed'', w4)
              else if readU16 payload (unat (hdr ! 2) - 1) \<noteq>
                      sg_crc16_modbus (hdr ! 2 # hdr ! 3 # take (unat (hdr ! 2) - 1) payload)
              then recvAck_loop e fd seq deadline err w4
              else if (hdr ! 3 = 0x22 \<or> hdr ! 3 = 0x23) \<and> unat (hdr ! 2) - 1 \<ge> 2
              then if readU16 payload 0 \<noteq> seq then recvAck_loop e fd seq deadline err w4
                   else if hdr ! 3 = 0x22 then Some (True, err, w4)
                   else Some (False, nack_text payload (unat (hdr ! 2) - 1) 2, w4)
              else recvAck_loop e fd seq deadline err w4)
        else Some (False, ''ack timeout'', w0))"

definition recvAck :: "'w ota_env \<Rightarrow> int \<Rightarrow> u16 \<Rightarrow> int \<Rightarrow> string \<Rightarrow> 'w \<Rightarrow> (bool \<times> string \<times> 'w) option" where
  "recvAck e fd seq timeout_ms err w =
     (let (t, w1) = steady_now e w in recvAck_loop e fd seq (t + timeout_ms * 1000000) err w1)"

definition sendAndRecvAck ::
  "'w ota_env \<Rightarrow> ota_options \<Rightarrow> int \<Rightarrow> u8 \<Rightarrow> u8 list \<Rightarrow> u16 \<Rightarrow> int \<Rightarrow> string \<Rightarrow> 'w host \<Rightarrow>
   (bool \<times> string \<times> 'w host) option" where
  "sendAndRecvAck e opt fd type payload expect_seq phase_timeout_ms err h =
     (if opt_custom_transport opt then exchange_frames e type payload expect_seq phase_timeout_ms err h
      else case sendFrame e fd type payload err (world h) of
             (False, err1, w1) \<Rightarrow> Some (False, err1, h\<lparr>world := w1\<rparr>)
           | (True, err1, w1) \<Rightarrow>
               map_option (\<lambda>(ok, err2, w2). (ok, err2, h\<lparr>world := w2\<rparr>))
                 (recvAck e fd expect_seq phase_timeout_ms err1 w1))"

section \<open>The run\<close>

text \<open>The first argument counts the attempts that are left, this one included.\<close>

fun retry_attempts ::
  "nat \<Rightarrow> 'w ota_env \<Rightarrow> ota_options \<Rightarrow> int \<Rightarrow> u8 \<Rightarrow> u8 list \<Rightarrow> u16 \<Rightarrow> int \<Rightarrow> string \<Rightarrow> 'w host \<Rightarrow>
   (bool \<times> string \<times> 'w host) option" where
  "retry_attempts 0 e opt fd type payload expect_seq phase_timeout_ms err h = Some (False, err, h)"
| "retry_attempts (Suc n) e opt fd type payload expect_seq phase_timeout_ms err h =
     (case sendAndRecvAck e opt fd type payload expect_seq phase_timeout_ms err h of
        None \<Rightarrow> None
      | Some (True, err1, h1) \<Rightarrow> Some (True, err1, h1)
      | Some (False, err1, h1) \<Rightarrow>
          retry_attempts n e opt fd type payload expect_seq phase_timeout_ms err1
            (if err1 = ''ack timeout'' \<and> n > 0 then h1\<lparr>world := sleep_for e 120 (world h1)\<rparr> else h1))"

definition retryExchange ::
  "'w ota_env \<Rightarrow> ota_options \<Rightarrow> int \<Rightarrow> u8 \<Rightarrow> u8 list \<Rightarrow> u16 \<Rightarrow> int \<Rightarrow> string \<Rightarrow> 'w host \<Rightarrow>
   (bool \<times> string \<times> 'w host) option" where
  "retryExchange e opt = retry_attempts (nat (opt_max_retries opt)) e opt"

partial_function (option) wait_hello ::
  "'w ota_env \<Rightarrow> int \<Rightarrow> string \<Rightarrow> 'w \<Rightarrow> (bool \<times> string \<times> 'w) option" where
  "wait_hello e deadline err w =
     (case steady_now e w of (t, w0) \<Rightarrow>
        if t < deadline
        then case steady_now e w0 of (t1, w1) \<Rightarrow>
               (case recv_raw_frame e (ms_between t1 deadline) w1 of
                  (Inr local_err, w2) \<Rightarrow>
                    Some (False, if local_err = [] \<or> local_err = ''ack timeout'' then ''boot hello timeout'' else local_err, w2)
                | (Inl rx_frame, w2) \<Rightarrow>
                    if frameType rx_frame = 0x20 then Some (True, err, w2) else wait_hello e deadline err w2)
        else Some (False, err, w0))"

definition prepare_payload :: "u16 \<Rightarrow> u8 list \<Rightarrow> u32 \<Rightarrow> nat \<Rightarrow> ota_options \<Rightarrow> u8 list" where
  "prepare_payload seq img image_crc32 chunk_size opt =
     pushU16 seq @ pushU32 (of_nat (length img)) @ pushU32 image_crc32 @ pushU16 (of_nat chunk_size) @
     (if opt_target_base opt \<noteq> 0
      then pushU32 (opt_target_base opt) @ (if opt_image_version opt \<noteq> 0 then pushU32 (opt_image_version opt) else [])
      else if opt_image_version opt \<noteq> 0 then pushU32 0 @ pushU32 (opt_image_version opt) else [])"

definition data_payload :: "u16 \<Rightarrow> nat \<Rightarrow> u8 list \<Rightarrow> u8 list" where
  "data_payload seq offset chunk =
     pushU16 seq @ pushU32 (of_nat offset) @ pushU16 (of_nat (length chunk)) @ chunk"

text \<open>One chunk: the request, and after its acknowledgement the pause before the next one. It gives
  whether to go on, the error text, the sequence number used and the next offset.\<close>

definition send_chunk ::
  "'w ota_env \<Rightarrow> ota_options \<Rightarrow> int \<Rightarrow> u8 list \<Rightarrow> nat \<Rightarrow> u16 \<Rightarrow> nat \<Rightarrow> string \<Rightarrow> 'w host \<Rightarrow>
   (bool \<times> string \<times> u16 \<times> nat \<times> 'w host) option" where
  "send_chunk e opt fd img chunk_size seq offset err h =
     (let seq1 = seq + 1; n = min chunk_size (length img - offset);
          payload = data_payload seq1 offset (take n (drop offset img))
      in case retryExchange e opt fd 0x32 payload seq1 (opt_data_ack_timeout_ms opt) [] h of
           None \<Rightarrow> None
         | Some (False, local_err, h1) \<Rightarrow>
             Some (False, local_err, seq1, offset, if fd \<ge> 0 then h1\<lparr>world := sock_close e fd (world h1)\<rparr> else h1)
         | Some (True, local_err, h1) \<Rightarrow>
             (let offset1 = offset + n;
                  w1 = (if offset1 < length img then sleep_for e 500 (world h1) else world h1);
                  w2 = (if opt_inter_chunk_delay_ms opt > 0 \<and> offset1 < length img
                        then sleep_for e (opt_inter_chunk_delay_ms opt) w1 else w1);
                  w3 = progress_cb e (int (offset1 * 100 div length img)) w2
              in Some (True, err, seq1, offset1, h1\<lparr>world := w3\<rparr>)))"

text \<open>The transfer of the image from an offset on; it gives the last sequence number used.\<close>

partial_function (option) send_image ::
  "'w ota_env \<Rightarrow> ota_options \<Rightarrow> int \<Rightarrow> u8 list \<Rightarrow> nat \<Rightarrow> u16 \<Rightarrow> nat \<Rightarrow> string \<Rightarrow> 'w host \<Rightarrow>
   (bool \<times> string \<times> u16 \<times> 'w host) option" where
  "send_image e opt fd img chunk_size seq offset err h =
     (if offset < length img
      then case should_stop e (world h) of (stop, w) \<Rightarrow>
             if stop then Some (False, ''ota canceled'', seq, h\<lparr>world := sock_close e fd w\<rparr>)
             else case send_chunk e opt fd img chunk_size seq offset err (h\<lparr>world := w\<rparr>) of
                    None \<Rightarrow> None
                  | Some r \<Rightarrow>
                      (case r of (ok, err1, seq1, offset1, h1) \<Rightarrow>
                         if ok then send_image e opt fd img chunk_size seq1 offset1 err1 h1
                         else Some (False, err1, seq1, h1))
      else Some (True, err, seq, h))"

definition fail_close :: "'w ota_env \<Rightarrow> int \<Rightarrow> string \<Rightarrow> 'w host \<Rightarrow> (bool \<times> string \<times> 'w host) option" where
  "fail_close e fd err h = Some (False, err, if fd \<ge> 0 then h\<lparr>world := sock_close e fd (world h)\<rparr> else h)"

text \<open>VERIFY and COMMIT, after the last chunk.\<close>

definition finish_run ::
  "'w ota_env \<Rightarrow> ota_options \<Rightarrow> int \<Rightarrow> u32 \<Rightarrow> u16 \<Rightarrow> string \<Rightarrow> 'w host \<Rightarrow> (bool \<times> string \<times> 'w host) option" where
  "finish_run e opt fd image_crc32 seq err h =
     (let seq1 = seq + 1
      in case retryExchange e opt fd 0x33 (pushU16 seq1 @ pushU32 image_crc32) seq1 (opt_verify_ack_timeout_ms opt) err h of
           None \<Rightarrow> None
         | Some (False, err1, h1) \<Rightarrow> fail_close e fd err1 h1
         | Some (True, err1, h1) \<Rightarrow>
             (let seq2 = seq1 + 1
              in case retryExchange e opt fd 0x34 (pushU16 seq2) seq2 (opt_commit_ack_timeout_ms opt) err1 h1 of
                   None \<Rightarrow> None
                 | Some (False, err2, h2) \<Rightarrow>
                     fail_close e fd (if err2 = ''ack timeout'' then ''commit ack timeout'' else err2) h2
                 | Some (True, err2, h2) \<Rightarrow>
                     Some (True, err2, if fd \<ge> 0 then h2\<lparr>world := sock_close e fd (world h2)\<rparr> else h2)))"

text \<open>The run on an open transport, and opening it.\<close>

definition run_open ::
  "'w ota_env \<Rightarrow> ota_options \<Rightarrow> int \<Rightarrow> u8 list \<Rightarrow> u32 \<Rightarrow> nat \<Rightarrow> string \<Rightarrow> 'w host \<Rightarrow>
   (bool \<times> string \<times> 'w host) option" where
  "run_open e opt fd img image_crc32 chunk_size err h =
     (case (if opt_wait_boot_hello opt \<and> opt_custom_transport opt
            then let (t, w) = steady_now e (world h) in wait_hello e (t + opt_hello_timeout_ms opt * 1000000) err w
            else Some (True, err, world h)) of
        None \<Rightarrow> None
      | Some (False, err1, w1) \<Rightarrow>
          fail_close e fd (if err1 = [] then ''boot hello timeout'' else err1) (h\<lparr>world := w1\<rparr>)
      | Some (True, err1, w1) \<Rightarrow>
          (case retryExchange e opt fd 0x31 (prepare_payload 1 img image_crc32 chunk_size opt) 1
                  (opt_prepare_ack_timeout_ms opt) err1 (h\<lparr>world := w1\<rparr>) of
             None \<Rightarrow> None
           | Some (False, err2, h2) \<Rightarrow> fail_close e fd err2 h2
           | Some (True, err2, h2) \<Rightarrow>
               (case send_image e opt fd img chunk_size 1 0 err2 h2 of
                  None \<Rightarrow> None
                | Some (False, err3, seq, h3) \<Rightarrow> Some (False, err3, h3)
                | Some (True, err3, seq, h3) \<Rightarrow> finish_run e opt fd image_crc32 seq err3 h3)))"

definition ota_run ::
  "'w ota_env \<Rightarrow> ota_options \<Rightarrow> u8 list \<Rightarrow> u32 \<Rightarrow> string \<Rightarrow> 'w host \<Rightarrow> (bool \<times> string \<times> 'w host) option" where
  "ota_run e opt img image_crc32 err h =
     (let chunk_size = min (opt_chunk_size opt) 246
      in if chunk_size = 0 then Some (False, ''invalid chunk_size'', h)
         else case should_stop e (world h) of
                (True, w) \<Rightarrow> Some (False, ''ota canceled'', h\<lparr>world := w\<rparr>)
              | (False, w) \<Rightarrow>
                  if opt_custom_transport opt then run_open e opt (-1) img image_crc32 chunk_size err (h\<lparr>world := w\<rparr>)
                  else case sock_create e w of (fd, w1) \<Rightarrow>
                    if fd < 0 then Some (False, ''socket create failed'', h\<lparr>world := w1\<rparr>)
                    else if \<not> sock_pton e (opt_host opt)
                    then Some (False, ''invalid host'', h\<lparr>world := sock_close e fd w1\<rparr>)
                    else case sock_connect e fd (opt_host opt) (word_of_int (opt_port opt)) w1 of (rc, w2) \<Rightarrow>
                      if rc \<noteq> 0 then Some (False, ''connect failed'', h\<lparr>world := sock_close e fd w2\<rparr>)
                      else run_open e opt fd img image_crc32 chunk_size err (h\<lparr>world := w2\<rparr>))"

section \<open>Facts on the frames\<close>

lemma sg_crc16_eq_bl: "sg_crc16_modbus = bl_crc16_modbus"
proof -
  have "sg_crc16_modbus_loop c xs = bl_crc16_modbus_loop c xs" for c xs
    by (induction xs arbitrary: c) simp_all
  then show ?thesis by (simp add: fun_eq_iff sg_crc16_modbus_def bl_crc16_modbus_def)
qed

lemma push_le [simp]: "pushU16 v = le16 v" "pushU32 w = le32 w"
  by (simp_all add: pushU16_def pushU32_def le16_def le32_def)

lemma readU16_rd [simp]: "readU16 p i = rd16 p i"
  by (simp add: readU16_def rd16_def un16_def)

lemma buildFrame_bytes: "length p < 255 \<Longrightarrow> buildFrame t p = frame_bytes bl_crc16_modbus t p"
  by (simp add: buildFrame_def frame_bytes_def frame_body_def le16_def sg_crc16_eq_bl Let_def add.commute)

text \<open>What the reader of answers makes of a well-formed frame.\<close>

lemma parse_event_frame:
  assumes "length p < 255"
  shows "parseAckEvent (frame_bytes bl_crc16_modbus t p) =
    (if t \<noteq> 0x22 \<and> t \<noteq> 0x23 \<or> length p < 2 then no_event
     else \<lparr>ev_valid = True, ev_is_ack = (t = 0x22), ev_seq = rd16 p 0,
            ev_err = (if t = 0x22 then [] else
              if length p \<ge> 4 then ''received nack code='' @ decimal (unat (rd16 p 2)) else ''received nack'')\<rparr>)"
proof -
  let ?c = "bl_crc16_modbus (frame_body t p)" and ?f = "frame_bytes bl_crc16_modbus t p"
  have f: "?f = [0xAA, 0x55, of_nat (length p) + 1, t] @ p @ le16 ?c"
    by (simp add: frame_bytes_def frame_body_def)
  have len: "unat (?f ! 2) = length p + 1" using assms by (simp add: f)
  have crc: "rd16 ?f (4 + length p) = ?c" "rd16 ?f (length p + 4) = ?c" by (simp_all add: f rd16_def nth_append le16_def)
  have body: "take (length p + 2) (drop 2 ?f) = frame_body t p"
    by (simp add: frame_bytes_def frame_body_def)
  have at: "length p \<ge> 2 \<Longrightarrow> rd16 ?f 4 = rd16 p 0" "length p \<ge> 4 \<Longrightarrow> rd16 ?f 6 = rd16 p 2"
    by (auto simp: f rd16_def nth_append)
  have b: "?f ! 0 = 0xAA" "?f ! 1 = 0x55" "?f ! 3 = t" by (simp_all add: f)
  show ?thesis
    unfolding parseAckEvent_def Let_def len b nack_text_def
    using crc body at by (auto simp: sg_crc16_eq_bl)
qed

definition ack_frame_of :: "u16 \<Rightarrow> u8 list" where
  "ack_frame_of s = frame_bytes bl_crc16_modbus 0x22 (le16 s)"

definition nack_frame_of :: "u16 \<Rightarrow> u16 \<Rightarrow> u8 list" where
  "nack_frame_of s c = frame_bytes bl_crc16_modbus 0x23 (le16 s @ le16 c)"

lemma rd16_le16 [simp]: "rd16 (le16 s) 0 = s" "rd16 (le16 s @ xs) 0 = s" "rd16 (le16 s @ le16 c) 2 = c"
  by (simp_all add: rd16_def le16_def)

lemma parse_ack: "parseAckEvent (ack_frame_of s) = \<lparr>ev_valid = True, ev_is_ack = True, ev_seq = s, ev_err = []\<rparr>"
  by (simp add: ack_frame_of_def parse_event_frame)

lemma parse_nack: "parseAckEvent (nack_frame_of s c) =
    \<lparr>ev_valid = True, ev_is_ack = False, ev_seq = s, ev_err = ''received nack code='' @ decimal (unat c)\<rparr>"
  by (simp add: nack_frame_of_def parse_event_frame)

text \<open>The second reader never decides about a frame that the first has turned down: after the first one
  it is dead code.\<close>

lemma second_reader_undecided:
  assumes "\<not> ev_valid (parseAckEvent f)"
  shows "\<exists>ok. parseAckFrame f seq err = (ok, False, err)"
  using assms by (auto simp: parseAckEvent_def parseAckFrame_def no_event_def Let_def split: if_splits)

section \<open>Waiting for an answer over a line of whole frames\<close>

text \<open>
  What the adapter needs of the line: sending does not fail, the frames that have come in are waiting in
  their order, receiving takes the first of them at once, and when none is waiting it waits for the time it
  is given and fails. Reading the clock changes nothing.
\<close>

locale frame_transport =
  fixes e :: "'w ota_env"
    and inbox :: "'w \<Rightarrow> u8 list list" and now :: "'w \<Rightarrow> int"
    and popped :: "'w \<Rightarrow> 'w" and timed_out :: "int \<Rightarrow> 'w \<Rightarrow> 'w" and sent :: "u8 list \<Rightarrow> 'w \<Rightarrow> 'w"
  assumes clock: "steady_now e w = (now w, w)"
    and recv_frame: "inbox w = f # fs \<Longrightarrow> recv_raw_frame e t w = (Inl f, popped w)"
    and recv_none: "inbox w = [] \<Longrightarrow> recv_raw_frame e t w = (Inr ''ack timeout'', timed_out t w)"
    and inbox_popped: "inbox w = f # fs \<Longrightarrow> inbox (popped w) = fs"
    and now_popped: "now (popped w) = now w"
    and send: "send_raw_frame e f err w = (True, err, sent f w)"
begin

text \<open>An answer to another request is put into the cache and waiting goes on; anything else is ignored.\<close>

definition foreign :: "u16 \<Rightarrow> u8 list \<Rightarrow> bool" where
  "foreign seq f \<longleftrightarrow> (ev_valid (parseAckEvent f) \<longrightarrow> ev_seq (parseAckEvent f) \<noteq> seq)"

definition after_foreign :: "u8 list \<Rightarrow> 'w host \<Rightarrow> 'w host" where
  "after_foreign f h = (let h1 = h\<lparr>world := popped (world h)\<rparr>; ev = parseAckEvent f
     in if ev_valid ev then cache_event ev h1 else h1)"

lemma wait_step:
  assumes "inbox (world h) = f # fs" "foreign seq f" "ack_cache h seq = None" "now (world h) < deadline"
  shows "wait_ack e seq deadline err h = wait_ack e seq deadline err (after_foreign f h)"
proof (cases "ev_valid (parseAckEvent f)")
  case True
  then have "ack_cache (cache_event (parseAckEvent f) (h\<lparr>world := popped (world h)\<rparr>)) seq = None"
    using assms by (auto simp: cache_event_def foreign_def)
  then show ?thesis
    using assms True
    by (subst wait_ack.simps) (simp add: clock recv_frame after_foreign_def consumeCachedAck_def Let_def)
next
  case False
  then obtain ok where "parseAckFrame f seq err = (ok, False, err)"
    using second_reader_undecided by blast
  then show ?thesis
    using assms False by (subst wait_ack.simps) (simp add: clock recv_frame after_foreign_def Let_def)
qed

lemma after_foreign_simps:
  assumes "inbox (world h) = f # fs" "foreign seq f"
  shows "inbox (world (after_foreign f h)) = fs" "world (after_foreign f h) = popped (world h)"
    "ack_cache (after_foreign f h) seq = ack_cache h seq"
    "ack_cache (after_foreign f h) s \<noteq> None \<Longrightarrow> ack_cache h s \<noteq> None \<or> ev_valid (parseAckEvent f) \<and> ev_seq (parseAckEvent f) = s"
  using assms inbox_popped by (auto simp: after_foreign_def cache_event_def foreign_def Let_def split: if_splits)

text \<open>The cache after a list of such frames holds at most answers to their requests.\<close>

definition cache_grew :: "u8 list list \<Rightarrow> 'w host \<Rightarrow> 'w host \<Rightarrow> bool" where
  "cache_grew fs h h' \<longleftrightarrow> (\<forall>s. ack_cache h' s \<noteq> None \<longrightarrow>
     ack_cache h s \<noteq> None \<or> (\<exists>f \<in> set fs. ev_valid (parseAckEvent f) \<and> ev_seq (parseAckEvent f) = s))"

lemma wait_foreign:
  assumes "inbox (world h) = fs @ rest" "\<forall>f \<in> set fs. foreign seq f" "ack_cache h seq = None" "now (world h) < deadline"
  obtains h' where "wait_ack e seq deadline err h = wait_ack e seq deadline err h'"
    "world h' = (popped ^^ length fs) (world h)" "inbox (world h') = rest" "now (world h') = now (world h)"
    "ack_cache h' seq = None" "cache_grew fs h h'"
  using assms
proof (induction fs arbitrary: h thesis)
  case Nil
  then show ?case by (intro Nil(1) [of h]) (simp_all add: cache_grew_def)
next
  case (Cons f fs)
  let ?h = "after_foreign f h"
  have i: "inbox (world h) = f # fs @ rest" "foreign seq f" using Cons.prems by simp_all
  note s = after_foreign_simps [OF i]
  obtain h' where h': "wait_ack e seq deadline err ?h = wait_ack e seq deadline err h'"
    "world h' = (popped ^^ length fs) (world ?h)" "inbox (world h') = rest" "now (world h') = now (world ?h)"
    "ack_cache h' seq = None" "cache_grew fs ?h h'"
    using Cons.IH [of ?h] s(1-3) Cons.prems now_popped by auto
  show ?case
  proof (rule Cons.prems(1))
    show "wait_ack e seq deadline err h = wait_ack e seq deadline err h'"
      using wait_step [OF i Cons.prems(4,5)] h'(1) by simp
    show "world h' = (popped ^^ length (f # fs)) (world h)"
      using h'(2) s(2) by (simp add: funpow_swap1)
    show "now (world h') = now (world h)" using h'(4) s(2) now_popped by simp
    show "cache_grew (f # fs) h h'"
      using h'(6) s(4) unfolding cache_grew_def by (metis list.set_intros)
  qed (use h' in simp_all)
qed

lemma wait_times_out:
  assumes "inbox (world h) = fs" "\<forall>f \<in> set fs. foreign seq f" "ack_cache h seq = None" "now (world h) < deadline"
  obtains h' where "wait_ack e seq deadline err h = Some (Decided False, ''ack timeout'', h')"
    "world h' = timed_out (ms_between (now (world h)) deadline) ((popped ^^ length fs) (world h))"
    "ack_cache h' seq = None" "cache_grew fs h h'"
proof -
  have "inbox (world h) = fs @ []" using assms(1) by simp
  from wait_foreign [OF this assms(2-4)] obtain h' where h':
    "wait_ack e seq deadline err h = wait_ack e seq deadline err h'"
    "world h' = (popped ^^ length fs) (world h)" "inbox (world h') = []" "now (world h') = now (world h)"
    "ack_cache h' seq = None" "cache_grew fs h h'" by blast
  let ?h = "h'\<lparr>world := timed_out (ms_between (now (world h)) deadline) (world h')\<rparr>"
  have "wait_ack e seq deadline err h' = Some (Decided False, ''ack timeout'', ?h)"
    using h' assms(4) by (subst wait_ack.simps) (simp add: clock recv_none)
  then show thesis
    using that [of ?h] h' by (simp add: cache_grew_def)
qed

lemma wait_decided:
  assumes "inbox (world h) = fs @ a # rest" "\<forall>f \<in> set fs. foreign seq f" "ack_cache h seq = None"
    and "now (world h) < deadline"
    and "parseAckEvent a = \<lparr>ev_valid = True, ev_is_ack = ok, ev_seq = seq, ev_err = t\<rparr>" "ok = (t = [])"
  obtains h' where "wait_ack e seq deadline err h = Some (Decided ok, t, h')"
    "world h' = (popped ^^ Suc (length fs)) (world h)" "ack_cache h' seq = None" "cache_grew fs h h'"
proof -
  from wait_foreign [OF assms(1-4)] obtain h' where h':
    "wait_ack e seq deadline err h = wait_ack e seq deadline err h'"
    "world h' = (popped ^^ length fs) (world h)" "inbox (world h') = a # rest" "now (world h') = now (world h)"
    "ack_cache h' seq = None" "cache_grew fs h h'" by blast
  let ?h = "h'\<lparr>world := popped (world h')\<rparr>"
  have c: "(ack_cache h')(seq := None) = ack_cache h'" using h'(5) by auto
  have "wait_ack e seq deadline err h' = Some (Decided ok, t, ?h)"
    using h' assms(4-6)
    by (subst wait_ack.simps) (simp add: clock recv_frame cache_event_def consumeCachedAck_def c)
  then show thesis
    using that [of ?h] h' by (simp add: cache_grew_def)
qed

text \<open>One exchange, by what is waiting after the request was sent.\<close>

definition request_out :: "u8 \<Rightarrow> u8 list \<Rightarrow> 'w host \<Rightarrow> 'w host" where
  "request_out ty p h = h\<lparr>world := sent (buildFrame ty p) (world h)\<rparr>"

lemma exchange_waits:
  assumes "ack_cache h seq = None"
  shows "exchange_frames e ty p seq t err h =
    (case wait_ack e seq (now (world (request_out ty p h)) + t * 1000000) err (request_out ty p h) of
       None \<Rightarrow> None
     | Some (Decided ok, err3, h3) \<Rightarrow> Some (ok, err3, h3)
     | Some (Deadline, err3, h3) \<Rightarrow> Some (grace_ack e seq err3 h3))"
  using assms by (simp add: exchange_frames_def clock send consumeCachedAck_def request_out_def Let_def)

lemma ms_of_timeout: "ms_between n (n + t * 1000000) = t"
  by (simp add: ms_between_def signed_divide_int_def sgn_mult abs_mult sgn_mult_abs)

lemma exchange_times_out:
  assumes "inbox (world (request_out ty p h)) = fs" "\<forall>f \<in> set fs. foreign seq f" "ack_cache h seq = None" "0 < t"
  obtains h' where "exchange_frames e ty p seq t err h = Some (False, ''ack timeout'', h')"
    "world h' = timed_out t ((popped ^^ length fs) (world (request_out ty p h)))"
    "ack_cache h' seq = None" "cache_grew fs h h'"
proof -
  have c: "ack_cache (request_out ty p h) = ack_cache h" by (simp add: request_out_def)
  have "ack_cache (request_out ty p h) seq = None"
    "now (world (request_out ty p h)) < now (world (request_out ty p h)) + t * 1000000"
    using assms(3,4) c by simp_all
  from wait_times_out [OF assms(1,2) this, of err] obtain h' where
    "wait_ack e seq (now (world (request_out ty p h)) + t * 1000000) err (request_out ty p h) = Some (Decided False, ''ack timeout'', h')"
    "world h' = timed_out t ((popped ^^ length fs) (world (request_out ty p h)))"
    "ack_cache h' seq = None" "cache_grew fs (request_out ty p h) h'" by (auto simp: ms_of_timeout)
  then show thesis
    using exchange_waits [OF assms(3), of ty p t err] c by (intro that [of h']) (simp_all add: cache_grew_def)
qed

lemma exchange_decided:
  assumes "inbox (world (request_out ty p h)) = fs @ a # rest" "\<forall>f \<in> set fs. foreign seq f" "ack_cache h seq = None" "0 < t"
    and "parseAckEvent a = \<lparr>ev_valid = True, ev_is_ack = ok, ev_seq = seq, ev_err = m\<rparr>" "ok = (m = [])"
  obtains h' where "exchange_frames e ty p seq t err h = Some (ok, m, h')"
    "world h' = (popped ^^ Suc (length fs)) (world (request_out ty p h))"
    "ack_cache h' seq = None" "cache_grew fs h h'"
proof -
  have c: "ack_cache (request_out ty p h) = ack_cache h" by (simp add: request_out_def)
  have "ack_cache (request_out ty p h) seq = None"
    "now (world (request_out ty p h)) < now (world (request_out ty p h)) + t * 1000000"
    using assms(3,4) c by simp_all
  from wait_decided [OF assms(1,2) this assms(5,6), of err] obtain h' where
    "wait_ack e seq (now (world (request_out ty p h)) + t * 1000000) err (request_out ty p h) = Some (Decided ok, m, h')"
    "world h' = (popped ^^ Suc (length fs)) (world (request_out ty p h))"
    "ack_cache h' seq = None" "cache_grew fs (request_out ty p h) h'" by blast
  then show thesis
    using exchange_waits [OF assms(3), of ty p t err] c by (intro that [of h']) (simp_all add: cache_grew_def)
qed

end

text \<open>A cached answer decides about the next request with the same sequence number, whatever the line
  does with that request: the cache outlives the run, and each run begins to count with one.\<close>

lemma stale_ack_believed:
  assumes "\<And>f x w. \<exists>w'. send_raw_frame e f x w = (True, x, w')" "ack_cache h seq = Some []"
  shows "\<exists>h'. exchange_frames e ty p seq t err h = Some (True, [], h')"
proof -
  obtain t0 w0 where c: "steady_now e (world h) = (t0, w0)" by (cases "steady_now e (world h)")
  obtain w1 where s: "send_raw_frame e (buildFrame ty p) err w0 = (True, err, w1)" using assms(1) by blast
  show ?thesis using assms(2) by (simp add: exchange_frames_def c s consumeCachedAck_def Let_def)
qed

end
