(* ===== verification/Ota_Line.thy ===== *)
theory Ota_Line
  imports Host_Ota Boot_Ota
begin

text \<open>
  The line of an update: the adapter of the serial gateway on one side, the bootloader on the other,
  and between them a serial line that loses requests and answers or delivers answers too late. The
  fates of the requests are a list; time passes for the bootloader while the adapter waits, so
  that its idle limit counts. The line fulfils \<open>frame_transport\<close>; the last part shows which fates the retries of
  the adapter overcome.
\<close>

section \<open>The line\<close>

text \<open>What happens to a request on the line. An answer that is late comes in when the adapter has
  waited for it in vain.\<close>

datatype fate = Delivered | Request_lost | Answer_lost | Answer_late

record ota_line =
  l_fates :: "fate list"
  l_inbox :: "u8 list list"
  l_late :: "u8 list list"
  l_loop :: ota_loop
  l_boot :: boot
  l_left :: bool
  l_idle_limit :: u32
  l_now :: int

definition sent_frames :: "send_result list \<Rightarrow> u8 list list" where
  "sent_frames rs = concat (map (\<lambda>r. case r of Sent bytes \<Rightarrow> [bytes] | _ \<Rightarrow> []) rs)"

text \<open>The bootloader serves the bytes of a request while it is in its session loop: not after
  the reset that follows COMMIT, and not after the idle limit has made it leave.\<close>

definition line_serve :: "u8 list \<Rightarrow> ota_line \<Rightarrow> u8 list list \<times> ota_line" where
  "line_serve bytes w =
     (if l_left w \<or> b_reset (l_boot w) then ([], w)
      else case bl_read_frame (map Some bytes) of
             Some (Some (type, payload), rest) \<Rightarrow>
               (let (l, b) = bl_ota_frame type payload (l_loop w, l_boot w)
                in (sent_frames (b_tx b), w\<lparr>l_loop := l, l_boot := b\<lparr>b_tx := []\<rparr>\<rparr>))
           | _ \<Rightarrow> ([], w))"

text \<open>A number of its reads that time out.\<close>

fun line_silent :: "nat \<Rightarrow> ota_line \<Rightarrow> ota_line" where
  "line_silent 0 w = w"
| "line_silent (Suc n) w =
     (if l_left w \<or> b_reset (l_boot w) then w
      else
        let (expired, l, b) = bl_ota_no_frame (l_idle_limit w) (l_loop w, l_boot w)
        in line_silent n (w\<lparr>l_loop := l, l_boot := b\<lparr>b_tx := []\<rparr>, l_left := expired,
                            l_inbox := l_inbox w @ sent_frames (b_tx b)\<rparr>))"

definition line_wait :: "int \<Rightarrow> ota_line \<Rightarrow> ota_line" where
  "line_wait ms w =
     (let w1 = line_silent (nat ms div 100) w
      in w1\<lparr>l_inbox := l_inbox w1 @ l_late w1, l_late := [], l_now := l_now w1 + ms * 1000000\<rparr>)"

definition line_send :: "u8 list \<Rightarrow> ota_line \<Rightarrow> ota_line" where
  "line_send bytes w =
     (let fate = (case l_fates w of [] \<Rightarrow> Delivered | f # _ \<Rightarrow> f);
          w0 = w\<lparr>l_fates := drop 1 (l_fates w)\<rparr>;
          (answers, w1) = line_serve bytes w0
      in case fate of
           Delivered \<Rightarrow> w1\<lparr>l_inbox := l_inbox w1 @ answers\<rparr>
         | Request_lost \<Rightarrow> w0
         | Answer_lost \<Rightarrow> w1
         | Answer_late \<Rightarrow> w1\<lparr>l_late := l_late w1 @ answers\<rparr>)"

definition line_recv :: "int \<Rightarrow> ota_line \<Rightarrow> (u8 list + string) \<times> ota_line" where
  "line_recv ms w =
     (case l_inbox w of
        [] \<Rightarrow> (Inr ''ack timeout'', line_wait ms w)
      | f # fs \<Rightarrow> (Inl f, w\<lparr>l_inbox := fs\<rparr>))"

text \<open>The adapter on this line; the sockets of its other transport never open.\<close>

definition line_env :: "ota_line ota_env" where
  "line_env = \<lparr>send_raw_frame = (\<lambda>bytes err w. (True, err, line_send bytes w)), recv_raw_frame = line_recv,
     steady_now = (\<lambda>w. (l_now w, w)), sleep_for = line_wait, should_stop = (\<lambda>w. (False, w)),
     progress_cb = (\<lambda>_ w. w), sock_create = (\<lambda>w. (-1, w)), sock_pton = (\<lambda>_. False),
     sock_connect = (\<lambda>_ _ _ w. (-1, w)), sock_close = (\<lambda>_ w. w), sock_send = (\<lambda>_ _ w. (-1, w)),
     sock_select = (\<lambda>_ _ _ w. (-1, w)), sock_recv = (\<lambda>_ _ w. ([], w))\<rparr>"

interpretation line: frame_transport line_env l_inbox l_now "\<lambda>w. w\<lparr>l_inbox := tl (l_inbox w)\<rparr>" line_wait line_send
  by unfold_locales (simp_all add: line_env_def line_recv_def)

lemma popped_n: "((\<lambda>w. w\<lparr>l_inbox := tl (l_inbox w)\<rparr>) ^^ n) w = w\<lparr>l_inbox := drop n (l_inbox w)\<rparr>"
  by (induction n) (simp_all add: drop_Suc tl_drop)

lemma sent_frames_simps [simp]:
  "sent_frames [] = []" "sent_frames [bl_send_ack s] = [ack_frame_of s]" "sent_frames [bl_send_nack s e] = [nack_frame_of s e]"
  by (simp_all add: sent_frames_def ack_frame nack_frame ack_frame_of_def nack_frame_of_def)

section \<open>Time on the line\<close>

text \<open>How long the bootloader has been idle at most.\<close>

definition idle_le :: "nat \<Rightarrow> ota_line \<Rightarrow> bool" where
  "idle_le k w \<longleftrightarrow> \<not> l_left w \<and> (l_idle_limit w = 0 \<or> unat (idle_elapsed_ms (l_loop w)) \<le> k)"

definition within_limit :: "nat \<Rightarrow> ota_line \<Rightarrow> bool" where
  "within_limit k w \<longleftrightarrow> l_idle_limit w = 0 \<or> k < unat (l_idle_limit w)"

lemma hello_no_event: "\<forall>f \<in> set (sent_frames [bl_ota_send_hello m]). \<not> ev_valid (parseAckEvent f)"
  by (simp add: bl_ota_send_hello_def bl_send_frame_fits sent_frames_def parse_event_frame no_event_def)

lemma no_frame_step:
  assumes "bl_ota_no_frame mx (l, b) = (ex, l', b')" "b_tx b = []"
    and "mx = 0 \<or> unat (idle_elapsed_ms l) + 100 < unat mx"
  shows "\<not> ex" "b'\<lparr>b_tx := []\<rparr> = b" "\<forall>f \<in> set (sent_frames (b_tx b')). \<not> ev_valid (parseAckEvent f)"
    "mx = 0 \<or> unat (idle_elapsed_ms l') = unat (idle_elapsed_ms l) + 100" "b_reset b' = b_reset b"
proof -
  have i: "mx = 0 \<or> unat (idle_elapsed_ms l + 100) = unat (idle_elapsed_ms l) + 100"
  proof (cases "mx = 0")
    case False
    then have "unat (idle_elapsed_ms l) + unat (100 :: u32) < 2 ^ LENGTH(32)"
      using assms(3) unat_bound(3) [of mx] by simp
    then show ?thesis by (simp add: unat_add_lem [THEN iffD1])
  qed simp
  then show "\<not> ex" using assms by (auto simp: bl_ota_no_frame_def Let_def word_le_nat_alt word_less_nat_alt split: if_splits)
  show "b'\<lparr>b_tx := []\<rparr> = b" using assms(1,2) by (auto simp: bl_ota_no_frame_def b_send_def Let_def split: if_splits)
  show "\<forall>f \<in> set (sent_frames (b_tx b')). \<not> ev_valid (parseAckEvent f)"
    using assms(1,2) hello_no_event by (auto simp: bl_ota_no_frame_def Let_def split: if_splits)
  show "mx = 0 \<or> unat (idle_elapsed_ms l') = unat (idle_elapsed_ms l) + 100"
    using assms(1) i by (auto simp: bl_ota_no_frame_def Let_def word_gt_0 split: if_splits)
  show "b_reset b' = b_reset b" using assms(1) by (auto simp: bl_ota_no_frame_def Let_def split: if_splits)
qed

lemma silent_line:
  assumes "idle_le k w" "within_limit (k + 100 * n) w" "b_tx (l_boot w) = []"
  shows "idle_le (k + 100 * n) (line_silent n w)" "l_boot (line_silent n w) = l_boot w"
    "l_late (line_silent n w) = l_late w" "l_fates (line_silent n w) = l_fates w" "l_now (line_silent n w) = l_now w"
    "l_idle_limit (line_silent n w) = l_idle_limit w"
    "\<exists>hs. l_inbox (line_silent n w) = l_inbox w @ hs \<and> (\<forall>f \<in> set hs. \<not> ev_valid (parseAckEvent f))"
proof -
  have "idle_le (k + 100 * n) (line_silent n w) \<and> l_boot (line_silent n w) = l_boot w \<and>
    l_late (line_silent n w) = l_late w \<and> l_fates (line_silent n w) = l_fates w \<and> l_now (line_silent n w) = l_now w \<and>
    l_idle_limit (line_silent n w) = l_idle_limit w \<and>
    (\<exists>hs. l_inbox (line_silent n w) = l_inbox w @ hs \<and> (\<forall>f \<in> set hs. \<not> ev_valid (parseAckEvent f)))"
    using assms
  proof (induction n arbitrary: k w)
    case (Suc n)
    show ?case
    proof (cases "b_reset (l_boot w)")
      case True
      then show ?thesis using Suc.prems by (auto simp: idle_le_def)
    next
      case False
      obtain ex l b where s: "bl_ota_no_frame (l_idle_limit w) (l_loop w, l_boot w) = (ex, l, b)"
        using prod_cases3 by blast
      have "l_idle_limit w = 0 \<or> unat (idle_elapsed_ms (l_loop w)) + 100 < unat (l_idle_limit w)"
        using Suc.prems(1,2) by (auto simp: idle_le_def within_limit_def)
      note st = no_frame_step [OF s Suc.prems(3) this]
      let ?w = "w\<lparr>l_loop := l, l_boot := b\<lparr>b_tx := []\<rparr>, l_left := ex, l_inbox := l_inbox w @ sent_frames (b_tx b)\<rparr>"
      have "idle_le (k + 100) ?w" using st(1,4) Suc.prems(1) by (auto simp: idle_le_def)
      moreover have "within_limit (k + 100 + 100 * n) ?w" "b_tx (l_boot ?w) = []"
        using Suc.prems(2) by (simp_all add: within_limit_def algebra_simps)
      ultimately have IH: "idle_le (k + 100 * Suc n) (line_silent n ?w) \<and> l_boot (line_silent n ?w) = l_boot ?w \<and>
        l_late (line_silent n ?w) = l_late ?w \<and> l_fates (line_silent n ?w) = l_fates ?w \<and>
        l_now (line_silent n ?w) = l_now ?w \<and> l_idle_limit (line_silent n ?w) = l_idle_limit ?w \<and>
        (\<exists>hs. l_inbox (line_silent n ?w) = l_inbox ?w @ hs \<and> (\<forall>f \<in> set hs. \<not> ev_valid (parseAckEvent f)))"
        using Suc.IH [of "k + 100" ?w] by (simp add: algebra_simps)
      then obtain hs where hs: "l_inbox (line_silent n ?w) = l_inbox ?w @ hs" "\<forall>f \<in> set hs. \<not> ev_valid (parseAckEvent f)"
        by blast
      have L: "line_silent (Suc n) w = line_silent n ?w"
        using False Suc.prems(1) s by (simp add: idle_le_def)
      show ?thesis unfolding L
        using IH st(2,3) hs by (intro conjI exI [of _ "sent_frames (b_tx b) @ hs"]) auto
    qed
  qed (simp add: idle_le_def)
  then show "idle_le (k + 100 * n) (line_silent n w)" "l_boot (line_silent n w) = l_boot w"
    "l_late (line_silent n w) = l_late w" "l_fates (line_silent n w) = l_fates w" "l_now (line_silent n w) = l_now w"
    "l_idle_limit (line_silent n w) = l_idle_limit w"
    "\<exists>hs. l_inbox (line_silent n w) = l_inbox w @ hs \<and> (\<forall>f \<in> set hs. \<not> ev_valid (parseAckEvent f))"
    by blast+
qed

lemma waited_line:
  assumes "idle_le k w" "within_limit (k + 100 * (nat ms div 100)) w" "b_tx (l_boot w) = []"
  shows "idle_le (k + 100 * (nat ms div 100)) (line_wait ms w)" "l_boot (line_wait ms w) = l_boot w"
    "l_late (line_wait ms w) = []" "l_fates (line_wait ms w) = l_fates w" "l_idle_limit (line_wait ms w) = l_idle_limit w"
    "\<exists>hs. l_inbox (line_wait ms w) = l_inbox w @ hs @ l_late w \<and> (\<forall>f \<in> set hs. \<not> ev_valid (parseAckEvent f))"
  using silent_line [OF assms] by (auto simp: line_wait_def Let_def idle_le_def)

lemma within_limit_mono: "within_limit k w \<Longrightarrow> j \<le> k \<Longrightarrow> within_limit j w"
  by (auto simp: within_limit_def)

lemma idle_le_mono: "idle_le j w \<Longrightarrow> j \<le> k \<Longrightarrow> idle_le k w"
  by (auto simp: idle_le_def)

section \<open>One request until it is acknowledged\<close>

text \<open>The part of the session loop that serves the four requests of an update.\<close>

definition request :: "u8 \<Rightarrow> u8 list \<Rightarrow> boot \<Rightarrow> boot" where
  "request ty p b = snd (bl_ota_frame ty p (\<lparr>idle_elapsed_ms = 0, hello_elapsed_ms = 0, hello_idx = 0,
     hello_periodic_enabled = True\<rparr>, b))"

lemma request_simps [simp]:
  "request 0x31 p b = bl_handle_prepare p b" "request 0x32 p b = bl_handle_data p b"
  "request 0x33 p b = bl_handle_verify p b" "request 0x34 p b = bl_handle_commit p b"
  by (simp_all add: request_def bl_ota_frame_def)

definition update_type :: "u8 \<Rightarrow> bool" where
  "update_type ty \<longleftrightarrow> ty = 0x31 \<or> ty = 0x32 \<or> ty = 0x33 \<or> ty = 0x34"

lemma ota_frame_request:
  "update_type ty \<Longrightarrow> \<exists>l'. bl_ota_frame ty p (l, b) = (l', request ty p b) \<and> idle_elapsed_ms l' = 0"
  by (auto simp: update_type_def bl_ota_frame_def request_def)

lemma read_frame_bytes:
  assumes "length p < 255"
  shows "bl_read_frame (map Some (frame_bytes bl_crc16_modbus t p)) = Some (Some (t, p), [])"
proof -
  let ?c = "bl_crc16_modbus (frame_body t p)"
  have "bl_hunt (map Some (frame_bytes bl_crc16_modbus t p)) =
      Some (Some (), map Some (frame_body t p @ [ucast ?c, ucast (drop_bit 8 ?c)]) @ [])"
    by (simp add: frame_bytes_def le16_def)
  from bl_read_frame_after_sync [OF this assms] show ?thesis by simp
qed

lemma line_serve_request:
  assumes "update_type ty" "length p < 255" "\<not> l_left w" "\<not> b_reset (l_boot w)"
  obtains l where "idle_elapsed_ms l = 0"
    "line_serve (buildFrame ty p) w = (sent_frames (b_tx (request ty p (l_boot w))),
       w\<lparr>l_loop := l, l_boot := (request ty p (l_boot w))\<lparr>b_tx := []\<rparr>\<rparr>)"
proof -
  obtain l where "bl_ota_frame ty p (l_loop w, l_boot w) = (l, request ty p (l_boot w))" "idle_elapsed_ms l = 0"
    using ota_frame_request [OF assms(1)] by blast
  then show thesis
    using assms(2-4) by (intro that [of l]) (simp_all add: line_serve_def buildFrame_bytes read_frame_bytes)
qed

text \<open>Frames that belong to earlier requests, or at most to this one.\<close>

definition older :: "u16 \<Rightarrow> u8 list \<Rightarrow> bool" where
  "older q f \<longleftrightarrow> (ev_valid (parseAckEvent f) \<longrightarrow> unat (ev_seq (parseAckEvent f)) < unat q)"

definition settled :: "u16 \<Rightarrow> u8 list \<Rightarrow> bool" where
  "settled q f \<longleftrightarrow> (ev_valid (parseAckEvent f) \<longrightarrow> unat (ev_seq (parseAckEvent f)) \<le> unat q)"

lemma older_settled: "older q f \<Longrightarrow> settled q f" and older_foreign: "older q f \<Longrightarrow> line.foreign q f"
  and no_event_older: "\<not> ev_valid (parseAckEvent f) \<Longrightarrow> older q f"
  by (auto simp: older_def settled_def line.foreign_def)

lemma ack_settled [simp]: "settled q (ack_frame_of q)" "settled q (nack_frame_of q c)"
  by (simp_all add: settled_def parse_ack parse_nack)

definition cache_below :: "u16 \<Rightarrow> ota_line host \<Rightarrow> bool" where
  "cache_below q h \<longleftrightarrow> (\<forall>s. ack_cache h s \<noteq> None \<longrightarrow> unat s < unat q)"

lemma cache_below_None: "cache_below q h \<Longrightarrow> ack_cache h q = None"
  by (auto simp: cache_below_def)

lemma cache_below_grew:
  "cache_below q h \<Longrightarrow> line.cache_grew fs h h' \<Longrightarrow> \<forall>f \<in> set fs. older q f \<Longrightarrow> cache_below q h'"
  unfolding cache_below_def line.cache_grew_def older_def by metis

text \<open>
  How the bootloader takes a request with the sequence number \<open>q\<close>: before it has been served (\<open>C\<close>), it is
  acknowledged; after that (\<open>D\<close>), a repetition does no harm, and is acknowledged too when the request is idempotent.
\<close>

definition request_law :: "u8 \<Rightarrow> u8 list \<Rightarrow> u16 \<Rightarrow> bool \<Rightarrow> (boot \<Rightarrow> bool) \<Rightarrow> (boot \<Rightarrow> bool) \<Rightarrow> bool" where
  "request_law ty p q idem C D \<longleftrightarrow> update_type ty \<and> length p < 255 \<and>
     (\<forall>b. C b \<longrightarrow> b_tx b = [] \<and> \<not> b_reset b \<and> D ((request ty p b)\<lparr>b_tx := []\<rparr>) \<and>
            sent_frames (b_tx (request ty p b)) = [ack_frame_of q]) \<and>
     (\<forall>b. D b \<longrightarrow> b_tx b = [] \<and> (b_reset b \<or> D ((request ty p b)\<lparr>b_tx := []\<rparr>) \<and>
            (\<forall>f \<in> set (sent_frames (b_tx (request ty p b))). settled q f))) \<and>
     (idem \<longrightarrow> (\<forall>b. D b \<longrightarrow> C b))"

lemma request_lawD:
  assumes "request_law ty p q idem C D"
  shows "update_type ty" "length p < 255"
    "C b \<Longrightarrow> b_tx b = [] \<and> \<not> b_reset b \<and> D ((request ty p b)\<lparr>b_tx := []\<rparr>) \<and>
       sent_frames (b_tx (request ty p b)) = [ack_frame_of q]"
    "D b \<Longrightarrow> b_tx b = []"
    "D b \<Longrightarrow> \<not> b_reset b \<Longrightarrow> D ((request ty p b)\<lparr>b_tx := []\<rparr>)"
    "D b \<Longrightarrow> \<not> b_reset b \<Longrightarrow> f \<in> set (sent_frames (b_tx (request ty p b))) \<Longrightarrow> settled q f"
    "idem \<Longrightarrow> D b \<Longrightarrow> C b"
  using assms by (auto simp: request_law_def)

text \<open>The states between two attempts: nothing has come for this request, its acknowledgement has, or it has
  been taken.\<close>

definition waiting :: "u16 \<Rightarrow> nat \<Rightarrow> (boot \<Rightarrow> bool) \<Rightarrow> ota_line host \<Rightarrow> bool" where
  "waiting q k C h \<longleftrightarrow> cache_below q h \<and> idle_le k (world h) \<and> C (l_boot (world h)) \<and>
     (\<forall>f \<in> set (l_inbox (world h) @ l_late (world h)). older q f)"

definition answered :: "u16 \<Rightarrow> nat \<Rightarrow> (boot \<Rightarrow> bool) \<Rightarrow> ota_line host \<Rightarrow> bool" where
  "answered q k D h \<longleftrightarrow> cache_below q h \<and> idle_le k (world h) \<and> D (l_boot (world h)) \<and>
     (\<exists>fs rest. l_inbox (world h) = fs @ ack_frame_of q # rest \<and> (\<forall>f \<in> set fs. older q f) \<and>
        (\<forall>f \<in> set (rest @ l_late (world h)). settled q f))"

definition taken :: "u16 \<Rightarrow> nat \<Rightarrow> (boot \<Rightarrow> bool) \<Rightarrow> ota_line host \<Rightarrow> bool" where
  "taken q k D h \<longleftrightarrow> cache_below q h \<and> idle_le k (world h) \<and> D (l_boot (world h)) \<and>
     (\<forall>f \<in> set (l_inbox (world h) @ l_late (world h)). settled q f)"

text \<open>Whether the acknowledgement of a request comes through within a number of attempts, and the fates that are
  left then. A late answer is good enough for the next attempt, whatever happens to its request.\<close>

fun gets_through :: "bool \<Rightarrow> nat \<Rightarrow> fate list \<Rightarrow> fate list option" where
  "gets_through idem 0 fates = None"
| "gets_through idem (Suc n) [] = Some []"
| "gets_through idem (Suc n) (Delivered # fates) = Some fates"
| "gets_through idem (Suc n) (Request_lost # fates) = gets_through idem n fates"
| "gets_through idem (Suc n) (Answer_lost # fates) = (if idem then gets_through idem n fates else None)"
| "gets_through idem (Suc n) (Answer_late # fates) = (if n = 0 then None else Some (drop 1 fates))"

lemma line_send_fate:
  "l_fates w = Request_lost # fates \<Longrightarrow> line_send x w = w\<lparr>l_fates := fates\<rparr>"
  "l_fates w = Answer_lost # fates \<Longrightarrow> line_send x w = snd (line_serve x (w\<lparr>l_fates := fates\<rparr>))"
  "l_fates w = Answer_late # fates \<Longrightarrow> line_send x w =
     (case line_serve x (w\<lparr>l_fates := fates\<rparr>) of (as, w1) \<Rightarrow> w1\<lparr>l_late := l_late w1 @ as\<rparr>)"
  "l_fates w = [] \<or> l_fates w = Delivered # drop 1 (l_fates w) \<Longrightarrow> line_send x w =
     (case line_serve x (w\<lparr>l_fates := drop 1 (l_fates w)\<rparr>) of (as, w1) \<Rightarrow> w1\<lparr>l_inbox := l_inbox w1 @ as\<rparr>)"
  by (auto simp: line_send_def Let_def split: prod.splits list.splits fate.splits)

lemma attempt_times_out:
  assumes "w1 = line_send (buildFrame ty p) (world h)" "\<forall>f \<in> set (l_inbox w1). older q f" "cache_below q h" "0 < t"
    and "idle_le k w1" "within_limit (k + 100 * (nat t div 100)) w1" "b_tx (l_boot w1) = []"
  obtains h' hs where "exchange_frames line_env ty p q t err h = Some (False, ''ack timeout'', h')" "cache_below q h'"
    "idle_le (k + 100 * (nat t div 100)) (world h')" "l_boot (world h') = l_boot w1" "l_late (world h') = []"
    "l_fates (world h') = l_fates w1" "l_idle_limit (world h') = l_idle_limit w1"
    "l_inbox (world h') = hs @ l_late w1" "\<forall>f \<in> set hs. older q f"
proof -
  have o: "line.request_out ty p h = h\<lparr>world := w1\<rparr>" by (simp add: line.request_out_def assms(1))
  let ?v = "w1\<lparr>l_inbox := []\<rparr>"
  have "l_inbox (world (line.request_out ty p h)) = l_inbox w1" "\<forall>f \<in> set (l_inbox w1). line.foreign q f"
    using assms(2) older_foreign by (auto simp: o)
  from line.exchange_times_out [OF this cache_below_None [OF assms(3)] assms(4), of err] obtain h' where h':
    "exchange_frames line_env ty p q t err h = Some (False, ''ack timeout'', h')" "world h' = line_wait t ?v"
    "line.cache_grew (l_inbox w1) h h'" by (auto simp: o popped_n)
  have "idle_le k ?v" "within_limit (k + 100 * (nat t div 100)) ?v" "b_tx (l_boot ?v) = []"
    using assms(5-7) by (simp_all add: idle_le_def within_limit_def)
  from waited_line [OF this] obtain hs where
    "idle_le (k + 100 * (nat t div 100)) (world h')" "l_boot (world h') = l_boot w1" "l_late (world h') = []"
    "l_fates (world h') = l_fates w1" "l_idle_limit (world h') = l_idle_limit w1"
    "l_inbox (world h') = hs @ l_late w1" "\<forall>f \<in> set hs. \<not> ev_valid (parseAckEvent f)" by (auto simp: h'(2))
  then show thesis
    using that [of h' hs] h'(1) cache_below_grew [OF assms(3) h'(3) assms(2)] no_event_older by blast
qed

lemma attempt_decided:
  assumes "w1 = line_send (buildFrame ty p) (world h)" "l_inbox w1 = fs @ ack_frame_of q # rest"
    and "\<forall>f \<in> set fs. older q f" "cache_below q h" "0 < t"
  obtains h' where "exchange_frames line_env ty p q t err h = Some (True, [], h')" "cache_below q h'"
    "world h' = w1\<lparr>l_inbox := rest\<rparr>"
proof -
  have o: "line.request_out ty p h = h\<lparr>world := w1\<rparr>" by (simp add: line.request_out_def assms(1))
  have "l_inbox (world (line.request_out ty p h)) = fs @ ack_frame_of q # rest" "\<forall>f \<in> set fs. line.foreign q f"
    using assms(2,3) older_foreign by (auto simp: o)
  from line.exchange_decided [OF this cache_below_None [OF assms(4)] assms(5) parse_ack, of err] obtain h' where h':
    "exchange_frames line_env ty p q t err h = Some (True, [], h')"
    "world h' = ((\<lambda>w. w\<lparr>l_inbox := tl (l_inbox w)\<rparr>) ^^ Suc (length fs)) w1" "line.cache_grew fs h h'"
    by (auto simp: o simp del: funpow.simps)
  have "world h' = w1\<lparr>l_inbox := rest\<rparr>" unfolding h'(2) popped_n using assms(2) by simp
  then show thesis using that [of h'] h'(1) cache_below_grew [OF assms(4) h'(3) assms(3)] by blast
qed

text \<open>What sending a request does to the line, after it has been served and before.\<close>

lemma serve_again:
  assumes "request_law ty p q idem C D" "idle_le k w" "D (l_boot w)" "line_serve (buildFrame ty p) w = (as, u)"
  shows "(\<forall>f \<in> set as. settled q f) \<and> idle_le k u \<and> D (l_boot u) \<and> l_fates u = l_fates w \<and>
    l_idle_limit u = l_idle_limit w \<and> l_inbox u = l_inbox w \<and> l_late u = l_late w"
proof (cases "b_reset (l_boot w)")
  case True
  then show ?thesis using assms by (simp add: line_serve_def)
next
  case False
  note L = request_lawD [OF assms(1)]
  have "\<not> l_left w" using assms(2) by (simp add: idle_le_def)
  then obtain l where "idle_elapsed_ms l = 0" "line_serve (buildFrame ty p) w =
      (sent_frames (b_tx (request ty p (l_boot w))), w\<lparr>l_loop := l, l_boot := (request ty p (l_boot w))\<lparr>b_tx := []\<rparr>\<rparr>)"
    using line_serve_request [OF L(1,2)] False by blast
  then show ?thesis
    using assms(2,4) L(5) [OF assms(3) False] L(6) [OF assms(3) False] by (auto simp: idle_le_def)
qed

lemma send_again:
  assumes "request_law ty p q idem C D" "idle_le k w" "D (l_boot w)"
  obtains more ml where "l_inbox (line_send (buildFrame ty p) w) = l_inbox w @ more"
    "l_late (line_send (buildFrame ty p) w) = l_late w @ ml" "\<forall>f \<in> set (more @ ml). settled q f"
    "idle_le k (line_send (buildFrame ty p) w)" "D (l_boot (line_send (buildFrame ty p) w))"
    "l_fates (line_send (buildFrame ty p) w) = drop 1 (l_fates w)"
    "l_idle_limit (line_send (buildFrame ty p) w) = l_idle_limit w"
proof -
  let ?w = "w\<lparr>l_fates := drop 1 (l_fates w)\<rparr>"
  obtain as u where s: "line_serve (buildFrame ty p) ?w = (as, u)" by (cases "line_serve (buildFrame ty p) ?w")
  have "idle_le k ?w" "D (l_boot ?w)" using assms(2,3) by (simp_all add: idle_le_def)
  note u = serve_again [OF assms(1) this s]
  have "line_send (buildFrame ty p) w \<in> {?w, u, u\<lparr>l_late := l_late u @ as\<rparr>, u\<lparr>l_inbox := l_inbox u @ as\<rparr>}"
    using s by (auto simp: line_send_def Let_def split: fate.splits)
  then consider "line_send (buildFrame ty p) w = ?w" | "line_send (buildFrame ty p) w = u"
    | "line_send (buildFrame ty p) w = u\<lparr>l_late := l_late u @ as\<rparr>"
    | "line_send (buildFrame ty p) w = u\<lparr>l_inbox := l_inbox u @ as\<rparr>" by blast
  then show thesis
  proof cases
    case 1
    then show thesis using that [of "[]" "[]"] assms(2,3) by (simp add: idle_le_def)
  next
    case 2
    then show thesis using that [of "[]" "[]"] u by simp
  next
    case 3
    then show thesis using that [of "[]" as] u by (auto simp: idle_le_def)
  next
    case 4
    then show thesis using that [of as "[]"] u by (auto simp: idle_le_def)
  qed
qed

lemma send_first:
  assumes "request_law ty p q idem C D" "idle_le k w" "C (l_boot w)"
  obtains l b where "D b" "idle_elapsed_ms l = 0"
    "line_serve (buildFrame ty p) (w\<lparr>l_fates := fates\<rparr>) = ([ack_frame_of q], w\<lparr>l_fates := fates, l_loop := l, l_boot := b\<rparr>)"
proof -
  note L = request_lawD [OF assms(1)]
  have "\<not> l_left (w\<lparr>l_fates := fates\<rparr>)" "\<not> b_reset (l_boot (w\<lparr>l_fates := fates\<rparr>))"
    using assms(2) L(3) [OF assms(3)] by (simp_all add: idle_le_def)
  from line_serve_request [OF L(1,2) this] show thesis using that L(3) [OF assms(3)] by auto
qed

text \<open>The acknowledgement is waiting: the next attempt takes it, whatever happens to its request.\<close>

lemma attempt_answered:
  assumes "request_law ty p q idem C D" "answered q k D h" "0 < t"
  obtains h' where "exchange_frames line_env ty p q t err h = Some (True, [], h')" "taken q k D h'"
    "l_fates (world h') = drop 1 (l_fates (world h))" "l_idle_limit (world h') = l_idle_limit (world h)"
proof -
  obtain fs rest where i: "l_inbox (world h) = fs @ ack_frame_of q # rest" "\<forall>f \<in> set fs. older q f"
    "\<forall>f \<in> set (rest @ l_late (world h)). settled q f"
    and d: "cache_below q h" "idle_le k (world h)" "D (l_boot (world h))"
    using assms(2) by (auto simp: answered_def)
  obtain more ml where m: "l_inbox (line_send (buildFrame ty p) (world h)) = l_inbox (world h) @ more"
    "l_late (line_send (buildFrame ty p) (world h)) = l_late (world h) @ ml" "\<forall>f \<in> set (more @ ml). settled q f"
    "idle_le k (line_send (buildFrame ty p) (world h))" "D (l_boot (line_send (buildFrame ty p) (world h)))"
    "l_fates (line_send (buildFrame ty p) (world h)) = drop 1 (l_fates (world h))"
    "l_idle_limit (line_send (buildFrame ty p) (world h)) = l_idle_limit (world h)"
    by (rule send_again [OF assms(1) d(2,3)])
  have "l_inbox (line_send (buildFrame ty p) (world h)) = fs @ ack_frame_of q # (rest @ more)" using m(1) i(1) by simp
  from attempt_decided [OF refl this i(2) d(1) assms(3), of err] obtain h' where
    "exchange_frames line_env ty p q t err h = Some (True, [], h')" "cache_below q h'"
    "world h' = (line_send (buildFrame ty p) (world h))\<lparr>l_inbox := rest @ more\<rparr>" .
  then show thesis using m i(3) by (intro that [of h']) (auto simp: taken_def idle_le_def)
qed

text \<open>An attempt before anything has come.\<close>

lemma attempt_delivered:
  assumes "request_law ty p q idem C D" "waiting q k C h" "0 < t"
    and "l_fates (world h) = [] \<or> l_fates (world h) = Delivered # drop 1 (l_fates (world h))"
  obtains h' where "exchange_frames line_env ty p q t err h = Some (True, [], h')" "taken q 0 D h'"
    "l_fates (world h') = drop 1 (l_fates (world h))" "l_idle_limit (world h') = l_idle_limit (world h)"
proof -
  have d: "cache_below q h" "idle_le k (world h)" "C (l_boot (world h))"
    "\<forall>f \<in> set (l_inbox (world h) @ l_late (world h)). older q f" using assms(2) by (simp_all add: waiting_def)
  obtain l b where s: "D b" "idle_elapsed_ms l = 0" "line_serve (buildFrame ty p) ((world h)\<lparr>l_fates := drop 1 (l_fates (world h))\<rparr>) =
      ([ack_frame_of q], (world h)\<lparr>l_fates := drop 1 (l_fates (world h)), l_loop := l, l_boot := b\<rparr>)"
    by (rule send_first [OF assms(1) d(2,3)])
  let ?w = "(world h)\<lparr>l_fates := drop 1 (l_fates (world h)), l_loop := l, l_boot := b, l_inbox := l_inbox (world h) @ [ack_frame_of q]\<rparr>"
  have w: "?w = line_send (buildFrame ty p) (world h)" using line_send_fate(4) [OF assms(4), of "buildFrame ty p"] s(3) by simp
  have "l_inbox ?w = l_inbox (world h) @ ack_frame_of q # []" "\<forall>f \<in> set (l_inbox (world h)). older q f" using d(4) by auto
  from attempt_decided [OF w this d(1) assms(3), of err] obtain h' where
    "exchange_frames line_env ty p q t err h = Some (True, [], h')" "cache_below q h'" "world h' = ?w\<lparr>l_inbox := []\<rparr>" .
  then show thesis using s(1,2) d(2,4) older_settled by (intro that [of h']) (auto simp: taken_def idle_le_def)
qed

text \<open>An attempt that fails, with the pause after it.\<close>

definition rested :: "ota_line host \<Rightarrow> ota_line host" where
  "rested h = h\<lparr>world := sleep_for line_env 120 (world h)\<rparr>"

lemma attempt_failed:
  assumes "w1 = line_send (buildFrame ty p) (world h)" "\<forall>f \<in> set (l_inbox w1). older q f" "cache_below q h" "0 < t"
    and "idle_le k w1" "within_limit (k + step) w1" "b_tx (l_boot w1) = []" "100 * (nat t div 100) + 100 \<le> step"
  obtains h1 hs hs' where "exchange_frames line_env ty p q t err h = Some (False, ''ack timeout'', h1)"
    "cache_below q (rested h1)" "idle_le (k + step) (world (rested h1))" "l_boot (world (rested h1)) = l_boot w1"
    "l_late (world (rested h1)) = []" "l_fates (world (rested h1)) = l_fates w1"
    "l_idle_limit (world (rested h1)) = l_idle_limit w1"
    "l_inbox (world (rested h1)) = hs @ l_late w1 @ hs'" "\<forall>f \<in> set (hs @ hs'). older q f"
    "l_boot (world h1) = l_boot w1"
proof -
  let ?j = "k + 100 * (nat t div 100)"
  have "within_limit ?j w1" by (rule within_limit_mono [OF assms(6)]) (use assms(8) in simp)
  from attempt_times_out [OF assms(1-5) this assms(7), of err] obtain h1 hs where h1:
    "exchange_frames line_env ty p q t err h = Some (False, ''ack timeout'', h1)" "cache_below q h1"
    "idle_le ?j (world h1)" "l_boot (world h1) = l_boot w1" "l_late (world h1) = []" "l_fates (world h1) = l_fates w1"
    "l_idle_limit (world h1) = l_idle_limit w1" "l_inbox (world h1) = hs @ l_late w1" "\<forall>f \<in> set hs. older q f" .
  have "?j + 100 \<le> k + step" using assms(8) by simp
  then have "within_limit (?j + 100 * (nat 120 div 100)) (world h1)"
    using within_limit_mono [OF assms(6)] h1(7) by (simp add: within_limit_def)
  moreover have "b_tx (l_boot (world h1)) = []" using h1(4) assms(7) by simp
  ultimately have w: "idle_le (?j + 100) (line_wait 120 (world h1))" "l_boot (line_wait 120 (world h1)) = l_boot w1"
    "l_late (line_wait 120 (world h1)) = []" "l_fates (line_wait 120 (world h1)) = l_fates w1"
    "l_idle_limit (line_wait 120 (world h1)) = l_idle_limit w1"
    "\<exists>hs'. l_inbox (line_wait 120 (world h1)) = l_inbox (world h1) @ hs' \<and> (\<forall>f \<in> set hs'. \<not> ev_valid (parseAckEvent f))"
    using waited_line [OF h1(3), of 120] h1 by simp_all
  then obtain hs' where hs': "l_inbox (line_wait 120 (world h1)) = (hs @ l_late w1) @ hs'"
    "\<forall>f \<in> set hs'. older q f" using h1(8) no_event_older by auto
  have r: "world (rested h1) = line_wait 120 (world h1)" "ack_cache (rested h1) = ack_cache h1"
    by (simp_all add: rested_def line_env_def)
  show thesis
    by (rule that [of h1 hs hs'])
       (use h1(1,2,4,9) w(2-5) hs' idle_le_mono [OF w(1) \<open>?j + 100 \<le> k + step\<close>] in \<open>auto simp: r cache_below_def\<close>)
qed

lemma attempt_lost:
  assumes "request_law ty p q idem C D" "waiting q k C h" "0 < t" "100 * (nat t div 100) + 100 \<le> step"
    and "within_limit (k + step) (world h)" "l_fates (world h) = f # fates" "f = Request_lost \<or> f = Answer_lost \<and> idem"
  obtains h1 where "exchange_frames line_env ty p q t err h = Some (False, ''ack timeout'', h1)"
    "waiting q (k + step) C (rested h1)" "l_fates (world (rested h1)) = fates"
    "l_idle_limit (world (rested h1)) = l_idle_limit (world h)" "C (l_boot (world h1))"
proof -
  have d: "cache_below q h" "idle_le k (world h)" "C (l_boot (world h))"
    "\<forall>f \<in> set (l_inbox (world h) @ l_late (world h)). older q f" using assms(2) by (simp_all add: waiting_def)
  note L = request_lawD [OF assms(1)]
  let ?w1 = "line_send (buildFrame ty p) (world h)"
  have w1: "idle_le k ?w1" "C (l_boot ?w1)" "l_inbox ?w1 = l_inbox (world h)" "l_late ?w1 = l_late (world h)"
    "l_fates ?w1 = fates" "l_idle_limit ?w1 = l_idle_limit (world h)"
  proof -
    obtain l b where s: "D b" "idle_elapsed_ms l = 0" "line_serve (buildFrame ty p) ((world h)\<lparr>l_fates := fates\<rparr>) =
        ([ack_frame_of q], (world h)\<lparr>l_fates := fates, l_loop := l, l_boot := b\<rparr>)"
      by (rule send_first [OF assms(1) d(2,3)])
    have "f = Request_lost \<and> ?w1 = (world h)\<lparr>l_fates := fates\<rparr> \<or>
        idem \<and> ?w1 = (world h)\<lparr>l_fates := fates, l_loop := l, l_boot := b\<rparr>"
      using assms(6,7) line_send_fate(1,2) [of "world h" fates "buildFrame ty p"] s(3) by auto
    then show "idle_le k ?w1" "C (l_boot ?w1)" "l_inbox ?w1 = l_inbox (world h)" "l_late ?w1 = l_late (world h)"
      "l_fates ?w1 = fates" "l_idle_limit ?w1 = l_idle_limit (world h)"
      using d(2,3) s(1,2) L(7) by (auto simp: idle_le_def)
  qed
  have i: "\<forall>f \<in> set (l_inbox ?w1). older q f" using d(4) w1(3) by simp
  have wl: "within_limit (k + step) ?w1" using assms(5) w1(6) by (simp add: within_limit_def)
  have tx: "b_tx (l_boot ?w1) = []" using L(3) [OF w1(2)] by simp
  from attempt_failed [OF refl i d(1) assms(3) w1(1) wl tx assms(4), of err] obtain h1 hs hs' where
    "exchange_frames line_env ty p q t err h = Some (False, ''ack timeout'', h1)"
    "cache_below q (rested h1)" "idle_le (k + step) (world (rested h1))" "l_boot (world (rested h1)) = l_boot ?w1"
    "l_late (world (rested h1)) = []" "l_fates (world (rested h1)) = l_fates ?w1"
    "l_idle_limit (world (rested h1)) = l_idle_limit ?w1"
    "l_inbox (world (rested h1)) = hs @ l_late ?w1 @ hs'" "\<forall>f \<in> set (hs @ hs'). older q f"
    "l_boot (world h1) = l_boot ?w1" .
  then show thesis using d(4) w1 by (intro that [of h1]) (auto simp: waiting_def)
qed

lemma attempt_late:
  assumes "request_law ty p q idem C D" "waiting q k C h" "0 < t" "100 * (nat t div 100) + 100 \<le> step"
    and "within_limit step (world h)" "l_fates (world h) = Answer_late # fates"
  obtains h1 where "exchange_frames line_env ty p q t err h = Some (False, ''ack timeout'', h1)"
    "answered q step D (rested h1)" "l_fates (world (rested h1)) = fates"
    "l_idle_limit (world (rested h1)) = l_idle_limit (world h)"
proof -
  have d: "cache_below q h" "idle_le k (world h)" "C (l_boot (world h))"
    "\<forall>f \<in> set (l_inbox (world h) @ l_late (world h)). older q f" using assms(2) by (simp_all add: waiting_def)
  note L = request_lawD [OF assms(1)]
  let ?w1 = "line_send (buildFrame ty p) (world h)"
  obtain l b where s: "D b" "idle_elapsed_ms l = 0" "line_serve (buildFrame ty p) ((world h)\<lparr>l_fates := fates\<rparr>) =
      ([ack_frame_of q], (world h)\<lparr>l_fates := fates, l_loop := l, l_boot := b\<rparr>)"
    by (rule send_first [OF assms(1) d(2,3)])
  have w1: "?w1 = (world h)\<lparr>l_fates := fates, l_loop := l, l_boot := b, l_late := l_late (world h) @ [ack_frame_of q]\<rparr>"
    using line_send_fate(3) [OF assms(6), of "buildFrame ty p"] s(3) by simp
  have i: "\<forall>f \<in> set (l_inbox ?w1). older q f" using d(4) w1 by simp
  have il: "idle_le 0 ?w1" using d(2) s(2) w1 by (simp add: idle_le_def)
  have wl: "within_limit (0 + step) ?w1" using assms(5) w1 by (simp add: within_limit_def)
  have tx: "b_tx (l_boot ?w1) = []" using L(4) [OF s(1)] w1 by simp
  from attempt_failed [OF refl i d(1) assms(3) il wl tx assms(4), of err] obtain h1 hs hs' where h1:
    "exchange_frames line_env ty p q t err h = Some (False, ''ack timeout'', h1)"
    "cache_below q (rested h1)" "idle_le (0 + step) (world (rested h1))" "l_boot (world (rested h1)) = l_boot ?w1"
    "l_late (world (rested h1)) = []" "l_fates (world (rested h1)) = l_fates ?w1"
    "l_idle_limit (world (rested h1)) = l_idle_limit ?w1"
    "l_inbox (world (rested h1)) = hs @ l_late ?w1 @ hs'" "\<forall>f \<in> set (hs @ hs'). older q f"
    "l_boot (world h1) = l_boot ?w1" .
  have "l_inbox (world (rested h1)) = (hs @ l_late (world h)) @ ack_frame_of q # hs'"
    "\<forall>f \<in> set (hs @ l_late (world h)). older q f" "\<forall>f \<in> set (hs' @ l_late (world (rested h1))). settled q f"
    using h1(5,8,9) w1 d(4) older_settled by auto
  then have "\<exists>fs rest. l_inbox (world (rested h1)) = fs @ ack_frame_of q # rest \<and> (\<forall>f \<in> set fs. older q f) \<and>
      (\<forall>f \<in> set (rest @ l_late (world (rested h1))). settled q f)" by blast
  then have "answered q step D (rested h1)"
    using h1(2-4) s(1) w1 by (simp add: answered_def)
  then show thesis using that [of h1] h1 w1 by simp
qed

text \<open>The retries of the adapter bring a request through whenever its fates allow it, and leave the
  bootloader in the state after it.\<close>

lemma retry_succeeds:
  assumes "opt_custom_transport opt"
  shows "sendAndRecvAck line_env opt fd ty p q t err h = Some (True, err', h1) \<Longrightarrow>
      retry_attempts (Suc n) line_env opt fd ty p q t err h = Some (True, err', h1)"
    "exchange_frames line_env ty p q t err h = Some (True, [], h1) \<Longrightarrow>
      retry_attempts (Suc n) line_env opt fd ty p q t err h = Some (True, [], h1)"
    "exchange_frames line_env ty p q t err h = Some (False, ''ack timeout'', h1) \<Longrightarrow> n > 0 \<Longrightarrow>
      retry_attempts (Suc n) line_env opt fd ty p q t err h =
      retry_attempts n line_env opt fd ty p q t ''ack timeout'' (rested h1)"
  using assms by (simp_all add: sendAndRecvAck_def rested_def)

text \<open>How long the bootloader has been idle when a request is acknowledged: the answer of an attempt that
  was not the last may have been late.\<close>

definition carried :: "nat \<Rightarrow> nat \<Rightarrow> nat" where
  "carried m step = (if m \<le> 1 then 0 else step)"

lemma carried_mono: "n \<le> m \<Longrightarrow> carried n step \<le> carried m step"
  by (simp add: carried_def)

lemma retry_gets_through:
  assumes "request_law ty p q idem C D" "0 < t" "100 * (nat t div 100) + 100 \<le> step" "opt_custom_transport opt"
    and "gets_through idem n (l_fates (world h)) = Some rest" "n \<le> m"
    and "waiting q k C h" "within_limit (k + (n - 1) * step) (world h)"
  shows "\<exists>h'. retry_attempts m line_env opt fd ty p q t err h = Some (True, [], h') \<and> taken q (carried n step) D h' \<and>
    l_fates (world h') = rest \<and> l_idle_limit (world h') = l_idle_limit (world h)"
  using assms(5-8)
proof (induction n arbitrary: m k h err)
  case (Suc n)
  obtain m' where m: "m = Suc m'" "n \<le> m'" using Suc.prems(2) by (cases m) auto
  have taken_mono: "taken q i D g \<Longrightarrow> i \<le> j \<Longrightarrow> taken q j D g" for i j g
    by (auto simp: taken_def intro: idle_le_mono)
  have delivered: ?case if d: "l_fates (world h) = [] \<or> l_fates (world h) = Delivered # drop 1 (l_fates (world h))"
  proof -
    obtain h' where "exchange_frames line_env ty p q t err h = Some (True, [], h')" "taken q 0 D h'"
      "l_fates (world h') = drop 1 (l_fates (world h))" "l_idle_limit (world h') = l_idle_limit (world h)"
      by (rule attempt_delivered [OF assms(1) Suc.prems(3) assms(2) d])
    moreover have "drop 1 (l_fates (world h)) = rest" using d Suc.prems(1) by (cases "l_fates (world h)") auto
    ultimately show ?case using retry_succeeds(2) [OF assms(4)] taken_mono [OF _ le0] m(1) by blast
  qed
  show ?case
  proof (cases "l_fates (world h)")
    case Nil
    then show ?thesis by (intro delivered) simp
  next
    case (Cons f fates)
    have lost: ?thesis if f: "f = Request_lost \<or> f = Answer_lost \<and> idem" "gets_through idem n fates = Some rest"
    proof -
      have n: "n > 0" using f(2) by (cases n) simp_all
      then have "k + step \<le> k + (Suc n - 1) * step" by (cases n) simp_all
      then have "within_limit (k + step) (world h)" by (rule within_limit_mono [OF Suc.prems(4)])
      from attempt_lost [OF assms(1) Suc.prems(3) assms(2,3) this Cons f(1), of err] obtain h1 where h1:
        "exchange_frames line_env ty p q t err h = Some (False, ''ack timeout'', h1)" "waiting q (k + step) C (rested h1)"
        "l_fates (world (rested h1)) = fates" "l_idle_limit (world (rested h1)) = l_idle_limit (world h)"
        "C (l_boot (world h1))" .
      have "within_limit (k + step + (n - 1) * step) (world (rested h1))"
        using Suc.prems(4) h1(4) n by (cases n) (simp_all add: within_limit_def algebra_simps)
      from Suc.IH [OF _ m(2) h1(2) this, of "''ack timeout''"] obtain h' where
        "retry_attempts m' line_env opt fd ty p q t ''ack timeout'' (rested h1) = Some (True, [], h')"
        "taken q (carried n step) D h'" "l_fates (world h') = rest" "l_idle_limit (world h') = l_idle_limit (world h)"
        using f(2) h1(3,4) by auto
      then show ?thesis
        using retry_succeeds(3) [OF assms(4) h1(1)] taken_mono [OF _ carried_mono] m n le_SucI by force
    qed
    show ?thesis
    proof (cases f)
      case Delivered
      then show ?thesis using Cons by (intro delivered) simp
    next
      case Answer_late
      then have r: "n > 0" "rest = drop 1 fates" using Suc.prems(1) Cons by (auto split: if_splits)
      have "step \<le> k + (Suc n - 1) * step" using r(1) by (cases n) simp_all
      then have "within_limit step (world h)" by (rule within_limit_mono [OF Suc.prems(4)])
      from attempt_late [OF assms(1) Suc.prems(3) assms(2,3) this Cons [unfolded Answer_late], of err] obtain h1 where h1:
        "exchange_frames line_env ty p q t err h = Some (False, ''ack timeout'', h1)" "answered q step D (rested h1)"
        "l_fates (world (rested h1)) = fates" "l_idle_limit (world (rested h1)) = l_idle_limit (world h)" .
      from attempt_answered [OF assms(1) h1(2) assms(2), of "''ack timeout''"] obtain h2 where h2:
        "exchange_frames line_env ty p q t ''ack timeout'' (rested h1) = Some (True, [], h2)" "taken q step D h2"
        "l_fates (world h2) = drop 1 fates" "l_idle_limit (world h2) = l_idle_limit (world h)" using h1(3,4) by metis
      obtain m'' where "m' = Suc m''" using r(1) m(2) by (cases m') auto
      then show ?thesis
        using retry_succeeds(3) [OF assms(4) h1(1)] retry_succeeds(2) [OF assms(4) h2(1)] h2 r m(1)
        by (simp add: carried_def)
    qed (use lost Suc.prems(1) Cons in \<open>auto split: if_splits\<close>)
  qed
qed simp

end
