(* ===== verification/Ota_Delivery.thy ===== *)
theory Ota_Delivery
  imports Ota_Line Boot_Main
begin

text \<open>
  The update from end to end: how the bootloader takes each of the four requests of the adapter, and
  the whole run over a line with losses, up to the start of the new image. The last part shows what the retries do
  not repair.
\<close>

section \<open>The metadata log takes a record whenever the controller answers\<close>

lemma erased_slot_range:
  assumes "i < meta_max_records" "erased_slot (meta_slots m ! i)" "in_range (meta_addr i) 60 x"
  shows "m x = 0xFF"
  using assms in_range_iff [of 60 "meta_addr i" x] by (auto simp: nth_meta_slots erased_slot_def rdn_eq_iff)

lemma commit_succeeds:
  assumes "waits_ok f" "erased_cell_law f" "magic m = BL_META_MAGIC" "schema_version m = BL_META_SCHEMA_VERSION"
  shows "fst (bl_metadata_commit m f)"
proof -
  obtain ok f' where c: "bl_metadata_commit m f = (ok, f')" by (cases "bl_metadata_commit m f")
  note v = commit_record_valid [OF assms(3,4)]
  from c [unfolded commit_log_store] have "ok"
  proof (cases rule: store_cases)
    case (append k)
    have "programmable (meta_addr k) 60 (HAL_FLASH_Unlock f)"
      using assms(1,2) erased_slot_range [OF append(1,2)]
      by (simp add: programmable_def HAL_FLASH_Unlock_def waits_ok_def erased_cell_law_def)
    then show ?thesis using append(4) write_record_ok [OF _ v] by force
  next
    case (erase_failed f2)
    then show ?thesis
      using HAL_FLASHEx_Erase_spec(3) [of 4 1 "HAL_FLASH_Unlock f"] assms(1)
      by (auto simp: bl_metadata_erase_sector_def waits_ok_def HAL_FLASH_Unlock_def split: prod.splits)
  next
    case (rotate f2 f3)
    have z: "0 < meta_max_records" by (simp add: meta_max_records)
    have "fl_mem f2 x = 0xFF" if "in_range (meta_addr 0) 60 x" for x
      by (rule erased_slot_range [OF z _ that])
         (use erase_sector_slots(2) [OF rotate(2) _ _ z] in \<open>simp add: HAL_FLASH_Unlock_def\<close>)
    moreover have "waits_ok f2" "erased_cell_law f2" "\<not> fl_locked f2"
      using erase_sector_slots(1) [OF rotate(2)] assms(1,2)
      by (simp_all add: only_in_def fl_env_def waits_ok_def erased_cell_law_def HAL_FLASH_Unlock_def)
    ultimately have "programmable (meta_addr 0) 60 f2" by (simp add: programmable_def)
    then show ?thesis using rotate(3) write_record_ok [OF _ v] by force
  qed
  then show ?thesis using c by simp
qed

lemma loaded_meta [simp]: "magic (bl_metadata_load_or_default m) = BL_META_MAGIC"
  "schema_version (bl_metadata_load_or_default m) = BL_META_SCHEMA_VERSION"
  using newest_valid [of bl_metadata_validate "meta_slots m" None]
  by (auto simp: load_newest bl_metadata_validate_def bl_metadata_validate_reason_def Let_def
      split: option.splits if_splits)

section \<open>The state of the bootloader between the requests\<close>

text \<open>What is to be installed where, and what the device held before.\<close>

record ota_job =
  j_img :: "u8 list"
  j_target :: u32
  j_chunk :: nat
  j_meta :: ota_metadata
  j_mem :: mem

definition device_at :: "ota_job \<Rightarrow> boot \<Rightarrow> bool" where
  "device_at j b \<longleftrightarrow> b_tx b = [] \<and> \<not> b_reset b \<and> b_meta b = j_meta j \<and> waits_ok (b_flash b) \<and> erased_cell_law (b_flash b) \<and>
     (\<forall>x. \<not> in_range (j_target j) 0x60000 x \<longrightarrow> fl_mem (b_flash b) x = j_mem j x)"

text \<open>A session that expects the sequence number \<open>s\<close> and has received \<open>off\<close> bytes.\<close>

definition session_at :: "ota_job \<Rightarrow> nat \<Rightarrow> nat \<Rightarrow> boot \<Rightarrow> bool" where
  "session_at j s off b \<longleftrightarrow> device_at j b \<and> ctx_active (b_ctx b) \<and> expected_seq (b_ctx b) = of_nat s \<and>
     target_base (b_ctx b) = j_target j \<and> image_size (b_ctx b) = of_nat (length (j_img j)) \<and>
     image_crc32 (b_ctx b) = bl_crc32 (j_img j) \<and> chunk_size (b_ctx b) = of_nat (j_chunk j) \<and>
     write_offset (b_ctx b) = of_nat off \<and> off \<le> length (j_img j) \<and>
     rdn (fl_mem (b_flash b)) (j_target j) off = take off (j_img j) \<and>
     (\<forall>x. in_range (j_target j + of_nat off) (0x60000 - off) x \<longrightarrow> fl_mem (b_flash b) x = 0xFF)"

definition job_ok :: "ota_job \<Rightarrow> ota_options \<Rightarrow> bool" where
  "job_ok j opt \<longleftrightarrow> 0 < length (j_img j) \<and> length (j_img j) \<le> 0x60000 \<and> j_chunk j = min (opt_chunk_size opt) 246 \<and>
     0 < j_chunk j \<and> bl_prepare_target_allowed (j_meta j) (j_target j) \<and>
     (if opt_target_base opt = 0 then opt_image_version opt = 0 \<and> bl_pick_target_slot (j_meta j) = j_target j
      else opt_target_base opt = j_target j) \<and>
     (opt_image_version opt = 0 \<or> bl_metadata_min_allowed_version (j_meta j) \<le> opt_image_version opt)"

lemma env_laws: "fl_env f' = fl_env f \<Longrightarrow> waits_ok f' = waits_ok f \<and> erased_cell_law f' = erased_cell_law f"
  by (simp add: fl_env_def waits_ok_def erased_cell_law_def)

lemma small_words [simp]:
  "n \<le> 0x60000 \<Longrightarrow> unat (of_nat n :: u32) = n" "n < 65536 \<Longrightarrow> unat (of_nat n :: u16) = n"
  by simp_all

lemma nonzero_words:
  "0 < n \<Longrightarrow> n \<le> 0x60000 \<Longrightarrow> (of_nat n :: u32) \<noteq> 0" "0 < n \<Longrightarrow> n < 65536 \<Longrightarrow> (of_nat n :: u16) \<noteq> 0"
  using of_nat_word_inj [of n 0, where 'a = 32] of_nat_word_inj [of n 0, where 'a = 16] by simp_all

section \<open>PREPARE\<close>

lemma prepare_payload_fields:
  assumes "p = prepare_payload 1 img crc c opt"
  shows "12 \<le> length p" "length p < 255" "rd16 p 0 = 1" "rd32 p 2 = of_nat (length img)" "rd32 p 6 = crc" "rd16 p 10 = of_nat c"
    "(16 \<le> length p) = (opt_target_base opt \<noteq> 0 \<or> opt_image_version opt \<noteq> 0)" "(20 \<le> length p) = (opt_image_version opt \<noteq> 0)"
    "16 \<le> length p \<Longrightarrow> rd32 p 12 = opt_target_base opt" "20 \<le> length p \<Longrightarrow> rd32 p 16 = opt_image_version opt"
  unfolding assms prepare_payload_def
  by (auto simp: le16_def le32_def rd16_def rd32_def nth_append; simp add: un16_def un32_def)+

lemma prepare_served:
  assumes "job_ok j opt" "device_at j b" "p = prepare_payload 1 (j_img j) (bl_crc32 (j_img j)) (j_chunk j) opt"
  shows "session_at j 2 0 ((bl_handle_prepare p b)\<lparr>b_tx := []\<rparr>)" "b_tx (bl_handle_prepare p b) = [bl_send_ack 1]"
proof -
  note P = prepare_payload_fields [OF assms(3)]
  have j: "0 < length (j_img j)" "length (j_img j) \<le> 0x60000" "0 < j_chunk j" "j_chunk j \<le> 246"
    "bl_prepare_target_allowed (j_meta j) (j_target j)"
    "opt_image_version opt = 0 \<or> bl_metadata_min_allowed_version (j_meta j) \<le> opt_image_version opt"
    using assms(1) by (auto simp: job_ok_def)
  have d: "b_tx b = []" "\<not> b_reset b" "b_meta b = j_meta j" "waits_ok (b_flash b)" "erased_cell_law (b_flash b)"
    "\<And>x. \<not> in_range (j_target j) 0x60000 x \<Longrightarrow> fl_mem (b_flash b) x = j_mem j x"
    using assms(2) by (auto simp: device_at_def)
  note slot = target_allowed_slot [OF j(5)]
  have t: "prepare_target (j_meta j) p = j_target j"
    using assms(1) P(7,9) by (auto simp: prepare_target_def job_ok_def split: if_splits)
  have v: "image_version (prepare_fields p c) = (if opt_image_version opt \<noteq> 0 then opt_image_version opt else 0)" for c
    using P(8,10) by (simp add: prepare_fields_def Let_def)
  have sz: "(of_nat (length (j_img j)) :: u32) \<noteq> 0 \<and> \<not> BL_APP_A_SIZE < of_nat (length (j_img j))"
    using nonzero_words(1) [OF j(1,2)] j(2) by (simp add: word_less_nat_alt slot_size)
  have ch: "(of_nat (j_chunk j) :: u16) \<noteq> 0 \<and> \<not> 246 < (of_nat (j_chunk j) :: u16)"
    using nonzero_words(2) [OF j(3)] j(4) by (simp add: word_less_nat_alt)
  have "prepare_refusal (j_meta j) (j_target j) (prepare_fields p (b_ctx b)) = None"
    using sz ch j(5,6) by (auto simp: prepare_refusal_def v P not_le)
  moreover obtain f1 where e: "bl_flash_erase_slot (j_target j) (b_flash b) = (True, f1)"
    using bl_flash_erase_slot_spec(5) [of "j_target j" "b_flash b"] d(4) slot by (metis prod.collapse)
  ultimately have h: "bl_handle_prepare p b = b_ack 1 (b\<lparr>b_flash := f1, b_ctx := prepare_session p (j_target j)\<rparr>)"
    using P(1,3) d(3) t by (simp add: bl_handle_prepare_def Let_def)
  note er = bl_flash_erase_slot_spec [OF e]
  show "b_tx (bl_handle_prepare p b) = [bl_send_ack 1]" using d(1) by (simp add: h)
  show "session_at j 2 0 ((bl_handle_prepare p b)\<lparr>b_tx := []\<rparr>)"
    using d er(1,3) env_laws [OF er(4)] P by (simp add: h session_at_def device_at_def)
qed

section \<open>DATA\<close>

lemma data_payload_fields:
  assumes "p = data_payload q off chunk"
  shows "length p = 8 + length chunk" "rd16 p 0 = q" "rd32 p 2 = of_nat off" "rd16 p 6 = of_nat (length chunk)" "drop 8 p = chunk"
  unfolding assms data_payload_def by (simp_all add: le16_def le32_def rd16_def rd32_def)

lemma ucast_of_nat_up: "n < 65536 \<Longrightarrow> (ucast (of_nat n :: u16) :: u32) = of_nat n"
  by (rule word_unat_eq_iff [THEN iffD2]) simp

lemma session_inv:
  assumes "job_ok j opt" "session_at j s off b"
  shows "ota_inv (b_ctx b)" "unat (write_offset (b_ctx b)) = off" "j_chunk j \<le> 246" "off \<le> length (j_img j)"
    "length (j_img j) \<le> 0x60000"
proof -
  have j: "0 < length (j_img j)" "length (j_img j) \<le> 0x60000" "0 < j_chunk j" "j_chunk j \<le> 246"
    "bl_prepare_target_allowed (j_meta j) (j_target j)" using assms(1) by (auto simp: job_ok_def)
  have off: "off \<le> length (j_img j)" "off \<le> 0x60000" using assms(2) j(2) by (simp_all add: session_at_def)
  have "(of_nat (length (j_img j)) :: u32) \<le> BL_APP_A_SIZE" "(of_nat off :: u32) \<le> of_nat (length (j_img j))"
    "(0 :: u16) < of_nat (j_chunk j)" "(of_nat (j_chunk j) :: u16) \<le> 246"
    using j off nonzero_words(2) [OF j(3)] by (simp_all add: word_le_nat_alt word_gt_0 slot_size)
  then show "ota_inv (b_ctx b)" using assms(2) target_allowed_slot [OF j(5)] by (simp add: ota_inv_def session_at_def)
  show "unat (write_offset (b_ctx b)) = off" using assms(2) off(2) by (simp add: session_at_def)
qed (use assms in \<open>auto simp: job_ok_def session_at_def\<close>)

lemma data_served:
  assumes "job_ok j opt" "session_at j s off b" "off < length (j_img j)" "n = min (j_chunk j) (length (j_img j) - off)"
    and "p = data_payload (of_nat s) off (take n (drop off (j_img j)))"
  shows "session_at j (Suc s) (off + n) ((bl_handle_data p b)\<lparr>b_tx := []\<rparr>)"
    "b_tx (bl_handle_data p b) = [bl_send_ack (of_nat s)]"
proof -
  note I = session_inv [OF assms(1,2)]
  let ?chunk = "take n (drop off (j_img j))"
  have n: "0 < n" "n \<le> 246" "off + n \<le> length (j_img j)" "length ?chunk = n" "n \<le> j_chunk j"
    using assms(1,3,4) I(3) by (auto simp: job_ok_def)
  note P = data_payload_fields [OF assms(5)]
  have c: "ctx_active (b_ctx b)" "expected_seq (b_ctx b) = of_nat s" "target_base (b_ctx b) = j_target j"
    "image_size (b_ctx b) = of_nat (length (j_img j))" "chunk_size (b_ctx b) = of_nat (j_chunk j)"
    "write_offset (b_ctx b) = of_nat off" "rdn (fl_mem (b_flash b)) (j_target j) off = take off (j_img j)"
    "\<And>x. in_range (j_target j + of_nat off) (0x60000 - off) x \<Longrightarrow> fl_mem (b_flash b) x = 0xFF" "device_at j b"
    using assms(2) by (auto simp: session_at_def)
  have d: "waits_ok (b_flash b)" "erased_cell_law (b_flash b)" "b_tx b = []" using c(9) by (simp_all add: device_at_def)
  have l: "8 \<le> length p" "length p - 8 = n" using P(1) n(4) by simp_all
  have "(of_nat n :: u16) \<le> of_nat (j_chunk j)" "(of_nat off + of_nat n :: u32) \<le> of_nat (length (j_img j))"
    using n I(3,5) by (simp_all add: word_le_nat_alt flip: of_nat_add)
  then have r: "data_refusal p (b_ctx b) = None"
    using P n c l by (simp add: data_refusal_def ucast_of_nat_up Let_def not_less)
  have "flash_ready (target_base (b_ctx b) + write_offset (b_ctx b)) (length (drop 8 p)) (b_flash b)"
    using c(3,6,8) d(1,2) n I(5) P(5) by (auto simp: flash_ready_def dest: in_range_mono [where n = "0x60000 - off"])
  then have "fst (bl_flash_write (target_base (b_ctx b) + write_offset (b_ctx b)) (drop 8 p) (b_flash b))"
    by (rule bl_flash_write_ok) (use n P(5) in auto)
  then obtain f1 where w: "bl_flash_write (target_base (b_ctx b) + write_offset (b_ctx b)) (drop 8 p) (b_flash b) = (True, f1)"
    by (metis prod.collapse)
  have h: "bl_handle_data p b = b_ack (of_nat s) (b\<lparr>b_flash := f1, b_ctx := (b_ctx b)
      \<lparr>write_offset := write_offset (b_ctx b) + of_nat n, expected_seq := expected_seq (b_ctx b) + 1\<rparr>\<rparr>)"
    using data_not_duplicate [OF r] r l c(1) w P(2-5) n(2,4) c(6)
    by (simp add: bl_handle_data_def Let_def ucast_of_nat_up)
  show "b_tx (bl_handle_data p b) = [bl_send_ack (of_nat s)]" using d(3) by (simp add: h)
  have le: "length (drop 8 p) \<le> 2 ^ 32" using P(5) n by simp
  note W = bl_flash_write_only_in [OF w le]
  have rd: "rdn (fl_mem f1) (j_target j) (off + n) = take (off + n) (j_img j)"
    using data_write(3) [OF I(1) c(1) l(1) r w] c(3,7) I(2) l(2) P(5) by (simp add: ota_received_def take_add)
  have out: "fl_mem f1 x = fl_mem (b_flash b) x" if "\<not> in_range (j_target j) 0x60000 x" for x
    using data_write(1) [OF I(1) c(1) l(1) r w, of x] that c(3) by simp
  have rest: "fl_mem f1 x = 0xFF" if x: "in_range (j_target j + of_nat (off + n)) (0x60000 - (off + n)) x" for x
  proof -
    have e: "in_range (j_target j + of_nat off + of_nat n) (0x60000 - off - n) x" using x by (simp add: add.assoc)
    then have "\<not> in_range (j_target j + of_nat off) n x" by (rule in_range_disjoint) (use n I(5) in simp)
    moreover have "in_range (j_target j + of_nat off) (n + (0x60000 - off - n)) x"
      using in_range_add [of n "0x60000 - off - n" "j_target j + of_nat off" x] e n I(5) by simp
    then have "in_range (j_target j + of_nat off) (0x60000 - off) x" using n I(5) by simp
    ultimately show ?thesis using W(2) [of x] c(3,6,8) P(5) n(4) by simp
  qed
  show "session_at j (Suc s) (off + n) ((bl_handle_data p b)\<lparr>b_tx := []\<rparr>)"
    using assms(2) c(9) n(3) rd out rest env_laws [OF W(1)] c(2,6)
    by (simp add: h session_at_def device_at_def add.commute)
qed

lemma data_repeated:
  assumes "job_ok j opt" "session_at j (Suc s) (off + n) b" "n = min (j_chunk j) (length (j_img j) - off)"
    and "p = data_payload (of_nat s) off (take n (drop off (j_img j)))" "off < length (j_img j)"
  shows "bl_handle_data p b = b_ack (of_nat s) b"
proof -
  note I = session_inv [OF assms(1,2)] and P = data_payload_fields [OF assms(4)]
  have n: "n \<le> 246" "length (take n (drop off (j_img j))) = n" using assms(3) I(3) by auto
  have "data_duplicate p (b_ctx b)"
    using assms(2) P n by (simp add: data_duplicate_def session_at_def ucast_of_nat_up Let_def)
  then show ?thesis using assms(2) P by (simp add: bl_handle_data_def session_at_def Let_def)
qed

section \<open>VERIFY and COMMIT\<close>

text \<open>An image that both tests of the bootloader take: the one of VERIFY and the one of the boot flow.\<close>

definition bootable_image :: "u32 \<Rightarrow> u8 list \<Rightarrow> bool" where
  "bootable_image t img \<longleftrightarrow> 8 \<le> length img \<and> 0x20000000 \<le> rd32 img 0 \<and> rd32 img 0 < 0x20030000 \<and>
     rd32 img 0 AND 0x2FFE0000 = 0x20000000 \<and> t \<le> rd32 img 4 \<and> rd32 img 4 < t + BL_APP_A_SIZE"

lemma image_words:
  assumes "rdn m t (length img) = img" "8 \<le> length img"
  shows "rdmem32 m t = rd32 img 0" "rdmem32 m (t + 4) = rd32 img 4"
proof -
  have b: "m (t + of_nat i) = img ! i" if "i < 8" for i
    using assms that by (metis nth_rdn less_le_trans)
  show "rdmem32 m t = rd32 img 0" "rdmem32 m (t + 4) = rd32 img 4"
    using b [of 0] b [of 1] b [of 2] b [of 3] b [of 4] b [of 5] b [of 6] b [of 7]
    by (simp_all add: rdmem32_def rd32_def add.assoc numeral_2_eq_2)
qed

lemma verify_served:
  assumes "job_ok j opt" "session_at j s (length (j_img j)) b" "bootable_image (j_target j) (j_img j)"
    and "p = le16 (of_nat s) @ le32 (bl_crc32 (j_img j))"
  shows "session_at j (Suc s) (length (j_img j)) ((bl_handle_verify p b)\<lparr>b_tx := []\<rparr>)"
    "b_tx (bl_handle_verify p b) = [bl_send_ack (of_nat s)]"
proof -
  note I = session_inv [OF assms(1,2)]
  have P: "length p = 6" "rd16 p 0 = of_nat s" "rd32 p 2 = bl_crc32 (j_img j)"
    by (simp_all add: assms(4) le16_def le32_def rd16_def rd32_def)
  have r: "rdn (fl_mem (b_flash b)) (j_target j) (length (j_img j)) = j_img j"
    using assms(2) by (simp add: session_at_def)
  have "bl_vector_valid_for_slot (fl_mem (b_flash b)) (j_target j) BL_APP_A_SIZE"
    using image_words [OF r] assms(3) by (auto simp: bootable_image_def bl_vector_valid_for_slot_def Let_def)
  moreover have "unat (image_size (b_ctx b)) = length (j_img j)" using assms(2) I(5) by (simp add: session_at_def)
  ultimately have h: "bl_handle_verify p b = b_ack (of_nat s) (b\<lparr>b_ctx := (b_ctx b)\<lparr>expected_seq := of_nat s + 1\<rparr>\<rparr>)"
    using assms(2) P r by (simp add: bl_handle_verify_def session_at_def Let_def)
  show "b_tx (bl_handle_verify p b) = [bl_send_ack (of_nat s)]"
    using assms(2) by (simp add: h session_at_def device_at_def)
  show "session_at j (Suc s) (length (j_img j)) ((bl_handle_verify p b)\<lparr>b_tx := []\<rparr>)"
    using assms(2) by (simp add: h session_at_def device_at_def add.commute)
qed

lemma verify_repeated:
  assumes "session_at j (Suc s) (length (j_img j)) b" "p = le16 (of_nat s) @ le32 crc"
  shows "bl_handle_verify p b = b_nack (of_nat s) BL_ERR_BAD_PAYLOAD b"
proof -
  have P: "length p = 6" "rd16 p 0 = of_nat s" by (simp_all add: assms(2) le16_def le32_def rd16_def)
  show ?thesis using assms(1) P by (simp add: bl_handle_verify_def session_at_def Let_def)
qed

text \<open>The device after the COMMIT: it resets, and every ordinary boot then starts the new image.\<close>

definition committed :: "ota_job \<Rightarrow> boot \<Rightarrow> bool" where
  "committed j b \<longleftrightarrow> b_tx b = [] \<and> b_reset b \<and> rdn (fl_mem (b_flash b)) (j_target j) (length (j_img j)) = j_img j \<and>
     (\<forall>x. fl_mem (b_flash b) x = j_mem j x \<or> in_range (j_target j) 0x60000 x \<or> in_range 0x08010000 0x10000 x) \<and>
     (\<forall>bkp0r evs1 evs2. bkp0r \<noteq> 0xB00710AD \<longrightarrow>
        fst (bl_main (b_flash b) bkp0r evs1 evs2) = Jump (j_target j) (rd32 (j_img j) 0) (rd32 (j_img j) 4))"

lemma same_sector_log:
  assumes "\<And>x. in_range 0x08010000 0x10000 x \<Longrightarrow> m x = m' x"
  shows "meta_slots m = meta_slots m'"
proof (rule nth_equalityI)
  fix i assume "i < length (meta_slots m)"
  then have i: "i < meta_max_records" by simp
  have "rdn m (meta_addr i) 60 = rdn m' (meta_addr i) 60"
    using assms slots_in_sector [OF i] by (intro rdn_unchanged) (simp_all add: sector_base_def sector_size_def)
  then show "meta_slots m ! i = meta_slots m' ! i" using i by (simp add: nth_meta_slots)
qed simp

lemma received_slot_valid:
  assumes "job_ok j opt" "session_at j s (length (j_img j)) b" "bootable_image (j_target j) (j_img j)"
    and "sl = (if j_target j = BL_APP_B_BASE then BL_SLOT_B else BL_SLOT_A)"
  shows "bl_slot_image_valid (fl_mem (b_flash b)) (commit_record (bl_commit_meta (b_ctx b) m)) sl"
    "bl_jump_to_app (fl_mem (b_flash b)) (bl_slot_base sl) = Jump (j_target j) (rd32 (j_img j) 0) (rd32 (j_img j) 4)"
proof -
  note I = session_inv [OF assms(1,2)]
  have slot: "bl_flash_is_slot_base (j_target j)" using assms(1) target_allowed_slot by (auto simp: job_ok_def)
  note sb = target_slot_base [OF slot, folded assms(4)]
  have r: "rdn (fl_mem (b_flash b)) (j_target j) (length (j_img j)) = j_img j"
    using assms(2) by (simp add: session_at_def)
  have i8: "8 \<le> length (j_img j)" using assms(3) by (simp add: bootable_image_def)
  note w = image_words [OF r i8]
  have sz: "bl_slot_image_size (commit_record (bl_commit_meta (b_ctx b) m)) sl = of_nat (length (j_img j))"
    "bl_slot_crc (commit_record (bl_commit_meta (b_ctx b) m)) sl = bl_crc32 (j_img j)"
    using assms(2,4) by (simp_all add: session_at_def bl_slot_image_size_def bl_slot_crc_def bl_commit_meta_def bl_slots Let_def)
  have "0x08000000 \<le> rd32 (j_img j) 4" "rd32 (j_img j) 4 < 0x08100000"
    using assms(3) slot unfolding bootable_image_def bl_flash_is_slot_base_def bl_layout
    by (auto simp: word_le_nat_alt word_less_nat_alt)
  then have "bl_is_vector_valid (fl_mem (b_flash b)) (j_target j)"
    using assms(3) w by (simp add: bl_is_vector_valid_def bootable_image_def Let_def not_less)
  moreover have "(of_nat (length (j_img j)) :: u32) \<noteq> 0" "(of_nat (length (j_img j)) :: u32) \<le> BL_APP_A_SIZE"
    using nonzero_words(1) [OF less_le_trans [OF _ i8] I(5)] I(5) by (simp_all add: word_le_nat_alt slot_size)
  ultimately show "bl_slot_image_valid (fl_mem (b_flash b)) (commit_record (bl_commit_meta (b_ctx b) m)) sl"
    using r I(5) by (simp add: bl_slot_image_valid_def sb sz bl_slot_size_def Let_def)
  show "bl_jump_to_app (fl_mem (b_flash b)) (bl_slot_base sl) = Jump (j_target j) (rd32 (j_img j) 0) (rd32 (j_img j) 4)"
    by (simp add: bl_jump_to_app_def sb w)
qed

lemma commit_served:
  assumes "job_ok j opt" "session_at j s (length (j_img j)) b" "bootable_image (j_target j) (j_img j)"
    and "log_in_order (meta_slots (j_mem j))" "j_meta j = bl_metadata_load_or_default (j_mem j)" "p = le16 (of_nat s)"
  shows "committed j ((bl_handle_commit p b)\<lparr>b_tx := []\<rparr>)" "b_tx (bl_handle_commit p b) = [bl_send_ack (of_nat s)]"
proof -
  have d: "b_tx b = []" "b_meta b = j_meta j" "waits_ok (b_flash b)" "erased_cell_law (b_flash b)"
    "\<And>x. \<not> in_range (j_target j) 0x60000 x \<Longrightarrow> fl_mem (b_flash b) x = j_mem j x"
    using assms(2) by (auto simp: session_at_def device_at_def)
  have slot: "bl_flash_is_slot_base (j_target j)" using assms(1) target_allowed_slot by (auto simp: job_ok_def)
  define sl where "sl = (if j_target j = BL_APP_B_BASE then BL_SLOT_B else BL_SLOT_A)"
  have range: "in_range 0x08010000 0x10000 x \<Longrightarrow> \<not> in_range (j_target j) 0x60000 x" for x
    using slot_base_range [of sl x] target_slot_base [OF slot] by (auto simp: sl_def)
  have log: "meta_slots (fl_mem (b_flash b)) = meta_slots (j_mem j)"
    using d(5) range by (intro same_sector_log) blast
  then have m: "log_in_order (meta_slots (fl_mem (b_flash b)))" "b_meta b = bl_metadata_load_or_default (fl_mem (b_flash b))"
    using assms(4,5) d(2) by (simp_all add: load_newest)
  let ?m = "bl_commit_meta (b_ctx b) (b_meta b)"
  have "magic ?m = BL_META_MAGIC" "schema_version ?m = BL_META_SCHEMA_VERSION"
    using m(2) by (simp_all add: bl_commit_meta_def Let_def)
  then obtain f1 where c: "bl_metadata_commit ?m (b_flash b) = (True, f1)"
    using commit_succeeds [OF d(3,4)] by (metis prod.collapse)
  have P: "length p = 2" "rd16 p 0 = of_nat s" using rd16_le16(1) by (simp_all add: assms(6))
  have h: "bl_handle_commit p b = (b_ack (of_nat s) (b\<lparr>b_flash := f1, b_meta := ?m\<rparr>))\<lparr>b_reset := True\<rparr>"
    using assms(2) P c by (simp add: bl_handle_commit_def session_at_def Let_def)
  show "b_tx (bl_handle_commit p b) = [bl_send_ack (of_nat s)]" using d(1) by (simp add: h)
  have "accepted (of_nat s) (bl_handle_commit p b)" by (simp add: h accepted_def)
  note com = commit_committed [OF this m]
  have f1: "b_flash (bl_handle_commit p b) = f1" by (simp add: h)
  note sv = received_slot_valid [OF assms(1-3) sl_def]
  have "pending_slot (commit_record ?m) = sl" "boot_attempts (commit_record ?m) = 0" "known_slot sl"
    using assms(2) by (auto simp: bl_commit_meta_def sl_def known_slot_def Let_def session_at_def bl_slots)
  then have "boot_choice (fl_mem f1) (commit_record ?m) = Some sl"
    using com(2) [of "commit_record ?m" sl] sv(1) [of "b_meta b"] f1 by (simp add: boot_choice_def)
  then have boots: "fst (bl_main f1 bkp0r evs1 evs2) = Jump (j_target j) (rd32 (j_img j) 0) (rd32 (j_img j) 4)"
    if "bkp0r \<noteq> 0xB00710AD" for bkp0r evs1 evs2
    using main_unforced(2) [OF that, of f1 sl evs1 evs2] com(1) com(3) [of sl] f1 sv(2) by simp
  have fr: "fl_mem f1 x = fl_mem (b_flash b) x \<or> in_range 0x08010000 0x10000 x" for x
    using commit_frame [of ?m "b_flash b"] c by simp
  have "rdn (fl_mem f1) (j_target j) (length (j_img j)) = rdn (fl_mem (b_flash b)) (j_target j) (length (j_img j))"
  proof (rule rdn_unchanged)
    show "length (j_img j) \<le> 2 ^ 32" using assms(1) by (simp add: job_ok_def)
    fix x assume "in_range (j_target j) (length (j_img j)) x"
    then have "in_range (j_target j) 0x60000 x" using assms(1) by (auto simp: job_ok_def dest: in_range_mono)
    then show "fl_mem f1 x = fl_mem (b_flash b) x" using fr [of x] range [of x] by blast
  qed
  then show "committed j ((bl_handle_commit p b)\<lparr>b_tx := []\<rparr>)"
    using boots fr d(5) assms(2) by (simp add: h committed_def session_at_def) metis
qed

section \<open>The laws of the four requests\<close>

lemma request_law_idem:
  assumes "update_type ty" "length p < 255" "\<And>b. D b \<Longrightarrow> C b"
    and "\<And>b. C b \<Longrightarrow> b_tx b = [] \<and> \<not> b_reset b \<and> D ((request ty p b)\<lparr>b_tx := []\<rparr>) \<and>
      b_tx (request ty p b) = [bl_send_ack q]"
  shows "request_law ty p q True C D"
  using assms by (auto simp: request_law_def)

lemma session_device: "session_at j s off b \<Longrightarrow> device_at j b"
  and device_tx: "device_at j b \<Longrightarrow> b_tx b = [] \<and> \<not> b_reset b"
  by (simp_all add: session_at_def device_at_def)

lemma session_tx: "session_at j s off b \<Longrightarrow> session_at j s off (b\<lparr>b_tx := []\<rparr>)"
  by (simp add: session_at_def device_at_def)

lemma prepare_law:
  assumes "job_ok j opt" "p = prepare_payload 1 (j_img j) (bl_crc32 (j_img j)) (j_chunk j) opt"
  shows "request_law 0x31 p 1 True (device_at j) (session_at j 2 0)"
  by (rule request_law_idem)
     (use prepare_served [OF assms(1) _ assms(2)] prepare_payload_fields(2) [OF assms(2)] device_tx session_device
      in \<open>auto simp: update_type_def\<close>)

lemma data_law:
  assumes "job_ok j opt" "off < length (j_img j)" "n = min (j_chunk j) (length (j_img j) - off)"
    and "p = data_payload (of_nat s) off (take n (drop off (j_img j)))"
  shows "request_law 0x32 p (of_nat s) True
    (\<lambda>b. session_at j s off b \<or> session_at j (Suc s) (off + n) b) (session_at j (Suc s) (off + n))"
proof (rule request_law_idem)
  have "n \<le> 246" using assms(1,3) by (auto simp: job_ok_def)
  then show "length p < 255" using data_payload_fields(1) [OF assms(4)] by simp
  fix b
  assume "session_at j s off b \<or> session_at j (Suc s) (off + n) b"
  then show "b_tx b = [] \<and> \<not> b_reset b \<and> session_at j (Suc s) (off + n) ((request 0x32 p b)\<lparr>b_tx := []\<rparr>) \<and>
      b_tx (request 0x32 p b) = [bl_send_ack (of_nat s)]"
  proof
    assume a: "session_at j s off b"
    then show ?thesis
      using data_served [OF assms(1) a assms(2-4)] device_tx [OF session_device [OF a]] by simp
  next
    assume a: "session_at j (Suc s) (off + n) b"
    then show ?thesis
      using data_repeated [OF assms(1) a assms(3,4,2)] device_tx [OF session_device [OF a]] session_tx [OF a]
      by (simp add: b_ack_def b_send_def)
  qed
qed (simp_all add: update_type_def)

lemma verify_law:
  assumes "job_ok j opt" "bootable_image (j_target j) (j_img j)" "p = le16 (of_nat s) @ le32 (bl_crc32 (j_img j))"
  shows "request_law 0x33 p (of_nat s) False (session_at j s (length (j_img j))) (session_at j (Suc s) (length (j_img j)))"
proof -
  have "length p < 255" by (simp add: assms(3))
  moreover have "b_tx b = [] \<and> \<not> b_reset b \<and> session_at j (Suc s) (length (j_img j)) ((request 0x33 p b)\<lparr>b_tx := []\<rparr>) \<and>
      sent_frames (b_tx (request 0x33 p b)) = [ack_frame_of (of_nat s)]" if a: "session_at j s (length (j_img j)) b" for b
    using verify_served [OF assms(1) a assms(2,3)] device_tx [OF session_device [OF a]] by simp
  moreover have "b_tx b = [] \<and> session_at j (Suc s) (length (j_img j)) ((request 0x33 p b)\<lparr>b_tx := []\<rparr>) \<and>
      (\<forall>f \<in> set (sent_frames (b_tx (request 0x33 p b))). settled (of_nat s) f)"
    if a: "session_at j (Suc s) (length (j_img j)) b" for b
  proof -
    note t = device_tx [OF session_device [OF a]]
    show ?thesis using verify_repeated [OF a assms(3)] t session_tx [OF a] by (simp add: b_nack_def b_send_def)
  qed
  ultimately show ?thesis by (auto simp: request_law_def update_type_def)
qed

lemma commit_law:
  assumes "job_ok j opt" "bootable_image (j_target j) (j_img j)" "log_in_order (meta_slots (j_mem j))"
    and "j_meta j = bl_metadata_load_or_default (j_mem j)" "p = le16 (of_nat s)"
  shows "request_law 0x34 p (of_nat s) False (session_at j s (length (j_img j))) (committed j)"
proof -
  have "b_tx b = [] \<and> \<not> b_reset b \<and> committed j ((request 0x34 p b)\<lparr>b_tx := []\<rparr>) \<and>
      sent_frames (b_tx (request 0x34 p b)) = [ack_frame_of (of_nat s)]" if a: "session_at j s (length (j_img j)) b" for b
    using commit_served [OF assms(1) a assms(2-5)] device_tx [OF session_device [OF a]] by simp
  moreover have "length p < 255" by (simp add: assms(5))
  ultimately show ?thesis by (auto simp: request_law_def update_type_def committed_def)
qed

section \<open>From one request to the next\<close>

lemma taken_waiting:
  assumes "taken (of_nat s) k D h" "\<And>b. D b \<Longrightarrow> C b" "Suc s < 65536"
  shows "waiting (of_nat (Suc s)) k C h"
proof -
  have u: "unat (of_nat (Suc s) :: u16) = Suc s" "unat (of_nat s :: u16) = s"
    using assms(3) by (metis small_words(2), simp)
  have "settled (of_nat s) f \<Longrightarrow> older (of_nat (Suc s)) f" for f
    unfolding settled_def older_def u by linarith
  moreover have "cache_below (of_nat s) h \<Longrightarrow> cache_below (of_nat (Suc s)) h"
    unfolding cache_below_def u using less_SucI by blast
  ultimately show ?thesis using assms(1,2) unfolding taken_def waiting_def by blast
qed

lemma waiting_mono: "waiting q j C h \<Longrightarrow> j \<le> k \<Longrightarrow> (\<And>b. C b \<Longrightarrow> D b) \<Longrightarrow> waiting q k D h"
  by (auto simp: waiting_def intro: idle_le_mono)

lemma waiting_sleep:
  assumes "waiting q k C h" "within_limit (k + 100 * (nat ms div 100)) (world h)" "\<And>b. C b \<Longrightarrow> b_tx b = []"
  shows "waiting q (k + 100 * (nat ms div 100)) C (h\<lparr>world := line_wait ms (world h)\<rparr>)"
    "l_fates (line_wait ms (world h)) = l_fates (world h)" "l_idle_limit (line_wait ms (world h)) = l_idle_limit (world h)"
proof -
  have i: "idle_le k (world h)" "b_tx (l_boot (world h)) = []" using assms(1,3) by (auto simp: waiting_def)
  note w = waited_line [OF i(1) assms(2) i(2)]
  then show "l_fates (line_wait ms (world h)) = l_fates (world h)" "l_idle_limit (line_wait ms (world h)) = l_idle_limit (world h)"
    by simp_all
  show "waiting q (k + 100 * (nat ms div 100)) C (h\<lparr>world := line_wait ms (world h)\<rparr>)"
    using assms(1) w no_event_older by (auto simp: waiting_def cache_below_def)
qed

text \<open>Whether a sequence of requests gets through, each within the given number of attempts, and the fates that
  are left then; the flags say which of them are idempotent.\<close>

fun all_through :: "nat \<Rightarrow> bool list \<Rightarrow> fate list \<Rightarrow> fate list option" where
  "all_through m [] fates = Some fates"
| "all_through m (idem # flags) fates =
     (case gets_through idem m fates of None \<Rightarrow> None | Some rest \<Rightarrow> all_through m flags rest)"

lemma all_through_append:
  "all_through m (xs @ ys) fates = (case all_through m xs fates of None \<Rightarrow> None | Some rest \<Rightarrow> all_through m ys rest)"
  by (induction xs arbitrary: fates) (simp_all split: option.splits)

text \<open>The number of chunks, and what the bootloader is idle during one attempt and between two chunks.\<close>

definition chunks :: "nat \<Rightarrow> nat \<Rightarrow> nat" where
  "chunks c n = (n + c - 1) div c"

definition attempt_ms :: "int \<Rightarrow> nat" where
  "attempt_ms t = 100 * (nat t div 100) + 100"

definition pause_ms :: "ota_options \<Rightarrow> nat" where
  "pause_ms opt = 500 + 100 * (nat (opt_inter_chunk_delay_ms opt) div 100)"

lemma chunks_0 [simp]: "0 < c \<Longrightarrow> chunks c 0 = 0"
  by (simp add: chunks_def)

lemma chunks_step: "0 < n \<Longrightarrow> 0 < c \<Longrightarrow> chunks c n = Suc (chunks c (n - min c n))"
proof (cases "n \<le> c")
  case True
  assume n: "0 < n" "0 < c"
  then have "(n + c - 1) div c = 1" using True by (intro div_nat_eqI) auto
  then show ?thesis using True n by (simp add: chunks_def min_def)
next
  case False
  assume n: "0 < n" "0 < c"
  then have "n + c - 1 = c + ((n - c) + c - 1)" using False by simp
  then have "(n + c - 1) div c = Suc (((n - c) + c - 1) div c)" using n by (metis div_add_self1 not_gr0 Suc_eq_plus1)
  then show ?thesis using False by (simp add: chunks_def)
qed

definition ota_timing :: "ota_options \<Rightarrow> nat \<Rightarrow> nat \<Rightarrow> u32 \<Rightarrow> bool" where
  "ota_timing opt m step limit \<longleftrightarrow> opt_custom_transport opt \<and> m \<le> nat (opt_max_retries opt) \<and>
     (\<forall>t \<in> {opt_prepare_ack_timeout_ms opt, opt_data_ack_timeout_ms opt, opt_verify_ack_timeout_ms opt,
             opt_commit_ack_timeout_ms opt}. 0 < t \<and> attempt_ms t \<le> step) \<and>
     (limit = 0 \<or> carried m step + pause_ms opt + (m - 1) * step < unat limit)"

lemma phase_timeouts:
  fixes opt :: ota_options
  defines "ts \<equiv> {opt_prepare_ack_timeout_ms opt, opt_data_ack_timeout_ms opt, opt_verify_ack_timeout_ms opt,
             opt_commit_ack_timeout_ms opt}"
  shows "opt_prepare_ack_timeout_ms opt \<in> ts" "opt_data_ack_timeout_ms opt \<in> ts"
    "opt_verify_ack_timeout_ms opt \<in> ts" "opt_commit_ack_timeout_ms opt \<in> ts"
  by (simp_all add: ts_def)

lemma request_through:
  assumes "request_law ty p q idem C D" "ota_timing opt m step (l_idle_limit (world h))"
    and "t \<in> {opt_prepare_ack_timeout_ms opt, opt_data_ack_timeout_ms opt, opt_verify_ack_timeout_ms opt,
             opt_commit_ack_timeout_ms opt}"
    and "waiting q (carried m step + pause_ms opt) C h" "gets_through idem m (l_fates (world h)) = Some rest"
  obtains h' where "retryExchange line_env opt fd ty p q t err h = Some (True, [], h')" "taken q (carried m step) D h'"
    "l_fates (world h') = rest" "l_idle_limit (world h') = l_idle_limit (world h)"
proof -
  have t: "0 < t" "100 * (nat t div 100) + 100 \<le> step" "opt_custom_transport opt" "m \<le> nat (opt_max_retries opt)"
    using assms(2,3) by (auto simp: ota_timing_def attempt_ms_def)
  have "within_limit (carried m step + pause_ms opt + (m - 1) * step) (world h)"
    using assms(2) by (simp add: ota_timing_def within_limit_def)
  from retry_gets_through [OF assms(1) t(1-3) assms(5) t(4) assms(4) this, of fd err] show thesis
    using that by (auto simp: retryExchange_def)
qed

lemma send_chunk_through:
  assumes "job_ok j opt" "ota_timing opt m step (l_idle_limit (world h))" "off < length (j_img j)"
    and "n = min (j_chunk j) (length (j_img j) - off)" "Suc (Suc s) < 65536"
    and "waiting (of_nat (Suc s)) (carried m step + pause_ms opt) (session_at j (Suc s) off) h"
    and "gets_through True m (l_fates (world h)) = Some rest"
  obtains h' where "send_chunk line_env opt fd (j_img j) (j_chunk j) (of_nat s) off err h =
      Some (True, err, of_nat (Suc s), off + n, h')"
    "waiting (of_nat (Suc (Suc s))) (carried m step + pause_ms opt) (session_at j (Suc (Suc s)) (off + n)) h'"
    "l_fates (world h') = rest" "l_idle_limit (world h') = l_idle_limit (world h)"
proof -
  let ?p = "data_payload (of_nat (Suc s)) off (take n (drop off (j_img j)))"
  let ?D = "session_at j (Suc (Suc s)) (off + n)"
  have q: "of_nat s + 1 = (of_nat (Suc s) :: u16)" by (simp add: add.commute)
  have w: "waiting (of_nat (Suc s)) (carried m step + pause_ms opt)
      (\<lambda>b. session_at j (Suc s) off b \<or> session_at j (Suc (Suc s)) (off + n) b) h"
    by (rule waiting_mono [OF assms(6)]) simp_all
  obtain h1 where h1: "retryExchange line_env opt fd 0x32 ?p (of_nat (Suc s)) (opt_data_ack_timeout_ms opt) [] h = Some (True, [], h1)"
    "taken (of_nat (Suc s)) (carried m step) ?D h1" "l_fates (world h1) = rest" "l_idle_limit (world h1) = l_idle_limit (world h)"
    by (rule request_through [OF data_law [OF assms(1,3,4) refl] assms(2) phase_timeouts(2) w assms(7)])
  have w1: "waiting (of_nat (Suc (Suc s))) (carried m step) ?D h1" by (rule taken_waiting [OF h1(2) _ assms(5)])
  define ds where "ds = (if off + n < length (j_img j)
    then 500 # (if opt_inter_chunk_delay_ms opt > 0 then [opt_inter_chunk_delay_ms opt] else []) else [])"
  let ?h2 = "h1\<lparr>world := fold line_wait ds (world h1)\<rparr>"
  have tx: "?D b \<Longrightarrow> b_tx b = []" for b using device_tx session_device by blast
  have lim: "within_limit (carried m step + pause_ms opt) (world h1)"
    using assms(2) h1(4) by (auto simp: ota_timing_def within_limit_def)
  have slow: "waiting (of_nat (Suc (Suc s))) (carried m step + 500) ?D (h1\<lparr>world := line_wait 500 (world h1)\<rparr>)"
    "l_fates (line_wait 500 (world h1)) = rest" "l_idle_limit (line_wait 500 (world h1)) = l_idle_limit (world h1)"
    using waiting_sleep [OF w1 within_limit_mono [OF lim] tx, of 500] h1(3) by (simp_all add: pause_ms_def)
  let ?i = "opt_inter_chunk_delay_ms opt"
  have "within_limit (carried m step + 500 + 100 * (nat ?i div 100)) (world (h1\<lparr>world := line_wait 500 (world h1)\<rparr>))"
    using lim slow(3) by (simp add: within_limit_def pause_ms_def add.assoc)
  note slower = waiting_sleep [OF slow(1) this tx]
  have h2: "waiting (of_nat (Suc (Suc s))) (carried m step + pause_ms opt) ?D ?h2" "l_fates (world ?h2) = rest"
    "l_idle_limit (world ?h2) = l_idle_limit (world h)"
    unfolding ds_def using w1 slow slower h1(3,4)
    by (auto simp: pause_ms_def add.assoc elim!: waiting_mono)
  have "send_chunk line_env opt fd (j_img j) (j_chunk j) (of_nat s) off err h = Some (True, err, of_nat (Suc s), off + n, ?h2)"
    unfolding send_chunk_def Let_def q assms(4) [symmetric] h1(1)
    by (simp add: line_env_def ds_def)
  then show thesis using that [of ?h2] h2 by blast
qed

text \<open>The whole image.\<close>

lemma send_image_through:
  assumes "job_ok j opt"
  shows "ota_timing opt m step (l_idle_limit (world h)) \<Longrightarrow> off \<le> length (j_img j) \<Longrightarrow>
    s + chunks (j_chunk j) (length (j_img j) - off) + 1 < 65536 \<Longrightarrow>
    waiting (of_nat (Suc s)) (carried m step + pause_ms opt) (session_at j (Suc s) off) h \<Longrightarrow>
    all_through m (replicate (chunks (j_chunk j) (length (j_img j) - off)) True) (l_fates (world h)) = Some r \<Longrightarrow>
    \<exists>h' s'. s' = s + chunks (j_chunk j) (length (j_img j) - off) \<and>
      send_image line_env opt fd (j_img j) (j_chunk j) (of_nat s) off err h = Some (True, err, of_nat s', h') \<and>
      waiting (of_nat (Suc s')) (carried m step + pause_ms opt) (session_at j (Suc s') (length (j_img j))) h' \<and>
      l_fates (world h') = r \<and> l_idle_limit (world h') = l_idle_limit (world h)"
proof (induction "length (j_img j) - off" arbitrary: off s h rule: less_induct)
  case less
  have c: "0 < j_chunk j" using assms by (auto simp: job_ok_def)
  have stop: "should_stop line_env w = (False, w)" for w by (simp add: line_env_def)
  show ?case
  proof (cases "off < length (j_img j)")
    case False
    then have "off = length (j_img j)" using less.prems(2) by simp
    then show ?thesis using less.prems(4,5) c by (subst send_image.simps) auto
  next
    case True
    let ?n = "min (j_chunk j) (length (j_img j) - off)"
    have k: "chunks (j_chunk j) (length (j_img j) - off) = Suc (chunks (j_chunk j) (length (j_img j) - (off + ?n)))"
      using chunks_step [OF _ c, of "length (j_img j) - off"] True by simp
    have g: "\<exists>rest. gets_through True m (l_fates (world h)) = Some rest \<and>
        all_through m (replicate (chunks (j_chunk j) (length (j_img j) - (off + ?n))) True) rest = Some r"
      using less.prems(5) unfolding k by (simp split: option.splits)
    then obtain rest where rest: "gets_through True m (l_fates (world h)) = Some rest"
      "all_through m (replicate (chunks (j_chunk j) (length (j_img j) - (off + ?n))) True) rest = Some r" by blast
    have s2: "Suc (Suc s) < 65536" using less.prems(3) k by simp
    obtain h1 where h1: "send_chunk line_env opt fd (j_img j) (j_chunk j) (of_nat s) off err h =
        Some (True, err, of_nat (Suc s), off + ?n, h1)"
      "waiting (of_nat (Suc (Suc s))) (carried m step + pause_ms opt) (session_at j (Suc (Suc s)) (off + ?n)) h1"
      "l_fates (world h1) = rest" "l_idle_limit (world h1) = l_idle_limit (world h)"
      by (rule send_chunk_through [OF assms less.prems(1) True refl s2 less.prems(4) rest(1)])
    have "length (j_img j) - (off + ?n) < length (j_img j) - off" using True c by simp
    moreover have "off + ?n \<le> length (j_img j)" using True by simp
    moreover have "Suc s + chunks (j_chunk j) (length (j_img j) - (off + ?n)) + 1 < 65536" using less.prems(3) k by simp
    ultimately obtain h' s' where h': "s' = Suc s + chunks (j_chunk j) (length (j_img j) - (off + ?n))"
      "send_image line_env opt fd (j_img j) (j_chunk j) (of_nat (Suc s)) (off + ?n) err h1 = Some (True, err, of_nat s', h')"
      "waiting (of_nat (Suc s')) (carried m step + pause_ms opt) (session_at j (Suc s') (length (j_img j))) h'"
      "l_fates (world h') = r" "l_idle_limit (world h') = l_idle_limit (world h)"
      using less.hyps [of "off + ?n" h1 "Suc s"] less.prems(1) h1(2-4) rest(2) by metis
    have "send_image line_env opt fd (j_img j) (j_chunk j) (of_nat s) off err h = Some (True, err, of_nat s', h')"
      using True h1(1) h'(2) by (subst send_image.simps) (simp add: stop del: of_nat_Suc)
    then show ?thesis using h' k by (intro exI [of _ h'] exI [of _ s']) simp
  qed
qed

section \<open>The whole run\<close>

lemma finish_through:
  assumes "job_ok j opt" "bootable_image (j_target j) (j_img j)" "log_in_order (meta_slots (j_mem j))"
    and "j_meta j = bl_metadata_load_or_default (j_mem j)" "ota_timing opt m step (l_idle_limit (world h))"
    and "waiting (of_nat (Suc s)) (carried m step + pause_ms opt) (session_at j (Suc s) (length (j_img j))) h"
    and "all_through m [False, False] (l_fates (world h)) \<noteq> None" "Suc (Suc s) < 65536"
  shows "\<exists>h'. finish_run line_env opt (-1) (bl_crc32 (j_img j)) (of_nat s) err h = Some (True, [], h') \<and>
    committed j (l_boot (world h'))"
proof -
  have q: "of_nat s + 1 = (of_nat (Suc s) :: u16)" "of_nat (Suc s) + 1 = (of_nat (Suc (Suc s)) :: u16)"
    by (simp_all add: add.commute)
  obtain r1 where r1: "gets_through False m (l_fates (world h)) = Some r1" "gets_through False m r1 \<noteq> None"
    using assms(7) by (auto split: option.splits)
  obtain h1 where h1: "retryExchange line_env opt (-1) 0x33 (le16 (of_nat (Suc s)) @ le32 (bl_crc32 (j_img j)))
      (of_nat (Suc s)) (opt_verify_ack_timeout_ms opt) err h = Some (True, [], h1)"
    "taken (of_nat (Suc s)) (carried m step) (session_at j (Suc (Suc s)) (length (j_img j))) h1"
    "l_fates (world h1) = r1" "l_idle_limit (world h1) = l_idle_limit (world h)"
    by (rule request_through [OF verify_law [OF assms(1,2) refl] assms(5) phase_timeouts(3) assms(6) r1(1)])
  have w1: "waiting (of_nat (Suc (Suc s))) (carried m step + pause_ms opt) (session_at j (Suc (Suc s)) (length (j_img j))) h1"
    by (rule waiting_mono [OF taken_waiting [OF h1(2) _ assms(8)]]) simp_all
  obtain r2 where r2: "gets_through False m (l_fates (world h1)) = Some r2" using r1(2) h1(3) by auto
  have t1: "ota_timing opt m step (l_idle_limit (world h1))" using assms(5) h1(4) by simp
  obtain h2 where "retryExchange line_env opt (-1) 0x34 (le16 (of_nat (Suc (Suc s)))) (of_nat (Suc (Suc s)))
      (opt_commit_ack_timeout_ms opt) [] h1 = Some (True, [], h2)"
    "taken (of_nat (Suc (Suc s))) (carried m step) (committed j) h2"
    by (rule request_through [OF commit_law [OF assms(1-4) refl] t1 phase_timeouts(4) w1 r2]) blast
  then show ?thesis
    using h1(1) by (simp add: finish_run_def Let_def q taken_def del: of_nat_Suc)
qed

text \<open>The line when the bootloader has entered its session loop: it has announced itself.\<close>

definition line_start :: "u32 \<Rightarrow> fate list \<Rightarrow> int \<Rightarrow> boot \<Rightarrow> ota_line" where
  "line_start limit fates now b =
     \<lparr>l_fates = fates, l_inbox = sent_frames [bl_ota_send_hello (b_meta b)], l_late = [],
      l_loop = \<lparr>idle_elapsed_ms = 0, hello_elapsed_ms = 0, hello_idx = 0, hello_periodic_enabled = True\<rparr>,
      l_boot = b\<lparr>b_ctx := bl_ctx_reset\<rparr>, l_left = False, l_idle_limit = limit, l_now = now\<rparr>"

lemma line_start_hello:
  "sent_frames [bl_ota_send_hello m] \<noteq> [] \<and> tl (sent_frames [bl_ota_send_hello m]) = [] \<and>
   frameType (hd (sent_frames [bl_ota_send_hello m])) = 0x20"
  by (simp add: bl_ota_send_hello_def bl_send_frame_fits sent_frames_def frameType_def frame_bytes_def frame_body_def)

lemma hello_received:
  assumes "0 < t"
  shows "wait_hello line_env (l_now w + t * 1000000) err (w\<lparr>l_inbox := sent_frames [bl_ota_send_hello m]\<rparr>) =
    Some (True, err, w\<lparr>l_inbox := []\<rparr>)"
proof -
  obtain f where f: "sent_frames [bl_ota_send_hello m] = [f]" "frameType f = 0x20"
    using line_start_hello [of m] by (cases "sent_frames [bl_ota_send_hello m]") auto
  show ?thesis using assms f by (subst wait_hello.simps) (simp add: line_env_def line_recv_def)
qed

lemma hello_stage:
  assumes "opt_custom_transport opt" "opt_wait_boot_hello opt \<longrightarrow> 0 < opt_hello_timeout_ms opt"
    and "device_at j (b\<lparr>b_ctx := bl_ctx_reset\<rparr>)" "h = \<lparr>ack_cache = Map.empty, world = line_start limit fates now b\<rparr>"
  obtains w where "(if opt_wait_boot_hello opt \<and> opt_custom_transport opt
      then let (t, w) = steady_now line_env (world h)
           in wait_hello line_env (t + opt_hello_timeout_ms opt * 1000000) err w
      else Some (True, err, world h)) = Some (True, err, w)"
    "waiting 1 k (device_at j) (h\<lparr>world := w\<rparr>)" "l_fates w = fates" "l_idle_limit w = limit"
proof -
  let ?w = "line_start limit fates now b"
  let ?v = "if opt_wait_boot_hello opt then ?w\<lparr>l_inbox := []\<rparr> else ?w"
  have e: "?w = ?w\<lparr>l_inbox := sent_frames [bl_ota_send_hello (b_meta b)]\<rparr>" by (simp add: line_start_def)
  have "opt_wait_boot_hello opt \<Longrightarrow>
      wait_hello line_env (l_now ?w + opt_hello_timeout_ms opt * 1000000) err ?w = Some (True, err, ?w\<lparr>l_inbox := []\<rparr>)"
    by (subst (2) e, rule hello_received) (use assms(2) in simp)
  moreover have "steady_now line_env ?w = (l_now ?w, ?w)" by (simp add: line_env_def)
  moreover have "waiting 1 k (device_at j) (h\<lparr>world := ?v\<rparr>)"
    using assms(3,4) hello_no_event no_event_older
    by (auto simp: waiting_def line_start_def cache_below_def idle_le_def)
  ultimately show thesis using assms(1,4) by (intro that [of ?v]) (simp_all add: line_start_def)
qed

text \<open>The run up to VERIFY.\<close>

lemma run_before_verify:
  assumes "job_ok j opt" "device_at j (b\<lparr>b_ctx := bl_ctx_reset\<rparr>)" "ota_timing opt m step limit"
    and "opt_wait_boot_hello opt \<longrightarrow> 0 < opt_hello_timeout_ms opt"
    and "n = chunks (j_chunk j) (length (j_img j))" "n + 3 < 65536" "all_through m (True # replicate n True) fates = Some r"
  obtains h2 where
    "ota_run line_env opt (j_img j) (bl_crc32 (j_img j)) err \<lparr>ack_cache = Map.empty, world = line_start limit fates now b\<rparr> =
       finish_run line_env opt (-1) (bl_crc32 (j_img j)) (of_nat (1 + n)) [] h2"
    "waiting (of_nat (Suc (1 + n))) (carried m step + pause_ms opt) (session_at j (Suc (1 + n)) (length (j_img j))) h2"
    "l_fates (world h2) = r" "l_idle_limit (world h2) = limit"
proof -
  let ?h = "\<lparr>ack_cache = Map.empty, world = line_start limit fates now b\<rparr>"
  have opt: "opt_custom_transport opt" "min (opt_chunk_size opt) 246 = j_chunk j" "j_chunk j \<noteq> 0"
    using assms(1,3) by (auto simp: ota_timing_def job_ok_def)
  obtain w where w: "(if opt_wait_boot_hello opt \<and> opt_custom_transport opt
      then let (t, w) = steady_now line_env (world ?h)
           in wait_hello line_env (t + opt_hello_timeout_ms opt * 1000000) err w
      else Some (True, err, world ?h)) = Some (True, err, w)"
    "waiting 1 (carried m step + pause_ms opt) (device_at j) (?h\<lparr>world := w\<rparr>)" "l_fates w = fates" "l_idle_limit w = limit"
    by (rule hello_stage [OF opt(1) assms(4,2) refl])
  let ?p = "prepare_payload 1 (j_img j) (bl_crc32 (j_img j)) (j_chunk j) opt"
  obtain r1 where r1: "gets_through True m (l_fates (world (?h\<lparr>world := w\<rparr>))) = Some r1"
    "all_through m (replicate n True) r1 = Some r" using assms(7) w(3) by (auto split: option.splits)
  have t0: "ota_timing opt m step (l_idle_limit (world (?h\<lparr>world := w\<rparr>)))" using assms(3) w(4) by simp
  obtain h1 where h1: "retryExchange line_env opt (-1) 0x31 ?p 1 (opt_prepare_ack_timeout_ms opt) err (?h\<lparr>world := w\<rparr>) = Some (True, [], h1)"
    "taken 1 (carried m step) (session_at j 2 0) h1" "l_fates (world h1) = r1" "l_idle_limit (world h1) = limit"
    by (rule request_through [OF prepare_law [OF assms(1) refl] t0 phase_timeouts(1) w(2) r1(1)]) (use w(4) in simp)
  have w1: "waiting (of_nat (Suc 1)) (carried m step + pause_ms opt) (session_at j (Suc 1) 0) h1"
    by (rule waiting_mono [OF taken_waiting [of 1 "carried m step" "session_at j 2 0"]])
       (use h1(2) in \<open>simp_all add: numeral_2_eq_2\<close>)
  have t1: "ota_timing opt m step (l_idle_limit (world h1))" using assms(3) h1(4) by simp
  have l1: "1 + chunks (j_chunk j) (length (j_img j) - 0) + 1 < 65536" using assms(5,6) by simp
  have a1: "all_through m (replicate (chunks (j_chunk j) (length (j_img j) - 0)) True) (l_fates (world h1)) = Some r"
    using r1(2) h1(3) assms(5) by simp
  from send_image_through [OF assms(1) t1 _ l1 w1 a1] obtain h2 where h2:
    "send_image line_env opt (-1) (j_img j) (j_chunk j) (of_nat 1) 0 [] h1 = Some (True, [], of_nat (1 + n), h2)"
    "waiting (of_nat (Suc (1 + n))) (carried m step + pause_ms opt) (session_at j (Suc (1 + n)) (length (j_img j))) h2"
    "l_fates (world h2) = r" "l_idle_limit (world h2) = l_idle_limit (world h1)"
    using assms(5) by (metis le0 minus_nat.diff_0)
  have "send_image line_env opt (-1) (j_img j) (j_chunk j) 1 0 [] h1 = Some (True, [], of_nat (1 + n), h2)"
    using h2(1) by (simp only: of_nat_1)
  then have "run_open line_env opt (-1) (j_img j) (bl_crc32 (j_img j)) (j_chunk j) err ?h =
      finish_run line_env opt (-1) (bl_crc32 (j_img j)) (of_nat (1 + n)) [] h2"
    using w(1) h1(1) by (simp add: run_open_def del: of_nat_Suc of_nat_add)
  moreover have "should_stop line_env (world ?h) = (False, world ?h)" by (simp add: line_env_def)
  ultimately show thesis using opt h2(2-4) h1(4) by (intro that [of h2]) (simp_all add: ota_run_def Let_def)
qed

lemma run_through:
  assumes "job_ok j opt" "bootable_image (j_target j) (j_img j)" "log_in_order (meta_slots (j_mem j))"
    and "j_meta j = bl_metadata_load_or_default (j_mem j)" "device_at j (b\<lparr>b_ctx := bl_ctx_reset\<rparr>)"
    and "ota_timing opt m step limit" "opt_wait_boot_hello opt \<longrightarrow> 0 < opt_hello_timeout_ms opt"
    and "n = chunks (j_chunk j) (length (j_img j))" "n + 3 < 65536"
    and "all_through m ((True # replicate n True) @ [False, False]) fates \<noteq> None"
  shows "\<exists>h'. ota_run line_env opt (j_img j) (bl_crc32 (j_img j)) err
      \<lparr>ack_cache = Map.empty, world = line_start limit fates now b\<rparr> = Some (True, [], h') \<and>
    committed j (l_boot (world h'))"
proof -
  obtain r where r: "all_through m (True # replicate n True) fates = Some r" "all_through m [False, False] r \<noteq> None"
    using assms(10) unfolding all_through_append by (cases "all_through m (True # replicate n True) fates") simp_all
  obtain h2 where h2:
    "ota_run line_env opt (j_img j) (bl_crc32 (j_img j)) err \<lparr>ack_cache = Map.empty, world = line_start limit fates now b\<rparr> =
       finish_run line_env opt (-1) (bl_crc32 (j_img j)) (of_nat (1 + n)) [] h2"
    "waiting (of_nat (Suc (1 + n))) (carried m step + pause_ms opt) (session_at j (Suc (1 + n)) (length (j_img j))) h2"
    "l_fates (world h2) = r" "l_idle_limit (world h2) = limit"
    by (rule run_before_verify [OF assms(1,5,6,7,8,9) r(1)])
  have t: "ota_timing opt m step (l_idle_limit (world h2))" using assms(6) h2(4) by simp
  have "all_through m [False, False] (l_fates (world h2)) \<noteq> None" using r(2) h2(3) by simp
  moreover have "Suc (Suc (1 + n)) < 65536" using assms(9) by simp
  ultimately show ?thesis unfolding h2(1) by (rule finish_through [OF assms(1-4) t h2(2)])
qed

text \<open>C1: an update that the gateway reports as done is the one the device starts, and the gateway does report
  it as done on every line that is good enough. Let the adapter run over a line on which requests are lost and
  answers are lost or late, such that each request gets through within \<open>m\<close> of its attempts, \<open>m\<close> at most
  the configured number and so few that the bootloader does not reach its idle limit between two
  requests. Only the acknowledgements of VERIFY and COMMIT must not be lost (they may be late). Then for an image that
  fits and is bootable and a target that is allowed the run returns with success, the device has
  reset, the slot holds the image, everything outside the slot and the metadata sector is as
  before, and every ordinary boot from then on starts the new image.\<close>

theorem host_update_installs:
  assumes "j = \<lparr>j_img = img, j_target = t, j_chunk = min (opt_chunk_size opt) 246, j_meta = b_meta b, j_mem = fl_mem (b_flash b)\<rparr>"
    and "job_ok j opt" "bootable_image t img"
    and "b_meta b = bl_metadata_load_or_default (fl_mem (b_flash b))" "log_in_order (meta_slots (fl_mem (b_flash b)))"
    and "waits_ok (b_flash b)" "erased_cell_law (b_flash b)" "b_tx b = []" "\<not> b_reset b"
    and "ota_timing opt m step limit" "opt_wait_boot_hello opt \<longrightarrow> 0 < opt_hello_timeout_ms opt"
    and "n = chunks (min (opt_chunk_size opt) 246) (length img)" "n + 3 < 65536"
    and "all_through m (True # replicate n True @ [False, False]) fates \<noteq> None"
  shows "\<exists>h' f. ota_run line_env opt img (bl_crc32 img) err \<lparr>ack_cache = Map.empty, world = line_start limit fates now b\<rparr> =
      Some (True, [], h') \<and> f = b_flash (l_boot (world h')) \<and> b_reset (l_boot (world h')) \<and>
    rdn (fl_mem f) t (length img) = img \<and>
    (\<forall>x. fl_mem f x = fl_mem (b_flash b) x \<or> in_range t 0x60000 x \<or> in_range 0x08010000 0x10000 x) \<and>
    (\<forall>bkp0r evs1 evs2. bkp0r \<noteq> 0xB00710AD \<longrightarrow> fst (bl_main f bkp0r evs1 evs2) = Jump t (rd32 img 0) (rd32 img 4))"
proof -
  have "device_at j (b\<lparr>b_ctx := bl_ctx_reset\<rparr>)" using assms(1,6-9) by (simp add: device_at_def)
  note run = run_through [OF assms(2) _ _ _ this assms(10,11)]
  have "bootable_image (j_target j) (j_img j)" "log_in_order (meta_slots (j_mem j))"
    "j_meta j = bl_metadata_load_or_default (j_mem j)" "n = chunks (j_chunk j) (length (j_img j))"
    "all_through m ((True # replicate n True) @ [False, False]) fates \<noteq> None"
    using assms(1,3-5,12,14) by simp_all
  then obtain h' where "ota_run line_env opt (j_img j) (bl_crc32 (j_img j)) err
      \<lparr>ack_cache = Map.empty, world = line_start limit fates now b\<rparr> = Some (True, [], h')" "committed j (l_boot (world h'))"
    using run [of n] assms(13) by blast
  then show ?thesis using assms(1) by (intro exI [of _ h'] exI [of _ "b_flash (l_boot (world h'))"]) (simp add: committed_def)
qed

text \<open>The eight-byte image in two chunks, on a line with one mishap of each kind.\<close>

definition sample_options :: ota_options where
  "sample_options = \<lparr>opt_host = ''127.0.0.1'', opt_port = 19090, opt_chunk_size = 4, opt_max_retries = 3,
     opt_wait_boot_hello = True, opt_hello_timeout_ms = 10000, opt_prepare_ack_timeout_ms = 15000,
     opt_data_ack_timeout_ms = 5000, opt_verify_ack_timeout_ms = 5000, opt_commit_ack_timeout_ms = 5000,
     opt_inter_chunk_delay_ms = 0, opt_target_base = 0, opt_image_version = 0, opt_custom_transport = True\<rparr>"

definition sample_fates :: "fate list" where
  "sample_fates = [Request_lost, Delivered, Answer_lost, Delivered, Answer_late, Request_lost,
     Answer_late, Delivered, Request_lost, Delivered]"

theorem host_update_installs_witness:
  "\<exists>h' f. ota_run line_env sample_options sample_image (bl_crc32 sample_image) []
      \<lparr>ack_cache = Map.empty, world = line_start 60000 sample_fates 0 sample_boot\<rparr> = Some (True, [], h') \<and>
    f = b_flash (l_boot (world h')) \<and> b_reset (l_boot (world h')) \<and>
    rdn (fl_mem f) BL_APP_B_BASE (length sample_image) = sample_image \<and>
    (\<forall>x. fl_mem f x = fl_mem (b_flash sample_boot) x \<or> in_range BL_APP_B_BASE 0x60000 x \<or> in_range 0x08010000 0x10000 x) \<and>
    (\<forall>bkp0r evs1 evs2. bkp0r \<noteq> 0xB00710AD \<longrightarrow>
       fst (bl_main f bkp0r evs1 evs2) = Jump BL_APP_B_BASE (rd32 sample_image 0) (rd32 sample_image 4))"
proof (rule host_update_installs [OF refl])
  have r: "flash_ready 0x08010000 0x10000 sample_flash" by (rule sample_flash_ready)
  show "log_in_order (meta_slots (fl_mem (b_flash sample_boot)))"
    "b_meta sample_boot = bl_metadata_load_or_default (fl_mem (b_flash sample_boot))"
    using ready_unlogged [OF r] by (simp_all add: sample_boot_def)
  show "waits_ok (b_flash sample_boot)" "erased_cell_law (b_flash sample_boot)"
    using r by (simp_all add: sample_boot_def flash_ready_def)
  show "bootable_image BL_APP_B_BASE sample_image"
    by (simp add: bootable_image_def sample_image_def rd32_def un32_def bl_layout)
  show "ota_timing sample_options 3 15100 60000"
    by (simp add: ota_timing_def sample_options_def attempt_ms_def pause_ms_def carried_def)
  show "all_through 3 (True # replicate 2 True @ [False, False]) sample_fates \<noteq> None"
    by (simp add: sample_fates_def numeral_3_eq_3 numeral_2_eq_2)
  show "job_ok \<lparr>j_img = sample_image, j_target = BL_APP_B_BASE, j_chunk = min (opt_chunk_size sample_options) 246,
      j_meta = b_meta sample_boot, j_mem = fl_mem (b_flash sample_boot)\<rparr> sample_options"
    by (simp add: job_ok_def sample_options_def sample_image_def sample_boot_def bl_pick_target_slot_def
        bl_prepare_target_allowed_def bl_flash_is_slot_base_def bl_slots bl_layout)
qed (simp_all add: sample_boot_def sample_options_def chunks_def sample_image_def)

end
