(* ===== verification/Ota_Failures.thy ===== *)
theory Ota_Failures
  imports Ota_Delivery
begin

text \<open>
  What the retries of the adapter do not repair. VERIFY and COMMIT are not idempotent for the bootloader: when the
  acknowledgement of VERIFY is lost its repetition is refused, and after COMMIT there is nobody left to repeat it to.
  The text of the failure does not tell a COMMIT that never arrived from one that was carried out.
\<close>

section \<open>Attempts that all fail\<close>

lemma retries_fail:
  assumes "opt_custom_transport opt"
    and "\<And>n h err. I (Suc n) h \<Longrightarrow> \<exists>h1. exchange_frames line_env ty p q t err h = Some (False, e, h1) \<and> J h1 \<and>
      (n > 0 \<longrightarrow> I n (if e = ''ack timeout'' then rested h1 else h1))"
  shows "I (Suc n) h \<Longrightarrow> \<exists>h'. retry_attempts (Suc n) line_env opt fd ty p q t err h = Some (False, e, h') \<and> J h'"
proof (induction n arbitrary: h err)
  case 0
  obtain h1 where "exchange_frames line_env ty p q t err h = Some (False, e, h1)" "J h1" using assms(2) [OF 0] by blast
  then show ?case using assms(1) by (simp add: sendAndRecvAck_def)
next
  case (Suc n)
  obtain h1 where h1: "exchange_frames line_env ty p q t err h = Some (False, e, h1)"
    "I (Suc n) (if e = ''ack timeout'' then rested h1 else h1)" using assms(2) [OF Suc.prems] by blast
  have "retry_attempts (Suc (Suc n)) line_env opt fd ty p q t err h =
      retry_attempts (Suc n) line_env opt fd ty p q t e (if e = ''ack timeout'' then rested h1 else h1)"
    using assms(1) h1(1) by (simp add: sendAndRecvAck_def rested_def)
  then show ?case using Suc.IH [OF h1(2)] by simp
qed

text \<open>Every request is lost: the bootloader stays as it is.\<close>

lemma requests_lost:
  assumes "request_law ty p q idem C D" "0 < t" "opt_custom_transport opt" "waiting q k C h"
    and "l_fates (world h) = replicate (Suc n) Request_lost @ rest" "within_limit (k + Suc n * attempt_ms t) (world h)"
  shows "\<exists>h'. retry_attempts (Suc n) line_env opt fd ty p q t err h = Some (False, ''ack timeout'', h') \<and> C (l_boot (world h'))"
proof (rule retries_fail [where I = "\<lambda>n h. \<exists>k. waiting q k C h \<and> within_limit (k + n * attempt_ms t) (world h) \<and>
      l_fates (world h) = replicate n Request_lost @ rest" and J = "\<lambda>h'. C (l_boot (world h'))", OF assms(3)])
  fix n h err
  assume "\<exists>k. waiting q k C h \<and> within_limit (k + Suc n * attempt_ms t) (world h) \<and>
      l_fates (world h) = replicate (Suc n) Request_lost @ rest"
  then obtain k where k: "waiting q k C h" "within_limit (k + Suc n * attempt_ms t) (world h)"
    "l_fates (world h) = Request_lost # replicate n Request_lost @ rest" by auto
  have "within_limit (k + attempt_ms t) (world h)" by (rule within_limit_mono [OF k(2)]) simp
  from attempt_lost [OF assms(1) k(1) assms(2) _ this k(3), of err] obtain h1 where h1:
    "exchange_frames line_env ty p q t err h = Some (False, ''ack timeout'', h1)"
    "waiting q (k + attempt_ms t) C (rested h1)" "l_fates (world (rested h1)) = replicate n Request_lost @ rest"
    "l_idle_limit (world (rested h1)) = l_idle_limit (world h)" "C (l_boot (world h1))"
    by (auto simp: attempt_ms_def)
  moreover have "within_limit (k + attempt_ms t + n * attempt_ms t) (world (rested h1))"
    using k(2) h1(4) by (simp add: within_limit_def add.assoc)
  ultimately show "\<exists>h1. exchange_frames line_env ty p q t err h = Some (False, ''ack timeout'', h1) \<and> C (l_boot (world h1)) \<and>
      (n > 0 \<longrightarrow> (\<exists>k. waiting q k C (if ''ack timeout'' = ''ack timeout'' then rested h1 else h1) \<and>
        within_limit (k + n * attempt_ms t) (world (if ''ack timeout'' = ''ack timeout'' then rested h1 else h1)) \<and>
        l_fates (world (if ''ack timeout'' = ''ack timeout'' then rested h1 else h1)) = replicate n Request_lost @ rest))"
    by (intro exI [of _ h1]) auto
qed (use assms(4-6) in auto)

section \<open>A device that has reset\<close>

lemma reset_line:
  assumes "b_reset (l_boot w)"
  shows "line_silent n w = w" "line_send x w = w\<lparr>l_fates := drop 1 (l_fates w)\<rparr>"
    "line_wait ms w = w\<lparr>l_inbox := l_inbox w @ l_late w, l_late := [], l_now := l_now w + ms * 1000000\<rparr>"
proof -
  show "line_silent n w = w" for n using assms by (cases n) simp_all
  then show "line_wait ms w = w\<lparr>l_inbox := l_inbox w @ l_late w, l_late := [], l_now := l_now w + ms * 1000000\<rparr>"
    by (simp add: line_wait_def)
  show "line_send x w = w\<lparr>l_fates := drop 1 (l_fates w)\<rparr>"
    using assms by (simp add: line_send_def line_serve_def Let_def split: fate.splits)
qed

definition deserted :: "u16 \<Rightarrow> (boot \<Rightarrow> bool) \<Rightarrow> ota_line host \<Rightarrow> bool" where
  "deserted q D h \<longleftrightarrow> b_reset (l_boot (world h)) \<and> D (l_boot (world h)) \<and> cache_below q h \<and>
     (\<forall>f \<in> set (l_inbox (world h) @ l_late (world h)). older q f)"

lemma deserted_attempt:
  assumes "deserted q D h" "0 < t"
  obtains h1 where "exchange_frames line_env ty p q t err h = Some (False, ''ack timeout'', h1)"
    "D (l_boot (world h1))" "deserted q D (rested h1)"
proof -
  have d: "b_reset (l_boot (world h))" "D (l_boot (world h))" "cache_below q h" "\<forall>f \<in> set (l_inbox (world h)). older q f"
    "\<forall>f \<in> set (l_late (world h)). older q f" using assms(1) by (auto simp: deserted_def)
  have o: "line.request_out ty p h = h\<lparr>world := (world h)\<lparr>l_fates := drop 1 (l_fates (world h))\<rparr>\<rparr>"
    by (simp add: line.request_out_def reset_line(2) [OF d(1)])
  have "l_inbox (world (line.request_out ty p h)) = l_inbox (world h)" "\<forall>f \<in> set (l_inbox (world h)). line.foreign q f"
    using d(4) older_foreign by (auto simp: o)
  from line.exchange_times_out [OF this cache_below_None [OF d(3)] assms(2), of err] obtain h1 where h1:
    "exchange_frames line_env ty p q t err h = Some (False, ''ack timeout'', h1)"
    "world h1 = line_wait t ((world h)\<lparr>l_fates := drop 1 (l_fates (world h)), l_inbox := []\<rparr>)"
    "line.cache_grew (l_inbox (world h)) h h1" by (auto simp: o popped_n)
  have w: "world h1 = (world h)\<lparr>l_fates := drop 1 (l_fates (world h)), l_inbox := l_late (world h), l_late := [],
      l_now := l_now (world h) + t * 1000000\<rparr>" unfolding h1(2) using d(1) by (subst reset_line(3)) simp_all
  have "cache_below q h1" by (rule cache_below_grew [OF d(3) h1(3) d(4)])
  moreover have "world (rested h1) = line_wait 120 (world h1)" "ack_cache (rested h1) = ack_cache h1"
    by (simp_all add: rested_def line_env_def)
  ultimately have "deserted q D (rested h1)"
    using d w reset_line(3) [of "world h1" 120] by (simp add: deserted_def cache_below_def)
  then show thesis using that [of h1] h1(1) w d(2) by simp
qed

lemma deserted_retries:
  assumes "deserted q D h" "0 < t" "opt_custom_transport opt" "D (l_boot (world h))"
  shows "\<exists>h'. retry_attempts n line_env opt fd ty p q t ''ack timeout'' h = Some (False, ''ack timeout'', h') \<and> D (l_boot (world h'))"
proof (cases n)
  case 0
  then show ?thesis using assms(4) by simp
next
  case (Suc n')
  show ?thesis unfolding Suc
    by (rule retries_fail [where I = "\<lambda>_. deserted q D", OF assms(3)])
       (use deserted_attempt [OF _ assms(2)] assms(1) in \<open>simp; metis\<close>, rule assms(1))
qed

text \<open>The acknowledgement of the first attempt is lost.\<close>

lemma answer_lost_first:
  assumes "request_law ty p q idem C D" "waiting q k C h" "0 < t" "l_fates (world h) = Answer_lost # fates"
    and "within_limit (attempt_ms t) (world h)"
  obtains h1 where "exchange_frames line_env ty p q t err h = Some (False, ''ack timeout'', h1)" "D (l_boot (world h1))"
    "l_boot (world (rested h1)) = l_boot (world h1)" "cache_below q (rested h1)" "idle_le (attempt_ms t) (world (rested h1))"
    "\<forall>f \<in> set (l_inbox (world (rested h1)) @ l_late (world (rested h1))). older q f" "l_fates (world (rested h1)) = fates"
    "l_idle_limit (world (rested h1)) = l_idle_limit (world h)"
proof -
  have d: "cache_below q h" "idle_le k (world h)" "C (l_boot (world h))"
    "\<forall>f \<in> set (l_inbox (world h) @ l_late (world h)). older q f" using assms(2) by (simp_all add: waiting_def)
  obtain l b where s: "D b" "idle_elapsed_ms l = 0" "line_serve (buildFrame ty p) ((world h)\<lparr>l_fates := fates\<rparr>) =
      ([ack_frame_of q], (world h)\<lparr>l_fates := fates, l_loop := l, l_boot := b\<rparr>)"
    by (rule send_first [OF assms(1) d(2,3)])
  let ?w = "(world h)\<lparr>l_fates := fates, l_loop := l, l_boot := b\<rparr>"
  have w: "?w = line_send (buildFrame ty p) (world h)" using line_send_fate(2) [OF assms(4), of "buildFrame ty p"] s(3) by simp
  have p: "\<forall>f \<in> set (l_inbox ?w). older q f" "idle_le 0 ?w" "within_limit (0 + attempt_ms t) ?w" "b_tx (l_boot ?w) = []"
    "100 * (nat t div 100) + 100 \<le> attempt_ms t"
    using d(2,4) s(1,2) assms(5) request_lawD(4) [OF assms(1) s(1)] by (auto simp: idle_le_def within_limit_def attempt_ms_def)
  from attempt_failed [OF w p(1) d(1) assms(3) p(2-5), of err] obtain h1 hs hs' where
    "exchange_frames line_env ty p q t err h = Some (False, ''ack timeout'', h1)"
    "cache_below q (rested h1)" "idle_le (0 + attempt_ms t) (world (rested h1))" "l_boot (world (rested h1)) = l_boot ?w"
    "l_late (world (rested h1)) = []" "l_fates (world (rested h1)) = l_fates ?w"
    "l_idle_limit (world (rested h1)) = l_idle_limit ?w"
    "l_inbox (world (rested h1)) = hs @ l_late ?w @ hs'" "\<forall>f \<in> set (hs @ hs'). older q f"
    "l_boot (world h1) = l_boot ?w" .
  then show thesis using that [of h1] s(1) d(4) by auto
qed

section \<open>VERIFY and COMMIT over a bad line\<close>

text \<open>COMMIT, the last request of a run.\<close>

definition commit_end :: "bool \<times> string \<times> ota_line host \<Rightarrow> bool \<times> string \<times> ota_line host" where
  "commit_end = (\<lambda>(ok, err, h). (ok, if \<not> ok \<and> err = ''ack timeout'' then ''commit ack timeout'' else err, h))"

lemma finish_run_commit:
  assumes "retryExchange line_env opt (-1) 0x33 (le16 (seq + 1) @ le32 crc) (seq + 1) (opt_verify_ack_timeout_ms opt) err h =
      Some (True, [], h1)"
  shows "finish_run line_env opt (-1) crc seq err h = map_option commit_end
      (retryExchange line_env opt (-1) 0x34 (le16 (seq + 1 + 1)) (seq + 1 + 1) (opt_commit_ack_timeout_ms opt) [] h1)"
proof (cases "retryExchange line_env opt (-1) 0x34 (le16 (seq + 1 + 1)) (seq + 1 + 1) (opt_commit_ack_timeout_ms opt) [] h1")
  case (Some r)
  obtain ok err2 h2 where "r = (ok, err2, h2)" by (cases r)
  then show ?thesis
    using assms Some by (cases ok) (simp_all add: finish_run_def Let_def fail_close_def commit_end_def)
qed (use assms in \<open>simp add: finish_run_def Let_def\<close>)

lemma verify_through:
  assumes "job_ok j opt" "bootable_image (j_target j) (j_img j)" "ota_timing opt m step (l_idle_limit (world h))"
    and "waiting (of_nat (Suc s)) (carried m step + pause_ms opt) (session_at j (Suc s) (length (j_img j))) h"
    and "gets_through False m (l_fates (world h)) = Some rest" "Suc (Suc s) < 65536"
  obtains h1 where "finish_run line_env opt (-1) (bl_crc32 (j_img j)) (of_nat s) err h = map_option commit_end
      (retryExchange line_env opt (-1) 0x34 (le16 (of_nat (Suc (Suc s)))) (of_nat (Suc (Suc s)))
         (opt_commit_ack_timeout_ms opt) [] h1)"
    "waiting (of_nat (Suc (Suc s))) (carried m step) (session_at j (Suc (Suc s)) (length (j_img j))) h1"
    "l_fates (world h1) = rest" "l_idle_limit (world h1) = l_idle_limit (world h)"
proof -
  have q: "of_nat s + 1 = (of_nat (Suc s) :: u16)" "of_nat (Suc s) + 1 = (of_nat (Suc (Suc s)) :: u16)"
    by (simp_all add: add.commute)
  obtain h1 where h1: "retryExchange line_env opt (-1) 0x33 (le16 (of_nat (Suc s)) @ le32 (bl_crc32 (j_img j)))
      (of_nat (Suc s)) (opt_verify_ack_timeout_ms opt) err h = Some (True, [], h1)"
    "taken (of_nat (Suc s)) (carried m step) (session_at j (Suc (Suc s)) (length (j_img j))) h1"
    "l_fates (world h1) = rest" "l_idle_limit (world h1) = l_idle_limit (world h)"
    by (rule request_through [OF verify_law [OF assms(1,2) refl] assms(3) phase_timeouts(3) assms(4,5)])
  have "waiting (of_nat (Suc (Suc s))) (carried m step) (session_at j (Suc (Suc s)) (length (j_img j))) h1"
    by (rule taken_waiting [OF h1(2) _ assms(6)]) simp
  then show thesis
    using that [of h1] h1(1,3,4) finish_run_commit [of opt "of_nat s", unfolded q] by blast
qed

text \<open>No COMMIT arrives, or the first one does and its acknowledgement is lost.\<close>

lemma commit_lost:
  assumes "job_ok j opt" "bootable_image (j_target j) (j_img j)" "log_in_order (meta_slots (j_mem j))"
    and "j_meta j = bl_metadata_load_or_default (j_mem j)" "opt_custom_transport opt" "0 < opt_commit_ack_timeout_ms opt"
    and "waiting (of_nat s) k (session_at j s (length (j_img j))) h" "r = nat (opt_max_retries opt)" "0 < r"
    and "within_limit (k + r * attempt_ms (opt_commit_ack_timeout_ms opt)) (world h)"
  shows "l_fates (world h) = replicate r Request_lost @ rest \<Longrightarrow>
      \<exists>h'. retryExchange line_env opt (-1) 0x34 (le16 (of_nat s)) (of_nat s) (opt_commit_ack_timeout_ms opt) err h =
        Some (False, ''ack timeout'', h') \<and> session_at j s (length (j_img j)) (l_boot (world h'))"
    "l_fates (world h) = Answer_lost # rest \<Longrightarrow>
      \<exists>h'. retryExchange line_env opt (-1) 0x34 (le16 (of_nat s)) (of_nat s) (opt_commit_ack_timeout_ms opt) err h =
        Some (False, ''ack timeout'', h') \<and> committed j (l_boot (world h'))"
proof -
  note law = commit_law [OF assms(1-4) refl, of s]
  obtain n where n: "r = Suc n" using assms(9) by (cases r) simp_all
  show "\<exists>h'. retryExchange line_env opt (-1) 0x34 (le16 (of_nat s)) (of_nat s) (opt_commit_ack_timeout_ms opt) err h =
        Some (False, ''ack timeout'', h') \<and> session_at j s (length (j_img j)) (l_boot (world h'))"
    if "l_fates (world h) = replicate r Request_lost @ rest"
    unfolding retryExchange_def assms(8) [symmetric] n
    by (rule requests_lost [OF law assms(6,5,7)]) (use that assms(10) n in simp_all)
  assume a: "l_fates (world h) = Answer_lost # rest"
  have "within_limit (attempt_ms (opt_commit_ack_timeout_ms opt)) (world h)"
    by (rule within_limit_mono [OF assms(10)]) (simp add: n)
  from answer_lost_first [OF law assms(7,6) a this, of err] obtain h1 where h1:
    "exchange_frames line_env 0x34 (le16 (of_nat s)) (of_nat s) (opt_commit_ack_timeout_ms opt) err h =
       Some (False, ''ack timeout'', h1)" "committed j (l_boot (world h1))"
    "l_boot (world (rested h1)) = l_boot (world h1)" "cache_below (of_nat s) (rested h1)"
    "\<forall>f \<in> set (l_inbox (world (rested h1)) @ l_late (world (rested h1))). older (of_nat s) f" by blast
  have "deserted (of_nat s) (committed j) (rested h1)" "committed j (l_boot (world (rested h1)))"
    using h1(2-5) by (simp_all add: deserted_def committed_def)
  from deserted_retries [OF this(1) assms(6,5) this(2), of n "-1"] obtain h2 where
    "retry_attempts n line_env opt (-1) 0x34 (le16 (of_nat s)) (of_nat s) (opt_commit_ack_timeout_ms opt) ''ack timeout'' (rested h1) =
       Some (False, ''ack timeout'', h2)" "committed j (l_boot (world h2))" by blast
  then show "\<exists>h'. retryExchange line_env opt (-1) 0x34 (le16 (of_nat s)) (of_nat s) (opt_commit_ack_timeout_ms opt) err h =
        Some (False, ''ack timeout'', h') \<and> committed j (l_boot (world h'))"
    using retry_succeeds(3) [OF assms(5) h1(1), of n] h1(1,2) assms(5)
    by (cases "n = 0") (auto simp: retryExchange_def assms(8) [symmetric] n sendAndRecvAck_def rested_def)
qed

lemma decimal_one: "decimal (Suc 0) = ''1''"
  by code_simp

text \<open>The acknowledgement of the first VERIFY is lost: every repetition is refused.\<close>

lemma verify_refused:
  assumes "session_at j (Suc s) (length (j_img j)) (l_boot (world h))" "idle_le k (world h)" "cache_below (of_nat s) h"
    and "\<forall>f \<in> set (l_inbox (world h) @ l_late (world h)). older (of_nat s) f" "l_fates (world h) = []" "0 < t"
    and "p = le16 (of_nat s) @ le32 crc"
  obtains h1 where "exchange_frames line_env 0x33 p (of_nat s) t err h = Some (False, ''received nack code=1'', h1)"
    "session_at j (Suc s) (length (j_img j)) (l_boot (world h1))" "idle_le 0 (world h1)" "cache_below (of_nat s) h1"
    "\<forall>f \<in> set (l_inbox (world h1) @ l_late (world h1)). older (of_nat s) f" "l_fates (world h1) = []"
proof -
  let ?b = "l_boot (world h)" and ?nack = "nack_frame_of (of_nat s) 1"
  have b: "b_tx ?b = []" "\<not> b_reset ?b" using device_tx [OF session_device [OF assms(1)]] by simp_all
  have len: "length p < 255" by (simp add: assms(7))
  have v: "request 0x33 p ?b = b_nack (of_nat s) BL_ERR_BAD_PAYLOAD ?b"
    using verify_repeated [OF assms(1,7)] by simp
  have "\<not> l_left (world h)" using assms(2) by (simp add: idle_le_def)
  then obtain l where l: "idle_elapsed_ms l = 0"
    "line_serve (buildFrame 0x33 p) (world h) = ([?nack], (world h)\<lparr>l_loop := l, l_boot := ?b\<lparr>b_tx := []\<rparr>\<rparr>)"
    using line_serve_request [of "0x33" p "world h"] len b v by (auto simp: update_type_def b_nack_def b_send_def)
  have same: "(world h)\<lparr>l_fates := []\<rparr> = world h" using assms(5) by (cases "world h") simp
  let ?w = "(world h)\<lparr>l_loop := l, l_boot := ?b\<lparr>b_tx := []\<rparr>, l_inbox := l_inbox (world h) @ [?nack]\<rparr>"
  have o: "line.request_out 0x33 p h = h\<lparr>world := ?w\<rparr>"
    using line_send_fate(4) [of "world h" "buildFrame 0x33 p"] assms(5) l(2) same by (simp add: line.request_out_def)
  have i: "l_inbox (world (line.request_out 0x33 p h)) = l_inbox (world h) @ ?nack # []"
    "\<forall>f \<in> set (l_inbox (world h)). line.foreign (of_nat s) f" "\<forall>f \<in> set (l_inbox (world h)). older (of_nat s) f"
    using assms(4) older_foreign by (auto simp: o)
  have "parseAckEvent ?nack = \<lparr>ev_valid = True, ev_is_ack = False, ev_seq = of_nat s, ev_err = ''received nack code=1''\<rparr>"
    by (simp add: parse_nack decimal_one)
  from line.exchange_decided [OF i(1,2) cache_below_None [OF assms(3)] assms(6) this, of err] obtain h1 where h1:
    "exchange_frames line_env 0x33 p (of_nat s) t err h = Some (False, ''received nack code=1'', h1)"
    "world h1 = ((\<lambda>w. w\<lparr>l_inbox := tl (l_inbox w)\<rparr>) ^^ Suc (length (l_inbox (world h)))) ?w"
    "line.cache_grew (l_inbox (world h)) h h1" by (auto simp: o simp del: funpow.simps)
  have "world h1 = ?w\<lparr>l_inbox := []\<rparr>" unfolding h1(2) popped_n by simp
  then show thesis
    using that [of h1] h1(1) cache_below_grew [OF assms(3) h1(3) i(3)] assms(1,2,4,5) l(1) session_tx [OF assms(1)]
    by (auto simp: idle_le_def)
qed

lemma verify_lost:
  assumes "job_ok j opt" "bootable_image (j_target j) (j_img j)" "opt_custom_transport opt" "0 < opt_verify_ack_timeout_ms opt"
    and "waiting (of_nat s) k (session_at j s (length (j_img j))) h" "2 \<le> opt_max_retries opt"
    and "within_limit (attempt_ms (opt_verify_ack_timeout_ms opt)) (world h)" "l_fates (world h) = [Answer_lost]"
    and "p = le16 (of_nat s) @ le32 (bl_crc32 (j_img j))"
  shows "\<exists>h'. retryExchange line_env opt (-1) 0x33 p (of_nat s) (opt_verify_ack_timeout_ms opt) err h =
      Some (False, ''received nack code=1'', h') \<and> session_at j (Suc s) (length (j_img j)) (l_boot (world h'))"
proof -
  let ?t = "opt_verify_ack_timeout_ms opt" and ?D = "session_at j (Suc s) (length (j_img j))"
  let ?I = "\<lambda>h. ?D (l_boot (world h)) \<and> (\<exists>k. idle_le k (world h)) \<and> cache_below (of_nat s) h \<and>
    (\<forall>f \<in> set (l_inbox (world h) @ l_late (world h)). older (of_nat s) f) \<and> l_fates (world h) = []"
  define n where "n = nat (opt_max_retries opt) - 2"
  then have n: "nat (opt_max_retries opt) = Suc (Suc n)" using assms(6) by simp
  from answer_lost_first [OF verify_law [OF assms(1,2,9)] assms(5,4,8,7), of err] obtain h1 where h1:
    "exchange_frames line_env 0x33 p (of_nat s) ?t err h = Some (False, ''ack timeout'', h1)" "?D (l_boot (world h1))"
    "l_boot (world (rested h1)) = l_boot (world h1)" "cache_below (of_nat s) (rested h1)"
    "idle_le (attempt_ms ?t) (world (rested h1))"
    "\<forall>f \<in> set (l_inbox (world (rested h1)) @ l_late (world (rested h1))). older (of_nat s) f"
    "l_fates (world (rested h1)) = []" by blast
  then have I: "?I (rested h1)" by auto
  have "\<exists>h'. retry_attempts (Suc n) line_env opt (-1) 0x33 p (of_nat s) ?t ''ack timeout'' (rested h1) =
      Some (False, ''received nack code=1'', h') \<and> ?D (l_boot (world h'))"
  proof (rule retries_fail [where I = "\<lambda>_. ?I" and J = "\<lambda>h. ?D (l_boot (world h))", OF assms(3) _ I])
    fix n h err
    assume "?I h"
    then obtain k where "?D (l_boot (world h))" "idle_le k (world h)" "cache_below (of_nat s) h"
      "\<forall>f \<in> set (l_inbox (world h) @ l_late (world h)). older (of_nat s) f" "l_fates (world h) = []" by blast
    from verify_refused [OF this assms(4,9), of err] obtain h1 where h1:
      "exchange_frames line_env 0x33 p (of_nat s) ?t err h = Some (False, ''received nack code=1'', h1)"
      "?D (l_boot (world h1))" "idle_le 0 (world h1)" "cache_below (of_nat s) h1"
      "\<forall>f \<in> set (l_inbox (world h1) @ l_late (world h1)). older (of_nat s) f" "l_fates (world h1) = []" .
    then have "?I h1" by blast
    then show "\<exists>h1. exchange_frames line_env 0x33 p (of_nat s) ?t err h = Some (False, ''received nack code=1'', h1) \<and>
        ?D (l_boot (world h1)) \<and> (n > 0 \<longrightarrow> ?I (if ''received nack code=1'' = ''ack timeout'' then rested h1 else h1))"
      by (intro exI [of _ h1] conjI impI) (simp_all add: h1)
  qed
  then show ?thesis
    using retry_succeeds(3) [OF assms(3) h1(1)] by (simp add: retryExchange_def n del: retry_attempts.simps)
qed

text \<open>What the next theorems start from: an update as in \<open>host_update_installs\<close>, on a line that is good up to VERIFY.\<close>

definition update_ready :: "ota_job \<Rightarrow> ota_options \<Rightarrow> nat \<Rightarrow> u32 \<Rightarrow> boot \<Rightarrow> bool" where
  "update_ready j opt step limit b \<longleftrightarrow> job_ok j opt \<and> bootable_image (j_target j) (j_img j) \<and>
     log_in_order (meta_slots (j_mem j)) \<and> j_meta j = bl_metadata_load_or_default (j_mem j) \<and> b_meta b = j_meta j \<and>
     fl_mem (b_flash b) = j_mem j \<and> waits_ok (b_flash b) \<and> erased_cell_law (b_flash b) \<and> b_tx b = [] \<and> \<not> b_reset b \<and>
     ota_timing opt 1 step limit \<and> (opt_wait_boot_hello opt \<longrightarrow> 0 < opt_hello_timeout_ms opt) \<and>
     chunks (j_chunk j) (length (j_img j)) + 3 < 65536"

lemma all_delivered: "all_through 1 (replicate n f) (replicate n Delivered @ fates) = Some fates"
  by (induction n) simp_all

lemma ready_before_verify:
  assumes "update_ready j opt step limit b" "n = chunks (j_chunk j) (length (j_img j))" "fates = replicate (Suc n) Delivered @ r"
  obtains h2 where
    "ota_run line_env opt (j_img j) (bl_crc32 (j_img j)) err \<lparr>ack_cache = Map.empty, world = line_start limit fates now b\<rparr> =
       finish_run line_env opt (-1) (bl_crc32 (j_img j)) (of_nat (1 + n)) [] h2"
    "waiting (of_nat (Suc (1 + n))) (carried 1 step + pause_ms opt) (session_at j (Suc (1 + n)) (length (j_img j))) h2"
    "l_fates (world h2) = r" "l_idle_limit (world h2) = limit"
proof -
  have a: "job_ok j opt" "ota_timing opt 1 step limit" "opt_wait_boot_hello opt \<longrightarrow> 0 < opt_hello_timeout_ms opt" "n + 3 < 65536"
    "device_at j (b\<lparr>b_ctx := bl_ctx_reset\<rparr>)" using assms(1,2) by (simp_all add: update_ready_def device_at_def)
  have "all_through 1 (True # replicate n True) fates = Some r" using all_delivered [of "Suc n" True r] assms(3) by simp
  from run_before_verify [OF a(1,5,2,3) assms(2) a(4) this] show thesis using that by blast
qed

text \<open>C39: \<open>commit ack timeout\<close> says nothing about the device. It is the result when no COMMIT arrives, and then nothing
  has been committed: the device has not reset, its metadata is the old one and so is every byte outside the slot. It is also the
  result when the first COMMIT was carried out and only its acknowledgement was lost: then the device has reset and every
  ordinary boot starts the new image. (The caller in \<open>app_controller.cpp\<close> takes the text for a success in
  both cases.)\<close>

theorem commit_timeout_undecided:
  assumes "update_ready j opt step limit b" "n = chunks (j_chunk j) (length (j_img j))" "r = nat (opt_max_retries opt)"
    and "limit = 0 \<or> pause_ms opt + r * attempt_ms (opt_commit_ack_timeout_ms opt) < unat limit"
    and "run = (\<lambda>fates. ota_run line_env opt (j_img j) (bl_crc32 (j_img j)) err
      \<lparr>ack_cache = Map.empty, world = line_start limit (replicate (n + 2) Delivered @ fates) now b\<rparr>)"
  shows "(\<exists>h'. run (replicate r Request_lost) = Some (False, ''commit ack timeout'', h') \<and> \<not> b_reset (l_boot (world h')) \<and>
      b_meta (l_boot (world h')) = b_meta b \<and>
      (\<forall>x. \<not> in_range (j_target j) 0x60000 x \<longrightarrow> fl_mem (b_flash (l_boot (world h'))) x = fl_mem (b_flash b) x)) \<and>
    (\<exists>h'. run [Answer_lost] = Some (False, ''commit ack timeout'', h') \<and> committed j (l_boot (world h')))"
proof -
  have a: "job_ok j opt" "bootable_image (j_target j) (j_img j)" "log_in_order (meta_slots (j_mem j))"
    "j_meta j = bl_metadata_load_or_default (j_mem j)" "ota_timing opt 1 step limit" "n + 3 < 65536"
    "b_meta b = j_meta j" "fl_mem (b_flash b) = j_mem j" using assms(1,2) by (simp_all add: update_ready_def)
  have t: "opt_custom_transport opt" "0 < opt_commit_ack_timeout_ms opt" "0 < r"
    using a(5) assms(3) by (auto simp: ota_timing_def)
  have "\<exists>h1. run fates = map_option commit_end (retryExchange line_env opt (-1) 0x34 (le16 (of_nat (n + 3))) (of_nat (n + 3))
         (opt_commit_ack_timeout_ms opt) [] h1) \<and>
      waiting (of_nat (n + 3)) 0 (session_at j (n + 3) (length (j_img j))) h1 \<and> l_fates (world h1) = fates \<and>
      l_idle_limit (world h1) = limit" for fates
  proof -
    have "replicate (n + 2) Delivered @ fates = replicate (Suc n) Delivered @ Delivered # fates"
      by (simp add: replicate_app_Cons_same)
    from ready_before_verify [OF assms(1,2) this, of err now] obtain h2 where h2:
      "run fates = finish_run line_env opt (-1) (bl_crc32 (j_img j)) (of_nat (1 + n)) [] h2"
      "waiting (of_nat (Suc (1 + n))) (carried 1 step + pause_ms opt) (session_at j (Suc (1 + n)) (length (j_img j))) h2"
      "l_fates (world h2) = Delivered # fates" "l_idle_limit (world h2) = limit" by (auto simp: assms(5))
    have "ota_timing opt 1 step (l_idle_limit (world h2))" "gets_through False 1 (l_fates (world h2)) = Some fates"
      "Suc (Suc (1 + n)) < 65536" using a(5,6) h2(3,4) by simp_all
    note v = verify_through [OF a(1,2) this(1) h2(2) this(2,3), of "[]"]
    have q: "Suc (Suc (1 + n)) = n + 3" "carried 1 step = 0" by (simp_all add: carried_def)
    show ?thesis by (rule v [unfolded q]) (use h2(1,4) in \<open>simp; blast\<close>)
  qed
  note before = this
  have w: "within_limit (0 + r * attempt_ms (opt_commit_ack_timeout_ms opt)) (world h1)" if "l_idle_limit (world h1) = limit" for h1 :: "ota_line host"
    using assms(4) that by (auto simp: within_limit_def)
  obtain h1 where h1: "run (replicate r Request_lost) = map_option commit_end (retryExchange line_env opt (-1) 0x34
      (le16 (of_nat (n + 3))) (of_nat (n + 3)) (opt_commit_ack_timeout_ms opt) [] h1)"
    "waiting (of_nat (n + 3)) 0 (session_at j (n + 3) (length (j_img j))) h1" "l_fates (world h1) = replicate r Request_lost @ []"
    "l_idle_limit (world h1) = limit" using before by auto
  obtain h2 where h2: "run [Answer_lost] = map_option commit_end (retryExchange line_env opt (-1) 0x34
      (le16 (of_nat (n + 3))) (of_nat (n + 3)) (opt_commit_ack_timeout_ms opt) [] h2)"
    "waiting (of_nat (n + 3)) 0 (session_at j (n + 3) (length (j_img j))) h2" "l_fates (world h2) = [Answer_lost]"
    "l_idle_limit (world h2) = limit" using before by blast
  note lost = commit_lost(1) [OF a(1-4) t(1,2) h1(2) assms(3) t(3) w [OF h1(4)] h1(3), of "[]"]
    and unanswered = commit_lost(2) [OF a(1-4) t(1,2) h2(2) assms(3) t(3) w [OF h2(4)] h2(3), of "[]"]
  show ?thesis
    using lost unanswered a(7,8) by (auto simp: h1(1) h2(1) commit_end_def session_at_def device_at_def)
qed

text \<open>C40: an update that the device has received and verified is given up when the acknowledgement of VERIFY is lost once,
  however many retries are configured: the bootloader has moved on to the next sequence number and
  refuses every repetition. The session stays open, ready for the COMMIT that the adapter never sends.\<close>

theorem lost_verify_answer_fails_update:
  assumes "update_ready j opt step limit b" "n = chunks (j_chunk j) (length (j_img j))" "2 \<le> opt_max_retries opt"
    and "limit = 0 \<or> pause_ms opt + step < unat limit"
  shows "\<exists>h'. ota_run line_env opt (j_img j) (bl_crc32 (j_img j)) err
      \<lparr>ack_cache = Map.empty, world = line_start limit (replicate (n + 1) Delivered @ [Answer_lost]) now b\<rparr> =
        Some (False, ''received nack code=1'', h') \<and>
    session_at j (n + 3) (length (j_img j)) (l_boot (world h'))"
proof -
  have a: "job_ok j opt" "bootable_image (j_target j) (j_img j)" "ota_timing opt 1 step limit"
    using assms(1) by (simp_all add: update_ready_def)
  have t: "opt_custom_transport opt" "0 < opt_verify_ack_timeout_ms opt" "attempt_ms (opt_verify_ack_timeout_ms opt) \<le> step"
    using a(3) by (auto simp: ota_timing_def)
  have "replicate (n + 1) Delivered @ [Answer_lost] = replicate (Suc n) Delivered @ [Answer_lost]" by simp
  from ready_before_verify [OF assms(1,2) this, of err now] obtain h2 where h2:
    "ota_run line_env opt (j_img j) (bl_crc32 (j_img j)) err
      \<lparr>ack_cache = Map.empty, world = line_start limit (replicate (n + 1) Delivered @ [Answer_lost]) now b\<rparr> =
       finish_run line_env opt (-1) (bl_crc32 (j_img j)) (of_nat (1 + n)) [] h2"
    "waiting (of_nat (Suc (1 + n))) (carried 1 step + pause_ms opt) (session_at j (Suc (1 + n)) (length (j_img j))) h2"
    "l_fates (world h2) = [Answer_lost]" "l_idle_limit (world h2) = limit" .
  have "within_limit (attempt_ms (opt_verify_ack_timeout_ms opt)) (world h2)"
    using assms(4) t(3) h2(4) by (auto simp: within_limit_def)
  from verify_lost [OF a(1,2) t(1,2) h2(2) assms(3) this h2(3) refl, of "[]"] obtain h' where h':
    "retryExchange line_env opt (-1) 0x33 (le16 (of_nat (Suc (1 + n))) @ le32 (bl_crc32 (j_img j))) (of_nat (Suc (1 + n)))
       (opt_verify_ack_timeout_ms opt) [] h2 = Some (False, ''received nack code=1'', h')"
    "session_at j (Suc (Suc (1 + n))) (length (j_img j)) (l_boot (world h'))" by blast
  have q: "of_nat (1 + n) + 1 = (of_nat (Suc (1 + n)) :: u16)" by (simp add: add.commute)
  have "finish_run line_env opt (-1) (bl_crc32 (j_img j)) (of_nat (1 + n)) [] h2 = Some (False, ''received nack code=1'', h')"
    unfolding finish_run_def Let_def q push_le h'(1) by (simp add: fail_close_def)
  then show ?thesis using h2(1) h'(2) by (simp add: numeral_3_eq_3)
qed

section \<open>The time limit of the bootloader\<close>

text \<open>When nothing arrives for as long as the idle limit, the bootloader leaves the session, and no later request is
  served.\<close>

lemma idle_limit_ends_session:
  assumes "unat (idle_elapsed_ms (l_loop w)) < unat (l_idle_limit w)" "unat (l_idle_limit w) + 100 < 2 ^ 32"
    and "\<not> b_reset (l_boot w)" "unat (l_idle_limit w) \<le> unat (idle_elapsed_ms (l_loop w)) + 100 * n"
  shows "l_left (line_silent n w)"
  using assms
proof (induction n arbitrary: w)
  case (Suc n)
  obtain ex l b where s: "bl_ota_no_frame (l_idle_limit w) (l_loop w, l_boot w) = (ex, l, b)" using prod_cases3 by blast
  let ?w = "w\<lparr>l_loop := l, l_boot := b\<lparr>b_tx := []\<rparr>, l_left := ex, l_inbox := l_inbox w @ sent_frames (b_tx b)\<rparr>"
  have pos: "0 < l_idle_limit w" using Suc.prems(1) by (simp add: word_less_nat_alt)
  have i: "unat (idle_elapsed_ms (l_loop w) + 100) = unat (idle_elapsed_ms (l_loop w)) + 100"
    using Suc.prems(1,2) by (simp add: unat_word_ariths)
  have b: "b_reset b = b_reset (l_boot w)" using s by (auto simp: bl_ota_no_frame_def Let_def split: if_splits)
  have st: "ex = (unat (l_idle_limit w) \<le> unat (idle_elapsed_ms (l_loop w)) + 100)"
    "\<not> ex \<Longrightarrow> unat (idle_elapsed_ms l) = unat (idle_elapsed_ms (l_loop w)) + 100"
    using s pos i by (auto simp: bl_ota_no_frame_def Let_def word_le_nat_alt split: if_splits)
  have left: "l_left v \<Longrightarrow> l_left (line_silent k v)" for k v by (cases k) simp_all
  have "l_left (line_silent n ?w)"
  proof (cases ex)
    case True
    then show ?thesis by (intro left) simp
  next
    case False
    then show ?thesis using Suc.prems(2-4) st b by (intro Suc.IH) simp_all
  qed
  then show ?case using s Suc.prems(3) by simp
qed simp

section \<open>A version without a target\<close>

text \<open>To have room for the version, PREPARE then carries the target 0, which the bootloader takes for the target that is
  asked for instead of choosing one, and refuses.\<close>

lemma version_without_target_refused:
  assumes "opt_target_base opt = 0" "opt_image_version opt \<noteq> 0" "p = prepare_payload 1 img crc c opt"
    and "prepare_refusal m (prepare_target m p) (prepare_fields p ctx) = None"
  shows "False"
proof -
  note P = prepare_payload_fields [OF assms(3)]
  have "prepare_target m p = 0" using P(7,9) assms(1,2) by (simp add: prepare_target_def)
  then show False
    using assms(4) by (simp add: prepare_refusal_def bl_prepare_target_allowed_def bl_flash_is_slot_base_def bl_layout Let_def split: if_splits)
qed

section \<open>Concrete runs\<close>

definition sample_job :: ota_job where
  "sample_job = \<lparr>j_img = sample_image, j_target = BL_APP_B_BASE, j_chunk = min (opt_chunk_size sample_options) 246,
     j_meta = b_meta sample_boot, j_mem = fl_mem (b_flash sample_boot)\<rparr>"

lemma sample_ready: "update_ready sample_job sample_options 15100 60000 sample_boot"
proof -
  have r: "flash_ready 0x08010000 0x10000 sample_flash" by (rule sample_flash_ready)
  have "job_ok sample_job sample_options"
    by (simp add: job_ok_def sample_job_def sample_options_def sample_image_def sample_boot_def bl_pick_target_slot_def
        bl_prepare_target_allowed_def bl_flash_is_slot_base_def bl_slots bl_layout)
  moreover have "bootable_image BL_APP_B_BASE sample_image"
    by (simp add: bootable_image_def sample_image_def rd32_def un32_def bl_layout)
  moreover have "ota_timing sample_options 1 15100 60000"
    by (simp add: ota_timing_def sample_options_def attempt_ms_def pause_ms_def carried_def)
  ultimately show ?thesis
    using ready_unlogged [OF r] r
    by (simp add: update_ready_def sample_job_def sample_boot_def sample_options_def flash_ready_def chunks_def sample_image_def)
qed

theorem commit_timeout_undecided_witness:
  "(\<exists>h'. ota_run line_env sample_options (j_img sample_job) (bl_crc32 (j_img sample_job)) []
      \<lparr>ack_cache = Map.empty, world = line_start 60000 (replicate (2 + 2) Delivered @ replicate 3 Request_lost) 0 sample_boot\<rparr> =
        Some (False, ''commit ack timeout'', h') \<and> \<not> b_reset (l_boot (world h')) \<and>
      b_meta (l_boot (world h')) = b_meta sample_boot \<and>
      (\<forall>x. \<not> in_range (j_target sample_job) 0x60000 x \<longrightarrow> fl_mem (b_flash (l_boot (world h'))) x = fl_mem (b_flash sample_boot) x)) \<and>
    (\<exists>h'. ota_run line_env sample_options (j_img sample_job) (bl_crc32 (j_img sample_job)) []
      \<lparr>ack_cache = Map.empty, world = line_start 60000 (replicate (2 + 2) Delivered @ [Answer_lost]) 0 sample_boot\<rparr> =
        Some (False, ''commit ack timeout'', h') \<and> committed sample_job (l_boot (world h')))"
proof (rule commit_timeout_undecided [where err = "[]" and now = 0, OF sample_ready])
  show "2 = chunks (j_chunk sample_job) (length (j_img sample_job))" "3 = nat (opt_max_retries sample_options)"
    "60000 = (0 :: u32) \<or> pause_ms sample_options + 3 * attempt_ms (opt_commit_ack_timeout_ms sample_options) < unat (60000 :: u32)"
    by (simp_all add: sample_job_def sample_options_def sample_image_def chunks_def pause_ms_def attempt_ms_def)
qed (rule refl)

theorem lost_verify_answer_fails_update_witness:
  "\<exists>h'. ota_run line_env sample_options (j_img sample_job) (bl_crc32 (j_img sample_job)) []
      \<lparr>ack_cache = Map.empty, world = line_start 60000 (replicate (2 + 1) Delivered @ [Answer_lost]) 0 sample_boot\<rparr> =
        Some (False, ''received nack code=1'', h') \<and>
    session_at sample_job (2 + 3) (length (j_img sample_job)) (l_boot (world h'))"
proof (rule lost_verify_answer_fails_update [OF sample_ready])
  show "2 = chunks (j_chunk sample_job) (length (j_img sample_job))"
    by (simp add: sample_job_def sample_options_def sample_image_def chunks_def)
qed (simp_all add: sample_options_def pause_ms_def)

end
